(* ===== verification/IQ_Prelude.thy ===== *)
theory IQ_Prelude
  imports Main "HOL-Library.Product_Lexorder" "HOL-Library.Char_ord" "HOL-Library.List_Lexorder" "HOL-Library.Option_ord"
begin

text \<open>
  The prelude of the development: the names of the model's base types, the
  integer bounds of the Rust and PostgreSQL types the source uses, the three
  shapes of SQL statement the queue is written in (UPDATE, DELETE and SELECT
  over a table that is a list of row records) and the lemmas about them that
  every component shares.

  Durations (\<^verbatim>\<open>std::time::Duration\<close>) are natural numbers of nanoseconds and
  instants (\<^verbatim>\<open>jiff::Timestamp\<close>, \<^verbatim>\<open>timestamptz\<close>) are integers of nanoseconds since the
  epoch. Rust strings are their UTF-8 bytes: a \<^typ>\<open>string\<close> here is a list of
  bytes and its length is the byte length the source compares with its limits.
\<close>

type_synonym uuid = nat
type_synonym duration = nat
type_synonym timestamp = int

named_theorems db_simps "statement-level rewriting of the database operations"
named_theorems row_simps "what a row update does to the columns of a row"
named_theorems valid_elims "what a successful validation says"

section \<open>Integer bounds\<close>

abbreviation i32_max :: int where "i32_max \<equiv> 2147483647"
abbreviation i64_max :: int where "i64_max \<equiv> 9223372036854775807"
abbreviation u64_max :: nat where "u64_max \<equiv> 18446744073709551615"

text \<open>\<^verbatim>\<open>Duration::MAX\<close>: \<^verbatim>\<open>u64::MAX\<close> seconds and 999999999 nanoseconds.\<close>

abbreviation rust_duration_max :: duration where
  "rust_duration_max \<equiv> u64_max * 1000000000 + 999999999"

abbreviation from_millis :: "nat \<Rightarrow> duration" where "from_millis ms \<equiv> ms * 1000000"
abbreviation from_secs :: "nat \<Rightarrow> duration" where "from_secs s \<equiv> s * 1000000000"

text \<open>\<^verbatim>\<open>interval '1 millisecond'\<close> scaled by a column, on the time line of the model.\<close>

abbreviation interval_ms :: "int \<Rightarrow> timestamp" where "interval_ms ms \<equiv> ms * 1000000"

section \<open>Formatting\<close>

text \<open>Decimal numbers as \<^verbatim>\<open>{}\<close> prints them, and \<^verbatim>\<open>join\<close>.\<close>

fun decimal :: "nat \<Rightarrow> string" where
  "decimal n = (if n < 10 then [char_of (48 + n)] else decimal (n div 10) @ [char_of (48 + n mod 10)])"

declare decimal.simps [simp del]

definition int_decimal :: "int \<Rightarrow> string" where
  "int_decimal i = (if i < 0 then ''-'' @ decimal (nat (- i)) else decimal (nat i))"

fun join_with :: "string \<Rightarrow> string list \<Rightarrow> string" where
  "join_with sep [] = []"
| "join_with sep [x] = x"
| "join_with sep (x # y # ys) = x @ sep @ join_with sep (y # ys)"

section \<open>Results\<close>

text \<open>
  A Rust \<^verbatim>\<open>Result<T, E>\<close> is \<open>'e + 'a\<close> with the error on the left. The \<^verbatim>\<open>?\<close> operator
  is \<open>and_then\<close>.
\<close>

fun and_then :: "'e + 'a \<Rightarrow> ('a \<Rightarrow> 'e + 'b) \<Rightarrow> 'e + 'b" where
  "and_then (Inl e) f = Inl e"
| "and_then (Inr x) f = f x"

lemma and_then_Inr_iff [simp]: "and_then r f = Inr y \<longleftrightarrow> (\<exists>x. r = Inr x \<and> f x = Inr y)"
  by (cases r) auto

lemma and_then_cong [fundef_cong]:
  "r = r' \<Longrightarrow> (\<And>x. r' = Inr x \<Longrightarrow> f x = g x) \<Longrightarrow> and_then r f = and_then r' g"
  by (cases r') auto

section \<open>Tables\<close>

text \<open>
  UPDATE \<open>rows\<close> SET \<open>f\<close> WHERE \<open>p\<close>; DELETE FROM \<open>rows\<close> WHERE \<open>p\<close>; SELECT \<open>rows\<close>
  WHERE \<open>p\<close> ORDER BY \<open>k\<close> LIMIT \<open>n\<close>.
\<close>

definition update_rows :: "('r \<Rightarrow> bool) \<Rightarrow> ('r \<Rightarrow> 'r) \<Rightarrow> 'r list \<Rightarrow> 'r list" where
  "update_rows p f rows = map (\<lambda>r. if p r then f r else r) rows"

definition delete_rows :: "('r \<Rightarrow> bool) \<Rightarrow> 'r list \<Rightarrow> 'r list" where
  "delete_rows p rows = filter (\<lambda>r. \<not> p r) rows"

definition select_rows :: "('r \<Rightarrow> bool) \<Rightarrow> ('r \<Rightarrow> 'k::linorder) \<Rightarrow> nat \<Rightarrow> 'r list \<Rightarrow> 'r list" where
  "select_rows p k n rows = take n (sort_key k (filter p rows))"

lemma update_rows_Nil [simp]: "update_rows p f [] = []"
  by (simp add: update_rows_def)

lemma update_rows_Cons [simp]:
  "update_rows p f (r # rows) = (if p r then f r else r) # update_rows p f rows"
  by (simp add: update_rows_def)

lemma length_update_rows [simp]: "length (update_rows p f rows) = length rows"
  by (simp add: update_rows_def)

lemma in_update_rows:
  "x \<in> set (update_rows p f rows) \<longleftrightarrow> (\<exists>r\<in>set rows. x = (if p r then f r else r))"
  by (auto simp: update_rows_def)

lemma mem_update_rows:
  "x \<in> set (update_rows p f rows) \<longleftrightarrow> (\<exists>r\<in>set rows. p r \<and> x = f r) \<or> (x \<in> set rows \<and> \<not> p x)"
  by (induction rows) auto

lemma update_rows_id: "(\<And>r. r \<in> set rows \<Longrightarrow> \<not> p r) \<Longrightarrow> update_rows p f rows = rows"
  by (induction rows) auto

lemma map_update_rows: "(\<And>r. g (f r) = g r) \<Longrightarrow> map g (update_rows p f rows) = map g rows"
  by (induction rows) auto

lemma in_delete_rows [simp]: "x \<in> set (delete_rows p rows) \<longleftrightarrow> x \<in> set rows \<and> \<not> p x"
  by (auto simp: delete_rows_def)

lemma delete_rows_id: "(\<And>r. r \<in> set rows \<Longrightarrow> \<not> p r) \<Longrightarrow> delete_rows p rows = rows"
  by (simp add: delete_rows_def)

lemma distinct_map_delete_rows: "distinct (map g rows) \<Longrightarrow> distinct (map g (delete_rows p rows))"
  by (simp add: delete_rows_def distinct_map_filter)

lemma in_select_rows: "x \<in> set (select_rows p k n rows) \<Longrightarrow> x \<in> set rows \<and> p x"
  unfolding select_rows_def by (drule in_set_takeD) simp

lemma length_select_rows: "length (select_rows p k n rows) = min n (length (filter p rows))"
  by (simp add: select_rows_def)

lemma sorted_select_rows: "sorted (map k (select_rows p k n rows))"
  by (simp add: select_rows_def take_map [symmetric] sorted_wrt_take)

lemma distinct_select_rows:
  "distinct (map g rows) \<Longrightarrow> distinct (map g (select_rows p k n rows))"
proof -
  assume "distinct (map g rows)"
  then have "inj_on g (set (filter p rows)) \<and> distinct (filter p rows)"
    by (auto simp: distinct_map inj_on_def)
  then have "distinct (map g (sort_key k (filter p rows)))"
    by (simp add: distinct_map)
  then show ?thesis
    by (simp add: select_rows_def take_map [symmetric] distinct_take)
qed

text \<open>
  ORDER BY with LIMIT never passes over a smaller key: a row that qualifies and
  is left out has a key at least as large as every row selected.
\<close>

lemma select_rows_minimal:
  assumes "x \<in> set (select_rows p k n rows)" "y \<in> set rows" "p y" "y \<notin> set (select_rows p k n rows)"
  shows "k x \<le> k y"
proof -
  let ?s = "sort_key k (filter p rows)"
  have split: "?s = take n ?s @ drop n ?s" by simp
  have "y \<in> set ?s" using assms(2,3) by simp
  then have y: "y \<in> set (drop n ?s)"
    using assms(4) unfolding select_rows_def by (metis Un_iff append_take_drop_id set_append)
  have x: "x \<in> set (take n ?s)" using assms(1) by (simp add: select_rows_def)
  have "sorted (map k (take n ?s) @ map k (drop n ?s))"
    by (metis append_take_drop_id map_append sorted_sort_key)
  then show ?thesis using x y by (auto simp: sorted_append)
qed

text \<open>A row is found by its primary key.\<close>

definition lookup_row :: "('r \<Rightarrow> 'k) \<Rightarrow> 'k \<Rightarrow> 'r list \<Rightarrow> 'r option" where
  "lookup_row key x rows = find (\<lambda>r. key r = x) rows"

lemma lookup_row_Some: "lookup_row key x rows = Some r \<Longrightarrow> r \<in> set rows \<and> key r = x"
  by (auto simp: lookup_row_def find_Some_iff)

lemma lookup_row_None: "lookup_row key x rows = None \<longleftrightarrow> (\<forall>r\<in>set rows. key r \<noteq> x)"
  by (auto simp: lookup_row_def find_None_iff)

lemma lookup_row_eq:
  assumes "distinct (map key rows)" "r \<in> set rows"
  shows "lookup_row key (key r) rows = Some r"
proof (cases "lookup_row key (key r) rows")
  case None
  then show ?thesis using assms(2) by (auto simp: lookup_row_None)
next
  case (Some r')
  then have "r' \<in> set rows" "key r' = key r" by (auto dest: lookup_row_Some)
  then show ?thesis using assms Some by (auto simp: distinct_map inj_on_def)
qed

lemma distinct_key_eq:
  "distinct (map key rows) \<Longrightarrow> r \<in> set rows \<Longrightarrow> r' \<in> set rows \<Longrightarrow> key r = key r' \<Longrightarrow> r = r'"
  by (auto simp: distinct_map inj_on_def)

lemma map_filter_mem: "y \<in> set (List.map_filter f xs) \<longleftrightarrow> (\<exists>x\<in>set xs. f x = Some y)"
  by (induction xs) (auto simp: List.map_filter_simps split: option.splits)

text \<open>A WHERE clause that fixes the primary key selects one row.\<close>

lemma filter_eq_singleton:
  assumes "distinct (map key rows)" "x \<in> set rows" "p x" "\<And>y. y \<in> set rows \<Longrightarrow> p y \<Longrightarrow> key y = key x"
  shows "filter p rows = [x]"
  using assms
proof (induction rows)
  case (Cons r rows)
  show ?case
  proof (cases "r = x")
    case True
    then have "key x \<notin> key ` set rows" using Cons.prems(1) by simp
    moreover have "\<And>y. y \<in> set rows \<Longrightarrow> p y \<Longrightarrow> key y = key x" using Cons.prems(4) by simp
    ultimately have "filter p rows = []" by (metis filter_empty_conv image_eqI)
    then show ?thesis using True Cons.prems(3) by simp
  next
    case False
    then have x: "x \<in> set rows" using Cons.prems(2) by auto
    then have "key r \<noteq> key x" using Cons.prems(1) by auto
    then have "\<not> p r" using Cons.prems(4) [of r] by auto
    moreover have "distinct (map key rows)" using Cons.prems(1) by simp
    then have "filter p rows = [x]"
      by (rule Cons.IH [OF _ x Cons.prems(3)]) (rule Cons.prems(4), simp_all)
    ultimately show ?thesis by simp
  qed
qed simp

lemma update_rows_cong:
  "(\<And>r. r \<in> set rows \<Longrightarrow> p r = p' r) \<Longrightarrow> (\<And>r. r \<in> set rows \<Longrightarrow> p r \<Longrightarrow> f r = f' r) \<Longrightarrow>
   update_rows p f rows = update_rows p' f' rows"
  by (auto simp: update_rows_def)

lemma delete_rows_cong: "(\<And>r. r \<in> set rows \<Longrightarrow> p r = p' r) \<Longrightarrow> delete_rows p rows = delete_rows p' rows"
  by (auto simp: delete_rows_def intro: filter_cong)

lemma update_rows_other: "x \<in> set rows \<Longrightarrow> \<not> p x \<Longrightarrow> x \<in> set (update_rows p f rows)"
  by (auto simp: in_update_rows)

lemma update_rows_hit: "x \<in> set rows \<Longrightarrow> p x \<Longrightarrow> f x \<in> set (update_rows p f rows)"
  by (auto simp: in_update_rows)

lemma key_not_selected:
  assumes "distinct (map key rows)" "x \<in> set rows" "\<not> p x"
  shows "key x \<notin> key ` set (select_rows p k n rows)"
  using assms distinct_key_eq [OF assms(1)] by (auto dest!: in_select_rows)

end
