(* ===== verification/Job_Error.thy ===== *)
theory Job_Error
  imports IQ_Prelude
begin

text \<open>
  The error values of the program: the kinds and text form of a failed job
  attempt (\<^verbatim>\<open>JobErrorKind\<close>, \<^verbatim>\<open>JobError\<close> in \<^verbatim>\<open>job.rs\<close>), the bounding of stored error
  text, and the crate's own \<^verbatim>\<open>Error\<close> (\<^verbatim>\<open>lib.rs\<close>).
\<close>

section \<open>Kinds of attempt failure\<close>

datatype job_error_kind = KFailed | KTimeout | KAborted | KPanic | KExtract | KDecode

definition all_kinds :: "job_error_kind list" where
  "all_kinds = [KFailed, KTimeout, KAborted, KPanic, KExtract, KDecode]"

fun kind_as_str :: "job_error_kind \<Rightarrow> string" where
  "kind_as_str KFailed = ''failed''"
| "kind_as_str KTimeout = ''timeout''"
| "kind_as_str KAborted = ''aborted''"
| "kind_as_str KPanic = ''panic''"
| "kind_as_str KExtract = ''extract''"
| "kind_as_str KDecode = ''decode''"

fun kind_is_retryable :: "job_error_kind \<Rightarrow> bool" where
  "kind_is_retryable KDecode = False"
| "kind_is_retryable KExtract = False"
| "kind_is_retryable _ = True"

section \<open>Bounding stored text\<close>

abbreviation NUL :: char where "NUL \<equiv> CHR 0x00"

definition MAX_JSON_DOCUMENT_BYTES :: nat where "MAX_JSON_DOCUMENT_BYTES = 1048576"

definition MAX_STORED_ERROR_BYTES :: nat where "MAX_STORED_ERROR_BYTES = MAX_JSON_DOCUMENT_BYTES"

text \<open>The marker is an ellipsis (three bytes of UTF-8) and \<^verbatim>\<open> [truncated]\<close>.\<close>

definition ERROR_TRUNCATION_MARKER :: string where
  "ERROR_TRUNCATION_MARKER = [CHR 0xE2, CHR 0x80, CHR 0xA6] @ '' [truncated]''"

text \<open>\<^verbatim>\<open>str::is_char_boundary\<close>: the ends of the string, and any byte that is not a continuation byte.\<close>

definition is_continuation_byte :: "char \<Rightarrow> bool" where
  "is_continuation_byte c \<longleftrightarrow> (128::nat) \<le> of_char c \<and> (of_char c :: nat) < 192"

definition is_char_boundary :: "string \<Rightarrow> nat \<Rightarrow> bool" where
  "is_char_boundary text i \<longleftrightarrow>
     (if i = 0 \<or> i = length text then True
      else if i > length text then False
      else \<not> is_continuation_byte (text ! i))"

text \<open>The loop \<^verbatim>\<open>while !text.is_char_boundary(end) { end -= 1 }\<close>: index 0 is always a boundary.\<close>

fun floor_char_boundary :: "string \<Rightarrow> nat \<Rightarrow> nat" where
  "floor_char_boundary text 0 = 0"
| "floor_char_boundary text (Suc n) =
     (if is_char_boundary text (Suc n) then Suc n else floor_char_boundary text n)"

definition truncate_owned_utf8 :: "string \<Rightarrow> nat \<Rightarrow> string" where
  "truncate_owned_utf8 text max_bytes =
     (if length text \<le> max_bytes then text
      else take (floor_char_boundary text (max_bytes - length ERROR_TRUNCATION_MARKER)) text
           @ ERROR_TRUNCATION_MARKER)"

definition truncate_stored_error :: "string \<Rightarrow> string" where
  "truncate_stored_error text =
     (if length text \<le> MAX_STORED_ERROR_BYTES then text
      else truncate_owned_utf8 text MAX_STORED_ERROR_BYTES)"

text \<open>\<^verbatim>\<open>message.replace('\0', "\u{fffd}")\<close>: U+FFFD is the bytes EF BF BD.\<close>

definition replace_nul :: "string \<Rightarrow> string" where
  "replace_nul text = concat (map (\<lambda>c. if c = NUL then [CHR 0xEF, CHR 0xBF, CHR 0xBD] else [c]) text)"

section \<open>Attempt errors\<close>

record job_error =
  je_kind :: job_error_kind
  je_message :: string

definition job_error_new :: "job_error_kind \<Rightarrow> string \<Rightarrow> job_error" where
  "job_error_new kind err =
     (let message = (if NUL \<in> set err then replace_nul err else err);
          prefix_bytes = length (kind_as_str kind) + length '': ''
      in \<lparr> je_kind = kind,
           je_message = truncate_owned_utf8 message (MAX_STORED_ERROR_BYTES - prefix_bytes) \<rparr>)"

definition job_error_failed :: "string \<Rightarrow> job_error" where
  "job_error_failed err = job_error_new KFailed err"

text \<open>The \<^verbatim>\<open>Display\<close> form \<^verbatim>\<open>"{kind}: {message}"\<close> is what the \<^verbatim>\<open>error\<close> column stores.\<close>

definition job_error_display :: "job_error \<Rightarrow> string" where
  "job_error_display e = kind_as_str (je_kind e) @ '': '' @ je_message e"

fun strip_prefix :: "string \<Rightarrow> string \<Rightarrow> string option" where
  "strip_prefix [] text = Some text"
| "strip_prefix (p # ps) [] = None"
| "strip_prefix (p # ps) (c # cs) = (if p = c then strip_prefix ps cs else None)"

fun from_stored_in :: "job_error_kind list \<Rightarrow> string \<Rightarrow> job_error" where
  "from_stored_in [] text = \<lparr> je_kind = KFailed, je_message = text \<rparr>"
| "from_stored_in (kind # kinds) text =
     (case Option.bind (strip_prefix (kind_as_str kind) text) (strip_prefix '': '') of
        Some message \<Rightarrow> \<lparr> je_kind = kind, je_message = message \<rparr>
      | None \<Rightarrow> from_stored_in kinds text)"

definition job_error_from_stored :: "string \<Rightarrow> job_error" where
  "job_error_from_stored text = from_stored_in all_kinds text"

section \<open>The crate's error type\<close>

text \<open>
  The payloads of \<^verbatim>\<open>sqlx::Error\<close>, \<^verbatim>\<open>serde_json::Error\<close>, \<^verbatim>\<open>MigrateError\<close>, \<^verbatim>\<open>JoinError\<close> and
  \<^verbatim>\<open>io::Error\<close> belong to other crates; only their text is kept.
\<close>

datatype error =
    Db string
  | Serde string
  | Migration string
  | Config string
  | DedupeRace string
  | Task string
  | WorkerTask string
  | Dashboard string
  | JobNotFound uuid
  | ResultExpired uuid
  | Job job_error
  | WaitTimeout

text \<open>\<open>show_uuid\<close> is the text form of the uuid crate.\<close>

fun error_display :: "(uuid \<Rightarrow> string) \<Rightarrow> error \<Rightarrow> string" where
  "error_display show_uuid (Db e) = e"
| "error_display show_uuid (Serde e) = e"
| "error_display show_uuid (Migration e) = e"
| "error_display show_uuid (Config e) = ''configuration error: '' @ e"
| "error_display show_uuid (DedupeRace e) = ''dedupe race: '' @ e"
| "error_display show_uuid (Task e) = e"
| "error_display show_uuid (WorkerTask e) = ''worker task failed: '' @ e"
| "error_display show_uuid (Dashboard e) = e"
| "error_display show_uuid (JobNotFound i) = ''job not found: '' @ show_uuid i"
| "error_display show_uuid (ResultExpired i) = ''job '' @ show_uuid i @ '' completed but its result was already deleted''"
| "error_display show_uuid (Job e) = job_error_display e"
| "error_display show_uuid WaitTimeout = ''timed out waiting for job result''"

type_synonym 'a result = "error + 'a"

section \<open>Lemmas\<close>

lemma floor_char_boundary_le: "floor_char_boundary text n \<le> n"
  by (induction n) auto

lemma floor_char_boundary_boundary: "is_char_boundary text (floor_char_boundary text n)"
  by (induction n) (auto simp: is_char_boundary_def)

lemma floor_char_boundary_greatest:
  "is_char_boundary text i \<Longrightarrow> i \<le> n \<Longrightarrow> i \<le> floor_char_boundary text n"
  by (induction n) (auto simp: le_Suc_eq)

lemma length_marker [simp]: "length ERROR_TRUNCATION_MARKER = 15"
  by (simp add: ERROR_TRUNCATION_MARKER_def)

lemma NUL_notin_marker [simp]: "NUL \<notin> set ERROR_TRUNCATION_MARKER"
  by (simp add: ERROR_TRUNCATION_MARKER_def)

lemma NUL_notin_replace_nul [simp]: "NUL \<notin> set (replace_nul text)"
  by (auto simp: replace_nul_def split: if_splits)

lemma truncate_owned_utf8_length:
  "15 \<le> m \<Longrightarrow> length (truncate_owned_utf8 text m) \<le> m"
  using floor_char_boundary_le [of "text" "m - 15"]
  by (auto simp: truncate_owned_utf8_def)

lemma truncate_owned_utf8_set:
  "set (truncate_owned_utf8 text m) \<subseteq> set text \<union> set ERROR_TRUNCATION_MARKER"
  by (auto simp: truncate_owned_utf8_def dest: in_set_takeD)

lemma kind_as_str_length: "length (kind_as_str k) \<le> 7"
  by (cases k) auto

lemma kind_as_str_NUL [simp]: "NUL \<notin> set (kind_as_str k)"
  by (cases k) auto

lemma strip_prefix_append [simp]: "strip_prefix p (p @ t) = Some t"
  by (induction p) auto

lemma strip_prefix_Some: "strip_prefix p t = Some r \<longleftrightarrow> t = p @ r"
  by (induction p t rule: strip_prefix.induct) auto

lemma from_stored_in_display:
  "je_kind e \<in> set kinds \<Longrightarrow> from_stored_in kinds (job_error_display e) = e"
proof (induction kinds)
  case (Cons k ks)
  show ?case
  proof (cases "k = je_kind e")
    case True
    then show ?thesis by (simp add: job_error_display_def)
  next
    case False
    then have "Option.bind (strip_prefix (kind_as_str k) (job_error_display e)) (strip_prefix '': '') = None"
      by (cases k; cases "je_kind e") (simp_all add: job_error_display_def)
    then show ?thesis using Cons False by simp
  qed
qed simp

lemma nul_free_message: "(if NUL \<in> set err then replace_nul err else err) = replace_nul err"
  by (induction err) (auto simp: replace_nul_def split: if_splits)

lemma display_storable: "NUL \<notin> set (job_error_display (job_error_new kind err))"
  using truncate_owned_utf8_set [of "replace_nul err" "MAX_STORED_ERROR_BYTES - (length (kind_as_str kind) + 2)"]
  by (auto simp: job_error_display_def job_error_new_def nul_free_message Let_def)

section \<open>Properties\<close>

text \<open>
  The \<^verbatim>\<open>error\<close> column is read back exactly. Reading the display form of an
  attempt error gives the same kind and message whatever the message is (even one
  that starts like another kind's prefix), and text no attempt wrote becomes a
  plain failure that carries it.
\<close>

theorem job_error_stored_round_trip:
  "job_error_from_stored (job_error_display e) = e \<and>
   (\<forall>t. (\<nexists>e'. t = job_error_display e') \<longrightarrow>
        job_error_from_stored t = \<lparr> je_kind = KFailed, je_message = t \<rparr>)"
proof (intro conjI allI impI)
  show "job_error_from_stored (job_error_display e) = e"
    unfolding job_error_from_stored_def
    by (rule from_stored_in_display) (cases "je_kind e", auto simp: all_kinds_def)
next
  fix t
  assume no: "\<nexists>e'. t = job_error_display e'"
  have "Option.bind (strip_prefix (kind_as_str k) t) (strip_prefix '': '') = None" for k
  proof (rule ccontr)
    assume "Option.bind (strip_prefix (kind_as_str k) t) (strip_prefix '': '') \<noteq> None"
    then obtain r where "t = kind_as_str k @ '': '' @ r"
      by (auto simp: bind_eq_Some_conv strip_prefix_Some)
    then have "t = job_error_display \<lparr> je_kind = k, je_message = r \<rparr>" by (simp add: job_error_display_def)
    then show False using no by blast
  qed
  then show "job_error_from_stored t = \<lparr> je_kind = KFailed, je_message = t \<rparr>"
    by (simp add: job_error_from_stored_def all_kinds_def del: kind_as_str.simps)
qed

theorem job_error_stored_round_trip_witness:
  "job_error_from_stored (job_error_display \<lparr> je_kind = KPanic, je_message = ''failed: x'' \<rparr>)
     = \<lparr> je_kind = KPanic, je_message = ''failed: x'' \<rparr>"
  using job_error_stored_round_trip [of "\<lparr> je_kind = KPanic, je_message = ''failed: x'' \<rparr>"] by blast

text \<open>
  Every attempt error the crate builds fits the \<^verbatim>\<open>error\<close> column: its display
  form holds no NUL and is at most \<^const>\<open>MAX_STORED_ERROR_BYTES\<close> long, whatever
  text the handler produced. A message that has to be cut is cut at the last
  character boundary that leaves room for the marker.
\<close>

theorem job_error_new_storable:
  "length (job_error_display (job_error_new kind err)) \<le> MAX_STORED_ERROR_BYTES \<and>
   NUL \<notin> set (job_error_display (job_error_new kind err)) \<and>
   (\<exists>n. is_char_boundary (replace_nul err) n \<and>
      je_message (job_error_new kind err) \<in>
        {replace_nul err, take n (replace_nul err) @ ERROR_TRUNCATION_MARKER})"
proof -
  let ?m = "MAX_STORED_ERROR_BYTES - (length (kind_as_str kind) + 2)"
  have kind: "je_kind (job_error_new kind err) = kind"
    and new: "je_message (job_error_new kind err) = truncate_owned_utf8 (replace_nul err) ?m"
    unfolding job_error_new_def nul_free_message by (simp_all add: Let_def)
  have m: "15 \<le> ?m" "?m + (length (kind_as_str kind) + 2) = MAX_STORED_ERROR_BYTES"
    using kind_as_str_length [of kind]
    by (simp_all add: MAX_STORED_ERROR_BYTES_def MAX_JSON_DOCUMENT_BYTES_def)
  have "length (job_error_display (job_error_new kind err)) \<le> MAX_STORED_ERROR_BYTES"
    using truncate_owned_utf8_length [OF m(1), of "replace_nul err"] m(2)
    by (simp add: job_error_display_def kind new)
  moreover note display_storable
  moreover have "je_message (job_error_new kind err) \<in> {replace_nul err,
      take (floor_char_boundary (replace_nul err) (?m - 15)) (replace_nul err) @ ERROR_TRUNCATION_MARKER}"
    by (simp add: new truncate_owned_utf8_def)
  ultimately show ?thesis using floor_char_boundary_boundary by blast
qed

end
