(* ===== verification/Json_Document.thy ===== *)
theory Json_Document
  imports Job_Error
begin

text \<open>
  JSON documents as the crate stores them (\<^verbatim>\<open>serde_json::Value\<close>) and the checks of
  \<^verbatim>\<open>job.rs\<close> that refuse one before it is written: nesting depth, NUL characters
  and serialized size. The serializer is another crate's; a document's
  serialization is the parameter \<open>chunks\<close>, the buffers it hands to the writer
  in order.
\<close>

section \<open>Values\<close>

text \<open>\<^verbatim>\<open>serde_json::Number\<close>: an unsigned, a negative, or a floating point number (its text).\<close>

datatype json_number = PosInt nat | NegInt int | Float string

datatype json =
    JNull
  | JBool bool
  | JNumber json_number
  | JString string
  | JArray "json list"
  | JObject "(string \<times> json) list"

lemma json_field_size [termination_simp]:
  "kv \<in> set flds \<Longrightarrow> size (snd kv) < Suc (size_list (size_prod (\<lambda>x. 0) size) flds)"
  by (induction flds) (auto simp: less_Suc_eq_le split: prod.splits)

section \<open>Checks\<close>

fun json_contains_nul :: "json \<Rightarrow> bool" where
  "json_contains_nul (JString s) = (NUL \<in> set s)"
| "json_contains_nul (JArray items) = list_ex json_contains_nul items"
| "json_contains_nul (JObject flds) =
     list_ex (\<lambda>kv. NUL \<in> set (fst kv) \<or> json_contains_nul (snd kv)) flds"
| "json_contains_nul _ = False"

definition MAX_JSON_DEPTH :: nat where "MAX_JSON_DEPTH = 127"

fun json_exceeds_depth :: "json \<Rightarrow> nat \<Rightarrow> bool" where
  "json_exceeds_depth (JArray items) budget =
     (budget = 0 \<or> list_ex (\<lambda>item. json_exceeds_depth item (budget - 1)) items)"
| "json_exceeds_depth (JObject flds) budget =
     (budget = 0 \<or> list_ex (\<lambda>kv. json_exceeds_depth (snd kv) (budget - 1)) flds)"
| "json_exceeds_depth _ budget = False"

text \<open>
  \<^verbatim>\<open>Budget::write\<close> subtracts the buffer from what is left and fails when it does
  not fit; the serializer stops at the first failure.
\<close>

fun budget_write_all :: "nat \<Rightarrow> string list \<Rightarrow> nat option" where
  "budget_write_all remaining [] = Some remaining"
| "budget_write_all remaining (buf # bufs) =
     (if length buf \<le> remaining then budget_write_all (remaining - length buf) bufs else None)"

definition json_exceeds_bytes :: "(json \<Rightarrow> string list) \<Rightarrow> json \<Rightarrow> nat \<Rightarrow> bool" where
  "json_exceeds_bytes chunks v max_bytes = (budget_write_all max_bytes (chunks v) = None)"

text \<open>\<^verbatim>\<open>Counter::write\<close> adds with saturation at \<^verbatim>\<open>usize::MAX\<close>.\<close>

fun counter_write_all :: "nat \<Rightarrow> string list \<Rightarrow> nat" where
  "counter_write_all count [] = count"
| "counter_write_all count (buf # bufs) = counter_write_all (min (count + length buf) u64_max) bufs"

definition json_byte_len :: "(json \<Rightarrow> string list) \<Rightarrow> json \<Rightarrow> nat" where
  "json_byte_len chunks v = counter_write_all 0 (chunks v)"

definition validate_json_document :: "(json \<Rightarrow> string list) \<Rightarrow> string \<Rightarrow> json \<Rightarrow> string + unit" where
  "validate_json_document chunks field v =
     (if json_exceeds_depth v MAX_JSON_DEPTH
        then Inl (field @ '' must not nest deeper than 127 levels'')
      else if json_contains_nul v then Inl (field @ '' must not contain NUL'')
      else if json_exceeds_bytes chunks v MAX_JSON_DOCUMENT_BYTES
        then Inl (field @ '' must not exceed 1048576 bytes of serialized JSON'')
      else Inr ())"

section \<open>Reference definitions\<close>

text \<open>The number of containers on the longest path of a document.\<close>

fun json_depth :: "json \<Rightarrow> nat" where
  "json_depth (JArray items) = Suc (fold max (map json_depth items) 0)"
| "json_depth (JObject flds) = Suc (fold max (map (\<lambda>kv. json_depth (snd kv)) flds) 0)"
| "json_depth _ = 0"

section \<open>Lemmas\<close>

lemma fold_max_le: "fold max xs (m::nat) \<le> b \<longleftrightarrow> m \<le> b \<and> (\<forall>x\<in>set xs. x \<le> b)"
  by (induction xs arbitrary: m) auto

lemma fold_max_gt: "(b::nat) < fold max xs 0 \<longleftrightarrow> (\<exists>x\<in>set xs. b < x)"
  using fold_max_le [of xs 0 b] by (auto simp: not_le [symmetric])

lemma json_exceeds_depth_iff: "json_exceeds_depth v b \<longleftrightarrow> b < json_depth v"
proof (induction v b rule: json_exceeds_depth.induct)
  case (1 items budget)
  then show ?case
    by (cases budget) (auto simp: list_ex_iff less_Suc_eq_le Suc_le_eq fold_max_gt)
next
  case (2 flds budget)
  then show ?case
    by (cases budget) (auto simp: list_ex_iff less_Suc_eq_le Suc_le_eq fold_max_gt)
qed auto

lemma budget_write_all_iff: "budget_write_all n bufs = None \<longleftrightarrow> n < sum_list (map length bufs)"
  by (induction n bufs rule: budget_write_all.induct) auto

lemma counter_write_all_eq:
  "c \<le> u64_max \<Longrightarrow> counter_write_all c bufs = min (c + sum_list (map length bufs)) u64_max"
  by (induction c bufs rule: counter_write_all.induct) auto

lemma json_byte_len_eq: "json_byte_len chunks v = min (sum_list (map length (chunks v))) u64_max"
  by (simp add: json_byte_len_def counter_write_all_eq)

lemma validate_json_document_Inr [valid_elims]:
  "validate_json_document chunks field v = Inr u \<longleftrightarrow>
     json_depth v \<le> 127 \<and> \<not> json_contains_nul v \<and>
     sum_list (map length (chunks v)) \<le> 1048576"
  by (auto simp: validate_json_document_def json_exceeds_depth_iff json_exceeds_bytes_def
      budget_write_all_iff MAX_JSON_DEPTH_def MAX_JSON_DOCUMENT_BYTES_def not_less)

end
