(* ===== verification/Job_Config.thy ===== *)
theory Job_Config
  imports Json_Document
begin

text \<open>
  Durations, retention, retry backoff and the per-job configuration
  (\<^verbatim>\<open>job.rs\<close>): how a duration becomes a column, how a column is read back,
  and what \<^verbatim>\<open>JobConfig::validate\<close> accepts.
\<close>

section \<open>Durations\<close>

definition MAX_DURATION_MS :: nat where "MAX_DURATION_MS = 3153600000000"

definition MAX_DURATION :: duration where "MAX_DURATION = from_millis MAX_DURATION_MS"

definition DEFAULT_FAILED_RETENTION :: duration where
  "DEFAULT_FAILED_RETENTION = from_secs (7 * 24 * 60 * 60)"

definition validate_duration :: "string \<Rightarrow> duration \<Rightarrow> unit result" where
  "validate_duration field d =
     (if d > MAX_DURATION
      then Inl (Config (field @ '' exceeds the maximum supported duration of 3153600000s''))
      else Inr ())"

definition validate_nonzero_duration :: "string \<Rightarrow> duration \<Rightarrow> unit result" where
  "validate_nonzero_duration field d =
     (if d = 0 then Inl (Config (field @ '' must be greater than zero''))
      else validate_duration field d)"

text \<open>\<^verbatim>\<open>u128::div_ceil\<close> by a million, then \<^verbatim>\<open>i64::try_from\<close>.\<close>

definition div_ceil :: "nat \<Rightarrow> nat \<Rightarrow> nat" where
  "div_ceil a b = a div b + (if a mod b = 0 then 0 else 1)"

definition duration_to_ms_checked :: "duration \<Rightarrow> int option" where
  "duration_to_ms_checked d =
     (let ms = int (div_ceil d 1000000) in if ms \<le> i64_max then Some ms else None)"

definition duration_to_ms :: "duration \<Rightarrow> int" where
  "duration_to_ms d = (case duration_to_ms_checked d of Some ms \<Rightarrow> ms | None \<Rightarrow> i64_max)"

definition has_attempts_remaining :: "int \<Rightarrow> int \<Rightarrow> bool" where
  "has_attempts_remaining attempts max_attempts \<longleftrightarrow> max_attempts > attempts"

section \<open>Retention\<close>

datatype job_retention = For duration | Forever | DeleteImmediately

fun as_result_ttl_ms :: "job_retention \<Rightarrow> int option" where
  "as_result_ttl_ms (For d) = Some (max (duration_to_ms d) 1)"
| "as_result_ttl_ms Forever = None"
| "as_result_ttl_ms DeleteImmediately = Some 0"

fun from_result_ttl_ms :: "int option \<Rightarrow> job_retention" where
  "from_result_ttl_ms None = Forever"
| "from_result_ttl_ms (Some ms) = (if ms \<le> 0 then DeleteImmediately else For (from_millis (nat ms)))"

section \<open>Backoff\<close>

datatype job_retry_backoff = BNone | BExponential "duration option"

text \<open>\<^verbatim>\<open>Duration::saturating_mul(2)\<close>.\<close>

definition saturating_double :: "duration \<Rightarrow> duration" where
  "saturating_double d = min (2 * d) rust_duration_max"

fun doubling_loop :: "nat \<Rightarrow> duration \<Rightarrow> duration" where
  "doubling_loop 0 delay = delay"
| "doubling_loop (Suc n) delay =
     (let delay' = min (saturating_double delay) MAX_DURATION
      in if delay' = MAX_DURATION then delay' else doubling_loop n delay')"

definition exponential_delay_bound :: "duration \<Rightarrow> nat \<Rightarrow> duration option \<Rightarrow> duration" where
  "exponential_delay_bound retry_delay attempts maximum =
     (let ex = min (attempts - 1) 63;
          delay = doubling_loop ex (min retry_delay MAX_DURATION)
      in min (case maximum of None \<Rightarrow> delay | Some m \<Rightarrow> min delay m) MAX_DURATION)"

text \<open>
  \<^verbatim>\<open>capped.mul_f64(rand::random::<f64>())\<close> is the parameter \<open>jitter\<close>: the product
  of a duration and the random factor of this call.
\<close>

fun next_delay :: "(duration \<Rightarrow> duration) \<Rightarrow> job_retry_backoff \<Rightarrow> duration \<Rightarrow> nat \<Rightarrow> duration" where
  "next_delay jitter BNone retry_delay attempts = min retry_delay MAX_DURATION"
| "next_delay jitter (BExponential maximum) retry_delay attempts =
     jitter (exponential_delay_bound retry_delay attempts maximum)"

definition retry_delay_for :: "(duration \<Rightarrow> duration) \<Rightarrow> int \<Rightarrow> job_retry_backoff \<Rightarrow> int \<Rightarrow> duration" where
  "retry_delay_for jitter retry_delay_ms backoff attempts =
     next_delay jitter backoff (from_millis (nat (max retry_delay_ms 0))) (nat (max attempts 0))"

subsection \<open>The stored form of a backoff\<close>

text \<open>
  The serde attributes: internally tagged by \<^verbatim>\<open>type\<close>, lower-case variant names,
  the cap as \<^verbatim>\<open>max_ms\<close> with a default of \<^verbatim>\<open>None\<close>. Serializing a cap that does not fit
  is an error; decoding a value the build cannot read falls back to \<open>BNone\<close>.
\<close>

fun opt_duration_ms_serialize :: "duration option \<Rightarrow> json option" where
  "opt_duration_ms_serialize None = Some JNull"
| "opt_duration_ms_serialize (Some d) =
     (case duration_to_ms_checked d of
        Some ms \<Rightarrow> Some (JNumber (PosInt (nat ms)))
      | None \<Rightarrow> None)"

fun opt_duration_ms_deserialize :: "json \<Rightarrow> duration option option" where
  "opt_duration_ms_deserialize JNull = Some None"
| "opt_duration_ms_deserialize (JNumber (PosInt n)) = Some (Some (from_millis n))"
| "opt_duration_ms_deserialize _ = None"

fun backoff_to_json :: "job_retry_backoff \<Rightarrow> json option" where
  "backoff_to_json BNone = Some (JObject [(''type'', JString ''none'')])"
| "backoff_to_json (BExponential m) =
     (case opt_duration_ms_serialize m of
        Some v \<Rightarrow> Some (JObject [(''type'', JString ''exponential''), (''max_ms'', v)])
      | None \<Rightarrow> None)"

fun backoff_from_json :: "json \<Rightarrow> job_retry_backoff option" where
  "backoff_from_json (JObject flds) =
     (case map_of flds ''type'' of
        Some (JString t) \<Rightarrow>
          (if t = ''none'' then Some BNone
           else if t = ''exponential'' then
             (case map_of flds ''max_ms'' of
                None \<Rightarrow> Some (BExponential None)
              | Some v \<Rightarrow> map_option BExponential (opt_duration_ms_deserialize v))
           else None)
      | _ \<Rightarrow> None)"
| "backoff_from_json _ = None"

definition backoff_decode :: "json \<Rightarrow> job_retry_backoff" where
  "backoff_decode v = (case backoff_from_json v of Some b \<Rightarrow> b | None \<Rightarrow> BNone)"

section \<open>Job configuration\<close>

record job_config =
  cfg_max_attempts :: nat
  cfg_timeout :: "duration option"
  cfg_retention :: job_retention
  cfg_failed_retention :: job_retention
  cfg_retry_delay :: duration
  cfg_backoff :: job_retry_backoff
  cfg_priority :: int

definition validate_retention :: "string \<Rightarrow> job_retention \<Rightarrow> unit result" where
  "validate_retention field r = (case r of For ttl \<Rightarrow> validate_duration field ttl | _ \<Rightarrow> Inr ())"

definition job_config_validate :: "job_config \<Rightarrow> unit result" where
  "job_config_validate c =
     (if cfg_max_attempts c = 0
        then Inl (Config ''job max_attempts must allow at least one attempt'')
      else if int (cfg_max_attempts c) \<ge> i32_max
        then Inl (Config ''job max_attempts must not exceed 2147483646'')
      else
        and_then (case cfg_timeout c of
                    Some t \<Rightarrow> validate_nonzero_duration ''job timeout'' t | None \<Rightarrow> Inr ()) (\<lambda>_.
        and_then (validate_retention ''job retention'' (cfg_retention c)) (\<lambda>_.
        and_then (validate_retention ''job failed retention'' (cfg_failed_retention c)) (\<lambda>_.
        and_then (validate_duration ''job retry delay'' (cfg_retry_delay c)) (\<lambda>_.
        and_then (case cfg_backoff c of
                    BExponential (Some m) \<Rightarrow> validate_nonzero_duration ''job backoff maximum'' m
                  | _ \<Rightarrow> Inr ()) (\<lambda>_.
        if (case cfg_backoff c of BExponential _ \<Rightarrow> True | BNone \<Rightarrow> False) \<and> cfg_retry_delay c = 0
          then Inl (Config ''exponential job backoff requires a non-zero retry delay'')
          else Inr ()))))))"

definition job_config_default :: job_config where
  "job_config_default = \<lparr>
     cfg_max_attempts = 1,
     cfg_timeout = Some (from_secs 10),
     cfg_retention = For (from_secs 600),
     cfg_failed_retention = For DEFAULT_FAILED_RETENTION,
     cfg_retry_delay = 0,
     cfg_backoff = BNone,
     cfg_priority = 0 \<rparr>"

section \<open>Lemmas\<close>

lemmas duration_consts = MAX_DURATION_def MAX_DURATION_MS_def DEFAULT_FAILED_RETENTION_def

lemma validate_duration_Inr [simp]: "validate_duration field d = Inr u \<longleftrightarrow> d \<le> MAX_DURATION"
  by (auto simp: validate_duration_def)

lemma validate_nonzero_duration_Inr [simp]:
  "validate_nonzero_duration field d = Inr u \<longleftrightarrow> 0 < d \<and> d \<le> MAX_DURATION"
  by (auto simp: validate_nonzero_duration_def)

lemma div_ceil_exact: "a mod b = 0 \<Longrightarrow> div_ceil a b * b = a"
  by (auto simp: div_ceil_def)

lemma div_ceil_round: "a mod b \<noteq> 0 \<Longrightarrow> div_ceil a b * b + a mod b = a + b"
  using div_mult_mod_eq [of a b] by (simp only: div_ceil_def add_mult_distrib if_False)

lemma div_ceil_ge: "0 < b \<Longrightarrow> a \<le> div_ceil a b * b"
  using div_ceil_exact [of a b] div_ceil_round [of a b] mod_less_divisor [of b a]
  by (cases "a mod b = 0") linarith+

lemma div_ceil_less: "0 < b \<Longrightarrow> div_ceil a b * b < a + b"
  using div_ceil_exact [of a b] div_ceil_round [of a b]
  by (cases "a mod b = 0") linarith+

lemma div_ceil_mult [simp]: "0 < b \<Longrightarrow> div_ceil (a * b) b = a"
  by (simp add: div_ceil_def)

lemma div_ceil_mono: "0 < b \<Longrightarrow> a \<le> a' \<Longrightarrow> div_ceil a b \<le> div_ceil a' b"
proof -
  assume b: "0 < b" and "a \<le> a'"
  then have "div_ceil a b * b < a' + b" using div_ceil_less [of b a] by linarith
  also have "\<dots> \<le> (div_ceil a' b + 1) * b" using div_ceil_ge [OF b, of a'] by simp
  finally show ?thesis by (metis Suc_eq_plus1 less_Suc_eq_le mult_less_cancel2)
qed

lemma duration_to_ms_bounded:
  "d \<le> MAX_DURATION \<Longrightarrow> duration_to_ms d = int (div_ceil d 1000000) \<and> duration_to_ms d \<le> 3153600000000"
proof -
  assume "d \<le> MAX_DURATION"
  then have "div_ceil d 1000000 \<le> div_ceil (3153600000000 * 1000000) 1000000"
    by (intro div_ceil_mono) (simp_all add: duration_consts)
  then have "div_ceil d 1000000 \<le> 3153600000000" by (simp only: div_ceil_mult)
  then show ?thesis by (simp add: duration_to_ms_def duration_to_ms_checked_def Let_def)
qed

lemma duration_to_ms_nonneg: "0 \<le> duration_to_ms d"
  by (simp add: duration_to_ms_def duration_to_ms_checked_def Let_def)

lemma duration_to_ms_checked_Some:
  "d \<le> MAX_DURATION \<Longrightarrow> duration_to_ms_checked d = Some (int (div_ceil d 1000000))"
  using duration_to_ms_bounded [of d]
  by (auto simp: duration_to_ms_def duration_to_ms_checked_def Let_def split: if_splits)

lemma duration_to_ms_le: "d \<le> MAX_DURATION \<Longrightarrow> duration_to_ms d \<le> 3153600000000"
  using duration_to_ms_bounded by blast

lemma duration_to_ms_zero [simp]: "duration_to_ms 0 = 0"
  by (simp add: duration_to_ms_def duration_to_ms_checked_def div_ceil_def)

lemma duration_to_ms_pos: "0 < d \<Longrightarrow> 0 < duration_to_ms d"
  using div_ceil_ge [of 1000000 d]
  by (cases "div_ceil d 1000000") (auto simp: duration_to_ms_def duration_to_ms_checked_def Let_def)

lemma duration_to_ms_from_millis [simp]:
  "int n \<le> i64_max \<Longrightarrow> duration_to_ms (from_millis n) = int n"
  by (simp add: duration_to_ms_def duration_to_ms_checked_def Let_def)

lemma doubling_loop_eq: "d \<le> MAX_DURATION \<Longrightarrow> doubling_loop n d = min (d * 2 ^ n) MAX_DURATION"
proof (induction n arbitrary: d)
  case (Suc n)
  have le: "2 * MAX_DURATION \<le> rust_duration_max" by (simp add: duration_consts)
  have step: "min (saturating_double d) MAX_DURATION = min (2 * d) MAX_DURATION"
    using le Suc.prems by (simp add: saturating_double_def)
  show ?case
  proof (cases "2 * d < MAX_DURATION")
    case True
    then show ?thesis using step Suc.IH [of "2 * d"] by (simp add: Let_def mult.assoc mult.left_commute)
  next
    case False
    then have "MAX_DURATION \<le> 2 * d" by simp
    also have "\<dots> \<le> 2 * d * 2 ^ n" by simp
    finally have "MAX_DURATION \<le> 2 * d * 2 ^ n" .
    then show ?thesis using step False by (simp add: Let_def mult_ac)
  qed
qed simp

text \<open>
  Sixty-three doublings of one nanosecond pass \<^const>\<open>MAX_DURATION\<close>, so the clamp of
  the exponent never shows.
\<close>

lemma exponent_clamp: "min (d * 2 ^ min k 63) MAX_DURATION = min (d * 2 ^ k) MAX_DURATION"
proof (cases "k \<le> 63 \<or> d = 0")
  case False
  have "MAX_DURATION \<le> (2::nat) ^ 63" by (simp add: duration_consts)
  also have "\<dots> \<le> d * 2 ^ 63" using False by simp
  finally have "MAX_DURATION \<le> d * 2 ^ 63" .
  moreover have "d * 2 ^ 63 \<le> d * 2 ^ k" using False by (intro mult_le_mono2 power_increasing) auto
  ultimately have "MAX_DURATION \<le> d * 2 ^ k" by (rule order_trans)
  moreover have "min k 63 = 63" using False by simp
  ultimately show ?thesis using \<open>MAX_DURATION \<le> d * 2 ^ 63\<close> by (simp only: min_absorb2)
qed auto

lemma min_scaled_cap: "min (min d m * 2 ^ k) m = min (d * 2 ^ k) (m::nat)"
proof (cases "d \<le> m")
  case False
  have "m \<le> m * 2 ^ k" "m \<le> d * 2 ^ k"
    using False mult_le_mono [of m d 1 "2 ^ k"] by auto
  then show ?thesis using False by simp
qed simp

lemma exponential_delay_bound_eq:
  "exponential_delay_bound retry_delay attempts maximum =
     min (min (retry_delay * 2 ^ (attempts - 1)) MAX_DURATION)
         (case maximum of None \<Rightarrow> MAX_DURATION | Some m \<Rightarrow> m)"
  by (auto simp: exponential_delay_bound_def Let_def doubling_loop_eq min_scaled_cap exponent_clamp
      split: option.splits)

lemma nat_max_zero: "nat (max x 0) = nat x"
  by simp

lemma job_config_validate_Inr [valid_elims]:
  "job_config_validate c = Inr u \<longleftrightarrow>
     1 \<le> cfg_max_attempts c \<and> int (cfg_max_attempts c) < i32_max \<and>
     (\<forall>t. cfg_timeout c = Some t \<longrightarrow> 0 < t \<and> t \<le> MAX_DURATION) \<and>
     (\<forall>t. cfg_retention c = For t \<longrightarrow> t \<le> MAX_DURATION) \<and>
     (\<forall>t. cfg_failed_retention c = For t \<longrightarrow> t \<le> MAX_DURATION) \<and>
     cfg_retry_delay c \<le> MAX_DURATION \<and>
     (\<forall>m. cfg_backoff c = BExponential m \<longrightarrow>
        0 < cfg_retry_delay c \<and> (\<forall>x. m = Some x \<longrightarrow> 0 < x \<and> x \<le> MAX_DURATION))"
  by (cases "cfg_timeout c"; cases "cfg_retention c"; cases "cfg_failed_retention c"; cases "cfg_backoff c")
     (auto simp: job_config_validate_def validate_retention_def split: option.splits)

lemma backoff_encodes:
  assumes "job_config_validate c = Inr ()"
  shows "backoff_to_json (cfg_backoff c) \<noteq> None"
proof (cases "cfg_backoff c")
  case (BExponential m)
  then show ?thesis using assms
    by (cases m) (simp_all add: job_config_validate_Inr duration_to_ms_checked_Some)
qed simp

section \<open>Properties\<close>

text \<open>
  The un-jittered exponential delay is exactly the documented one. For every
  base delay, attempt count and optional cap the loop with its early exit, its
  saturating doublings and its exponent clamp computes
  \<open>min (cap, retry_delay * 2 ^ (attempts - 1))\<close>, itself cut at the hundred-year
  \<^const>\<open>MAX_DURATION\<close>.
\<close>

theorem exponential_delay_bound_closed_form:
  "exponential_delay_bound retry_delay attempts maximum =
     min (min (retry_delay * 2 ^ (attempts - 1)) MAX_DURATION)
         (case maximum of None \<Rightarrow> MAX_DURATION | Some m \<Rightarrow> m)"
  by (rule exponential_delay_bound_eq)

text \<open>
  The delay before a retry never exceeds the documented bound of the stored
  backoff, provided the random factor does not enlarge a duration; it is the flat
  delay, capped, when there is no backoff.
\<close>

theorem retry_delay_for_bounded:
  assumes jitter: "\<And>d. jitter d \<le> d"
  shows "retry_delay_for jitter retry_delay_ms backoff attempts \<le> MAX_DURATION \<and>
    retry_delay_for jitter retry_delay_ms backoff attempts
      \<le> from_millis (nat retry_delay_ms) * 2 ^ (nat attempts - 1) \<and>
    (backoff = BNone \<longrightarrow>
       retry_delay_for jitter retry_delay_ms backoff attempts
         = min (from_millis (nat retry_delay_ms)) MAX_DURATION) \<and>
    (\<forall>m. backoff = BExponential (Some m) \<longrightarrow>
       retry_delay_for jitter retry_delay_ms backoff attempts \<le> m)"
proof (cases backoff)
  case BNone
  have "b \<le> b * 2 ^ k" for b k :: nat by simp
  then show ?thesis using BNone
    by (simp add: retry_delay_for_def nat_max_zero min_le_iff_disj)
next
  case (BExponential m)
  let ?d = "retry_delay_for jitter retry_delay_ms backoff attempts"
  let ?e = "from_millis (nat retry_delay_ms) * 2 ^ (nat attempts - 1)"
  have "?d \<le> exponential_delay_bound (from_millis (nat retry_delay_ms)) (nat attempts) m"
    using BExponential jitter by (simp add: retry_delay_for_def nat_max_zero)
  then have "?d \<le> min (min ?e MAX_DURATION) (case m of None \<Rightarrow> MAX_DURATION | Some m \<Rightarrow> m)"
    by (simp only: exponential_delay_bound_eq)
  then have "?d \<le> MAX_DURATION \<and> ?d \<le> ?e \<and> ?d \<le> (case m of None \<Rightarrow> MAX_DURATION | Some m \<Rightarrow> m)"
    by (simp only: min.bounded_iff)
  then show ?thesis using BExponential by (cases m) (simp_all only:, auto)
qed

theorem retry_delay_for_bounded_witness:
  "retry_delay_for (\<lambda>d. d div 2) 1000 (BExponential (Some 3000000000)) 3 \<le> 3000000000"
  using retry_delay_for_bounded [of "\<lambda>d. d div 2" 1000 "BExponential (Some 3000000000)" 3] by simp

text \<open>
  The retention columns and the retention policy are inverse encodings. A
  column value the schema accepts is read and written back unchanged, and a
  validated policy is stored as a value the schema accepts and read back as the
  same policy with its duration rounded up to a whole, non-zero millisecond.
\<close>

theorem retention_round_trip:
  "((\<forall>ms. x = Some ms \<longrightarrow> 0 \<le> ms \<and> ms \<le> 3153600000000) \<longrightarrow>
      as_result_ttl_ms (from_result_ttl_ms x) = x) \<and>
   ((\<forall>d. r = For d \<longrightarrow> d \<le> MAX_DURATION) \<longrightarrow>
      (\<forall>ms. as_result_ttl_ms r = Some ms \<longrightarrow> 0 \<le> ms \<and> ms \<le> 3153600000000) \<and>
      from_result_ttl_ms (as_result_ttl_ms r) =
        (case r of For d \<Rightarrow> For (from_millis (max 1 (div_ceil d 1000000))) | _ \<Rightarrow> r))"
proof (intro conjI impI)
  assume "\<forall>ms. x = Some ms \<longrightarrow> 0 \<le> ms \<and> ms \<le> 3153600000000"
  then show "as_result_ttl_ms (from_result_ttl_ms x) = x"
    by (cases x) auto
next
  assume r: "\<forall>d. r = For d \<longrightarrow> d \<le> MAX_DURATION"
  then show "\<forall>ms. as_result_ttl_ms r = Some ms \<longrightarrow> 0 \<le> ms \<and> ms \<le> 3153600000000"
    using duration_to_ms_bounded duration_to_ms_nonneg by (cases r) (fastforce simp: max_def)+
  show "from_result_ttl_ms (as_result_ttl_ms r) =
        (case r of For d \<Rightarrow> For (from_millis (max 1 (div_ceil d 1000000))) | _ \<Rightarrow> r)"
    using r duration_to_ms_bounded by (cases r) (auto simp: max_def nat_eq_iff)
qed

theorem retention_round_trip_witness:
  "as_result_ttl_ms (from_result_ttl_ms (Some 1500)) = Some 1500 \<and>
   from_result_ttl_ms (as_result_ttl_ms (For 1500000000)) = For 1500000000"
  using retention_round_trip [of "Some 1500" "For 1500000000"]
  by (simp add: div_ceil_def duration_consts)

text \<open>
  C40: a backoff survives its \<^verbatim>\<open>jsonb\<close> column. Every backoff of a validated
  configuration serializes, and decodes to the same strategy with its cap rounded
  up to a whole millisecond; a document without the cap's key decodes as
  uncapped, and a value no build wrote decodes as the flat delay.
\<close>

theorem backoff_round_trip:
  assumes "job_config_validate c = Inr ()"
  shows "\<exists>v. backoff_to_json (cfg_backoff c) = Some v \<and>
    backoff_decode v = (case cfg_backoff c of
        BExponential (Some m) \<Rightarrow> BExponential (Some (from_millis (div_ceil m 1000000)))
      | b \<Rightarrow> b)"
proof (cases "cfg_backoff c")
  case BNone
  then show ?thesis by (simp add: backoff_decode_def)
next
  case (BExponential m)
  show ?thesis
  proof (cases m)
    case None
    then show ?thesis using BExponential by (simp add: backoff_decode_def)
  next
    case (Some d)
    have le: "d \<le> MAX_DURATION" using assms BExponential Some by (simp add: valid_elims)
    then show ?thesis using BExponential Some
      by (simp add: backoff_decode_def duration_to_ms_checked_Some)
  qed
qed

theorem backoff_round_trip_witness:
  "\<exists>v. backoff_to_json (BExponential (Some 1)) = Some v \<and>
     backoff_decode v = BExponential (Some 1000000)"
  using backoff_round_trip [of "job_config_default\<lparr>cfg_backoff := BExponential (Some 1), cfg_retry_delay := 1\<rparr>"]
  by (simp add: valid_elims job_config_default_def duration_consts div_ceil_def)

end
