(* ===== verification/Job_Model.thy ===== *)
theory Job_Model
  imports Job_Config
begin

text \<open>
  The job itself (\<^verbatim>\<open>job.rs\<close>): its lifecycle status, the row of the jobs table, the
  enqueue request with its validation, the typed builder that compiles to a
  request, and the retention pair an enqueue hands to its handle. The CHECK
  constraints of the jobs table (\<^verbatim>\<open>migrations/0001_migration.sql\<close>) are the
  predicate \<open>row_ok\<close>.
\<close>

section \<open>Status\<close>

datatype job_status = Queued | Running | Aborting | Complete | Failed | Aborted

fun status_as_str :: "job_status \<Rightarrow> string" where
  "status_as_str Queued = ''queued''"
| "status_as_str Running = ''running''"
| "status_as_str Aborting = ''aborting''"
| "status_as_str Complete = ''complete''"
| "status_as_str Failed = ''failed''"
| "status_as_str Aborted = ''aborted''"

fun is_terminal :: "job_status \<Rightarrow> bool" where
  "is_terminal Complete = True"
| "is_terminal Failed = True"
| "is_terminal Aborted = True"
| "is_terminal _ = False"

definition status_from_str :: "string \<Rightarrow> string + job_status" where
  "status_from_str s =
     (if s = ''queued'' then Inr Queued
      else if s = ''running'' then Inr Running
      else if s = ''aborting'' then Inr Aborting
      else if s = ''complete'' then Inr Complete
      else if s = ''failed'' then Inr Failed
      else if s = ''aborted'' then Inr Aborted
      else Inl (''unknown job status: '' @ s))"

section \<open>The jobs table\<close>

record job_row =
  j_id :: uuid
  j_dedupe_key :: "string option"
  j_queue :: string
  j_name :: string
  j_payload :: json
  j_status :: job_status
  j_priority :: int
  j_attempts :: int
  j_max_attempts :: int
  j_timeout_ms :: "int option"
  j_retry_delay_ms :: int
  j_backoff :: job_retry_backoff
  j_result_ttl_ms :: "int option"
  j_failed_ttl_ms :: "int option"
  j_scheduled_at :: timestamp
  j_enqueued_at :: timestamp
  j_started_at :: "timestamp option"
  j_touched_at :: "timestamp option"
  j_completed_at :: "timestamp option"
  j_expires_at :: "timestamp option"
  j_result :: "json option"
  j_error :: "string option"
  j_meta :: json
  j_worker_id :: "uuid option"
  j_kind :: string
  j_cron_expr :: "string option"
  j_retried_at :: "timestamp option"
  j_awaited :: bool

definition row_is_retryable :: "job_row \<Rightarrow> bool" where
  "row_is_retryable j = has_attempts_remaining (j_attempts j) (j_max_attempts j)"

definition row_timeout :: "job_row \<Rightarrow> duration option" where
  "row_timeout j =
     (case j_timeout_ms j of
        Some ms \<Rightarrow> if ms > 0 then Some (from_millis (nat ms)) else None
      | None \<Rightarrow> None)"

definition row_retention :: "job_row \<Rightarrow> job_retention" where
  "row_retention j = from_result_ttl_ms (j_result_ttl_ms j)"

definition row_failed_retention :: "job_row \<Rightarrow> job_retention" where
  "row_failed_retention j = from_result_ttl_ms (j_failed_ttl_ms j)"

definition row_next_retry_delay :: "(duration \<Rightarrow> duration) \<Rightarrow> job_row \<Rightarrow> duration" where
  "row_next_retry_delay jitter j =
     retry_delay_for jitter (j_retry_delay_ms j) (j_backoff j) (j_attempts j)"

abbreviation max_attempts_cap :: int where "max_attempts_cap \<equiv> 2147483646"

definition ttl_ok :: "int option \<Rightarrow> bool" where
  "ttl_ok x = (case x of None \<Rightarrow> True | Some ms \<Rightarrow> 0 \<le> ms \<and> ms \<le> 3153600000000)"

definition attempts_ok :: "job_row \<Rightarrow> bool" where
  "attempts_ok j \<longleftrightarrow>
     1 \<le> j_max_attempts j \<and> j_max_attempts j \<le> max_attempts_cap \<and>
     0 \<le> j_attempts j \<and> j_attempts j \<le> j_max_attempts j \<and>
     (j_status j \<noteq> Queued \<or> j_attempts j < j_max_attempts j)"

definition row_ok :: "job_row \<Rightarrow> bool" where
  "row_ok j \<longleftrightarrow>
     (case j_dedupe_key j of None \<Rightarrow> True | Some k \<Rightarrow> length k \<le> 255) \<and>
     1 \<le> length (j_queue j) \<and> length (j_queue j) \<le> 255 \<and>
     1 \<le> length (j_name j) \<and> length (j_name j) \<le> 255 \<and>
     (case j_timeout_ms j of None \<Rightarrow> True | Some ms \<Rightarrow> 1 \<le> ms \<and> ms \<le> 3153600000000) \<and>
     0 \<le> j_retry_delay_ms j \<and> j_retry_delay_ms j \<le> 3153600000000 \<and>
     ttl_ok (j_result_ttl_ms j) \<and> ttl_ok (j_failed_ttl_ms j) \<and>
     (case j_error j of None \<Rightarrow> True | Some e \<Rightarrow> length e \<le> 1048576) \<and>
     (j_kind j = ''job'' \<or> j_kind j = ''cron'') \<and>
     attempts_ok j \<and>
     (j_status j \<in> {Running, Aborting} \<longrightarrow> j_started_at j \<noteq> None)"

text \<open>The partial unique index covers the rows that hold their dedupe key.\<close>

definition is_live :: "job_row \<Rightarrow> bool" where
  "is_live j \<longleftrightarrow> j_status j \<in> {Queued, Running, Aborting}"

section \<open>Enqueue requests\<close>

definition MIN_TIMESTAMPTZ :: timestamp where "MIN_TIMESTAMPTZ = -210866803200 * 1000000000"

text \<open>\<^verbatim>\<open>Timestamp::MAX\<close>: 9999-12-30T22:00:00.999999999Z; an addition past it fails.\<close>

definition TIMESTAMP_MAX :: timestamp where "TIMESTAMP_MAX = 253402207200 * 1000000000 + 999999999"

definition timestamp_checked_add :: "timestamp \<Rightarrow> duration \<Rightarrow> timestamp option" where
  "timestamp_checked_add t d = (if t + int d \<le> TIMESTAMP_MAX then Some (t + int d) else None)"

definition MAX_INDEXED_KEY_BYTES :: nat where "MAX_INDEXED_KEY_BYTES = 255"

definition validate_dedupe_key :: "string \<Rightarrow> unit result" where
  "validate_dedupe_key key =
     (if NUL \<in> set key then Inl (Config ''dedupe key must not contain NUL'')
      else if length key > MAX_INDEXED_KEY_BYTES
        then Inl (Config ''dedupe key must not be longer than 255 bytes'')
      else Inr ())"

record job_request =
  rq_name :: string
  rq_payload :: json
  rq_config :: job_config
  rq_dedupe_key :: "string option"
  rq_scheduled_at :: "timestamp option"
  rq_meta :: json

definition job_request_new :: "string \<Rightarrow> json \<Rightarrow> job_request" where
  "job_request_new name payload = \<lparr>
     rq_name = name, rq_payload = payload, rq_config = job_config_default,
     rq_dedupe_key = None, rq_scheduled_at = None, rq_meta = JObject [] \<rparr>"

definition config_err :: "string + unit \<Rightarrow> unit result" where
  "config_err r = (case r of Inl m \<Rightarrow> Inl (Config m) | Inr _ \<Rightarrow> Inr ())"

definition validate_scheduled_at :: "timestamp \<Rightarrow> timestamp \<Rightarrow> unit result" where
  "validate_scheduled_at now scheduled_at =
     (if scheduled_at < MIN_TIMESTAMPTZ
        then Inl (Config ''job schedule time is below PostgreSQL's supported timestamp range'')
      else if (case timestamp_checked_add now MAX_DURATION of
                 None \<Rightarrow> False | Some horizon \<Rightarrow> scheduled_at > horizon)
        then Inl (Config ''job schedule time exceeds the maximum supported duration of 3153600000s from now'')
      else Inr ())"

definition job_request_validate ::
    "(json \<Rightarrow> string list) \<Rightarrow> timestamp \<Rightarrow> job_request \<Rightarrow> unit result" where
  "job_request_validate chunks now r =
     (if rq_name r = '''' then Inl (Config ''job name must not be empty'')
      else if length (rq_name r) > 255 then Inl (Config ''job name must not be longer than 255 bytes'')
      else if NUL \<in> set (rq_name r) then Inl (Config ''job name must not contain NUL'')
      else
        and_then (case rq_dedupe_key r of Some key \<Rightarrow> validate_dedupe_key key | None \<Rightarrow> Inr ()) (\<lambda>_.
        and_then (config_err (validate_json_document chunks ''job payload'' (rq_payload r))) (\<lambda>_.
        and_then (config_err (validate_json_document chunks ''job meta'' (rq_meta r))) (\<lambda>_.
        and_then (case rq_scheduled_at r of Some t \<Rightarrow> validate_scheduled_at now t | None \<Rightarrow> Inr ()) (\<lambda>_.
        job_config_validate (rq_config r))))))"

section \<open>Builders\<close>

text \<open>
  \<^verbatim>\<open>JobBuilder\<close>: the arguments are kept with the outcome of encoding them (the
  serialization of user types is not the crate's), \<^verbatim>\<open>J::NAME\<close> as the name.
\<close>

record job_builder =
  b_name :: string
  b_payload :: "json result"
  b_config :: job_config
  b_dedupe_key :: "string option"
  b_scheduled_at :: "timestamp option"
  b_delay :: "duration option"
  b_meta :: json

definition builder_new :: "string \<Rightarrow> job_config \<Rightarrow> json result \<Rightarrow> job_builder" where
  "builder_new name config args = \<lparr>
     b_name = name, b_payload = args, b_config = config, b_dedupe_key = None,
     b_scheduled_at = None, b_delay = None, b_meta = JObject [] \<rparr>"

definition builder_dedupe_key :: "string \<Rightarrow> job_builder \<Rightarrow> job_builder" where
  "builder_dedupe_key key b = b\<lparr> b_dedupe_key := Some key \<rparr>"

definition builder_at :: "timestamp \<Rightarrow> job_builder \<Rightarrow> job_builder" where
  "builder_at w b = b\<lparr> b_scheduled_at := Some w, b_delay := None \<rparr>"

definition builder_delay :: "duration \<Rightarrow> job_builder \<Rightarrow> job_builder" where
  "builder_delay d b = b\<lparr> b_scheduled_at := None, b_delay := Some d \<rparr>"

definition builder_timeout :: "duration \<Rightarrow> job_builder \<Rightarrow> job_builder" where
  "builder_timeout t b = b\<lparr> b_config := (b_config b)\<lparr> cfg_timeout := Some t \<rparr> \<rparr>"

definition builder_no_timeout :: "job_builder \<Rightarrow> job_builder" where
  "builder_no_timeout b = b\<lparr> b_config := (b_config b)\<lparr> cfg_timeout := None \<rparr> \<rparr>"

definition builder_into_parts :: "job_builder \<Rightarrow> (job_request \<times> duration option) result" where
  "builder_into_parts b =
     and_then (b_payload b) (\<lambda>payload. Inr
       (\<lparr> rq_name = b_name b, rq_payload = payload, rq_config = b_config b,
          rq_dedupe_key = b_dedupe_key b, rq_scheduled_at = b_scheduled_at b, rq_meta = b_meta b \<rparr>,
        b_delay b))"

text \<open>A Rust string in \<^verbatim>\<open>{:?}\<close> form (the escapes of unusual characters are left out).\<close>

definition debug_str :: "string \<Rightarrow> string" where
  "debug_str s = [CHR 0x22] @ s @ [CHR 0x22]"

definition builder_into_cron_template ::
    "(json \<Rightarrow> string list) \<Rightarrow> timestamp \<Rightarrow> job_builder \<Rightarrow> job_request result" where
  "builder_into_cron_template chunks now b =
     and_then (builder_into_parts b) (\<lambda>(job, delay).
       if delay \<noteq> None \<or> rq_scheduled_at job \<noteq> None
       then Inl (Config (''cron job '' @ debug_str (rq_name job) @
              '' cannot use delay() or at(): the cron expression schedules every occurrence''))
       else and_then (job_request_validate chunks now job) (\<lambda>_. Inr job))"

section \<open>Retention pairs\<close>

record job_retentions =
  rt_result :: job_retention
  rt_failed :: job_retention

definition deletes_immediately :: "job_retentions \<Rightarrow> bool" where
  "deletes_immediately r \<longleftrightarrow> rt_result r = DeleteImmediately \<or> rt_failed r = DeleteImmediately"

definition config_retentions :: "job_config \<Rightarrow> job_retentions" where
  "config_retentions c = \<lparr> rt_result = cfg_retention c, rt_failed = cfg_failed_retention c \<rparr>"

section \<open>Lemmas\<close>

lemma is_live_iff: "is_live j \<longleftrightarrow> \<not> is_terminal (j_status j)"
  by (cases "j_status j") (auto simp: is_live_def)

lemma config_err_Inr [simp]: "config_err r = Inr u \<longleftrightarrow> (\<exists>x. r = Inr x)"
  by (auto simp: config_err_def split: sum.splits)

lemma validate_dedupe_key_Inr [simp]:
  "validate_dedupe_key k = Inr u \<longleftrightarrow> NUL \<notin> set k \<and> length k \<le> 255"
  by (auto simp: validate_dedupe_key_def MAX_INDEXED_KEY_BYTES_def)

lemma job_request_validate_Inr [valid_elims]:
  "job_request_validate chunks now r = Inr u \<longleftrightarrow>
     rq_name r \<noteq> '''' \<and> length (rq_name r) \<le> 255 \<and> NUL \<notin> set (rq_name r) \<and>
     (\<forall>k. rq_dedupe_key r = Some k \<longrightarrow> NUL \<notin> set k \<and> length k \<le> 255) \<and>
     validate_json_document chunks ''job payload'' (rq_payload r) = Inr () \<and>
     validate_json_document chunks ''job meta'' (rq_meta r) = Inr () \<and>
     (\<forall>t. rq_scheduled_at r = Some t \<longrightarrow> validate_scheduled_at now t = Inr ()) \<and>
     job_config_validate (rq_config r) = Inr ()"
  by (cases "rq_dedupe_key r"; cases "rq_scheduled_at r") (auto simp: job_request_validate_def)

section \<open>Properties\<close>

text \<open>
  a status survives its text column and no other text is a status: parsing
  accepts exactly the six stored words, and the two directions are inverse.
\<close>

theorem status_round_trip:
  "status_from_str s = Inr st \<longleftrightarrow> s = status_as_str st"
  by (cases st) (auto simp: status_from_str_def)

text \<open>
  \<^verbatim>\<open>at\<close> and \<^verbatim>\<open>delay\<close> of a builder exclude each other: whatever was set before, the
  last call alone decides when the job runs. A builder on which either was called
  last is refused as a cron template, and one with neither becomes exactly the
  request it would enqueue, once that request is valid.
\<close>

theorem builder_schedule_exclusive:
  "builder_into_parts (builder_at t (builder_delay d b)) = builder_into_parts (builder_at t b) \<and>
   builder_into_parts (builder_delay d (builder_at t b)) = builder_into_parts (builder_delay d b) \<and>
   (\<forall>rq. builder_into_cron_template chunks now (builder_at t b) \<noteq> Inr rq) \<and>
   (\<forall>rq. builder_into_cron_template chunks now (builder_delay d b) \<noteq> Inr rq) \<and>
   (\<forall>rq. builder_into_cron_template chunks now b = Inr rq \<longleftrightarrow>
      builder_into_parts b = Inr (rq, None) \<and> rq_scheduled_at rq = None \<and>
      job_request_validate chunks now rq = Inr ())"
  by (auto simp: builder_into_parts_def builder_at_def builder_delay_def
      builder_into_cron_template_def split: if_splits)

end
