(* ===== verification/Db_Store.thy ===== *)
theory Db_Store
  imports Job_Model
begin

text \<open>
  The shared PostgreSQL store as the crate sees it: the four tables of the
  migration as lists of rows and the notifications committed so far, the schema
  invariant \<open>store_ok\<close> (CHECK constraints, primary keys and the partial unique
  index on live dedupe keys), the recovery predicate \<open>job_is_stuck\<close>, and the
  process-local part of a \<^verbatim>\<open>Database\<close> handle. The locales state what an UPDATE of
  the jobs table has to promise; every UPDATE of the crate is an
  interpretation of one of them.
\<close>

section \<open>Tables\<close>

record worker_row =
  w_id :: uuid
  w_queue :: string
  w_stats :: json
  w_metadata :: "json option"
  w_started_at :: timestamp
  w_heartbeat_at :: timestamp
  w_expires_at :: timestamp
  w_accepting :: bool

record cron_occurrence =
  co_queue :: string
  co_dedupe_key :: string
  co_scheduled_at :: timestamp
  co_expires_at :: timestamp

record cron_schedule =
  cs_queue :: string
  cs_dedupe_key :: string
  cs_name :: string
  cs_expression :: string
  cs_definition :: json
  cs_revision :: int
  cs_misfire_policy :: string
  cs_grace_ms :: "int option"
  cs_next_run_at :: timestamp
  cs_created_at :: timestamp
  cs_updated_at :: timestamp

text \<open>
  \<^verbatim>\<open>pg_notify\<close> on a queue's wakeup channel or on its completion channel, whose
  payload names the job and its status.
\<close>

datatype notification = NEnqueue string | NDone string uuid job_status

record store =
  st_jobs :: "job_row list"
  st_workers :: "worker_row list"
  st_occurrences :: "cron_occurrence list"
  st_schedules :: "cron_schedule list"
  st_notifications :: "notification list"

definition empty_store :: store where
  "empty_store = \<lparr> st_jobs = [], st_workers = [], st_occurrences = [], st_schedules = [],
     st_notifications = [] \<rparr>"

definition notify :: "notification list \<Rightarrow> store \<Rightarrow> store" where
  "notify ns s = s\<lparr> st_notifications := st_notifications s @ ns \<rparr>"

section \<open>Schema invariant\<close>

definition live_key :: "job_row \<Rightarrow> (string \<times> string) option" where
  "live_key j = (if is_live j then map_option (Pair (j_queue j)) (j_dedupe_key j) else None)"

definition live_keys :: "job_row list \<Rightarrow> (string \<times> string) list" where
  "live_keys rows = List.map_filter live_key rows"

definition jobs_ok :: "job_row list \<Rightarrow> bool" where
  "jobs_ok rows \<longleftrightarrow> list_all row_ok rows \<and> distinct (map j_id rows) \<and> distinct (live_keys rows)"

definition workers_ok :: "worker_row list \<Rightarrow> bool" where
  "workers_ok rows \<longleftrightarrow> distinct (map w_id rows)"

definition occurrence_key :: "cron_occurrence \<Rightarrow> string \<times> string \<times> timestamp" where
  "occurrence_key c = (co_queue c, co_dedupe_key c, co_scheduled_at c)"

definition schedule_key :: "cron_schedule \<Rightarrow> string \<times> string" where
  "schedule_key c = (cs_queue c, cs_dedupe_key c)"

definition schedule_ok :: "cron_schedule \<Rightarrow> bool" where
  "schedule_ok c \<longleftrightarrow> 0 \<le> cs_revision c \<and> cs_misfire_policy c \<in> {''skip'', ''fire_once''} \<and>
     (case cs_grace_ms c of None \<Rightarrow> True | Some g \<Rightarrow> 0 \<le> g)"

definition crons_ok :: "store \<Rightarrow> bool" where
  "crons_ok s \<longleftrightarrow> distinct (map occurrence_key (st_occurrences s)) \<and>
     distinct (map schedule_key (st_schedules s)) \<and> list_all schedule_ok (st_schedules s)"

definition store_ok :: "store \<Rightarrow> bool" where
  "store_ok s \<longleftrightarrow> jobs_ok (st_jobs s) \<and> workers_ok (st_workers s) \<and> crons_ok s"

section \<open>Recovery predicate\<close>

text \<open>
  \<^verbatim>\<open>ironqueue.job_is_stuck\<close>. A NULL clock makes a comparison NULL, which a WHERE
  clause does not take; a missing lease is \<open>-infinity\<close>.
\<close>

definition job_is_stuck :: "timestamp \<Rightarrow> int \<Rightarrow> job_row \<Rightarrow> timestamp option \<Rightarrow> bool" where
  "job_is_stuck now grace_ms j lease_expires_at \<longleftrightarrow>
     (case (j_timeout_ms j, j_started_at j) of
        (Some t, Some started) \<Rightarrow> started + interval_ms (t + grace_ms) < now
      | _ \<Rightarrow> False) \<or>
     ((case (case j_touched_at j of Some t \<Rightarrow> Some t | None \<Rightarrow> j_started_at j) of
         Some t \<Rightarrow> t + interval_ms grace_ms < now
       | None \<Rightarrow> False) \<and>
      (case lease_expires_at of Some e \<Rightarrow> e + interval_ms grace_ms \<le> now | None \<Rightarrow> True))"

text \<open>The lease row that covers an attempt, and whether it is live.\<close>

definition lease_row :: "store \<Rightarrow> job_row \<Rightarrow> worker_row option" where
  "lease_row s j = find (\<lambda>w. Some (w_id w) = j_worker_id j \<and> w_queue w = j_queue j) (st_workers s)"

definition has_live_lease :: "store \<Rightarrow> timestamp \<Rightarrow> job_row \<Rightarrow> bool" where
  "has_live_lease s now j \<longleftrightarrow>
     list_ex (\<lambda>w. Some (w_id w) = j_worker_id j \<and> w_queue w = j_queue j \<and> w_expires_at w > now) (st_workers s)"

section \<open>Process-local state\<close>

record counters =
  n_complete :: nat
  n_failed :: nat
  n_retried :: nat
  n_aborted :: nat

text \<open>
  The fields of \<^verbatim>\<open>Database\<close> that decide what its statements do, with the enqueue
  wakeup throttle and the in-process counters.
\<close>

record handle =
  h_name :: string
  h_priorities :: "int \<times> int"
  h_sweep_grace :: duration
  h_sweep_batch_size :: int
  h_notify_throttle :: "duration option"
  h_last_notify_ms :: nat
  h_counters :: counters

text \<open>
  The clocks of one call: the server's, the client's, and the handle's monotonic
  one; and what the compare-and-swap of the throttle finds when other threads
  race it.
\<close>

record moment =
  m_server :: timestamp
  m_client :: timestamp
  m_elapsed_ms :: nat
  m_cas_seen :: "nat list"

lemma live_keys_Nil [simp]: "live_keys [] = []"
  by (simp add: live_keys_def List.map_filter_simps)

lemma live_keys_Cons [simp]:
  "live_keys (j # rows) = (case live_key j of None \<Rightarrow> live_keys rows | Some k \<Rightarrow> k # live_keys rows)"
  by (cases "live_key j") (simp_all add: live_keys_def List.map_filter_simps)

section \<open>Updates of the jobs table\<close>

text \<open>
  The contract of an UPDATE: it keeps the identity columns, satisfies the CHECK
  constraints, never revives a finished row and never lowers the attempt counter
  every recovery guard fences on.
\<close>

locale row_update =
  fixes p :: "job_row \<Rightarrow> bool" and f :: "job_row \<Rightarrow> job_row"
  assumes keeps_identity:
      "p j \<Longrightarrow> j_id (f j) = j_id j \<and> j_queue (f j) = j_queue j \<and> j_dedupe_key (f j) = j_dedupe_key j"
    and keeps_checks: "p j \<Longrightarrow> row_ok j \<Longrightarrow> row_ok (f j)"
    and never_revives: "p j \<Longrightarrow> is_live (f j) \<Longrightarrow> is_live j"
    and attempts_mono: "p j \<Longrightarrow> j_attempts j \<le> j_attempts (f j)"
begin

lemma live_key_update: "p j \<Longrightarrow> live_key (f j) = Some k \<Longrightarrow> live_key j = Some k"
  using keeps_identity [of j] never_revives [of j] by (auto simp: live_key_def split: if_splits)

lemma live_keys_update_subset: "set (live_keys (update_rows p f rows)) \<subseteq> set (live_keys rows)"
  by (induction rows) (auto simp: live_key_update split: option.splits if_splits)

lemma distinct_live_keys_update: "distinct (live_keys rows) \<Longrightarrow> distinct (live_keys (update_rows p f rows))"
proof (induction rows)
  case (Cons j rows)
  then show ?case
    using live_keys_update_subset [of rows] live_key_update [of j]
    by (auto split: option.splits if_splits)
qed simp

lemma ids_update: "map j_id (update_rows p f rows) = map j_id rows"
  by (induction rows) (auto simp: keeps_identity)

lemma jobs_ok_update: "jobs_ok rows \<Longrightarrow> jobs_ok (update_rows p f rows)"
  using distinct_live_keys_update
  by (auto simp: jobs_ok_def list_all_iff ids_update in_update_rows keeps_checks)

lemma attempts_update:
  "j \<in> set rows \<Longrightarrow> \<exists>j' \<in> set (update_rows p f rows). j_id j' = j_id j \<and> j_attempts j \<le> j_attempts j'"
  using attempts_mono [of j] keeps_identity [of j]
  by (intro bexI [of _ "if p j then f j else j"]) (auto simp: in_update_rows)

end

text \<open>An UPDATE that only takes live rows leaves the history of finished jobs alone.\<close>

locale live_row_update = row_update +
  assumes only_live: "p j \<Longrightarrow> is_live j"
begin

lemma terminal_rows_unchanged:
  "j \<in> set rows \<Longrightarrow> \<not> is_live j \<Longrightarrow> j \<in> set (update_rows p f rows)"
  using only_live [of j] by (auto simp: in_update_rows)

end

section \<open>Lemmas\<close>

lemma jobs_ok_delete: "jobs_ok rows \<Longrightarrow> jobs_ok (delete_rows p rows)"
proof -
  have sub: "set (live_keys (delete_rows p rows)) \<subseteq> set (live_keys rows)" for rows
    by (induction rows) (auto simp: delete_rows_def split: option.splits)
  have "distinct (live_keys rows) \<Longrightarrow> distinct (live_keys (delete_rows p rows))"
  proof (induction rows)
    case (Cons j rows)
    then show ?case using sub [of rows]
      by (auto simp: delete_rows_def split: option.splits)
  qed (simp add: delete_rows_def)
  then show "jobs_ok rows \<Longrightarrow> jobs_ok (delete_rows p rows)"
    by (auto simp: jobs_ok_def list_all_iff distinct_map_delete_rows)
qed

lemma jobs_ok_unique_id:
  "jobs_ok rows \<Longrightarrow> j \<in> set rows \<Longrightarrow> j' \<in> set rows \<Longrightarrow> j_id j = j_id j' \<Longrightarrow> j = j'"
  by (auto simp: jobs_ok_def intro: distinct_key_eq)

lemma jobs_ok_lookup:
  "jobs_ok rows \<Longrightarrow> j \<in> set rows \<Longrightarrow> lookup_row j_id (j_id j) rows = Some j"
  by (simp add: jobs_ok_def lookup_row_eq)

lemma live_keys_mem: "k \<in> set (live_keys rows) \<longleftrightarrow> (\<exists>j\<in>set rows. live_key j = Some k)"
  by (induction rows) (auto split: option.splits)

lemma live_keys_append: "live_keys (xs @ ys) = live_keys xs @ live_keys ys"
  by (induction xs) (auto split: option.splits)

lemma live_key_Some:
  "live_key j = Some (q, k) \<longleftrightarrow> is_live j \<and> j_queue j = q \<and> j_dedupe_key j = Some k"
  by (auto simp: live_key_def)

lemma live_keys_unique:
  "distinct (live_keys rows) \<Longrightarrow> i < length rows \<Longrightarrow> i' < length rows \<Longrightarrow>
   live_key (rows ! i) = Some k \<Longrightarrow> live_key (rows ! i') = Some k \<Longrightarrow> i = i'"
proof (induction rows arbitrary: i i')
  case (Cons j rows)
  have tail: "live_key (rows ! n) = Some k \<Longrightarrow> n < length rows \<Longrightarrow> k \<in> set (live_keys rows)" for n
    by (auto simp: live_keys_mem)
  from Cons.prems have d: "distinct (live_keys rows)" "\<And>x. live_key j = Some x \<Longrightarrow> x \<notin> set (live_keys rows)"
    by (auto split: option.splits)
  show ?case
    using Cons.prems Cons.IH [OF d(1)] tail d(2) by (cases i; cases i') fastforce+
qed simp

lemma jobs_ok_one_holder:
  assumes "jobs_ok rows" "j \<in> set rows" "j' \<in> set rows" "live_key j = Some k" "live_key j' = Some k"
  shows "j = j'"
  using assms live_keys_unique [of rows _ _ k] by (metis in_set_conv_nth jobs_ok_def)

lemma store_ok_simps [simp]:
  "st_jobs (notify ns s) = st_jobs s" "st_workers (notify ns s) = st_workers s"
  "st_occurrences (notify ns s) = st_occurrences s" "st_schedules (notify ns s) = st_schedules s"
  by (simp_all add: notify_def)

lemma store_ok_notify [simp]: "store_ok (notify ns s) = store_ok s"
  by (simp add: store_ok_def crons_ok_def)

lemma store_ok_set_jobs:
  "store_ok s \<Longrightarrow> jobs_ok js \<Longrightarrow> store_ok (s\<lparr> st_jobs := js \<rparr>)"
  by (simp add: store_ok_def crons_ok_def)

lemma store_ok_set_workers:
  "store_ok s \<Longrightarrow> workers_ok ws \<Longrightarrow> store_ok (s\<lparr> st_workers := ws \<rparr>)"
  by (simp add: store_ok_def crons_ok_def)

lemma store_ok_jobs: "store_ok s \<Longrightarrow> jobs_ok (st_jobs s)"
  by (simp add: store_ok_def)

lemma store_ok_workers: "store_ok s \<Longrightarrow> workers_ok (st_workers s)"
  by (simp add: store_ok_def)

lemma store_ok_empty: "store_ok empty_store"
  by (simp add: store_ok_def empty_store_def jobs_ok_def workers_ok_def crons_ok_def)

end
