(* ===== verification/Db_Enqueue.thy ===== *)
theory Db_Enqueue
  imports Db_Store
begin

text \<open>
  Publishing jobs (\<^verbatim>\<open>database.rs\<close>): the wakeup throttle, the single and the batch
  enqueue with their dedupe decisions, and the typed layer of \<^verbatim>\<open>job.rs\<close> above them.

  Every statement sees the store as committed when it runs. What other writers do
  between two statements of one enqueue transaction is a parameter (\<open>env\<close>); the
  advisory lock keeps other enqueues of the same key out, so only writers that do
  not take the lock can change who holds it.
\<close>

section \<open>The wakeup throttle\<close>

definition NEVER_NOTIFIED :: nat where "NEVER_NOTIFIED = u64_max"

text \<open>
  The compare-and-swap loop. \<open>seen\<close> lists the values the swaps find, in order; a
  swap that finds what was last loaded succeeds, and so does one nobody races.
\<close>

fun throttle_loop :: "nat \<Rightarrow> nat \<Rightarrow> nat \<Rightarrow> nat list \<Rightarrow> bool" where
  "throttle_loop window_ms now_ms lst [] =
     (\<not> (lst \<noteq> NEVER_NOTIFIED \<and> now_ms - lst < window_ms))"
| "throttle_loop window_ms now_ms lst (current # seen) =
     (if lst \<noteq> NEVER_NOTIFIED \<and> now_ms - lst < window_ms then False
      else if current = lst then True
      else throttle_loop window_ms now_ms current seen)"

definition take_throttle_slot :: "moment \<Rightarrow> duration \<Rightarrow> handle \<Rightarrow> bool \<times> handle" where
  "take_throttle_slot m window h =
     (let window_ms = nat \<bar>duration_to_ms window\<bar>;
          now_ms = (if m_elapsed_ms m \<le> u64_max then m_elapsed_ms m else NEVER_NOTIFIED - 1)
      in if throttle_loop window_ms now_ms (h_last_notify_ms h) (m_cas_seen m)
         then (True, h\<lparr> h_last_notify_ms := now_ms \<rparr>)
         else (False, h))"

definition authorize_wakeup :: "moment \<Rightarrow> bool \<Rightarrow> handle \<Rightarrow> bool \<times> handle" where
  "authorize_wakeup m due_by_client_clock h =
     (case h_notify_throttle h of
        None \<Rightarrow> (True, h)
      | Some window \<Rightarrow> if due_by_client_clock then take_throttle_slot m window h else (False, h))"

definition is_due_now :: "moment \<Rightarrow> job_request \<Rightarrow> duration option \<Rightarrow> bool" where
  "is_due_now m job delay \<longleftrightarrow>
     (case delay of None \<Rightarrow> True | Some d \<Rightarrow> d = 0) \<and>
     (case rq_scheduled_at job of None \<Rightarrow> True | Some t \<Rightarrow> t \<le> m_client m)"

section \<open>Validation\<close>

definition validate_enqueue ::
    "(json \<Rightarrow> string list) \<Rightarrow> moment \<Rightarrow> job_request \<Rightarrow> duration option \<Rightarrow> unit result" where
  "validate_enqueue chunks m job delay =
     and_then (job_request_validate chunks (m_client m) job) (\<lambda>_.
       case delay of Some d \<Rightarrow> validate_duration ''job delay'' d | None \<Rightarrow> Inr ())"

definition MAX_ENQUEUE_BATCH_JOBS :: nat where "MAX_ENQUEUE_BATCH_JOBS = 1000"
definition MAX_ENQUEUE_BATCH_BYTES :: nat where "MAX_ENQUEUE_BATCH_BYTES = 256 * 1048576"

fun validate_batch_loop ::
    "(json \<Rightarrow> string list) \<Rightarrow> moment \<Rightarrow> nat \<Rightarrow> (job_request \<times> duration option) list \<Rightarrow> unit result" where
  "validate_batch_loop chunks m bytes [] = Inr ()"
| "validate_batch_loop chunks m bytes ((job, delay) # rest) =
     and_then (validate_enqueue chunks m job delay) (\<lambda>_.
       let bytes' = min (min (bytes + json_byte_len chunks (rq_payload job)) u64_max
                         + json_byte_len chunks (rq_meta job)) u64_max
       in if bytes' > MAX_ENQUEUE_BATCH_BYTES
          then Inl (Config ''enqueue batch exceeds the maximum of 268435456 bytes of serialized payload and metadata'')
          else validate_batch_loop chunks m bytes' rest)"

definition validate_batch ::
    "(json \<Rightarrow> string list) \<Rightarrow> moment \<Rightarrow> (job_request \<times> duration option) list \<Rightarrow> unit result" where
  "validate_batch chunks m batch =
     (if length batch > MAX_ENQUEUE_BATCH_JOBS
      then Inl (Config ''enqueue batch exceeds the maximum of 1000 jobs'')
      else validate_batch_loop chunks m 0 batch)"

section \<open>Inserting\<close>

text \<open>Rust's \<^verbatim>\<open>u32 as i32\<close>.\<close>

definition u32_as_i32 :: "nat \<Rightarrow> int" where
  "u32_as_i32 n = (if int n \<le> i32_max then int n else int n - 4294967296)"

definition new_job_row ::
    "string \<Rightarrow> timestamp \<Rightarrow> uuid \<Rightarrow> job_request \<Rightarrow> duration option \<Rightarrow> bool \<Rightarrow> json \<Rightarrow> job_row" where
  "new_job_row queue now new_id job delay awaited backoff = \<lparr>
     j_id = new_id,
     j_dedupe_key = rq_dedupe_key job,
     j_queue = queue,
     j_name = rq_name job,
     j_payload = rq_payload job,
     j_status = Queued,
     j_priority = cfg_priority (rq_config job),
     j_attempts = 0,
     j_max_attempts = u32_as_i32 (cfg_max_attempts (rq_config job)),
     j_timeout_ms = map_option duration_to_ms (cfg_timeout (rq_config job)),
     j_retry_delay_ms = duration_to_ms (cfg_retry_delay (rq_config job)),
     j_backoff = backoff_decode backoff,
     j_result_ttl_ms = as_result_ttl_ms (cfg_retention (rq_config job)),
     j_failed_ttl_ms = as_result_ttl_ms (cfg_failed_retention (rq_config job)),
     j_scheduled_at =
       (case rq_scheduled_at job of
          Some t \<Rightarrow> t
        | None \<Rightarrow> (case delay of Some d \<Rightarrow> now + interval_ms (duration_to_ms d) | None \<Rightarrow> now)),
     j_enqueued_at = now,
     j_started_at = None, j_touched_at = None, j_completed_at = None, j_expires_at = None,
     j_result = None, j_error = None,
     j_meta = rq_meta job,
     j_worker_id = None,
     j_kind = ''job'',
     j_cron_expr = None,
     j_retried_at = None,
     j_awaited = awaited \<rparr>"

text \<open>
  INSERT with \<^verbatim>\<open>ON CONFLICT (queue, dedupe_key) WHERE ... DO NOTHING\<close>: a live holder
  of the key makes it a no-op (\<open>Inr None\<close>); the primary key is not an arbiter, so a
  collision there raises.
\<close>

definition insert_on_conflict :: "job_row \<Rightarrow> job_row list \<Rightarrow> (job_row list option) result" where
  "insert_on_conflict j rows =
     (if (case live_key j of Some k \<Rightarrow> k \<in> set (live_keys rows) | None \<Rightarrow> False) then Inr None
      else if j_id j \<in> set (map j_id rows)
        then Inl (Db ''duplicate key value violates unique constraint jobs_pkey'')
      else Inr (Some (rows @ [j])))"

definition insert_job ::
    "moment \<Rightarrow> uuid \<Rightarrow> job_request \<Rightarrow> duration option \<Rightarrow> bool \<Rightarrow> handle \<Rightarrow> store
     \<Rightarrow> (uuid option) result \<times> handle \<times> store" where
  "insert_job m new_id job delay awaited h s =
     (case backoff_to_json (cfg_backoff (rq_config job)) of
        None \<Rightarrow> (Inl (Serde ''duration does not fit in u64 ms''), h, s)
      | Some backoff \<Rightarrow>
          (let (wake, h') = authorize_wakeup m (is_due_now m job delay) h;
               j = new_job_row (h_name h) (m_server m) new_id job delay awaited backoff
           in case insert_on_conflict j (st_jobs s) of
                Inl e \<Rightarrow> (Inl e, h', s)
              | Inr None \<Rightarrow> (Inr None, h', s)
              | Inr (Some js) \<Rightarrow>
                  (Inr (Some new_id), h',
                   notify (if wake \<and> j_scheduled_at j \<le> m_server m then [NEnqueue (h_name h)] else [])
                     (s\<lparr> st_jobs := js \<rparr>))))"

section \<open>Dedupe holders\<close>

record dedupe_holder =
  dh_id :: uuid
  dh_name :: string
  dh_result_ttl_ms :: "int option"
  dh_failed_ttl_ms :: "int option"
  dh_scheduled_at :: timestamp
  dh_kind :: string

definition holder_of_row :: "job_row \<Rightarrow> dedupe_holder" where
  "holder_of_row j = \<lparr> dh_id = j_id j, dh_name = j_name j, dh_result_ttl_ms = j_result_ttl_ms j,
     dh_failed_ttl_ms = j_failed_ttl_ms j, dh_scheduled_at = j_scheduled_at j, dh_kind = j_kind j \<rparr>"

definition holder_retentions :: "dedupe_holder \<Rightarrow> job_retentions" where
  "holder_retentions d = \<lparr> rt_result = from_result_ttl_ms (dh_result_ttl_ms d),
     rt_failed = from_result_ttl_ms (dh_failed_ttl_ms d) \<rparr>"

datatype db_enqueue_result = Inserted uuid | Deduplicated uuid string job_retentions

definition deduplicated :: "dedupe_holder \<Rightarrow> db_enqueue_result" where
  "deduplicated d = Deduplicated (dh_id d) (dh_name d) (holder_retentions d)"

definition live_dedupe_holder :: "handle \<Rightarrow> string \<Rightarrow> store \<Rightarrow> dedupe_holder option" where
  "live_dedupe_holder h key s =
     map_option holder_of_row (find (\<lambda>j. live_key j = Some (h_name h, key)) (st_jobs s))"

definition live_dedupe_holders :: "handle \<Rightarrow> string list \<Rightarrow> store \<Rightarrow> (string \<times> dedupe_holder) list" where
  "live_dedupe_holders h keys s =
     List.map_filter (\<lambda>j. case live_key j of
         Some (q, k) \<Rightarrow> if q = h_name h \<and> k \<in> set keys then Some (k, holder_of_row j) else None
       | None \<Rightarrow> None) (st_jobs s)"

section \<open>Single enqueue\<close>

definition dedupe_race :: "string \<Rightarrow> error" where
  "dedupe_race key = DedupeRace (''dedupe key '' @ debug_str key @
     '' was taken by a writer that did not take the enqueue lock, and released again before it could be reported; retry the enqueue'')"

definition enqueue_validated_in ::
    "(store \<Rightarrow> store) \<Rightarrow> (store \<Rightarrow> store) \<Rightarrow> moment \<Rightarrow> uuid \<Rightarrow> job_request \<Rightarrow> duration option \<Rightarrow> bool
     \<Rightarrow> handle \<Rightarrow> store \<Rightarrow> db_enqueue_result result \<times> handle \<times> store" where
  "enqueue_validated_in env1 env2 m new_id job delay awaited h s =
     (case Option.bind (rq_dedupe_key job) (\<lambda>key. live_dedupe_holder h key s) of
        Some d \<Rightarrow> (Inr (deduplicated d), h, s)
      | None \<Rightarrow>
          (case insert_job m new_id job delay awaited h (env1 s) of
             (Inl e, h', s') \<Rightarrow> (Inl e, h', s')
           | (Inr (Some i), h', s') \<Rightarrow> (Inr (Inserted i), h', s')
           | (Inr None, h', s') \<Rightarrow>
               (case rq_dedupe_key job of
                  Some key \<Rightarrow>
                    (case live_dedupe_holder h key (env2 s') of
                       Some d \<Rightarrow> (Inr (deduplicated d), h', env2 s')
                     | None \<Rightarrow> (Inl (dedupe_race key), h', env2 s'))
                | None \<Rightarrow> (Inl (Db ''unreachable: a keyless insert has no conflict target''), h', s'))))"

definition enqueue_raw_delayed_result ::
    "(json \<Rightarrow> string list) \<Rightarrow> (store \<Rightarrow> store) \<Rightarrow> (store \<Rightarrow> store) \<Rightarrow> moment \<Rightarrow> uuid \<Rightarrow> job_request
     \<Rightarrow> duration option \<Rightarrow> bool \<Rightarrow> handle \<Rightarrow> store \<Rightarrow> db_enqueue_result result \<times> handle \<times> store" where
  "enqueue_raw_delayed_result chunks env1 env2 m new_id job delay awaited h s =
     (case validate_enqueue chunks m job delay of
        Inl e \<Rightarrow> (Inl e, h, s)
      | Inr _ \<Rightarrow>
          (if rq_dedupe_key job \<noteq> None
           then enqueue_validated_in env1 env2 m new_id job delay awaited h s
           else case insert_job m new_id job delay awaited h s of
                  (Inl e, h', s') \<Rightarrow> (Inl e, h', s')
                | (Inr (Some i), h', s') \<Rightarrow> (Inr (Inserted i), h', s')
                | (Inr None, h', s') \<Rightarrow>
                    (Inl (Db ''unreachable: a keyless insert has no conflict target''), h', s')))"

definition enqueue_raw_delayed_in_result ::
    "(json \<Rightarrow> string list) \<Rightarrow> (store \<Rightarrow> store) \<Rightarrow> (store \<Rightarrow> store) \<Rightarrow> moment \<Rightarrow> uuid \<Rightarrow> job_request
     \<Rightarrow> duration option \<Rightarrow> bool \<Rightarrow> handle \<Rightarrow> store \<Rightarrow> db_enqueue_result result \<times> handle \<times> store" where
  "enqueue_raw_delayed_in_result chunks env1 env2 m new_id job delay awaited h s =
     (case validate_enqueue chunks m job delay of
        Inl e \<Rightarrow> (Inl e, h, s)
      | Inr _ \<Rightarrow> enqueue_validated_in env1 env2 m new_id job delay awaited h s)"

definition mark_awaited :: "uuid \<Rightarrow> handle \<Rightarrow> store \<Rightarrow> store" where
  "mark_awaited i h s =
     s\<lparr> st_jobs := update_rows (\<lambda>j. j_id j = i \<and> j_queue j = h_name h \<and> \<not> j_awaited j)
                     (\<lambda>j. j\<lparr> j_awaited := True \<rparr>) (st_jobs s) \<rparr>"

section \<open>Batch enqueue\<close>

record batch_key_holder =
  bk_id :: uuid
  bk_name :: string
  bk_retentions :: job_retentions

definition batch_holder_of :: "dedupe_holder \<Rightarrow> batch_key_holder" where
  "batch_holder_of d = \<lparr> bk_id = dh_id d, bk_name = dh_name d, bk_retentions = holder_retentions d \<rparr>"

definition batch_deduplicated :: "batch_key_holder \<Rightarrow> db_enqueue_result" where
  "batch_deduplicated b = Deduplicated (bk_id b) (bk_name b) (bk_retentions b)"

type_synonym batch_item = "uuid \<times> job_request \<times> duration option"

definition batch_keys :: "(job_request \<times> duration option) list \<Rightarrow> string list" where
  "batch_keys batch = remdups_adj (sort (List.map_filter (\<lambda>(job, _). rq_dedupe_key job) batch))"

definition key_owner_error :: "string \<Rightarrow> string \<Rightarrow> string \<Rightarrow> error" where
  "key_owner_error key owner name =
     Config (''dedupe key '' @ debug_str key @ '' belongs to job '' @ debug_str owner @ '', not '' @ debug_str name)"

text \<open>
  The pass over the batch: which jobs are inserted and what each one is told. A
  job whose key is held (by a live row, or by an earlier job of the batch) is left
  out of the insert.
\<close>

fun batch_plan ::
    "(string \<rightharpoonup> batch_key_holder) \<Rightarrow> batch_item list \<Rightarrow> (batch_item list \<times> db_enqueue_result list) result" where
  "batch_plan holders [] = Inr ([], [])"
| "batch_plan holders ((i, job, delay) # rest) =
     (case rq_dedupe_key job of
        None \<Rightarrow>
          and_then (batch_plan holders rest) (\<lambda>(rows, results).
            Inr ((i, job, delay) # rows, Inserted i # results))
      | Some key \<Rightarrow>
          (case holders key of
             Some holder \<Rightarrow>
               (if bk_name holder \<noteq> rq_name job
                then Inl (key_owner_error key (bk_name holder) (rq_name job))
                else and_then (batch_plan holders rest) (\<lambda>(rows, results).
                       Inr (rows, batch_deduplicated holder # results)))
           | None \<Rightarrow>
               and_then (batch_plan (holders(key \<mapsto> \<lparr> bk_id = i, bk_name = rq_name job,
                    bk_retentions = config_retentions (rq_config job) \<rparr>)) rest)
                 (\<lambda>(rows, results). Inr ((i, job, delay) # rows, Inserted i # results))))"

text \<open>One INSERT over the unnested arrays, row by row under the same conflict rule.\<close>

fun insert_all :: "job_row list \<Rightarrow> job_row list \<Rightarrow> (job_row list \<times> uuid list) result" where
  "insert_all [] rows = Inr (rows, [])"
| "insert_all (j # js) rows =
     and_then (insert_on_conflict j rows) (\<lambda>r.
       case r of
         None \<Rightarrow> insert_all js rows
       | Some rows' \<Rightarrow> and_then (insert_all js rows') (\<lambda>(rows'', ids). Inr (rows'', j_id j # ids)))"

fun encode_backoffs :: "batch_item list \<Rightarrow> json list result" where
  "encode_backoffs [] = Inr []"
| "encode_backoffs ((i, job, delay) # rest) =
     (case backoff_to_json (cfg_backoff (rq_config job)) of
        None \<Rightarrow> Inl (Serde ''duration does not fit in u64 ms'')
      | Some v \<Rightarrow> and_then (encode_backoffs rest) (\<lambda>vs. Inr (v # vs)))"

definition insert_jobs ::
    "moment \<Rightarrow> batch_item list \<Rightarrow> handle \<Rightarrow> store \<Rightarrow> uuid list result \<times> handle \<times> store" where
  "insert_jobs m rows h s =
     (if rows = [] then (Inr [], h, s)
      else case encode_backoffs rows of
        Inl e \<Rightarrow> (Inl e, h, s)
      | Inr backoffs \<Rightarrow>
          (let (wake, h') = authorize_wakeup m (\<exists>(i, job, delay) \<in> set rows. is_due_now m job delay) h;
               js = map (\<lambda>((i, job, delay), v). new_job_row (h_name h) (m_server m) i job delay False v)
                      (zip rows backoffs)
           in case insert_all js (st_jobs s) of
                Inl e \<Rightarrow> (Inl e, h', s)
              | Inr (rows', ids) \<Rightarrow>
                  (Inr ids, h',
                   notify (if wake \<and> (\<exists>j \<in> set js. j_id j \<in> set ids \<and> j_scheduled_at j \<le> m_server m)
                           then [NEnqueue (h_name h)] else [])
                     (s\<lparr> st_jobs := rows' \<rparr>))))"

text \<open>
  After an insert that dropped a row: the holders that replace the dropped rows.
\<close>

fun batch_replacements ::
    "handle \<Rightarrow> store \<Rightarrow> uuid list \<Rightarrow> batch_item list \<Rightarrow> (string \<rightharpoonup> batch_key_holder)
     \<Rightarrow> (string \<rightharpoonup> batch_key_holder) result" where
  "batch_replacements h s inserted [] repl = Inr repl"
| "batch_replacements h s inserted ((i, job, delay) # rest) repl =
     (if i \<in> set inserted then batch_replacements h s inserted rest repl
      else case rq_dedupe_key job of
        None \<Rightarrow> Inl (Config ''batch insert dropped keyless job'')
      | Some key \<Rightarrow>
          (case live_dedupe_holder h key s of
             None \<Rightarrow> Inl (dedupe_race key)
           | Some d \<Rightarrow>
               (if dh_name d \<noteq> rq_name job then Inl (key_owner_error key (dh_name d) (rq_name job))
                else batch_replacements h s inserted rest (repl(key \<mapsto> batch_holder_of d)))))"

definition apply_replacements ::
    "(string \<rightharpoonup> batch_key_holder) \<Rightarrow> batch_item list \<Rightarrow> db_enqueue_result list \<Rightarrow> db_enqueue_result list" where
  "apply_replacements repl items results =
     map (\<lambda>((i, job, delay), r).
        case Option.bind (rq_dedupe_key job) repl of Some b \<Rightarrow> batch_deduplicated b | None \<Rightarrow> r)
       (zip items results)"

text \<open>
  The batch under its locks. An error leaves the caller's transaction to roll back:
  the store keeps only what the other writers did.
\<close>

definition enqueue_batch_validated_in ::
    "(store \<Rightarrow> store) \<Rightarrow> (store \<Rightarrow> store) \<Rightarrow> moment \<Rightarrow> batch_item list
     \<Rightarrow> handle \<Rightarrow> store \<Rightarrow> db_enqueue_result list result \<times> handle \<times> store" where
  "enqueue_batch_validated_in env1 env2 m items h s =
     (let keys = batch_keys (map snd items);
          holders = map_of (map (\<lambda>(k, d). (k, batch_holder_of d)) (live_dedupe_holders h keys s))
      in case batch_plan holders items of
           Inl e \<Rightarrow> (Inl e, h, s)
         | Inr (rows, results) \<Rightarrow>
             (case insert_jobs m rows h (env1 s) of
                (Inl e, h', s') \<Rightarrow> (Inl e, h', s')
              | (Inr inserted, h', s') \<Rightarrow>
                  (if length (remdups inserted) = length rows then (Inr results, h', s')
                   else case batch_replacements h (env2 s') inserted rows Map.empty of
                          Inl e \<Rightarrow> (Inl e, h', env2 (env1 s))
                        | Inr repl \<Rightarrow> (Inr (apply_replacements repl items results), h', env2 s'))))"

definition enqueue_batch_result ::
    "(json \<Rightarrow> string list) \<Rightarrow> (store \<Rightarrow> store) \<Rightarrow> (store \<Rightarrow> store) \<Rightarrow> moment \<Rightarrow> batch_item list
     \<Rightarrow> handle \<Rightarrow> store \<Rightarrow> db_enqueue_result list result \<times> handle \<times> store" where
  "enqueue_batch_result chunks env1 env2 m items h s =
     (case validate_batch chunks m (map snd items) of
        Inl e \<Rightarrow> (Inl e, h, s)
      | Inr _ \<Rightarrow>
          (if items = [] then (Inr [], h, s)
           else if (\<exists>(i, job, delay) \<in> set items. rq_dedupe_key job \<noteq> None)
             then enqueue_batch_validated_in env1 env2 m items h s
           else case insert_jobs m items h s of
                  (Inl e, h', s') \<Rightarrow> (Inl e, h', s')
                | (Inr inserted, h', s') \<Rightarrow>
                    (if length inserted \<noteq> length items
                     then (Inl (Config ''batch insert returned fewer than all keyless rows''), h', s')
                     else (Inr (map (Inserted \<circ> fst) items), h', s'))))"

definition enqueue_batch_in_result ::
    "(json \<Rightarrow> string list) \<Rightarrow> (store \<Rightarrow> store) \<Rightarrow> (store \<Rightarrow> store) \<Rightarrow> moment \<Rightarrow> batch_item list
     \<Rightarrow> handle \<Rightarrow> store \<Rightarrow> db_enqueue_result list result \<times> handle \<times> store" where
  "enqueue_batch_in_result chunks env1 env2 m items h s =
     (case validate_batch chunks m (map snd items) of
        Inl e \<Rightarrow> (Inl e, h, s)
      | Inr _ \<Rightarrow>
          (if items = [] then (Inr [], h, s)
           else enqueue_batch_validated_in env1 env2 m items h s))"

section \<open>The typed layer\<close>

text \<open>
  \<^verbatim>\<open>Queue::enqueue\<close> and \<^verbatim>\<open>Queue::enqueue_and_wait\<close> up to the wait: the handle a publish
  returns is the job's id with the retentions it was published under.
\<close>

record job_handle =
  jh_id :: uuid
  jh_retentions :: job_retentions
  jh_awaited :: bool

datatype enqueue_result = Enqueued job_handle | EDeduplicated job_handle

fun typed_enqueue_result ::
    "string \<Rightarrow> db_enqueue_result \<Rightarrow> job_retentions \<Rightarrow> enqueue_result result" where
  "typed_enqueue_result name (Inserted i) inserted_retentions =
     Inr (Enqueued \<lparr> jh_id = i, jh_retentions = inserted_retentions, jh_awaited = False \<rparr>)"
| "typed_enqueue_result name (Deduplicated i holder_name retentions) inserted_retentions =
     (if holder_name \<noteq> name
      then Inl (Config (''dedupe key belongs to job '' @ debug_str holder_name @ '', not '' @ debug_str name))
      else Inr (EDeduplicated \<lparr> jh_id = i, jh_retentions = retentions, jh_awaited = False \<rparr>))"

fun typed_batch_results ::
    "string \<Rightarrow> db_enqueue_result list \<Rightarrow> job_retentions list \<Rightarrow> enqueue_result list result" where
  "typed_batch_results name (r # rs) (t # ts) =
     and_then (typed_enqueue_result name r t) (\<lambda>x.
       and_then (typed_batch_results name rs ts) (\<lambda>xs. Inr (x # xs)))"
| "typed_batch_results name _ _ = Inr []"

definition queue_enqueue ::
    "(json \<Rightarrow> string list) \<Rightarrow> (store \<Rightarrow> store) \<Rightarrow> (store \<Rightarrow> store) \<Rightarrow> moment \<Rightarrow> uuid \<Rightarrow> job_builder
     \<Rightarrow> handle \<Rightarrow> store \<Rightarrow> enqueue_result result \<times> handle \<times> store" where
  "queue_enqueue chunks env1 env2 m new_id b h s =
     (case builder_into_parts b of
        Inl e \<Rightarrow> (Inl e, h, s)
      | Inr (job, delay) \<Rightarrow>
          (case enqueue_raw_delayed_result chunks env1 env2 m new_id job delay False h s of
             (Inl e, h', s') \<Rightarrow> (Inl e, h', s')
           | (Inr r, h', s') \<Rightarrow>
               (typed_enqueue_result (b_name b) r (config_retentions (rq_config job)), h', s')))"

definition enqueue_and_wait_handle ::
    "(json \<Rightarrow> string list) \<Rightarrow> (store \<Rightarrow> store) \<Rightarrow> (store \<Rightarrow> store) \<Rightarrow> moment \<Rightarrow> uuid \<Rightarrow> job_builder
     \<Rightarrow> handle \<Rightarrow> store \<Rightarrow> job_handle result \<times> handle \<times> store" where
  "enqueue_and_wait_handle chunks env1 env2 m new_id b h s =
     (case builder_into_parts b of
        Inl e \<Rightarrow> (Inl e, h, s)
      | Inr (job, delay) \<Rightarrow>
          (if deletes_immediately (config_retentions (rq_config job))
           then (Inl (Config ''enqueue_and_wait requires retention for both outcomes; DeleteImmediately removes the row before its result or error can be read''), h, s)
           else case enqueue_raw_delayed_result chunks env1 env2 m new_id job delay True h s of
             (Inl e, h', s') \<Rightarrow> (Inl e, h', s')
           | (Inr (Inserted i), h', s') \<Rightarrow>
               (Inr \<lparr> jh_id = i, jh_retentions = config_retentions (rq_config job), jh_awaited = True \<rparr>, h', s')
           | (Inr (Deduplicated i name retentions), h', s') \<Rightarrow>
               (if deletes_immediately retentions
                then (Inl (Config ''enqueue_and_wait cannot wait on the existing deduplicated job because it deletes its row immediately on one of its outcomes''), h', s')
                else if name \<noteq> b_name b
                then (Inl (Config (''dedupe key belongs to job '' @ debug_str name @ '', not '' @ debug_str (b_name b))), h', s')
                else (Inr \<lparr> jh_id = i, jh_retentions = retentions, jh_awaited = False \<rparr>, h', s'))))"

section \<open>Lemmas\<close>

definition handle_ok :: "handle \<Rightarrow> bool" where
  "handle_ok h \<longleftrightarrow> 1 \<le> length (h_name h) \<and> length (h_name h) \<le> 255"

lemma authorize_wakeup_name [simp]: "h_name (snd (authorize_wakeup m due h)) = h_name h"
  by (auto simp: authorize_wakeup_def take_throttle_slot_def Let_def split: option.splits)

lemma validate_enqueue_Inr [valid_elims]:
  "validate_enqueue chunks m job delay = Inr u \<longleftrightarrow>
     job_request_validate chunks (m_client m) job = Inr () \<and>
     (\<forall>d. delay = Some d \<longrightarrow> d \<le> MAX_DURATION)"
  by (cases delay) (auto simp: validate_enqueue_def)

lemma ttl_ok_as_result_ttl_ms:
  "(\<forall>t. r = For t \<longrightarrow> t \<le> MAX_DURATION) \<Longrightarrow> ttl_ok (as_result_ttl_ms r)"
  using duration_to_ms_le by (cases r) (auto simp: ttl_ok_def)

text \<open>A valid request becomes a row every CHECK constraint accepts.\<close>

lemma new_job_row_ok:
  assumes "job_request_validate chunks now' job = Inr ()" "1 \<le> length q" "length q \<le> 255"
  shows "row_ok (new_job_row q now i job delay awaited v)"
proof -
  let ?c = "rq_config job"
  have c: "job_config_validate ?c = Inr ()" and n: "rq_name job \<noteq> ''''" "length (rq_name job) \<le> 255"
    and k: "\<And>k. rq_dedupe_key job = Some k \<Longrightarrow> length k \<le> 255"
    using assms(1) by (auto simp: valid_elims)
  note v = c [unfolded job_config_validate_Inr]
  have "attempts_ok (new_job_row q now i job delay awaited v)"
    using v by (simp add: attempts_ok_def new_job_row_def u32_as_i32_def)
  moreover have "case map_option duration_to_ms (cfg_timeout ?c) of
      None \<Rightarrow> True | Some ms \<Rightarrow> 1 \<le> ms \<and> ms \<le> 3153600000000"
    using v duration_to_ms_pos duration_to_ms_le
    by (cases "cfg_timeout ?c") (auto simp: int_one_le_iff_zero_less)
  moreover have "1 \<le> length (rq_name job)" using n by (cases "rq_name job") auto
  moreover have "0 \<le> duration_to_ms (cfg_retry_delay ?c)" "duration_to_ms (cfg_retry_delay ?c) \<le> 3153600000000"
    using duration_to_ms_nonneg v duration_to_ms_le by auto
  moreover have "ttl_ok (as_result_ttl_ms (cfg_retention ?c))" "ttl_ok (as_result_ttl_ms (cfg_failed_retention ?c))"
    using v ttl_ok_as_result_ttl_ms by blast+
  moreover have "case rq_dedupe_key job of None \<Rightarrow> True | Some k \<Rightarrow> length k \<le> 255"
    using k by (cases "rq_dedupe_key job") auto
  ultimately show ?thesis
    using assms(2,3) n by (simp add: row_ok_def new_job_row_def)
qed

lemma new_job_row_simps [simp]:
  "j_id (new_job_row q now i job delay awaited v) = i"
  "j_queue (new_job_row q now i job delay awaited v) = q"
  "j_name (new_job_row q now i job delay awaited v) = rq_name job"
  "j_status (new_job_row q now i job delay awaited v) = Queued"
  "j_dedupe_key (new_job_row q now i job delay awaited v) = rq_dedupe_key job"
  "j_awaited (new_job_row q now i job delay awaited v) = awaited"
  "j_attempts (new_job_row q now i job delay awaited v) = 0"
  by (simp_all add: new_job_row_def)

lemma live_key_new_job_row [simp]:
  "live_key (new_job_row q now i job delay awaited v) = map_option (Pair q) (rq_dedupe_key job)"
  by (simp add: live_key_def is_live_def)

lemma insert_on_conflict_Some:
  "insert_on_conflict j rows = Inr (Some rows') \<longleftrightarrow>
     rows' = rows @ [j] \<and> j_id j \<notin> set (map j_id rows) \<and>
     (\<forall>k. live_key j = Some k \<longrightarrow> k \<notin> set (live_keys rows))"
  by (auto simp: insert_on_conflict_def split: option.splits)

lemma insert_on_conflict_None:
  "insert_on_conflict j rows = Inr None \<longleftrightarrow> (\<exists>k. live_key j = Some k \<and> k \<in> set (live_keys rows))"
  by (auto simp: insert_on_conflict_def split: option.splits)

lemma jobs_ok_insert:
  assumes "jobs_ok rows" "row_ok j" "insert_on_conflict j rows = Inr (Some rows')"
  shows "jobs_ok rows'"
proof -
  have "distinct (live_keys (rows @ [j]))"
    using assms by (cases "live_key j")
      (auto simp: insert_on_conflict_Some live_keys_append jobs_ok_def)
  then show ?thesis using assms by (auto simp: insert_on_conflict_Some jobs_ok_def)
qed

lemma live_dedupe_holder_Some:
  assumes "jobs_ok (st_jobs s)"
  shows "live_dedupe_holder h key s = Some d \<longleftrightarrow>
    (\<exists>j\<in>set (st_jobs s). live_key j = Some (h_name h, key) \<and> d = holder_of_row j)"
proof
  assume "live_dedupe_holder h key s = Some d"
  then show "\<exists>j\<in>set (st_jobs s). live_key j = Some (h_name h, key) \<and> d = holder_of_row j"
    by (auto simp: live_dedupe_holder_def find_Some_iff)
next
  assume "\<exists>j\<in>set (st_jobs s). live_key j = Some (h_name h, key) \<and> d = holder_of_row j"
  then obtain j where j: "j \<in> set (st_jobs s)" "live_key j = Some (h_name h, key)" "d = holder_of_row j" by blast
  then obtain j' where f: "find (\<lambda>j. live_key j = Some (h_name h, key)) (st_jobs s) = Some j'"
    by (cases "find (\<lambda>j. live_key j = Some (h_name h, key)) (st_jobs s)") (auto simp: find_None_iff)
  then have "j' \<in> set (st_jobs s)" "live_key j' = Some (h_name h, key)"
    by (auto simp: find_Some_iff)
  then have "j' = j" using jobs_ok_one_holder [OF assms] j by blast
  then show "live_dedupe_holder h key s = Some d" using f j by (simp add: live_dedupe_holder_def)
qed

lemma live_dedupe_holder_None:
  "live_dedupe_holder h key s = None \<longleftrightarrow> (h_name h, key) \<notin> set (live_keys (st_jobs s))"
  by (auto simp: live_dedupe_holder_def find_None_iff live_keys_mem)

text \<open>What one insert does, by cases.\<close>

lemma insert_job_cases:
  assumes "insert_job m i job delay awaited h s = (r, h', s')"
  obtains (serde) e where "r = Inl e" "s' = s" "h' = h" "backoff_to_json (cfg_backoff (rq_config job)) = None"
  | (pkey) e where "r = Inl e" "s' = s" "h_name h' = h_name h" "i \<in> set (map j_id (st_jobs s))"
  | (conflict) k where "r = Inr None" "s' = s" "h_name h' = h_name h" "rq_dedupe_key job = Some k"
      "(h_name h, k) \<in> set (live_keys (st_jobs s))"
  | (inserted) v where "r = Inr (Some i)" "h_name h' = h_name h" "i \<notin> set (map j_id (st_jobs s))"
      "\<And>k. rq_dedupe_key job = Some k \<Longrightarrow> (h_name h, k) \<notin> set (live_keys (st_jobs s))"
      "backoff_to_json (cfg_backoff (rq_config job)) = Some v"
      "st_jobs s' = st_jobs s @ [new_job_row (h_name h) (m_server m) i job delay awaited v]"
      "st_workers s' = st_workers s" "st_occurrences s' = st_occurrences s" "st_schedules s' = st_schedules s"
proof (cases "backoff_to_json (cfg_backoff (rq_config job))")
  case None
  then show thesis using assms serde by (auto simp: insert_job_def)
next
  case (Some v)
  obtain wake h1 where w: "authorize_wakeup m (is_due_now m job delay) h = (wake, h1)" by fastforce
  have n: "h_name h1 = h_name h" using authorize_wakeup_name [of m "is_due_now m job delay" h] w by simp
  let ?j = "new_job_row (h_name h) (m_server m) i job delay awaited v"
  show thesis
  proof (cases "insert_on_conflict ?j (st_jobs s)")
    case (Inl e)
    then have "i \<in> set (map j_id (st_jobs s))"
      by (auto simp: insert_on_conflict_def split: if_splits)
    then show thesis using assms Some w Inl n pkey by (auto simp: insert_job_def)
  next
    case (Inr x)
    show thesis
    proof (cases x)
      case None
      then obtain k where "rq_dedupe_key job = Some k" "(h_name h, k) \<in> set (live_keys (st_jobs s))"
        using Inr by (auto simp: insert_on_conflict_None)
      then show thesis using assms Some w Inr None n conflict by (auto simp: insert_job_def)
    next
      case (Some js)
      then show thesis
        using assms \<open>backoff_to_json (cfg_backoff (rq_config job)) = Some v\<close> w Inr n inserted [of v]
        by (auto simp: insert_job_def insert_on_conflict_Some)
    qed
  qed
qed

lemma insert_job_ok:
  assumes "store_ok s" "handle_ok h" "job_request_validate chunks now' job = Inr ()"
    and "insert_job m i job delay awaited h s = (r, h', s')"
  shows "store_ok s'"
  using assms(4)
proof (cases rule: insert_job_cases)
  case (inserted v)
  let ?j = "new_job_row (h_name h) (m_server m) i job delay awaited v"
  have "insert_on_conflict ?j (st_jobs s) = Inr (Some (st_jobs s'))"
    using inserted by (auto simp: insert_on_conflict_Some)
  moreover have "row_ok ?j" using assms(2,3) new_job_row_ok by (auto simp: handle_ok_def)
  ultimately have "jobs_ok (st_jobs s')"
    using jobs_ok_insert assms(1) by (auto simp: store_ok_def)
  then show ?thesis using inserted assms(1) by (simp add: store_ok_def crons_ok_def)
qed (use assms(1) in auto)

text \<open>What a publish reports, in terms of the store it leaves.\<close>

definition reports_soundly :: "handle \<Rightarrow> job_request \<Rightarrow> uuid \<Rightarrow> bool \<Rightarrow> db_enqueue_result \<Rightarrow> store \<Rightarrow> bool" where
  "reports_soundly h job i awaited r s' \<longleftrightarrow>
     (case r of
        Inserted n \<Rightarrow> n = i \<and> (\<exists>j \<in> set (st_jobs s'). j_id j = i \<and> j_status j = Queued \<and>
          j_queue j = h_name h \<and> j_name j = rq_name job \<and> j_payload j = rq_payload job \<and>
          j_dedupe_key j = rq_dedupe_key job \<and> j_attempts j = 0 \<and> j_awaited j = awaited)
      | Deduplicated n name rt \<Rightarrow> (\<exists>k. rq_dedupe_key job = Some k \<and>
          (\<exists>j \<in> set (st_jobs s'). live_key j = Some (h_name h, k) \<and> j_id j = n \<and> j_name j = name)))"

lemma deduplicated_sound:
  assumes "jobs_ok (st_jobs s)" "rq_dedupe_key job = Some k" "live_dedupe_holder h k s = Some d"
  shows "reports_soundly h job i awaited (deduplicated d) s"
  using assms by (auto simp: live_dedupe_holder_Some reports_soundly_def deduplicated_def holder_of_row_def)

lemma insert_job_sound:
  assumes "insert_job m i job delay awaited h s = (Inr (Some n), h', s')"
  shows "reports_soundly h job i awaited (Inserted n) s'"
  using assms
  by (cases rule: insert_job_cases) (auto simp: reports_soundly_def new_job_row_def)

lemma enqueue_validated_sound:
  assumes s: "store_ok s" and h: "handle_ok h" and v: "job_request_validate chunks now' job = Inr ()"
    and env: "\<And>x. store_ok x \<Longrightarrow> store_ok (env1 x)" "\<And>x. store_ok x \<Longrightarrow> store_ok (env2 x)"
    and e: "enqueue_validated_in env1 env2 m i job delay awaited h s = (r, h', s')"
  shows "store_ok s' \<and> (\<forall>x. r = Inr x \<longrightarrow> reports_soundly h job i awaited x s')"
proof (cases "Option.bind (rq_dedupe_key job) (\<lambda>key. live_dedupe_holder h key s)")
  case (Some d)
  then have "r = Inr (deduplicated d)" "s' = s" using e by (auto simp: enqueue_validated_in_def)
  then show ?thesis using Some s deduplicated_sound store_ok_jobs by (auto simp: bind_eq_Some_conv)
next
  case None
  obtain r1 h1 s1 where i: "insert_job m i job delay awaited h (env1 s) = (r1, h1, s1)"
    by (cases "insert_job m i job delay awaited h (env1 s)")
  have s1: "store_ok s1" using insert_job_ok [OF env(1) [OF s] h v i] .
  show ?thesis
  proof (cases "r1 = Inr None")
    case False
    then show ?thesis using e None i s1 insert_job_sound [of m i job delay awaited h "env1 s" _ h1 s1]
      by (auto simp: enqueue_validated_in_def split: sum.splits option.splits)
  next
    case True
    obtain k where k: "rq_dedupe_key job = Some k"
      using i True by (cases rule: insert_job_cases) auto
    show ?thesis
      using e None i True k env(2) [OF s1] deduplicated_sound [OF store_ok_jobs [OF env(2) [OF s1]] k]
      by (auto simp: enqueue_validated_in_def split: option.splits)
  qed
qed

text \<open>The batch against the rows of the table: what its holder map stands for.\<close>

definition holders_match :: "string \<Rightarrow> string set \<Rightarrow> (string \<rightharpoonup> batch_key_holder) \<Rightarrow> job_row list \<Rightarrow> bool" where
  "holders_match q K holders rows \<longleftrightarrow> (\<forall>k\<in>K.
     case holders k of
       None \<Rightarrow> (q, k) \<notin> set (live_keys rows)
     | Some b \<Rightarrow> (\<exists>j\<in>set rows. live_key j = Some (q, k) \<and> j_id j = bk_id b \<and> j_name j = bk_name b))"

definition item_row :: "handle \<Rightarrow> moment \<Rightarrow> batch_item \<Rightarrow> job_row" where
  "item_row h m it = (case it of (i, job, delay) \<Rightarrow>
     new_job_row (h_name h) (m_server m) i job delay False (the (backoff_to_json (cfg_backoff (rq_config job)))))"

fun outcome :: "db_enqueue_result \<Rightarrow> bool \<times> uuid" where
  "outcome (Inserted i) = (True, i)"
| "outcome (Deduplicated i n t) = (False, i)"

text \<open>The reference for the batch: one single enqueue after the other.\<close>

fun enqueue_each ::
    "moment \<Rightarrow> batch_item list \<Rightarrow> handle \<Rightarrow> store \<Rightarrow> db_enqueue_result list result \<times> handle \<times> store" where
  "enqueue_each m [] h s = (Inr [], h, s)"
| "enqueue_each m ((i, job, delay) # rest) h s =
     (case enqueue_validated_in id id m i job delay False h s of
        (Inl e, h', s') \<Rightarrow> (Inl e, h', s')
      | (Inr r, h', s') \<Rightarrow>
          (case enqueue_each m rest h' s' of
             (Inl e, h'', s'') \<Rightarrow> (Inl e, h'', s'')
           | (Inr rs, h'', s'') \<Rightarrow> (Inr (r # rs), h'', s'')))"

lemma encode_backoffs_rows:
  "encode_backoffs items = Inr vs \<Longrightarrow>
   map (\<lambda>((i, job, delay), v). new_job_row (h_name h) (m_server m) i job delay False v) (zip items vs)
     = map (item_row h m) items"
  by (induction items arbitrary: vs rule: encode_backoffs.induct)
     (auto simp: item_row_def split: option.splits)

definition item_encodes :: "batch_item \<Rightarrow> bool" where
  "item_encodes it = (backoff_to_json (cfg_backoff (rq_config (fst (snd it)))) \<noteq> None)"

lemma encode_backoffs_total: "list_all item_encodes items \<Longrightarrow> \<exists>vs. encode_backoffs items = Inr vs"
  by (induction items rule: encode_backoffs.induct) (auto simp: item_encodes_def)

lemma item_row_simps [simp]:
  "j_id (item_row h m (i, job, delay)) = i"
  "live_key (item_row h m (i, job, delay)) = map_option (Pair (h_name h)) (rq_dedupe_key job)"
  "j_name (item_row h m (i, job, delay)) = rq_name job"
  by (simp_all add: item_row_def)

text \<open>One step of the reference, when nobody interferes and the identifier is new.\<close>

lemma enqueue_step_held:
  assumes "jobs_ok (st_jobs s)" "rq_dedupe_key job = Some k" "j \<in> set (st_jobs s)"
    "live_key j = Some (h_name h, k)"
  shows "enqueue_validated_in id id m i job delay awaited h s = (Inr (deduplicated (holder_of_row j)), h, s)"
proof -
  have "live_dedupe_holder h k s = Some (holder_of_row j)"
    using assms live_dedupe_holder_Some by blast
  then show ?thesis using assms(2) by (simp add: enqueue_validated_in_def)
qed

lemma enqueue_step_free:
  assumes "backoff_to_json (cfg_backoff (rq_config job)) \<noteq> None" "i \<notin> set (map j_id (st_jobs s))"
    "\<And>k. rq_dedupe_key job = Some k \<Longrightarrow> (h_name h, k) \<notin> set (live_keys (st_jobs s))"
  shows "\<exists>h' s'. enqueue_validated_in id id m i job delay False h s = (Inr (Inserted i), h', s') \<and>
    h_name h' = h_name h \<and> st_jobs s' = st_jobs s @ [item_row h m (i, job, delay)]"
proof -
  have free: "Option.bind (rq_dedupe_key job) (\<lambda>key. live_dedupe_holder h key s) = None"
    using assms(3) live_dedupe_holder_None [of h _ s] by (cases "rq_dedupe_key job") auto
  obtain r1 h1 s1 where ins: "insert_job m i job delay False h s = (r1, h1, s1)"
    by (cases "insert_job m i job delay False h s")
  then have "r1 = Inr (Some i) \<and> h_name h1 = h_name h \<and> st_jobs s1 = st_jobs s @ [item_row h m (i, job, delay)]"
    by (cases rule: insert_job_cases) (use assms in \<open>auto simp: item_row_def\<close>)
  then show ?thesis using free ins by (simp add: enqueue_validated_in_def)
qed

lemma item_row_name: "h_name h' = h_name h \<Longrightarrow> item_row h' m = item_row h m"
  by (auto simp: item_row_def fun_eq_iff)

lemma holders_match_append:
  assumes "holders_match q K holders rows" "live_key j = None \<or> (\<exists>k'. live_key j = Some (q', k') \<and> q' = q \<and> holders k' \<noteq> None)"
  shows "holders_match q K holders (rows @ [j])"
  using assms by (fastforce simp: holders_match_def live_keys_append split: option.splits)

lemma holders_match_claim:
  assumes "holders_match q K holders rows" "live_key j = Some (q, k)" "j_id j = bk_id b" "j_name j = bk_name b"
  shows "holders_match q K (holders(k \<mapsto> b)) (rows @ [j])"
  using assms by (fastforce simp: holders_match_def live_keys_append split: option.splits)

lemma insert_all_free:
  assumes "j_id j \<notin> set (map j_id rows)" "\<And>k. live_key j = Some k \<Longrightarrow> k \<notin> set (live_keys rows)"
    "insert_all js (rows @ [j]) = Inr (rows', ids)"
  shows "insert_all (j # js) rows = Inr (rows', j_id j # ids)"
proof -
  have "insert_on_conflict j rows = Inr (Some (rows @ [j]))"
    using assms(1,2) by (auto simp: insert_on_conflict_Some)
  then show ?thesis using assms(3) by simp
qed

definition items_fresh :: "handle \<Rightarrow> moment \<Rightarrow> batch_item list \<Rightarrow> job_row list \<Rightarrow> bool" where
  "items_fresh h m items rows \<longleftrightarrow> distinct (map fst items) \<and>
     set (map fst items) \<inter> set (map j_id rows) = {} \<and>
     list_all item_encodes items \<and> list_all (\<lambda>it. row_ok (item_row h m it)) items"

lemma items_fresh_Cons:
  "items_fresh h m (it # items) rows \<Longrightarrow>
     items_fresh h m items rows \<and> items_fresh h m items (rows @ [item_row h m it]) \<and>
     item_encodes it \<and> row_ok (item_row h m it) \<and> fst it \<notin> set (map j_id rows)"
  by (cases it) (auto simp: items_fresh_def)

lemma items_fresh_name: "h_name h' = h_name h \<Longrightarrow> items_fresh h' m items rows = items_fresh h m items rows"
  using item_row_name [of h' h m] by (simp add: items_fresh_def)

text \<open>
  The batch's insert and the single enqueues agree: both end in the table with the
  planned rows appended and report the same job for every item.
\<close>

definition batch_agrees ::
    "moment \<Rightarrow> handle \<Rightarrow> store \<Rightarrow> batch_item list \<Rightarrow> batch_item list \<Rightarrow> db_enqueue_result list \<Rightarrow> bool" where
  "batch_agrees m h s items ins results \<longleftrightarrow>
     insert_all (map (item_row h m) ins) (st_jobs s) =
       Inr (st_jobs s @ map (item_row h m) ins, map fst ins) \<and>
     (\<exists>rs h' s'. enqueue_each m items h s = (Inr rs, h', s') \<and>
        st_jobs s' = st_jobs s @ map (item_row h m) ins \<and> map outcome rs = map outcome results)"

lemma batch_agrees_insert:
  assumes fresh: "items_fresh h m ((i, job, delay) # rest) (st_jobs s)"
    and free: "\<And>k. rq_dedupe_key job = Some k \<Longrightarrow> (h_name h, k) \<notin> set (live_keys (st_jobs s))"
    and IH: "\<And>h' s'. h_name h' = h_name h \<Longrightarrow> st_jobs s' = st_jobs s @ [item_row h m (i, job, delay)] \<Longrightarrow>
      batch_agrees m h' s' rest rows results"
  shows "batch_agrees m h s ((i, job, delay) # rest) ((i, job, delay) # rows) (Inserted i # results)"
proof -
  let ?j = "item_row h m (i, job, delay)"
  have enc: "backoff_to_json (cfg_backoff (rq_config job)) \<noteq> None" and new: "i \<notin> set (map j_id (st_jobs s))"
    using items_fresh_Cons [OF fresh] by (auto simp: item_encodes_def)
  obtain h' s' where step: "enqueue_validated_in id id m i job delay False h s = (Inr (Inserted i), h', s')"
    and n: "h_name h' = h_name h" and s': "st_jobs s' = st_jobs s @ [?j]"
    using enqueue_step_free [OF enc new free] by blast
  have agree: "batch_agrees m h' s' rest rows results" by (rule IH [OF n s'])
  then have "insert_all (map (item_row h m) rows) (st_jobs s @ [?j]) =
      Inr ((st_jobs s @ [?j]) @ map (item_row h m) rows, map fst rows)"
    by (simp add: batch_agrees_def s' item_row_name [OF n])
  then have "insert_all (?j # map (item_row h m) rows) (st_jobs s) =
      Inr ((st_jobs s @ [?j]) @ map (item_row h m) rows, j_id ?j # map fst rows)"
    by (intro insert_all_free) (use new free in auto)
  then show ?thesis using agree step
    by (auto simp: batch_agrees_def s' item_row_name [OF n])
qed

lemma batch_agrees_held:
  assumes "jobs_ok (st_jobs s)" "rq_dedupe_key job = Some k" "j \<in> set (st_jobs s)"
    "live_key j = Some (h_name h, k)" "j_id j = bk_id b" "batch_agrees m h s rest rows results"
  shows "batch_agrees m h s ((i, job, delay) # rest) rows (batch_deduplicated b # results)"
  using assms(6) enqueue_step_held [OF assms(1-4)] assms(5)
  by (auto simp: batch_agrees_def deduplicated_def batch_deduplicated_def holder_of_row_def)

lemma jobs_ok_item:
  assumes "jobs_ok rows" "items_fresh h m ((i, job, delay) # rest) rows"
    "\<And>k. rq_dedupe_key job = Some k \<Longrightarrow> (h_name h, k) \<notin> set (live_keys rows)"
  shows "jobs_ok (rows @ [item_row h m (i, job, delay)])"
  using assms items_fresh_Cons [OF assms(2)]
  by (intro jobs_ok_insert [OF assms(1)]) (auto simp: insert_on_conflict_Some)

lemma batch_plan_agrees:
  "batch_plan holders items = Inr (ins, results) \<Longrightarrow>
   holders_match (h_name h) K holders (st_jobs s) \<Longrightarrow> jobs_ok (st_jobs s) \<Longrightarrow>
   (\<And>it k. it \<in> set items \<Longrightarrow> rq_dedupe_key (fst (snd it)) = Some k \<Longrightarrow> k \<in> K) \<Longrightarrow>
   items_fresh h m items (st_jobs s) \<Longrightarrow> batch_agrees m h s items ins results"
proof (induction holders items arbitrary: ins results h s rule: batch_plan.induct)
  case (1 holders)
  then show ?case by (simp add: batch_agrees_def)
next
  case (2 holders i job delay rest)
  let ?j = "item_row h m (i, job, delay)"
  have sub: "\<And>it k. it \<in> set rest \<Longrightarrow> rq_dedupe_key (fst (snd it)) = Some k \<Longrightarrow> k \<in> K"
    using 2(7) by (meson list.set_intros(2))
  note fresh = items_fresh_Cons [OF 2(8)]
  show ?case
  proof (cases "rq_dedupe_key job")
    case None
    then obtain rows rs where p: "batch_plan holders rest = Inr (rows, rs)" "ins = (i, job, delay) # rows"
      "results = Inserted i # rs" using 2(4) by auto
    show ?thesis unfolding p(2,3)
    proof (rule batch_agrees_insert [OF 2(8)])
      fix h' :: handle and s' :: store
        assume n: "h_name h' = h_name h" and s': "st_jobs s' = st_jobs s @ [?j]"
      have m': "holders_match (h_name h') K holders (st_jobs s')"
        using holders_match_append [OF 2(5), of ?j] None by (simp add: n s')
      have "jobs_ok (st_jobs s')" using jobs_ok_item [OF 2(6) 2(8)] None by (simp add: s')
      then show "batch_agrees m h' s' rest rows rs"
        using 2(1) [OF None p(1) m' _ sub] fresh by (simp add: s' items_fresh_name [OF n])
    qed (use None in auto)
  next
    case (Some key)
    then have key: "key \<in> K" using 2(7) [of "(i, job, delay)"] by simp
    show ?thesis
    proof (cases "holders key")
      case None
      let ?b = "\<lparr> bk_id = i, bk_name = rq_name job, bk_retentions = config_retentions (rq_config job) \<rparr>"
      obtain rows rs where p: "batch_plan (holders(key \<mapsto> ?b)) rest = Inr (rows, rs)"
        "ins = (i, job, delay) # rows" "results = Inserted i # rs" using 2(4) Some None by auto
      have free: "\<And>k. rq_dedupe_key job = Some k \<Longrightarrow> (h_name h, k) \<notin> set (live_keys (st_jobs s))"
        using 2(5) key None Some by (fastforce simp: holders_match_def split: option.splits)
      show ?thesis unfolding p(2,3)
      proof (rule batch_agrees_insert [OF 2(8) free])
        fix h' :: handle and s' :: store
        assume n: "h_name h' = h_name h" and s': "st_jobs s' = st_jobs s @ [?j]"
        have m': "holders_match (h_name h') K (holders(key \<mapsto> ?b)) (st_jobs s')"
          using holders_match_claim [OF 2(5), of ?j key ?b] Some by (simp add: n s')
        have "jobs_ok (st_jobs s')" using jobs_ok_item [OF 2(6) 2(8) free] by (simp add: s')
        then show "batch_agrees m h' s' rest rows rs"
          using 2(2) [OF Some None p(1) m' _ sub] fresh by (simp add: s' items_fresh_name [OF n])
      qed
    next
      case (Some b)
      then obtain rows rs where p: "batch_plan holders rest = Inr (rows, rs)" "ins = rows"
        "results = batch_deduplicated b # rs" and name: "\<not> bk_name b \<noteq> rq_name job"
        using 2(4) \<open>rq_dedupe_key job = Some key\<close> by (auto split: if_splits)
      obtain j where j: "j \<in> set (st_jobs s)" "live_key j = Some (h_name h, key)" "j_id j = bk_id b"
        using 2(5) key Some by (fastforce simp: holders_match_def split: option.splits)
      have "batch_agrees m h s rest rows rs"
        by (rule 2(3) [OF \<open>rq_dedupe_key job = Some key\<close> Some name p(1) 2(5,6)])
           (use sub fresh in blast)+
      then show ?thesis unfolding p(2,3)
        using batch_agrees_held [OF 2(6) \<open>rq_dedupe_key job = Some key\<close> j] by blast
    qed
  qed
qed

lemma batch_plan_shape:
  "batch_plan holders items = Inr (ins, results) \<Longrightarrow>
     set ins \<subseteq> set items \<and> (distinct (map fst items) \<longrightarrow> distinct (map fst ins)) \<and>
     length results = length items"
proof (induction holders items arbitrary: ins results rule: batch_plan.induct)
  case (2 holders i job delay rest)
  then show ?case by (fastforce split: option.splits if_splits)
qed simp

lemma and_then_pair_Inl: "and_then r (\<lambda>(x, y). Inr (g x y)) = Inl e \<longleftrightarrow> r = Inl e"
  by (cases r) (auto split: prod.splits)

lemma batch_plan_error:
  "batch_plan holders items = Inl e \<Longrightarrow> \<exists>key owner name. e = key_owner_error key owner name \<and> owner \<noteq> name"
proof (induction holders items rule: batch_plan.induct)
  case (2 holders i job delay rest)
  show ?case
  proof (cases "rq_dedupe_key job")
    case None
    then show ?thesis using 2 by (simp add: and_then_pair_Inl)
  next
    case (Some key)
    show ?thesis
    proof (cases "holders key")
      case None
      show ?thesis by (rule 2(2) [OF Some None]) (use 2(4) Some None in \<open>simp add: and_then_pair_Inl del: fun_upd_apply\<close>)
    next
      case (Some b)
      then show ?thesis using 2(3,4) \<open>rq_dedupe_key job = Some key\<close>
        by (auto simp: and_then_pair_Inl split: if_splits)
    qed
  qed
qed simp

lemma live_dedupe_holders_mem:
  "(k, d) \<in> set (live_dedupe_holders h keys s) \<longleftrightarrow>
     k \<in> set keys \<and> (\<exists>j\<in>set (st_jobs s). live_key j = Some (h_name h, k) \<and> d = holder_of_row j)"
proof
  assume "(k, d) \<in> set (live_dedupe_holders h keys s)"
  then show "k \<in> set keys \<and> (\<exists>j\<in>set (st_jobs s). live_key j = Some (h_name h, k) \<and> d = holder_of_row j)"
    unfolding live_dedupe_holders_def map_filter_mem by (auto split: option.splits if_splits)
next
  assume "k \<in> set keys \<and> (\<exists>j\<in>set (st_jobs s). live_key j = Some (h_name h, k) \<and> d = holder_of_row j)"
  then obtain j where "k \<in> set keys" "j \<in> set (st_jobs s)" "live_key j = Some (h_name h, k)" "d = holder_of_row j"
    by blast
  then show "(k, d) \<in> set (live_dedupe_holders h keys s)"
    unfolding live_dedupe_holders_def map_filter_mem by (intro bexI [of _ j]) auto
qed

lemma holders_match_initial:
  "holders_match (h_name h) (set keys)
     (map_of (map (\<lambda>(k, d). (k, batch_holder_of d)) (live_dedupe_holders h keys s))) (st_jobs s)"
proof -
  have none: "map_of (map (\<lambda>(k, d). (k, batch_holder_of d)) xs) k = None \<Longrightarrow> (k, d) \<notin> set xs" for xs k d
    by (auto simp: map_of_eq_None_iff image_iff)
  have some: "map_of (map (\<lambda>(k, d). (k, batch_holder_of d)) xs) k = Some b \<Longrightarrow>
      \<exists>d. (k, d) \<in> set xs \<and> b = batch_holder_of d" for xs k b
    by (auto dest!: map_of_SomeD)
  let ?h = "map_of (map (\<lambda>(k, d). (k, batch_holder_of d)) (live_dedupe_holders h keys s))"
  have "case ?h k of
       None \<Rightarrow> (h_name h, k) \<notin> set (live_keys (st_jobs s))
     | Some b \<Rightarrow> (\<exists>j\<in>set (st_jobs s). live_key j = Some (h_name h, k) \<and> j_id j = bk_id b \<and> j_name j = bk_name b)"
    if "k \<in> set keys" for k
  proof (cases "?h k")
    case None
    then show ?thesis using none [OF None] that by (auto simp: live_keys_mem live_dedupe_holders_mem)
  next
    case (Some b)
    then obtain d where "(k, d) \<in> set (live_dedupe_holders h keys s)" "b = batch_holder_of d"
      using some [OF Some] by (elim exE conjE)
    then obtain j where "j \<in> set (st_jobs s)" "live_key j = Some (h_name h, k)" "b = batch_holder_of (holder_of_row j)"
      unfolding live_dedupe_holders_mem by blast
    then show ?thesis unfolding Some option.case by (intro bexI [of _ j]) (auto simp: batch_holder_of_def holder_of_row_def)
  qed
  then show ?thesis by (simp add: holders_match_def)
qed

lemma batch_keys_set: "set (batch_keys batch) = {k. \<exists>b\<in>set batch. rq_dedupe_key (fst b) = Some k}"
  by (simp add: set_eq_iff batch_keys_def map_filter_mem case_prod_beta)

lemma validate_batch_each:
  "validate_batch chunks m batch = Inr u \<Longrightarrow> b \<in> set batch \<Longrightarrow>
     validate_enqueue chunks m (fst b) (snd b) = Inr ()"
proof -
  have "validate_batch_loop chunks m n batch = Inr u \<Longrightarrow> b \<in> set batch \<Longrightarrow>
     validate_enqueue chunks m (fst b) (snd b) = Inr ()" for n
    by (induction chunks m n batch rule: validate_batch_loop.induct) (auto simp: Let_def split: if_splits)
  then show "validate_batch chunks m batch = Inr u \<Longrightarrow> b \<in> set batch \<Longrightarrow>
     validate_enqueue chunks m (fst b) (snd b) = Inr ()"
    by (auto simp: validate_batch_def split: if_splits)
qed

lemma validated_items_fresh:
  assumes "handle_ok h" "validate_batch chunks m (map snd items) = Inr ()" "distinct (map fst items)"
    "set (map fst items) \<inter> set (map j_id rows) = {}"
  shows "items_fresh h m items rows"
proof -
  have "job_request_validate chunks (m_client m) (fst (snd it)) = Inr ()" if "it \<in> set items" for it
    using validate_batch_each [OF assms(2), of "snd it"] that by (simp add: valid_elims)
  then have v: "item_encodes it \<and> row_ok (item_row h m it)" if "it \<in> set items" for it
    using assms(1) new_job_row_ok [of chunks "m_client m" "fst (snd it)" "h_name h"]
      backoff_encodes [of "rq_config (fst (snd it))"] that
    by (cases it) (auto simp: item_encodes_def item_row_def handle_ok_def job_request_validate_Inr)
  then show ?thesis using assms(3,4) by (auto simp: items_fresh_def list_all_iff)
qed

lemma insert_jobs_rows:
  assumes "list_all item_encodes ins"
    "insert_all (map (item_row h m) ins) (st_jobs s) = Inr (rows', ids)"
  shows "\<exists>h' s'. insert_jobs m ins h s = (Inr ids, h', s') \<and> st_jobs s' = rows'"
proof (cases "ins = []")
  case True
  then show ?thesis using assms(2) by (simp add: insert_jobs_def)
next
  case False
  obtain vs where vs: "encode_backoffs ins = Inr vs" using encode_backoffs_total [OF assms(1)] by blast
  then show ?thesis using False assms(2) encode_backoffs_rows [OF vs, of h m]
    by (simp add: insert_jobs_def Let_def split: prod.splits)
qed

text \<open>A throttled slot is only taken a whole window after the last one.\<close>

lemma throttle_loop_True:
  "throttle_loop w t l seen \<Longrightarrow> l = NEVER_NOTIFIED \<or> w \<le> t - l"
  by (cases seen) (auto split: if_splits)

lemma throttle_loop_uncontended:
  "throttle_loop w t l [] \<longleftrightarrow> l = NEVER_NOTIFIED \<or> w \<le> t - l"
  by auto

text \<open>A sequence of wakeup requests of one handle: which of them were let through, and when.\<close>

fun wakeups :: "moment list \<Rightarrow> handle \<Rightarrow> nat list" where
  "wakeups [] h = []"
| "wakeups (m # ms) h =
     (case authorize_wakeup m True h of
        (True, h') \<Rightarrow> m_elapsed_ms m # wakeups ms h'
      | (False, h') \<Rightarrow> wakeups ms h')"

lemma authorize_wakeup_throttled:
  assumes "h_notify_throttle h = Some window" "m_elapsed_ms m < u64_max"
  shows "(authorize_wakeup m True h = (False, h)) \<or>
    (authorize_wakeup m True h = (True, h\<lparr> h_last_notify_ms := m_elapsed_ms m \<rparr>) \<and>
     (h_last_notify_ms h = NEVER_NOTIFIED \<or>
      nat (duration_to_ms window) \<le> m_elapsed_ms m - h_last_notify_ms h))"
  using assms throttle_loop_True [of "nat (duration_to_ms window)" "m_elapsed_ms m" "h_last_notify_ms h" "m_cas_seen m"]
    duration_to_ms_nonneg [of window]
  by (auto simp: authorize_wakeup_def take_throttle_slot_def Let_def)

text \<open>Successive entries at least \<open>w\<close> apart, the first one measured from \<open>l\<close>.\<close>

fun spaced :: "nat \<Rightarrow> nat option \<Rightarrow> nat list \<Rightarrow> bool" where
  "spaced w l [] = True"
| "spaced w l (t # ts) = ((case l of None \<Rightarrow> True | Some l \<Rightarrow> w \<le> t - l) \<and> spaced w (Some t) ts)"

lemma wakeups_spaced_from:
  "h_notify_throttle h = Some window \<Longrightarrow> list_all (\<lambda>m. m_elapsed_ms m < u64_max) ms \<Longrightarrow>
   spaced (nat (duration_to_ms window))
     (if h_last_notify_ms h = NEVER_NOTIFIED then None else Some (h_last_notify_ms h)) (wakeups ms h)"
proof (induction ms arbitrary: h)
  case (Cons m ms)
  have m: "m_elapsed_ms m < u64_max" and ms: "list_all (\<lambda>m. m_elapsed_ms m < u64_max) ms" using Cons.prems by auto
  let ?h = "h\<lparr> h_last_notify_ms := m_elapsed_ms m \<rparr>"
  consider "authorize_wakeup m True h = (False, h)"
    | "authorize_wakeup m True h = (True, ?h)"
      "h_last_notify_ms h = NEVER_NOTIFIED \<or> nat (duration_to_ms window) \<le> m_elapsed_ms m - h_last_notify_ms h"
    using authorize_wakeup_throttled [OF Cons.prems(1) m] by blast
  then show ?case
  proof cases
    case 1
    then show ?thesis using Cons.IH [OF Cons.prems(1) ms] by simp
  next
    case 2
    then show ?thesis using Cons.IH [of ?h] Cons.prems(1) ms m by (auto simp: NEVER_NOTIFIED_def)
  qed
qed simp

text \<open>A keyed request and a handle to publish it with.\<close>

definition sample_request :: job_request where
  "sample_request = (job_request_new ''send'' JNull)\<lparr> rq_dedupe_key := Some ''k'' \<rparr>"

definition sample_counters :: counters where
  "sample_counters = \<lparr> n_complete = 0, n_failed = 0, n_retried = 0, n_aborted = 0 \<rparr>"

definition sample_handle :: handle where
  "sample_handle = \<lparr> h_name = ''default'', h_priorities = (-32768, 32767), h_sweep_grace = from_secs 30,
     h_sweep_batch_size = 100, h_notify_throttle = Some (from_millis 100), h_last_notify_ms = NEVER_NOTIFIED,
     h_counters = sample_counters \<rparr>"

definition sample_moment :: moment where
  "sample_moment = \<lparr> m_server = 1000, m_client = 1000, m_elapsed_ms = 5, m_cas_seen = [] \<rparr>"

lemma sample_handle_ok: "handle_ok sample_handle"
  by (simp add: handle_ok_def sample_handle_def)

lemma sample_request_valid: "validate_enqueue (\<lambda>_. []) sample_moment sample_request None = Inr ()"
  by (simp add: valid_elims sample_request_def job_request_new_def sample_moment_def job_config_default_def
      duration_consts)

lemma sample_batch_valid:
  "validate_batch (\<lambda>_. []) sample_moment [(sample_request, None), (sample_request, None)] = Inr ()"
  by (simp add: validate_batch_def MAX_ENQUEUE_BATCH_JOBS_def MAX_ENQUEUE_BATCH_BYTES_def json_byte_len_eq
      sample_request_valid)

section \<open>Properties\<close>

text \<open>
  C10: a publish is sound whatever other writers do between its statements. It
  keeps the schema (in particular at most one live row per dedupe key); a job
  reported as inserted is a queued row with the request's name, payload and key
  under the new identifier, and a job reported as deduplicated is a live row that
  holds the request's key.
\<close>

theorem enqueue_sound:
  assumes "store_ok s" "handle_ok h"
    and env: "\<And>x. store_ok x \<Longrightarrow> store_ok (env1 x)" "\<And>x. store_ok x \<Longrightarrow> store_ok (env2 x)"
    and e: "enqueue_raw_delayed_result chunks env1 env2 m i job delay awaited h s = (r, h', s')"
  shows "store_ok s' \<and> (\<forall>x. r = Inr x \<longrightarrow> reports_soundly h job i awaited x s')"
proof (cases "validate_enqueue chunks m job delay")
  case (Inl err)
  then show ?thesis using e assms(1) by (auto simp: enqueue_raw_delayed_result_def)
next
  case (Inr u)
  then have v: "job_request_validate chunks (m_client m) job = Inr ()" by (simp add: valid_elims)
  show ?thesis
  proof (cases "rq_dedupe_key job")
    case (Some k)
    then have "enqueue_validated_in env1 env2 m i job delay awaited h s = (r, h', s')"
      using e Inr by (simp add: enqueue_raw_delayed_result_def)
    then show ?thesis by (rule enqueue_validated_sound [OF assms(1,2) v, rotated 2]) (use env in auto)
  next
    case None
    obtain r1 h1 s1 where ins: "insert_job m i job delay awaited h s = (r1, h1, s1)"
      by (cases "insert_job m i job delay awaited h s")
    then show ?thesis
      using e Inr None insert_job_ok [OF assms(1,2) v ins] insert_job_sound [of m i job delay awaited h s _ h1 s1]
      by (auto simp: enqueue_raw_delayed_result_def split: sum.splits option.splits)
  qed
qed

theorem enqueue_sound_witness:
  "store_ok (snd (snd (enqueue_raw_delayed_result (\<lambda>_. []) id id sample_moment 7 sample_request None False
     sample_handle empty_store)))"
proof -
  obtain r h' s' where e: "enqueue_raw_delayed_result (\<lambda>_. []) id id sample_moment 7 sample_request None False
     sample_handle empty_store = (r, h', s')" by (metis prod_cases3)
  show ?thesis using enqueue_sound [OF store_ok_empty sample_handle_ok _ _ e] e by simp
qed

text \<open>
  C11: undisturbed, a valid publish always succeeds and the key decides how. A
  request without a key, or whose key no live job holds, is inserted; one whose
  key is held changes nothing and names the holder. It never reports a dedupe
  race.
\<close>

theorem enqueue_undisturbed:
  assumes "store_ok s" "validate_enqueue chunks m job delay = Inr ()" "i \<notin> set (map j_id (st_jobs s))"
  shows "\<exists>h' s'.
    ((\<forall>k. rq_dedupe_key job = Some k \<longrightarrow> (h_name h, k) \<notin> set (live_keys (st_jobs s))) \<and>
       enqueue_raw_delayed_result chunks id id m i job delay False h s = (Inr (Inserted i), h', s') \<and>
       st_jobs s' = st_jobs s @ [item_row h m (i, job, delay)]) \<or>
    (\<exists>k j. rq_dedupe_key job = Some k \<and> j \<in> set (st_jobs s) \<and> live_key j = Some (h_name h, k) \<and>
       enqueue_raw_delayed_result chunks id id m i job delay False h s =
         (Inr (deduplicated (holder_of_row j)), h, s))"
proof (cases "\<exists>k j. rq_dedupe_key job = Some k \<and> j \<in> set (st_jobs s) \<and> live_key j = Some (h_name h, k)")
  case True
  then obtain k j where kj: "rq_dedupe_key job = Some k" "j \<in> set (st_jobs s)" "live_key j = Some (h_name h, k)"
    by blast
  then have "enqueue_raw_delayed_result chunks id id m i job delay False h s =
      (Inr (deduplicated (holder_of_row j)), h, s)"
    using enqueue_step_held [OF store_ok_jobs [OF assms(1)] kj] assms(2)
    by (simp add: enqueue_raw_delayed_result_def)
  then show ?thesis using kj by blast
next
  case False
  then have free: "\<And>k. rq_dedupe_key job = Some k \<Longrightarrow> (h_name h, k) \<notin> set (live_keys (st_jobs s))"
    by (auto simp: live_keys_mem)
  have enc: "backoff_to_json (cfg_backoff (rq_config job)) \<noteq> None"
    using assms(2) backoff_encodes by (simp add: validate_enqueue_Inr job_request_validate_Inr)
  obtain h' s' where step: "enqueue_validated_in id id m i job delay False h s = (Inr (Inserted i), h', s')"
    "st_jobs s' = st_jobs s @ [item_row h m (i, job, delay)]"
    using enqueue_step_free [OF enc assms(3) free] by blast
  then have "enqueue_raw_delayed_result chunks id id m i job delay False h s = (Inr (Inserted i), h', s')"
    using assms(2) by (auto simp: enqueue_raw_delayed_result_def enqueue_validated_in_def
        split: prod.splits sum.splits option.splits)
  then show ?thesis using step free by blast
qed

theorem enqueue_undisturbed_witness:
  "\<exists>h' s'. enqueue_raw_delayed_result (\<lambda>_. []) id id sample_moment 7 sample_request None False
      sample_handle empty_store = (Inr (Inserted 7), h', s')"
  using enqueue_undisturbed [OF store_ok_empty sample_request_valid, of 7 sample_handle]
  by (auto simp: empty_store_def)





end
