(* ===== verification/Db_Lifecycle.thy ===== *)
theory Db_Lifecycle
  imports Db_Enqueue
begin

text \<open>
  The life of a job after it is published (\<^verbatim>\<open>database.rs\<close>): the dequeue claim, the
  guarded finish, the guarded requeue behind every "give the attempt back" path,
  the user abort and the manual retry of a finished job. Each is one SQL statement
  over the jobs table; its WHERE clause is a predicate on a row and its SET list a
  function on a row, and the two are interpreted as a \<open>live_row_update\<close>.
\<close>

section \<open>Markers and guards\<close>

definition SWEPT :: string where "SWEPT = ''swept''"

definition swept_marker :: json where "swept_marker = JString ''ironqueue:swept''"

definition is_swept_marked :: "string option \<Rightarrow> json option \<Rightarrow> bool" where
  "is_swept_marked err res \<longleftrightarrow> err = Some SWEPT \<and> res = Some swept_marker"

definition row_swept :: "job_row \<Rightarrow> bool" where
  "row_swept j = is_swept_marked (j_error j) (j_result j)"

record attempt_guard =
  ag_id :: uuid
  ag_attempts :: int
  ag_worker_id :: "uuid option"

definition guard_of_row :: "job_row \<Rightarrow> attempt_guard" where
  "guard_of_row j = \<lparr> ag_id = j_id j, ag_attempts = j_attempts j, ag_worker_id = j_worker_id j \<rparr>"

text \<open>The fence every write of an attempt carries: the row is still under this very claim.\<close>

definition under_claim :: "string \<Rightarrow> attempt_guard \<Rightarrow> job_row \<Rightarrow> bool" where
  "under_claim q g j \<longleftrightarrow> j_id j = ag_id g \<and> j_queue j = q \<and>
     j_attempts j = ag_attempts g \<and> j_worker_id j = ag_worker_id g"

definition ensure_owns :: "handle \<Rightarrow> job_row \<Rightarrow> unit result" where
  "ensure_owns h job =
     (if j_queue job = h_name h then Inr ()
      else Inl (Config (''job belongs to queue '' @ debug_str (j_queue job) @ '', not '' @ debug_str (h_name h))))"

definition validate_finalization ::
    "(json \<Rightarrow> string list) \<Rightarrow> json option \<Rightarrow> string option \<Rightarrow> unit result" where
  "validate_finalization chunks res err =
     and_then (case res of Some v \<Rightarrow> config_err (validate_json_document chunks ''job result'' v) | None \<Rightarrow> Inr ()) (\<lambda>_.
       if (case err of Some e \<Rightarrow> NUL \<in> set e | None \<Rightarrow> False)
       then Inl (Config ''job error must not contain NUL'')
       else Inr ())"

section \<open>Counters\<close>

definition record_complete :: "handle \<Rightarrow> handle" where
  "record_complete h = h\<lparr> h_counters := (h_counters h)\<lparr> n_complete := n_complete (h_counters h) + 1 \<rparr> \<rparr>"

definition record_failed :: "handle \<Rightarrow> handle" where
  "record_failed h = h\<lparr> h_counters := (h_counters h)\<lparr> n_failed := n_failed (h_counters h) + 1 \<rparr> \<rparr>"

definition record_retry :: "handle \<Rightarrow> handle" where
  "record_retry h = h\<lparr> h_counters := (h_counters h)\<lparr> n_retried := n_retried (h_counters h) + 1 \<rparr> \<rparr>"

definition record_abort :: "handle \<Rightarrow> handle" where
  "record_abort h = h\<lparr> h_counters := (h_counters h)\<lparr> n_aborted := n_aborted (h_counters h) + 1 \<rparr> \<rparr>"

section \<open>Dequeue\<close>

definition dequeue_key :: "job_row \<Rightarrow> int \<times> timestamp \<times> uuid" where
  "dequeue_key j = (j_priority j, j_scheduled_at j, j_id j)"

definition claimable :: "handle \<Rightarrow> timestamp \<Rightarrow> job_row \<Rightarrow> bool" where
  "claimable h now j \<longleftrightarrow> j_queue j = h_name h \<and> j_status j = Queued \<and> j_scheduled_at j \<le> now \<and>
     fst (h_priorities h) \<le> j_priority j \<and> j_priority j \<le> snd (h_priorities h)"

definition intake_open :: "handle \<Rightarrow> timestamp \<Rightarrow> uuid \<Rightarrow> store \<Rightarrow> bool" where
  "intake_open h now w s \<longleftrightarrow>
     list_ex (\<lambda>r. w_id r = w \<and> w_queue r = h_name h \<and> w_accepting r \<and> w_expires_at r > now) (st_workers s)"

definition claim_row :: "timestamp \<Rightarrow> uuid \<Rightarrow> job_row \<Rightarrow> job_row" where
  "claim_row now w j = j\<lparr> j_status := Running, j_attempts := j_attempts j + 1,
     j_started_at := Some now, j_touched_at := Some now, j_worker_id := Some w \<rparr>"

text \<open>
  \<^verbatim>\<open>DEQUEUE_CLAIM_SQL\<close>. \<open>locked\<close> are the rows another transaction holds, which SKIP
  LOCKED steps over.
\<close>

definition dequeue_candidates :: "(uuid \<Rightarrow> bool) \<Rightarrow> handle \<Rightarrow> timestamp \<Rightarrow> nat \<Rightarrow> store \<Rightarrow> uuid list" where
  "dequeue_candidates locked h now limit s =
     map j_id (select_rows (\<lambda>j. claimable h now j \<and> \<not> locked (j_id j)) dequeue_key limit (st_jobs s))"

definition claim_guard :: "handle \<Rightarrow> timestamp \<Rightarrow> bool \<Rightarrow> uuid list \<Rightarrow> job_row \<Rightarrow> bool" where
  "claim_guard h now open_intake candidates j \<longleftrightarrow>
     j_id j \<in> set candidates \<and> claimable h now j \<and> open_intake"

definition dequeue_claim ::
    "(uuid \<Rightarrow> bool) \<Rightarrow> handle \<Rightarrow> timestamp \<Rightarrow> nat \<Rightarrow> uuid \<Rightarrow> bool \<Rightarrow> store \<Rightarrow> job_row list \<times> store" where
  "dequeue_claim locked h now limit w require_open_intake s =
     (let candidates = dequeue_candidates locked h now limit s;
          p = claim_guard h now (\<not> require_open_intake \<or> intake_open h now w s) candidates
      in (map (claim_row now w) (filter p (st_jobs s)),
          s\<lparr> st_jobs := update_rows p (claim_row now w) (st_jobs s) \<rparr>))"

record dequeue_probe =
  dp_intake_open :: bool
  dp_work_available :: bool

definition run_probe :: "handle \<Rightarrow> timestamp \<Rightarrow> uuid \<Rightarrow> store \<Rightarrow> dequeue_probe" where
  "run_probe h now w s = \<lparr> dp_intake_open = intake_open h now w s,
     dp_work_available = list_ex (claimable h now) (st_jobs s) \<rparr>"

definition resolve_post_commit_probe :: "nat \<Rightarrow> string + dequeue_probe \<Rightarrow> dequeue_probe result" where
  "resolve_post_commit_probe jobs_claimed probe =
     (case probe of
        Inr r \<Rightarrow> Inr r
      | Inl e \<Rightarrow> if jobs_claimed = 0 then Inl (Db e)
                 else Inr \<lparr> dp_intake_open = True, dp_work_available = True \<rparr>)"

record dequeue_batch =
  db_jobs :: "job_row list"
  db_intake_open :: bool
  db_work_available :: bool

text \<open>
  \<open>probe_fails\<close> is the failure of the probe statement, if it fails; \<open>env\<close> is what
  happens to the store between the commit of the claim and the probe.
\<close>

definition dequeue_inner ::
    "(uuid \<Rightarrow> bool) \<Rightarrow> (store \<Rightarrow> store) \<Rightarrow> string option \<Rightarrow> handle \<Rightarrow> timestamp \<Rightarrow> int \<Rightarrow> uuid \<Rightarrow> bool \<Rightarrow> bool
     \<Rightarrow> store \<Rightarrow> dequeue_batch result \<times> store" where
  "dequeue_inner locked env probe_fails h now limit w require_open_intake probe_on_underfill s =
     (if limit \<le> 0 then (Inl (Config ''dequeue limit must be greater than zero''), s)
      else
        let (jobs, s') = dequeue_claim locked h now (nat limit) w require_open_intake s;
            underfilled = (int (length jobs) < limit);
            probe = (if probe_on_underfill \<and> underfilled
                     then resolve_post_commit_probe (length jobs)
                            (case probe_fails of Some e \<Rightarrow> Inl e | None \<Rightarrow> Inr (run_probe h now w (env s')))
                     else Inr \<lparr> dp_intake_open = True, dp_work_available = False \<rparr>)
        in case probe of
             Inl e \<Rightarrow> (Inl e, s')
           | Inr r \<Rightarrow> (Inr \<lparr> db_jobs = sort_key dequeue_key jobs, db_intake_open = dp_intake_open r,
                             db_work_available = dp_work_available r \<rparr>, s'))"

definition dequeue_consumer ::
    "(uuid \<Rightarrow> bool) \<Rightarrow> handle \<Rightarrow> timestamp \<Rightarrow> int \<Rightarrow> uuid \<Rightarrow> store \<Rightarrow> job_row list result \<times> store" where
  "dequeue_consumer locked h now limit w s =
     (case dequeue_inner locked id None h now limit w True False s of
        (Inl e, s') \<Rightarrow> (Inl e, s')
      | (Inr b, s') \<Rightarrow> (Inr (db_jobs b), s'))"

definition dequeue_worker ::
    "(uuid \<Rightarrow> bool) \<Rightarrow> (store \<Rightarrow> store) \<Rightarrow> string option \<Rightarrow> handle \<Rightarrow> timestamp \<Rightarrow> int \<Rightarrow> uuid
     \<Rightarrow> store \<Rightarrow> dequeue_batch result \<times> store" where
  "dequeue_worker locked env probe_fails h now limit w s =
     dequeue_inner locked env probe_fails h now limit w True True s"

section \<open>Finish\<close>

definition expiry :: "timestamp \<Rightarrow> int option \<Rightarrow> timestamp option" where
  "expiry now ttl = map_option (\<lambda>ms. now + interval_ms ms) ttl"

text \<open>
  \<^verbatim>\<open>finish_rows_sql!\<close>: of the candidate rows those whose retention deletes immediately
  are deleted and the others updated.
\<close>

definition finish_rows ::
    "(job_row \<Rightarrow> bool) \<Rightarrow> (job_row \<Rightarrow> int option) \<Rightarrow> (job_row \<Rightarrow> job_row) \<Rightarrow> job_row list \<Rightarrow> job_row list" where
  "finish_rows candidate ttl f rows =
     update_rows (\<lambda>j. candidate j \<and> ttl j \<noteq> Some 0) f
       (delete_rows (\<lambda>j. candidate j \<and> ttl j = Some 0) rows)"

definition done_notifications :: "string \<Rightarrow> job_status \<Rightarrow> job_row list \<Rightarrow> notification list" where
  "done_notifications q st finished = map (\<lambda>j. NDone q (j_id j) st) (filter j_awaited finished)"

definition finish_ttl :: "job_status \<Rightarrow> job_row \<Rightarrow> int option" where
  "finish_ttl st j = (if st = Complete then j_result_ttl_ms j else j_failed_ttl_ms j)"

definition finish_guard :: "string \<Rightarrow> attempt_guard \<Rightarrow> job_status \<Rightarrow> job_row \<Rightarrow> bool" where
  "finish_guard q g st j \<longleftrightarrow> under_claim q g j \<and>
     (j_status j = Running \<or> (j_status j = Aborting \<and> (st = Aborted \<or> row_swept j)))"

definition finish_row :: "timestamp \<Rightarrow> job_status \<Rightarrow> json option \<Rightarrow> string option \<Rightarrow> job_row \<Rightarrow> job_row" where
  "finish_row now st res err j = j\<lparr>
     j_status := st, j_result := res,
     j_error := (if st = Complete then err else (case err of Some e \<Rightarrow> Some e | None \<Rightarrow> j_error j)),
     j_completed_at := Some now, j_touched_at := Some now,
     j_expires_at := expiry now (finish_ttl st j) \<rparr>"

definition finish_with_guards ::
    "timestamp \<Rightarrow> attempt_guard \<Rightarrow> job_status \<Rightarrow> json option \<Rightarrow> string option \<Rightarrow> handle \<Rightarrow> store
     \<Rightarrow> bool result \<times> handle \<times> store" where
  "finish_with_guards now g st res err h s =
     (if \<not> is_terminal st then (Inl (Config ''finish requires a terminal job status''), h, s)
      else
        let finished = filter (finish_guard (h_name h) g st) (st_jobs s)
        in if finished = [] then (Inr False, h, s)
           else (Inr True,
                 (case st of Complete \<Rightarrow> record_complete h | Failed \<Rightarrow> record_failed h | _ \<Rightarrow> record_abort h),
                 notify (done_notifications (h_name h) st finished)
                   (s\<lparr> st_jobs := finish_rows (finish_guard (h_name h) g st) (finish_ttl st)
                                   (finish_row now st res err) (st_jobs s) \<rparr>)))"

definition finish ::
    "(json \<Rightarrow> string list) \<Rightarrow> timestamp \<Rightarrow> job_row \<Rightarrow> job_status \<Rightarrow> json option \<Rightarrow> string option \<Rightarrow> handle \<Rightarrow> store
     \<Rightarrow> bool result \<times> handle \<times> store" where
  "finish chunks now job st res err h s =
     (case and_then (ensure_owns h job) (\<lambda>_. validate_finalization chunks res err) of
        Inl e \<Rightarrow> (Inl e, h, s)
      | Inr _ \<Rightarrow> finish_with_guards now (guard_of_row job) st res (map_option truncate_stored_error err) h s)"

section \<open>Requeue\<close>

record requeue_guards =
  allow_running :: bool
  allow_swept_abort :: bool
  refund_attempt :: bool
  close_intake :: bool

definition requeue_guard :: "string \<Rightarrow> attempt_guard \<Rightarrow> requeue_guards \<Rightarrow> job_row \<Rightarrow> bool" where
  "requeue_guard q g gs j \<longleftrightarrow> under_claim q g j \<and>
     ((allow_running gs \<and> j_status j = Running) \<or>
      (allow_swept_abort gs \<and> j_status j = Aborting \<and> row_swept j)) \<and>
     (if refund_attempt gs then j_attempts j < max_attempts_cap else j_attempts j < j_max_attempts j)"

definition requeue_row :: "timestamp \<Rightarrow> int \<Rightarrow> string option \<Rightarrow> bool \<Rightarrow> job_row \<Rightarrow> job_row" where
  "requeue_row now delay_ms err refund j = j\<lparr>
     j_status := Queued,
     j_max_attempts := (if refund then min (j_max_attempts j + 1) max_attempts_cap else j_max_attempts j),
     j_scheduled_at := (if delay_ms = 0 then j_scheduled_at j else now + interval_ms delay_ms),
     j_error := (case err of Some e \<Rightarrow> Some e | None \<Rightarrow> j_error j),
     j_completed_at := None, j_started_at := None, j_worker_id := None,
     j_touched_at := Some now, j_expires_at := None, j_result := None \<rparr>"

definition close_worker :: "timestamp \<Rightarrow> string \<Rightarrow> uuid option \<Rightarrow> worker_row list \<Rightarrow> worker_row list" where
  "close_worker now q w ws =
     update_rows (\<lambda>r. Some (w_id r) = w \<and> w_queue r = q)
       (\<lambda>r. r\<lparr> w_accepting := False, w_heartbeat_at := now \<rparr>) ws"

text \<open>\<^verbatim>\<open>REQUEUE_GUARDED_SQL\<close>, with the delay in milliseconds.\<close>

definition requeue_guarded_sql ::
    "timestamp \<Rightarrow> attempt_guard \<Rightarrow> string option \<Rightarrow> int \<Rightarrow> requeue_guards \<Rightarrow> string \<Rightarrow> store \<Rightarrow> bool \<times> store" where
  "requeue_guarded_sql now g err delay_ms gs q s =
     (let p = requeue_guard q g gs;
          f = requeue_row now delay_ms err (refund_attempt gs);
          requeued = map f (filter p (st_jobs s))
      in (requeued \<noteq> [],
          notify (map (\<lambda>_. NEnqueue q) (filter (\<lambda>j. j_scheduled_at j \<le> now) requeued))
            (s\<lparr> st_jobs := update_rows p f (st_jobs s),
                st_workers := (if close_intake gs then close_worker now q (ag_worker_id g) (st_workers s)
                               else st_workers s) \<rparr>)))"

definition requeue_guarded ::
    "timestamp \<Rightarrow> attempt_guard \<Rightarrow> string option \<Rightarrow> duration \<Rightarrow> requeue_guards \<Rightarrow> handle \<Rightarrow> store \<Rightarrow> bool \<times> store" where
  "requeue_guarded now g err delay gs h s = requeue_guarded_sql now g err (duration_to_ms delay) gs (h_name h) s"

definition retry ::
    "(json \<Rightarrow> string list) \<Rightarrow> (duration \<Rightarrow> duration) \<Rightarrow> timestamp \<Rightarrow> job_row \<Rightarrow> string \<Rightarrow> handle \<Rightarrow> store
     \<Rightarrow> bool result \<times> handle \<times> store" where
  "retry chunks jitter now job err h s =
     (case and_then (ensure_owns h job) (\<lambda>_. validate_finalization chunks None (Some err)) of
        Inl e \<Rightarrow> (Inl e, h, s)
      | Inr _ \<Rightarrow>
          (if \<not> row_is_retryable job then (Inr False, h, s)
           else let (retried, s') = requeue_guarded now (guard_of_row job) (Some (truncate_stored_error err))
                      (row_next_retry_delay jitter job)
                      \<lparr> allow_running = True, allow_swept_abort = True, refund_attempt = False, close_intake = False \<rparr> h s
                in (Inr retried, if retried then record_retry h else h, s')))"

definition retry_swept ::
    "(json \<Rightarrow> string list) \<Rightarrow> (duration \<Rightarrow> duration) \<Rightarrow> timestamp \<Rightarrow> job_row \<Rightarrow> string option \<Rightarrow> handle \<Rightarrow> store
     \<Rightarrow> bool result \<times> handle \<times> store" where
  "retry_swept chunks jitter now job err h s =
     (case and_then (ensure_owns h job) (\<lambda>_. validate_finalization chunks None err) of
        Inl e \<Rightarrow> (Inl e, h, s)
      | Inr _ \<Rightarrow>
          (let (retried, s') = requeue_guarded now (guard_of_row job) (map_option truncate_stored_error err)
                 (row_next_retry_delay jitter job)
                 \<lparr> allow_running = False, allow_swept_abort = True, refund_attempt = False, close_intake = False \<rparr> h s
           in (Inr retried, if retried then record_retry h else h, s')))"

definition requeue_shutdown ::
    "(json \<Rightarrow> string list) \<Rightarrow> timestamp \<Rightarrow> job_row \<Rightarrow> string \<Rightarrow> handle \<Rightarrow> store \<Rightarrow> bool result \<times> handle \<times> store" where
  "requeue_shutdown chunks now job err h s =
     (case and_then (ensure_owns h job) (\<lambda>_. validate_finalization chunks None (Some err)) of
        Inl e \<Rightarrow> (Inl e, h, s)
      | Inr _ \<Rightarrow>
          (let (retried, s') = requeue_guarded now (guard_of_row job) (Some (truncate_stored_error err)) 0
                 \<lparr> allow_running = True, allow_swept_abort = True, refund_attempt = True, close_intake = True \<rparr> h s
           in (Inr retried, if retried then record_retry h else h, s')))"

definition UNHANDLED_REQUEUE_DELAY :: duration where "UNHANDLED_REQUEUE_DELAY = from_secs 10"
definition UNHANDLED_REQUEUE_JITTER :: duration where "UNHANDLED_REQUEUE_JITTER = from_secs 5"

definition requeue_unhandled ::
    "(duration \<Rightarrow> duration) \<Rightarrow> timestamp \<Rightarrow> job_row \<Rightarrow> handle \<Rightarrow> store \<Rightarrow> bool result \<times> handle \<times> store" where
  "requeue_unhandled jitter now job h s =
     (case ensure_owns h job of
        Inl e \<Rightarrow> (Inl e, h, s)
      | Inr _ \<Rightarrow>
          (let (retried, s') = requeue_guarded now (guard_of_row job)
                 (Some (''no handler registered for job '' @ debug_str (j_name job)))
                 (UNHANDLED_REQUEUE_DELAY + jitter UNHANDLED_REQUEUE_JITTER)
                 \<lparr> allow_running = True, allow_swept_abort = True, refund_attempt = True, close_intake = False \<rparr> h s
           in (Inr retried, h, s')))"

section \<open>User abort\<close>

definition abort_guard :: "string \<Rightarrow> uuid \<Rightarrow> job_row \<Rightarrow> bool" where
  "abort_guard q i j \<longleftrightarrow> j_id j = i \<and> j_queue j = q \<and>
     (j_status j \<in> {Queued, Running} \<or> (j_status j = Aborting \<and> row_swept j))"

definition abort_row :: "timestamp \<Rightarrow> string \<Rightarrow> job_row \<Rightarrow> job_row" where
  "abort_row now reason j = j\<lparr>
     j_status := (if j_status j = Queued then Aborted else Aborting),
     j_error := Some reason, j_touched_at := Some now, j_result := None,
     j_completed_at := (if j_status j = Queued then Some now else j_completed_at j),
     j_expires_at := (if j_status j = Queued \<and> j_failed_ttl_ms j \<noteq> None
                      then expiry now (j_failed_ttl_ms j) else j_expires_at j) \<rparr>"

definition abort ::
    "(json \<Rightarrow> string list) \<Rightarrow> timestamp \<Rightarrow> uuid \<Rightarrow> string \<Rightarrow> handle \<Rightarrow> store \<Rightarrow> bool result \<times> handle \<times> store" where
  "abort chunks now i reason h s =
     (case validate_finalization chunks None (Some reason) of
        Inl e \<Rightarrow> (Inl e, h, s)
      | Inr _ \<Rightarrow>
          (let p = abort_guard (h_name h) i;
               f = abort_row now (truncate_stored_error reason);
               updated = map f (filter p (st_jobs s))
           in if updated = [] then (Inr False, h, s)
              else (Inr True,
                    (if list_ex (\<lambda>j. j_status j = Aborted) updated then record_abort h else h),
                    notify (done_notifications (h_name h) Aborted (filter (\<lambda>j. j_status j = Aborted) updated))
                      (s\<lparr> st_jobs := update_rows p f (st_jobs s) \<rparr>))))"

section \<open>Manual retry of a finished job\<close>

definition retry_source_guard :: "string \<Rightarrow> uuid \<Rightarrow> job_row \<Rightarrow> bool" where
  "retry_source_guard q i j \<longleftrightarrow> j_id j = i \<and> j_queue j = q \<and>
     j_status j \<in> {Complete, Failed, Aborted} \<and> j_retried_at j = None \<and> j_attempts j < max_attempts_cap"

definition retried_row :: "uuid \<Rightarrow> timestamp \<Rightarrow> string \<Rightarrow> job_row \<Rightarrow> job_row" where
  "retried_row new_id clock reason src = src\<lparr>
     j_id := new_id,
     j_dedupe_key := (if j_kind src = ''cron'' then None else j_dedupe_key src),
     j_status := Queued,
     j_max_attempts := j_attempts src + 1,
     j_scheduled_at := clock, j_enqueued_at := clock,
     j_started_at := None, j_touched_at := None, j_completed_at := None, j_expires_at := None,
     j_result := None, j_error := Some reason, j_worker_id := None,
     j_retried_at := None, j_awaited := False \<rparr>"

text \<open>
  \<open>clock\<close> is the wall clock read after the advisory lock. Without a fresh occurrence
  the whole transaction is rolled back, the mark on the source included.
\<close>

definition retry_job_occurrence ::
    "(json \<Rightarrow> string list) \<Rightarrow> timestamp \<Rightarrow> timestamp \<Rightarrow> uuid \<Rightarrow> uuid \<Rightarrow> string \<Rightarrow> handle \<Rightarrow> store
     \<Rightarrow> (uuid option) result \<times> handle \<times> store" where
  "retry_job_occurrence chunks now clock new_id i reason h s =
     (case validate_finalization chunks None (Some reason) of
        Inl e \<Rightarrow> (Inl e, h, s)
      | Inr _ \<Rightarrow>
          (let p = retry_source_guard (h_name h) i;
               marked = update_rows p (\<lambda>j. j\<lparr> j_retried_at := Some now \<rparr>) (st_jobs s)
           in case find p (st_jobs s) of
                None \<Rightarrow> (Inr None, h, s)
              | Some src \<Rightarrow>
                  (case insert_on_conflict (retried_row new_id clock (truncate_stored_error reason) src) marked of
                     Inl e \<Rightarrow> (Inl e, h, s)
                   | Inr None \<Rightarrow> (Inr None, h, s)
                   | Inr (Some js) \<Rightarrow>
                       (Inr (Some new_id), record_retry h,
                        notify [NEnqueue (h_name h)] (s\<lparr> st_jobs := js \<rparr>)))))"

section \<open>Reads\<close>

definition job_outcome :: "handle \<Rightarrow> uuid \<Rightarrow> store \<Rightarrow> (job_status \<times> json option \<times> string option) option" where
  "job_outcome h i s =
     map_option (\<lambda>j. (j_status j, j_result j, j_error j))
       (find (\<lambda>j. j_id j = i \<and> j_queue j = h_name h) (st_jobs s))"

definition db_job :: "handle \<Rightarrow> uuid \<Rightarrow> store \<Rightarrow> job_row option" where
  "db_job h i s = find (\<lambda>j. j_id j = i \<and> j_queue j = h_name h) (st_jobs s)"

section \<open>Every UPDATE keeps the contract\<close>

definition err_fits :: "string option \<Rightarrow> bool" where
  "err_fits err = (case err of None \<Rightarrow> True | Some e \<Rightarrow> length e \<le> 1048576)"

lemma truncate_stored_error_length [simp]: "length (truncate_stored_error t) \<le> 1048576"
  using truncate_owned_utf8_length [of 1048576 t]
  by (simp add: truncate_stored_error_def MAX_STORED_ERROR_BYTES_def MAX_JSON_DOCUMENT_BYTES_def)

lemma err_fits_simps [simp]:
  "err_fits None" "err_fits (Some e) \<longleftrightarrow> length e \<le> 1048576" "err_fits (Some (truncate_stored_error t))"
  "err_fits (map_option truncate_stored_error x)"
  using truncate_stored_error_length by (auto simp: err_fits_def split: option.splits)

lemmas row_check_defs = row_ok_def attempts_ok_def is_live_def

interpretation claim: live_row_update "claim_guard h now opened cands" "claim_row now w"
  for h now opened cands w
  by unfold_locales (auto simp: claim_guard_def claimable_def claim_row_def row_check_defs)

interpretation requeue: live_row_update
  "\<lambda>j. err_fits err \<and> requeue_guard q g gs j" "requeue_row now d err (refund_attempt gs)"
  for q g gs now d err
  by unfold_locales
    (auto simp: requeue_guard_def requeue_row_def err_fits_def row_check_defs split: option.splits if_splits)

interpretation finish: live_row_update
  "\<lambda>j. (err_fits err \<and> is_terminal st) \<and> finish_guard q g st j \<and> finish_ttl st j \<noteq> Some 0"
  "finish_row now st res err"
  for q g st now res err
proof (unfold_locales, goal_cases)
  case (2 j)
  then have "st \<noteq> Queued" "st \<noteq> Running" "st \<noteq> Aborting" by (auto simp: is_live_def)
  then show ?case using 2
    by (auto simp: finish_guard_def finish_row_def err_fits_def row_check_defs split: option.splits)
qed (auto simp: finish_guard_def finish_row_def is_live_def)

interpretation user_abort: live_row_update
  "\<lambda>j. err_fits (Some reason) \<and> abort_guard q i j" "abort_row now reason"
  for reason q i now
  by unfold_locales (auto simp: abort_guard_def abort_row_def row_check_defs split: if_splits)

interpretation retry_mark: row_update "retry_source_guard q i" "\<lambda>j. j\<lparr> j_retried_at := Some now \<rparr>"
  for q i now
  by unfold_locales (auto simp: row_check_defs)

interpretation awaited_mark: row_update
  "\<lambda>j. j_id j = i \<and> j_queue j = q \<and> \<not> j_awaited j" "\<lambda>j. j\<lparr> j_awaited := True \<rparr>"
  for i q
  by unfold_locales (auto simp: row_check_defs)

lemma jobs_ok_requeue:
  "err_fits err \<Longrightarrow> jobs_ok rows \<Longrightarrow>
     jobs_ok (update_rows (requeue_guard q g gs) (requeue_row now d err (refund_attempt gs)) rows)"
  using requeue.jobs_ok_update [of rows err q g gs now d] by simp

lemma jobs_ok_finish:
  "err_fits err \<Longrightarrow> is_terminal st \<Longrightarrow> jobs_ok rows \<Longrightarrow>
     jobs_ok (finish_rows (finish_guard q g st) (finish_ttl st) (finish_row now st res err) rows)"
  using finish.jobs_ok_update [of "delete_rows (\<lambda>j. finish_guard q g st j \<and> finish_ttl st j = Some 0) rows"
      err st q g now res] jobs_ok_delete
  by (simp add: finish_rows_def)

lemma jobs_ok_abort:
  "length reason \<le> 1048576 \<Longrightarrow> jobs_ok rows \<Longrightarrow> jobs_ok (update_rows (abort_guard q i) (abort_row now reason) rows)"
  using user_abort.jobs_ok_update [of rows reason q i now] by simp

lemma workers_ok_update: "(\<And>r. w_id (f r) = w_id r) \<Longrightarrow> workers_ok ws \<Longrightarrow> workers_ok (update_rows p f ws)"
  by (simp add: workers_ok_def map_update_rows)

lemma workers_ok_close: "workers_ok ws \<Longrightarrow> workers_ok (close_worker now q w ws)"
  by (simp add: close_worker_def workers_ok_update)

section \<open>Every operation keeps the schema\<close>

lemma store_ok_mark_awaited: "store_ok s \<Longrightarrow> store_ok (mark_awaited i h s)"
  using awaited_mark.jobs_ok_update [of "st_jobs s" i "h_name h"]
  by (simp add: mark_awaited_def store_ok_set_jobs store_ok_jobs)

lemma store_ok_dequeue_claim:
  "store_ok s \<Longrightarrow> dequeue_claim locked h now n w req s = (js, s') \<Longrightarrow> store_ok s'"
  using claim.jobs_ok_update by (auto simp: dequeue_claim_def Let_def store_ok_set_jobs store_ok_jobs)

lemma dequeue_inner_store:
  "dequeue_inner locked env pf h now limit w req probe s = (r, s') \<Longrightarrow>
     s' = s \<or> (\<exists>js. dequeue_claim locked h now (nat limit) w req s = (js, s'))"
  by (auto simp: dequeue_inner_def Let_def split: if_splits prod.splits sum.splits)

lemma store_ok_finish_with_guards:
  assumes "store_ok s" "err_fits err" "finish_with_guards now g st res err h s = (r, h', s')"
  shows "store_ok s'"
  using assms jobs_ok_finish [OF assms(2) _ store_ok_jobs [OF assms(1)], of st "h_name h" g now res]
  by (auto simp: finish_with_guards_def Let_def store_ok_set_jobs split: if_splits)

lemma store_ok_finish:
  "store_ok s \<Longrightarrow> finish chunks now jb st res err h s = (r, h', s') \<Longrightarrow> store_ok s'"
  using store_ok_finish_with_guards [of s "map_option truncate_stored_error err" now "guard_of_row jb" st res h]
  by (auto simp: finish_def split: sum.splits)

lemma store_ok_requeue_guarded_sql:
  "store_ok s \<Longrightarrow> err_fits err \<Longrightarrow> requeue_guarded_sql now g err d gs q s = (b, s') \<Longrightarrow> store_ok s'"
  using jobs_ok_requeue [of err "st_jobs s" q g gs now d] workers_ok_close
  by (auto simp: requeue_guarded_sql_def Let_def store_ok_def crons_ok_def)

lemma store_ok_requeue_guarded:
  "store_ok s \<Longrightarrow> err_fits err \<Longrightarrow> requeue_guarded now g err d gs h s = (b, s') \<Longrightarrow> store_ok s'"
  using store_ok_requeue_guarded_sql by (simp add: requeue_guarded_def)

lemma store_ok_retry:
  "store_ok s \<Longrightarrow> retry chunks jitter now jb err h s = (r, h', s') \<Longrightarrow> store_ok s'"
  by (auto simp: retry_def Let_def split: sum.splits if_splits prod.splits elim!: store_ok_requeue_guarded [rotated 2])

lemma store_ok_retry_swept:
  "store_ok s \<Longrightarrow> retry_swept chunks jitter now jb err h s = (r, h', s') \<Longrightarrow> store_ok s'"
  by (auto simp: retry_swept_def Let_def split: sum.splits if_splits prod.splits elim!: store_ok_requeue_guarded [rotated 2])

lemma store_ok_requeue_shutdown:
  "store_ok s \<Longrightarrow> requeue_shutdown chunks now jb err h s = (r, h', s') \<Longrightarrow> store_ok s'"
  by (auto simp: requeue_shutdown_def Let_def split: sum.splits if_splits prod.splits elim!: store_ok_requeue_guarded [rotated 2])

lemma store_ok_requeue_unhandled:
  "store_ok s \<Longrightarrow> row_ok jb \<Longrightarrow> requeue_unhandled jitter now jb h s = (r, h', s') \<Longrightarrow> store_ok s'"
  by (auto simp: requeue_unhandled_def Let_def row_ok_def debug_str_def
      split: sum.splits if_splits prod.splits elim!: store_ok_requeue_guarded [rotated 2])

lemma store_ok_abort:
  "store_ok s \<Longrightarrow> abort chunks now i reason h s = (r, h', s') \<Longrightarrow> store_ok s'"
  using jobs_ok_abort [OF truncate_stored_error_length [of reason] store_ok_jobs [of s], of "h_name h" i now]
  by (auto simp: abort_def Let_def store_ok_set_jobs split: sum.splits if_splits)

lemma row_ok_retried:
  "row_ok src \<Longrightarrow> retry_source_guard q i src \<Longrightarrow> length reason \<le> 1048576 \<Longrightarrow> row_ok (retried_row n clock reason src)"
  by (auto simp: retry_source_guard_def retried_row_def row_check_defs split: option.splits)

lemma store_ok_retry_job_occurrence:
  assumes "store_ok s" "retry_job_occurrence chunks now clock n i reason h s = (r, h', s')"
  shows "store_ok s'"
proof (cases "find (retry_source_guard (h_name h) i) (st_jobs s)")
  case None
  then show ?thesis using assms by (auto simp: retry_job_occurrence_def Let_def split: sum.splits)
next
  case (Some src)
  then have src: "src \<in> set (st_jobs s)" "retry_source_guard (h_name h) i src" by (auto simp: find_Some_iff)
  let ?m = "update_rows (retry_source_guard (h_name h) i) (\<lambda>j. j\<lparr> j_retried_at := Some now \<rparr>) (st_jobs s)"
  let ?j = "retried_row n clock (truncate_stored_error reason) src"
  have "row_ok ?j"
    using row_ok_retried [OF _ src(2) truncate_stored_error_length] src(1) assms(1)
    by (auto simp: store_ok_def jobs_ok_def list_all_iff)
  moreover have "jobs_ok ?m" using retry_mark.jobs_ok_update store_ok_jobs [OF assms(1)] by blast
  ultimately have "insert_on_conflict ?j ?m = Inr (Some js) \<Longrightarrow> store_ok (s\<lparr> st_jobs := js \<rparr>)" for js
    using jobs_ok_insert store_ok_set_jobs [OF assms(1)] by blast
  then show ?thesis using assms Some
    by (auto simp: retry_job_occurrence_def Let_def split: sum.splits option.splits)
qed

section \<open>Fencing\<close>

text \<open>
  The contract of a write that belongs to an attempt: where no row is under that
  claim any more, it reports failure and leaves the jobs table alone. \<open>wr\<close> is the
  statement as a function of the claim; its result says whether it took effect.
\<close>

locale fenced_write =
  fixes wr :: "attempt_guard \<Rightarrow> handle \<Rightarrow> store \<Rightarrow> bool \<times> store"
  assumes fenced: "\<forall>j\<in>set (st_jobs s). \<not> under_claim (h_name h) g j \<Longrightarrow>
      \<not> fst (wr g h s) \<and> st_jobs (snd (wr g h s)) = st_jobs s"
begin

lemma displaced:
  assumes "jobs_ok (st_jobs s)" "j \<in> set (st_jobs s)" "j_id j = ag_id g"
    "j_attempts j \<noteq> ag_attempts g \<or> j_worker_id j \<noteq> ag_worker_id g"
  shows "\<not> fst (wr g h s) \<and> st_jobs (snd (wr g h s)) = st_jobs s"
proof (rule fenced, rule ballI)
  fix x assume "x \<in> set (st_jobs s)"
  then show "\<not> under_claim (h_name h) g x"
    using jobs_ok_unique_id [OF assms(1) _ assms(2), of x] assms(3,4) by (auto simp: under_claim_def)
qed

lemma vanished: "ag_id g \<notin> set (map j_id (st_jobs s)) \<Longrightarrow>
    \<not> fst (wr g h s) \<and> st_jobs (snd (wr g h s)) = st_jobs s"
  by (rule fenced) (force simp: under_claim_def)

end

definition finish_write ::
    "timestamp \<Rightarrow> job_status \<Rightarrow> json option \<Rightarrow> string option \<Rightarrow> attempt_guard \<Rightarrow> handle \<Rightarrow> store \<Rightarrow> bool \<times> store" where
  "finish_write now st res err g h s =
     (case finish_with_guards now g st res err h s of (r, h', s') \<Rightarrow> (r = Inr True, s'))"

interpretation finish_fence: fenced_write "finish_write now st res err" for now st res err
proof (unfold_locales, goal_cases)
  case (1 s h g)
  then have "filter (finish_guard (h_name h) g st) (st_jobs s) = []"
    by (auto simp: filter_empty_conv finish_guard_def)
  then show ?case by (simp add: finish_write_def finish_with_guards_def Let_def)
qed

interpretation requeue_fence: fenced_write "\<lambda>g h s. requeue_guarded now g err d gs h s" for now err d gs
proof (unfold_locales, goal_cases)
  case (1 s h g)
  then have none: "\<And>j. j \<in> set (st_jobs s) \<Longrightarrow> \<not> requeue_guard (h_name h) g gs j"
    by (auto simp: requeue_guard_def)
  then show ?case
    by (auto simp: requeue_guarded_def requeue_guarded_sql_def Let_def filter_empty_conv update_rows_id)
qed

lemmas claim_fences = finish_fence.displaced requeue_fence.displaced

text \<open>What an operation of the public interface does to the jobs table follows from its statement.\<close>

lemma finish_unfenced:
  assumes "finish chunks now jb st res err h s = (r, h', s')"
  shows "r = Inr False \<and> s' = s \<or> (\<exists>e. r = Inl e \<and> s' = s) \<or>
    r = Inr True \<and> j_queue jb = h_name h \<and>
      finish_write now st res (map_option truncate_stored_error err) (guard_of_row jb) h s = (True, s')"
  using assms
  by (auto simp: finish_def finish_write_def finish_with_guards_def ensure_owns_def Let_def
      split: sum.splits if_splits)

lemma guard_of_row_simps [simp]:
  "ag_id (guard_of_row j) = j_id j" "ag_attempts (guard_of_row j) = j_attempts j"
  "ag_worker_id (guard_of_row j) = j_worker_id j"
  by (simp_all add: guard_of_row_def)

text \<open>The guarded statements pick at most the one row under the claim.\<close>

lemma under_claim_unique:
  "jobs_ok rows \<Longrightarrow> j \<in> set rows \<Longrightarrow> under_claim q g j \<Longrightarrow> x \<in> set rows \<Longrightarrow> under_claim q g x \<Longrightarrow> x = j"
  by (auto simp: under_claim_def intro: jobs_ok_unique_id)

lemma filter_under_claim:
  assumes "jobs_ok rows" "j \<in> set rows" "p j" "\<And>x. p x \<Longrightarrow> under_claim q g x"
  shows "filter p rows = [j]"
  using assms by (intro filter_eq_singleton [where key = j_id]) (auto simp: jobs_ok_def under_claim_def)

lemma update_under_claim:
  assumes "jobs_ok rows" "j \<in> set rows" "p j" "\<And>x. p x \<Longrightarrow> under_claim q g x"
  shows "update_rows p f rows = update_rows (\<lambda>x. j_id x = j_id j) (\<lambda>_. f j) rows"
proof (rule update_rows_cong)
  fix r assume r: "r \<in> set rows"
  show "p r = (j_id r = j_id j)"
    using jobs_ok_unique_id [OF assms(1) r assms(2)] assms(3,4) by (auto simp: under_claim_def)
  show "p r \<Longrightarrow> f r = f j"
    using jobs_ok_unique_id [OF assms(1) r assms(2)] assms(3,4) by (auto simp: under_claim_def)
qed

lemma finish_rows_one:
  assumes ok: "jobs_ok rows" "j \<in> set rows" and only: "\<And>x. x \<in> set rows \<Longrightarrow> p x = (j_id x = j_id j)"
  shows "finish_rows p ttl f rows =
      (if ttl j = Some 0 then delete_rows (\<lambda>x. j_id x = j_id j) rows
       else update_rows (\<lambda>x. j_id x = j_id j) (\<lambda>_. f j) rows)"
proof (cases "ttl j = Some 0")
  case True
  then have "delete_rows (\<lambda>x. p x \<and> ttl x = Some 0) rows = delete_rows (\<lambda>x. j_id x = j_id j) rows"
    using only jobs_ok_unique_id [OF ok(1) _ ok(2)] by (intro delete_rows_cong) auto
  moreover have "update_rows (\<lambda>x. p x \<and> ttl x \<noteq> Some 0) f (delete_rows (\<lambda>x. j_id x = j_id j) rows) =
      delete_rows (\<lambda>x. j_id x = j_id j) rows"
    by (rule update_rows_id) (use only in auto)
  ultimately show ?thesis using True by (simp add: finish_rows_def)
next
  case False
  then have "delete_rows (\<lambda>x. p x \<and> ttl x = Some 0) rows = rows"
    using only jobs_ok_unique_id [OF ok(1) _ ok(2)] by (intro delete_rows_id) auto
  moreover have "update_rows (\<lambda>x. p x \<and> ttl x \<noteq> Some 0) f rows =
      update_rows (\<lambda>x. j_id x = j_id j) (\<lambda>_. f j) rows"
    using only jobs_ok_unique_id [OF ok(1) _ ok(2)] False by (intro update_rows_cong) auto
  ultimately show ?thesis using False by (simp add: finish_rows_def)
qed

lemma requeue_guarded_takes:
  assumes "jobs_ok (st_jobs s)" "j \<in> set (st_jobs s)" "requeue_guard (h_name h) g gs j"
  shows "\<exists>s'. requeue_guarded now g err d gs h s = (True, s') \<and>
    st_jobs s' = update_rows (\<lambda>x. j_id x = j_id j)
      (\<lambda>_. requeue_row now (duration_to_ms d) err (refund_attempt gs) j) (st_jobs s) \<and>
    st_workers s' = (if close_intake gs then close_worker now (h_name h) (ag_worker_id g) (st_workers s) else st_workers s)"
proof -
  let ?p = "requeue_guard (h_name h) g gs"
  have u: "\<And>x. ?p x \<Longrightarrow> under_claim (h_name h) g x" by (simp add: requeue_guard_def)
  have "filter ?p (st_jobs s) = [j]" by (rule filter_under_claim [where p = ?p, OF assms u])
  then show ?thesis
    using update_under_claim [where p = ?p, OF assms u] by (simp add: requeue_guarded_def requeue_guarded_sql_def Let_def)
qed

lemma close_worker_closes:
  "r \<in> set (close_worker now q (Some w) ws) \<Longrightarrow> w_id r = w \<Longrightarrow> w_queue r = q \<Longrightarrow> \<not> w_accepting r"
proof -
  assume r: "r \<in> set (close_worker now q (Some w) ws)" "w_id r = w" "w_queue r = q"
  then obtain x where x: "r = (if w_id x = w \<and> w_queue x = q then x\<lparr> w_accepting := False, w_heartbeat_at := now \<rparr> else x)"
    by (auto simp: close_worker_def in_update_rows)
  show "\<not> w_accepting r"
  proof (cases "w_id x = w \<and> w_queue x = q")
    case True
    then show ?thesis by (simp add: x)
  next
    case False
    then have "r = x" by (auto simp: x)
    then show ?thesis using False r(2,3) by blast
  qed
qed

lemma requeue_guarded_refuses:
  assumes "\<And>j. j \<in> set (st_jobs s) \<Longrightarrow> \<not> requeue_guard (h_name h) g gs j"
  shows "\<not> fst (requeue_guarded now g err d gs h s) \<and> st_jobs (snd (requeue_guarded now g err d gs h s)) = st_jobs s"
  using assms by (auto simp: requeue_guarded_def requeue_guarded_sql_def Let_def filter_empty_conv update_rows_id)

lemma abort_rows:
  assumes "abort chunks now i reason h s = (Inr True, h', s')"
  shows "st_jobs s' = update_rows (abort_guard (h_name h) i) (abort_row now (truncate_stored_error reason)) (st_jobs s) \<and>
    (\<exists>j\<in>set (st_jobs s). abort_guard (h_name h) i j)"
  using assms by (auto simp: abort_def Let_def filter_empty_conv split: sum.splits if_splits)

section \<open>What the operations do\<close>

lemma dequeue_key_claim_row [simp]: "dequeue_key (claim_row now w j) = dequeue_key j"
  by (simp add: dequeue_key_def claim_row_def)

lemma j_id_claim_row [simp]: "j_id (claim_row now w j) = j_id j"
  by (simp add: claim_row_def)

text \<open>With an open intake the claim takes exactly the selected rows.\<close>

lemma dequeue_claimed_set:
  assumes "jobs_ok (st_jobs s)" "dequeue_claim locked h now n w req s = (js, s')"
  shows "set js = (if req \<and> \<not> intake_open h now w s then {}
    else claim_row now w ` set (select_rows (\<lambda>j. claimable h now j \<and> \<not> locked (j_id j)) dequeue_key n (st_jobs s)))"
proof -
  let ?sel = "select_rows (\<lambda>j. claimable h now j \<and> \<not> locked (j_id j)) dequeue_key n (st_jobs s)"
  have "set (filter (claim_guard h now True (map j_id ?sel)) (st_jobs s)) = set ?sel"
    using jobs_ok_unique_id [OF assms(1)] by (auto simp: claim_guard_def dest: in_select_rows)
  then have "claim_row now w ` {x \<in> set (st_jobs s). claim_guard h now True (map j_id ?sel) x} = claim_row now w ` set ?sel"
    by simp
  then show ?thesis using assms(2)
    by (auto simp: dequeue_claim_def dequeue_candidates_def Let_def claim_guard_def)
qed

lemma dequeue_claimed_distinct:
  assumes "jobs_ok (st_jobs s)" "dequeue_claim locked h now n w req s = (js, s')"
  shows "distinct (map j_id js)" "length js \<le> n"
proof -
  let ?sel = "select_rows (\<lambda>j. claimable h now j \<and> \<not> locked (j_id j)) dequeue_key n (st_jobs s)"
  have "\<exists>p. js = map (claim_row now w) (filter p (st_jobs s))"
    using assms(2) by (auto simp: dequeue_claim_def Let_def)
  then obtain p where js: "js = map (claim_row now w) (filter p (st_jobs s))" by blast
  have "map j_id js = map j_id (filter p (st_jobs s))" by (simp add: js)
  then show d: "distinct (map j_id js)"
    using assms(1) by (simp add: jobs_ok_def distinct_map_filter)
  have "set (map j_id js) \<subseteq> set (map j_id ?sel)"
    using dequeue_claimed_set [OF assms] by (auto split: if_splits)
  then have "card (set (map j_id js)) \<le> length (map j_id ?sel)"
    using card_mono [OF finite_set] card_length le_trans by blast
  then show "length js \<le> n"
    using d distinct_card [OF d] by (simp add: length_select_rows)
qed

text \<open>A small store: one queued job and one worker with a live lease.\<close>

definition sample_row :: job_row where
  "sample_row = new_job_row ''default'' 1000 7 sample_request None False (JObject [(''type'', JString ''none'')])"

definition sample_worker :: worker_row where
  "sample_worker = \<lparr> w_id = 3, w_queue = ''default'', w_stats = JObject [], w_metadata = None, w_started_at = 0,
     w_heartbeat_at = 0, w_expires_at = 100000, w_accepting = True \<rparr>"

definition sample_store :: "job_row \<Rightarrow> store" where
  "sample_store j = empty_store\<lparr> st_jobs := [j], st_workers := [sample_worker] \<rparr>"

definition sample_running :: job_row where "sample_running = claim_row 2000 3 sample_row"

lemma sample_row_ok: "row_ok sample_row" "row_ok sample_running"
proof -
  have d: "duration_to_ms 10000000000 = 10000" "duration_to_ms 600000000000 = 600000"
    "duration_to_ms 604800000000000 = 604800000"
    by (simp_all add: duration_to_ms_def duration_to_ms_checked_def div_ceil_def)
  show "row_ok sample_row" "row_ok sample_running"
    by (simp_all add: sample_running_def claim_row_def sample_row_def new_job_row_def sample_request_def
        job_request_new_def job_config_default_def duration_consts d row_ok_def attempts_ok_def ttl_ok_def u32_as_i32_def)
qed

lemma sample_store_ok: "row_ok j \<Longrightarrow> store_ok (sample_store j)"
  by (auto simp: sample_store_def empty_store_def store_ok_def jobs_ok_def workers_ok_def crons_ok_def
      split: option.splits)

lemmas sample_defs = sample_store_def sample_running_def sample_row_def sample_worker_def sample_handle_def
  sample_request_def job_request_new_def job_config_default_def empty_store_def new_job_row_def

section \<open>Properties\<close>

text \<open>
  C9: a dequeue hands out jobs in order and only under a live lease. The batch is
  at most the limit, without repetition, sorted by priority, due time and
  identifier; every job in it was a due queued row of this queue inside the
  priority window and is now stored as running under this worker with one more
  attempt; no unlocked due row that comes earlier in the order was passed over;
  and a worker whose lease is missing, expired or closed gets nothing.
\<close>

theorem dequeue_hands_out_in_order:
  assumes s: "store_ok s" and d: "dequeue_inner locked env pf h now limit w True probe s = (Inr b, s')"
  shows "int (length (db_jobs b)) \<le> limit \<and> distinct (map j_id (db_jobs b)) \<and>
    sorted (map dequeue_key (db_jobs b)) \<and>
    (\<forall>j\<in>set (db_jobs b). j \<in> set (st_jobs s') \<and>
       (\<exists>j0\<in>set (st_jobs s). claimable h now j0 \<and> \<not> locked (j_id j0) \<and> j = claim_row now w j0)) \<and>
    (\<forall>j\<in>set (db_jobs b). \<forall>j0\<in>set (st_jobs s). claimable h now j0 \<and> \<not> locked (j_id j0) \<and>
       claim_row now w j0 \<notin> set (db_jobs b) \<longrightarrow> dequeue_key j \<le> dequeue_key j0) \<and>
    (\<not> intake_open h now w s \<longrightarrow> db_jobs b = [] \<and> s' = s)"
proof -
  have limit: "0 < limit" using d by (auto simp: dequeue_inner_def split: if_splits)
  obtain js where c: "dequeue_claim locked h now (nat limit) w True s = (js, s')"
    and b: "db_jobs b = sort_key dequeue_key js"
    using d limit by (auto simp: dequeue_inner_def Let_def split: prod.splits sum.splits)
  note j = store_ok_jobs [OF s]
  let ?sel = "select_rows (\<lambda>j. claimable h now j \<and> \<not> locked (j_id j)) dequeue_key (nat limit) (st_jobs s)"
  have js: "set js = (if \<not> intake_open h now w s then {} else claim_row now w ` set ?sel)"
    using dequeue_claimed_set [OF j c] by simp
  have ids: "distinct (map j_id js)" and len: "length js \<le> nat limit"
    using dequeue_claimed_distinct [OF j c] by auto
  have "distinct (map j_id (db_jobs b))" using ids by (simp add: b distinct_map)
  moreover have "x \<in> set (st_jobs s')" if "x \<in> set js" for x
    using c that by (force simp: dequeue_claim_def Let_def in_update_rows)
  moreover have "dequeue_key x \<le> dequeue_key j0"
    if x: "x \<in> set js" and j0: "j0 \<in> set (st_jobs s)" "claimable h now j0" "\<not> locked (j_id j0)"
      "claim_row now w j0 \<notin> set js" for x j0
  proof -
    obtain y where y: "y \<in> set ?sel" "x = claim_row now w y" using x js by (auto split: if_splits)
    moreover have "j0 \<notin> set ?sel" using x j0(4) js by (auto split: if_splits)
    ultimately show ?thesis using select_rows_minimal [OF y(1) j0(1)] j0(2,3) by simp
  qed
  moreover have "\<not> intake_open h now w s \<Longrightarrow> s' = s \<and> js = []"
    using c by (auto simp: dequeue_claim_def Let_def claim_guard_def update_rows_id)
  ultimately show ?thesis
    using js len limit by (auto simp: b dest!: in_select_rows)
qed

theorem dequeue_hands_out_in_order_witness:
  "\<exists>b s'. dequeue_inner (\<lambda>_. False) id None sample_handle 2000 10 3 True False (sample_store sample_row) = (Inr b, s') \<and>
     db_jobs b = [sample_running] \<and> sorted (map dequeue_key (db_jobs b))"
proof -
  have e: "dequeue_inner (\<lambda>_. False) id None sample_handle 2000 10 3 True False (sample_store sample_row) =
      (Inr \<lparr> db_jobs = [sample_running], db_intake_open = True, db_work_available = False \<rparr>,
       sample_store sample_running)"
    by (simp add: dequeue_inner_def dequeue_claim_def dequeue_candidates_def select_rows_def claim_guard_def
        claimable_def intake_open_def sample_defs)
  show ?thesis using dequeue_hands_out_in_order [OF sample_store_ok [OF sample_row_ok(1)] e] e by auto
qed

text \<open>
  C7: a displaced attempt cannot write. Once recovery has taken an attempt away
  (the row's attempt counter or worker differs from the claim) or the row is gone,
  none of the five writes a worker makes with that claim succeeds or changes the
  jobs table: finish, retry, retry of a swept attempt, shutdown requeue and the
  requeue of an unhandled job.
\<close>

theorem displaced_attempt_cannot_write:
  assumes s: "store_ok s"
    and gone: "\<forall>j\<in>set (st_jobs s). j_id j = j_id jb \<longrightarrow> j_attempts j \<noteq> j_attempts jb \<or> j_worker_id j \<noteq> j_worker_id jb"
  shows "\<forall>(r, s') \<in> {
      (case finish chunks now jb st res err h s of (r, h', s') \<Rightarrow> (r, s')),
      (case retry chunks jitter now jb e h s of (r, h', s') \<Rightarrow> (r, s')),
      (case retry_swept chunks jitter now jb err h s of (r, h', s') \<Rightarrow> (r, s')),
      (case requeue_shutdown chunks now jb e h s of (r, h', s') \<Rightarrow> (r, s')),
      (case requeue_unhandled jitter now jb h s of (r, h', s') \<Rightarrow> (r, s'))}.
    r \<noteq> Inr True \<and> st_jobs s' = st_jobs s"
proof -
  have none: "\<forall>j\<in>set (st_jobs s). \<not> under_claim (h_name h) (guard_of_row jb) j"
    using gone by (auto simp: under_claim_def)
  have f: "r \<noteq> Inr True \<and> st_jobs s' = st_jobs s" if "finish chunks now jb st res err h s = (r, h', s')" for r h' s'
    using finish_unfenced [OF that]
      finish_fence.fenced [OF none, of now st res "map_option truncate_stored_error err"] by auto
  have q: "\<not> b \<and> st_jobs s' = st_jobs s" if "requeue_guarded now (guard_of_row jb) x d gs h s = (b, s')" for x d gs b s'
    using requeue_fence.fenced [OF none, of now x d gs] that by simp
  show ?thesis
    by (auto simp: retry_def retry_swept_def requeue_shutdown_def requeue_unhandled_def Let_def
        split: prod.splits sum.splits dest: f q)
qed

theorem displaced_attempt_cannot_write_witness:
  "\<exists>r h' s'. finish (\<lambda>_. []) 3000 (sample_running\<lparr> j_attempts := 0 \<rparr>) Complete None None sample_handle
     (sample_store sample_running) = (r, h', s') \<and> r \<noteq> Inr True \<and> st_jobs s' = [sample_running]"
proof -
  obtain r h' s' where e: "finish (\<lambda>_. []) 3000 (sample_running\<lparr> j_attempts := 0 \<rparr>) Complete None None sample_handle
     (sample_store sample_running) = (r, h', s')" by (metis prod_cases3)
  have "\<forall>j\<in>set (st_jobs (sample_store sample_running)). j_id j = j_id (sample_running\<lparr> j_attempts := 0 \<rparr>) \<longrightarrow>
      j_attempts j \<noteq> j_attempts (sample_running\<lparr> j_attempts := 0 \<rparr>) \<or>
      j_worker_id j \<noteq> j_worker_id (sample_running\<lparr> j_attempts := 0 \<rparr>)"
    by (simp add: sample_store_def sample_running_def claim_row_def sample_row_def)
  then show ?thesis
    using displaced_attempt_cannot_write [OF sample_store_ok [OF sample_row_ok(2)],
        of "sample_running\<lparr> j_attempts := 0 \<rparr>" "\<lambda>_. []" 3000 Complete None None sample_handle] e
    by (auto simp: sample_store_def)
qed



text \<open>
  A user abort is final. After \<^verbatim>\<open>abort_job\<close> reports success the row is aborted,
  or aborting without the sweeper's marker whatever the reason text says; from
  there no requeue of any kind (retry, swept retry, shutdown, unhandled, claim
  recovery) takes the row back to the queue, and no finish other than aborted
  succeeds, so a cancellation is never resurrected as another run.
\<close>

theorem user_abort_is_final:
  assumes s: "store_ok s" and a: "abort chunks now i reason h s = (Inr True, h1, s1)"
  shows "(\<exists>j\<in>set (st_jobs s1). j_id j = i) \<and>
    (\<forall>j\<in>set (st_jobs s1). j_id j = i \<longrightarrow> j_status j \<in> {Aborted, Aborting} \<and> \<not> row_swept j \<and>
       j_error j = Some (truncate_stored_error reason)) \<and>
    (\<forall>now' g err d gs h2. ag_id g = i \<longrightarrow>
       \<not> fst (requeue_guarded now' g err d gs h2 s1) \<and> st_jobs (snd (requeue_guarded now' g err d gs h2 s1)) = st_jobs s1) \<and>
    (\<forall>now' g st res err h2. ag_id g = i \<longrightarrow> st \<noteq> Aborted \<longrightarrow> finish_write now' st res err g h2 s1 = (False, s1))"
proof -
  obtain j where j: "j \<in> set (st_jobs s)" "abort_guard (h_name h) i j" using abort_rows [OF a] by blast
  let ?p = "abort_guard (h_name h) i" and ?f = "abort_row now (truncate_stored_error reason)"
  have rows: "st_jobs s1 = update_rows ?p ?f (st_jobs s)" using abort_rows [OF a] by blast
  have fin: "x \<in> set (st_jobs s1) \<Longrightarrow> j_id x = i \<Longrightarrow> j_status x \<in> {Aborted, Aborting} \<and> \<not> row_swept x \<and>
       j_error x = Some (truncate_stored_error reason)" for x
  proof -
    assume x: "x \<in> set (st_jobs s1)" "j_id x = i"
    then obtain y where y: "y \<in> set (st_jobs s)" "x = (if ?p y then ?f y else y)" by (auto simp: rows in_update_rows)
    then have "j_id y = i" using x by (auto simp: abort_row_def split: if_splits)
    then have "y = j" using jobs_ok_unique_id [OF store_ok_jobs [OF s] y(1) j(1)] j(2) by (simp add: abort_guard_def)
    then show ?thesis using y j by (auto simp: abort_row_def row_swept_def is_swept_marked_def)
  qed
  have "\<exists>x\<in>set (st_jobs s1). j_id x = i"
    using update_rows_hit [where p = ?p, OF j, of ?f] j(2) by (intro bexI [of _ "?f j"]) (auto simp: rows abort_row_def abort_guard_def)
  moreover have "\<not> requeue_guard q g gs x" if "x \<in> set (st_jobs s1)" "ag_id g = i" for q g gs x
    using fin [OF that(1)] that(2) by (auto simp: requeue_guard_def under_claim_def)
  then have "\<forall>now' g err d gs h2. ag_id g = i \<longrightarrow>
       \<not> fst (requeue_guarded now' g err d gs h2 s1) \<and> st_jobs (snd (requeue_guarded now' g err d gs h2 s1)) = st_jobs s1"
    using requeue_guarded_refuses [of s1] by blast
  moreover have "\<not> finish_guard q g st x" if "x \<in> set (st_jobs s1)" "ag_id g = i" "st \<noteq> Aborted" for q g st x
    using fin [OF that(1)] that(2,3) by (auto simp: finish_guard_def under_claim_def)
  then have "filter (finish_guard q g st) (st_jobs s1) = []" if "ag_id g = i" "st \<noteq> Aborted" for q g st
    using that by (auto simp: filter_empty_conv)
  then have "\<forall>now' g st res err h2. ag_id g = i \<longrightarrow> st \<noteq> Aborted \<longrightarrow> finish_write now' st res err g h2 s1 = (False, s1)"
    by (auto simp: finish_write_def finish_with_guards_def Let_def)
  ultimately show ?thesis using fin by blast
qed

theorem user_abort_is_final_witness:
  "\<exists>h1 s1. abort (\<lambda>_. []) 3000 7 ''swept'' sample_handle (sample_store sample_running) = (Inr True, h1, s1) \<and>
     \<not> fst (requeue_guarded 4000 (guard_of_row sample_running) None 0
        \<lparr> allow_running = True, allow_swept_abort = True, refund_attempt = True, close_intake = False \<rparr> sample_handle s1)"
proof -
  have "fst (abort (\<lambda>_. []) 3000 7 ''swept'' sample_handle (sample_store sample_running)) = Inr True"
    by (simp add: abort_def validate_finalization_def abort_guard_def sample_store_def sample_running_def claim_row_def
        sample_row_def sample_handle_def Let_def)
  then obtain h1 s1 where e: "abort (\<lambda>_. []) 3000 7 ''swept'' sample_handle (sample_store sample_running) = (Inr True, h1, s1)"
    by (metis eq_fst_iff)
  have "ag_id (guard_of_row sample_running) = 7" by (simp add: sample_running_def sample_row_def)
  then show ?thesis using user_abort_is_final [OF sample_store_ok [OF sample_row_ok(2)] e] e by blast
qed

text \<open>
  A shutdown costs a job no attempt. The requeue of a running attempt, or of
  one the sweeper marked, succeeds below the attempt ceiling: the row is queued
  again at once and unowned, the attempt counter is not lowered, the tries the job
  has left are what they were before the claim, and the worker's intake is closed.
\<close>

theorem shutdown_requeue_refunds:
  assumes s: "store_ok s" and j0: "row_ok j0" "j_status j0 = Queued" "j_max_attempts j0 < max_attempts_cap"
    and j: "j = claim_row t w j0" "j \<in> set (st_jobs s)" "j_queue j = h_name h"
    and v: "validate_finalization chunks None (Some err) = Inr ()"
  shows "\<exists>h' s' j'. requeue_shutdown chunks now j err h s = (Inr True, h', s') \<and>
    st_jobs s' = update_rows (\<lambda>x. j_id x = j_id j) (\<lambda>_. j') (st_jobs s) \<and>
    j_status j' = Queued \<and> j_worker_id j' = None \<and> j_scheduled_at j' = j_scheduled_at j0 \<and>
    j_attempts j' = j_attempts j0 + 1 \<and>
    j_max_attempts j' - j_attempts j' = j_max_attempts j0 - j_attempts j0 \<and>
    (\<forall>r\<in>set (st_workers s'). w_id r = w \<and> w_queue r = h_name h \<longrightarrow> \<not> w_accepting r)"
proof -
  let ?gs = "\<lparr> allow_running = True, allow_swept_abort = True, refund_attempt = True, close_intake = True \<rparr>"
  have g: "requeue_guard (h_name h) (guard_of_row j) ?gs j"
    using j j0 by (auto simp: requeue_guard_def under_claim_def claim_row_def row_ok_def attempts_ok_def)
  obtain s' where q: "requeue_guarded now (guard_of_row j) (Some (truncate_stored_error err)) 0 ?gs h s = (True, s')"
    "st_jobs s' = update_rows (\<lambda>x. j_id x = j_id j)
      (\<lambda>_. requeue_row now 0 (Some (truncate_stored_error err)) True j) (st_jobs s)"
    "st_workers s' = close_worker now (h_name h) (j_worker_id j) (st_workers s)"
    using requeue_guarded_takes [OF store_ok_jobs [OF s] j(2) g, of now "Some (truncate_stored_error err)" 0] by auto
  have "requeue_shutdown chunks now j err h s = (Inr True, record_retry h, s')"
    using q(1) v j(3) by (simp add: requeue_shutdown_def ensure_owns_def)
  moreover have "\<forall>r\<in>set (st_workers s'). w_id r = w \<and> w_queue r = h_name h \<longrightarrow> \<not> w_accepting r"
    using close_worker_closes j(1) by (auto simp: q(3) claim_row_def)
  ultimately show ?thesis
    using q(2) j(1) j0
    by (intro exI [of _ "record_retry h"] exI [of _ s'] exI [of _ "requeue_row now 0 (Some (truncate_stored_error err)) True j"])
       (auto simp: requeue_row_def claim_row_def)
qed

theorem shutdown_requeue_refunds_witness:
  "\<exists>h' s' j'. requeue_shutdown (\<lambda>_. []) 3000 sample_running ''bye'' sample_handle (sample_store sample_running) =
     (Inr True, h', s') \<and> st_jobs s' = [j'] \<and> j_status j' = Queued \<and> j_attempts j' = 1 \<and> j_max_attempts j' = 2"
proof -
  have v: "validate_finalization (\<lambda>_. []) None (Some ''bye'') = Inr ()" by (simp add: validate_finalization_def)
  have m: "j_status sample_row = Queued" "j_max_attempts sample_row = 1" "j_attempts sample_row = 0"
    by (simp_all add: sample_row_def new_job_row_def sample_request_def job_request_new_def job_config_default_def u32_as_i32_def)
  have q: "j_queue sample_running = h_name sample_handle"
    by (simp add: sample_running_def claim_row_def sample_row_def sample_handle_def)
  show ?thesis
    using shutdown_requeue_refunds [OF sample_store_ok [OF sample_row_ok(2)] sample_row_ok(1) m(1) _ sample_running_def _ q v,
        of 3000] m
    by (auto simp: sample_store_def)
qed

text \<open>
  A finished job is retried by hand at most once. A successful retry leaves
  the finished row in place, marked, and inserts a fresh queued occurrence that
  keeps the attempt counter and has exactly one try, without the dedupe key when
  it was a cron occurrence; every later retry of the same row is refused and
  changes nothing. A retry refused because the key is held leaves no mark behind.
\<close>

theorem manual_retry_at_most_once:
  assumes s: "store_ok s" and r: "retry_job_occurrence chunks now clock n i reason h s = (r, h', s')"
  shows "(\<forall>m. r = Inr (Some m) \<longrightarrow> m = n \<and>
      (\<exists>src\<in>set (st_jobs s). j_id src = i \<and> is_terminal (j_status src) \<and> j_retried_at src = None \<and>
         src\<lparr> j_retried_at := Some now \<rparr> \<in> set (st_jobs s') \<and>
         (\<exists>j\<in>set (st_jobs s'). j_id j = n \<and> j_status j = Queued \<and> j_attempts j = j_attempts src \<and>
            j_max_attempts j = j_attempts j + 1 \<and> j_payload j = j_payload src \<and>
            j_dedupe_key j = (if j_kind src = ''cron'' then None else j_dedupe_key src))) \<and>
      (\<forall>now2 clock2 n2 reason2 m2 h2 h2' s2. retry_job_occurrence chunks now2 clock2 n2 i reason2 h2 s' = (Inr m2, h2', s2) \<longrightarrow>
         m2 = None \<and> s2 = s')) \<and>
    ((\<nexists>m. r = Inr (Some m)) \<longrightarrow> s' = s)"
proof (cases "\<exists>m. r = Inr (Some m)")
  case False
  then show ?thesis using r
    by (auto simp: retry_job_occurrence_def Let_def split: sum.splits option.splits)
next
  case True
  let ?p = "retry_source_guard (h_name h) i"
  let ?marked = "update_rows ?p (\<lambda>j. j\<lparr> j_retried_at := Some now \<rparr>) (st_jobs s)"
  obtain src where src: "find ?p (st_jobs s) = Some src" and rm: "r = Inr (Some n)"
    and ins: "insert_on_conflict (retried_row n clock (truncate_stored_error reason) src) ?marked = Inr (Some (st_jobs s'))"
    using r True by (auto simp: retry_job_occurrence_def Let_def split: sum.splits option.splits)
  have mem: "src \<in> set (st_jobs s)" "?p src" using src by (auto simp: find_Some_iff)
  let ?new = "retried_row n clock (truncate_stored_error reason) src"
  have s': "st_jobs s' = ?marked @ [?new]" and new: "n \<notin> set (map j_id ?marked)"
    using ins by (auto simp: insert_on_conflict_Some retried_row_def)
  have marked: "src\<lparr> j_retried_at := Some now \<rparr> \<in> set ?marked"
    using update_rows_hit [where p = ?p, OF mem, of "\<lambda>j. j\<lparr> j_retried_at := Some now \<rparr>"] by simp
  have "j_id src = i" using mem(2) by (simp add: retry_source_guard_def)
  then have "i \<in> set (map j_id ?marked)" using image_eqI [OF _ marked, of i j_id] by simp
  then have "n \<noteq> i" using new by blast
  have "\<not> retry_source_guard q i x" if "x \<in> set (st_jobs s')" for q x
  proof
    assume x: "retry_source_guard q i x"
    then have "x \<in> set ?marked" using that s' \<open>n \<noteq> i\<close> by (auto simp: retry_source_guard_def retried_row_def)
    then obtain y where y: "y \<in> set (st_jobs s)" "x = (if ?p y then y\<lparr> j_retried_at := Some now \<rparr> else y)"
      by (auto simp: in_update_rows)
    then have "j_id y = i" using x by (auto simp: retry_source_guard_def split: if_splits)
    then have "y = src" using jobs_ok_unique_id [OF store_ok_jobs [OF s] y(1) mem(1)] \<open>j_id src = i\<close> by simp
    then show False using x y mem(2) by (auto simp: retry_source_guard_def)
  qed
  then have none: "find (retry_source_guard q i) (st_jobs s') = None" for q by (auto simp: find_None_iff)
  have later: "m2 = None \<and> s2 = s'" if "retry_job_occurrence chunks now2 clock2 n2 i reason2 h2 s' = (Inr m2, h2', s2)"
    for now2 clock2 n2 reason2 m2 h2 h2' s2
    using that none [of "h_name h2"] by (auto simp: retry_job_occurrence_def Let_def split: sum.splits)
  have "j_id ?new = n \<and> j_status ?new = Queued \<and> j_attempts ?new = j_attempts src \<and>
      j_max_attempts ?new = j_attempts ?new + 1 \<and> j_payload ?new = j_payload src \<and>
      j_dedupe_key ?new = (if j_kind src = ''cron'' then None else j_dedupe_key src)"
    by (simp add: retried_row_def)
  moreover have "j_id src = i \<and> is_terminal (j_status src) \<and> j_retried_at src = None"
    using mem(2) by (auto simp: retry_source_guard_def)
  ultimately show ?thesis using rm mem(1) marked later by (auto simp: s' intro!: bexI [of _ src])
qed

theorem manual_retry_at_most_once_witness:
  "\<exists>h' s'. retry_job_occurrence (\<lambda>_. []) 5000 5000 9 7 ''again'' sample_handle
       (sample_store (sample_running\<lparr> j_status := Failed \<rparr>)) = (Inr (Some 9), h', s') \<and>
     (\<exists>j\<in>set (st_jobs s'). j_id j = 9 \<and> j_status j = Queued \<and> j_max_attempts j = j_attempts j + 1)"
proof -
  have ok: "row_ok (sample_running\<lparr> j_status := Failed \<rparr>)"
    using sample_row_ok(2) by (auto simp: row_ok_def attempts_ok_def)
  have "fst (retry_job_occurrence (\<lambda>_. []) 5000 5000 9 7 ''again'' sample_handle
       (sample_store (sample_running\<lparr> j_status := Failed \<rparr>))) = Inr (Some 9)"
    by (simp add: retry_job_occurrence_def validate_finalization_def retry_source_guard_def sample_defs claim_row_def
        insert_on_conflict_def retried_row_def live_key_def is_live_def Let_def)
  then obtain h' s' where e: "retry_job_occurrence (\<lambda>_. []) 5000 5000 9 7 ''again'' sample_handle
       (sample_store (sample_running\<lparr> j_status := Failed \<rparr>)) = (Inr (Some 9), h', s')"
    by (metis eq_fst_iff)
  show ?thesis using manual_retry_at_most_once [OF sample_store_ok [OF ok] e] e by blast
qed

end
