(* ===== verification/Db_Recovery.thy ===== *)
theory Db_Recovery
  imports Db_Lifecycle
begin

text \<open>
  Recovery of attempts nobody reports on, and the leases that say whether somebody
  does (\<^verbatim>\<open>database.rs\<close>): the resolvers of unacknowledged dequeue commits and of
  dropped attempts, the heartbeat upsert of a worker's lease, the abort poll a
  worker runs over its in-flight attempts, and the purge of queued jobs.
\<close>

section \<open>Unsettled claims\<close>

record unacknowledged_claim =
  uc_id :: uuid
  uc_attempts :: int

definition claim_guard_of :: "uuid option \<Rightarrow> unacknowledged_claim \<Rightarrow> attempt_guard" where
  "claim_guard_of w c = \<lparr> ag_id = uc_id c, ag_attempts = uc_attempts c, ag_worker_id = w \<rparr>"

definition UNACKNOWLEDGED_CLAIM_ERROR :: string where
  "UNACKNOWLEDGED_CLAIM_ERROR = ''dequeue commit was not acknowledged''"

definition DROPPED_ATTEMPT_ERROR :: string where
  "DROPPED_ATTEMPT_ERROR = ''attempt dropped without settlement''"

definition unsettled_guard :: "string \<Rightarrow> attempt_guard \<Rightarrow> job_row \<Rightarrow> bool" where
  "unsettled_guard q g j \<longleftrightarrow> under_claim q g j \<and> j_status j \<in> {Running, Aborting}"

definition unsettled_row :: "timestamp \<Rightarrow> string \<Rightarrow> job_row \<Rightarrow> job_row" where
  "unsettled_row now reason j = j\<lparr>
     j_status := Aborted, j_result := None,
     j_error := (if j_status j = Running \<or> row_swept j then Some reason else j_error j),
     j_completed_at := Some now, j_touched_at := Some now,
     j_expires_at := expiry now (j_failed_ttl_ms j) \<rparr>"

definition abort_unsettled_claim ::
    "timestamp \<Rightarrow> string \<Rightarrow> uuid option \<Rightarrow> unacknowledged_claim \<Rightarrow> string \<Rightarrow> store \<Rightarrow> bool \<times> store" where
  "abort_unsettled_claim now q w c reason s =
     (let p = unsettled_guard q (claim_guard_of w c);
          finished = filter p (st_jobs s)
      in (finished \<noteq> [],
          notify (done_notifications q Aborted finished)
            (s\<lparr> st_jobs := finish_rows p j_failed_ttl_ms (unsettled_row now reason) (st_jobs s) \<rparr>)))"

text \<open>One transaction over the claims, in order; the counts are of rows requeued and aborted.\<close>

fun resolve_claims ::
    "timestamp \<Rightarrow> string \<Rightarrow> uuid \<Rightarrow> unacknowledged_claim list \<Rightarrow> nat \<times> nat \<times> store \<Rightarrow> nat \<times> nat \<times> store" where
  "resolve_claims now q w [] acc = acc"
| "resolve_claims now q w (c # cs) (requeued, aborted, s) =
     (case requeue_guarded_sql now (claim_guard_of (Some w) c) (Some UNACKNOWLEDGED_CLAIM_ERROR) 0
        \<lparr> allow_running = True, allow_swept_abort = True, refund_attempt = True, close_intake = False \<rparr> q s of
        (True, s') \<Rightarrow> resolve_claims now q w cs (requeued + 1, aborted, s')
      | (False, s') \<Rightarrow>
          (case abort_unsettled_claim now q (Some w) c UNACKNOWLEDGED_CLAIM_ERROR s' of
             (True, s'') \<Rightarrow> resolve_claims now q w cs (requeued, aborted + 1, s'')
           | (False, s'') \<Rightarrow> resolve_claims now q w cs (requeued, aborted, s'')))"

definition requeue_unacknowledged_claims ::
    "timestamp \<Rightarrow> uuid \<Rightarrow> unacknowledged_claim list \<Rightarrow> handle \<Rightarrow> store \<Rightarrow> nat \<times> handle \<times> store" where
  "requeue_unacknowledged_claims now w claims h s =
     (if claims = [] then (0, h, s)
      else case resolve_claims now (h_name h) w claims (0, 0, s) of
             (requeued, aborted, s') \<Rightarrow> (requeued, (record_abort ^^ aborted) h, s'))"

datatype dropped_attempt_resolution = DRequeued | DAborted | DUnchanged

definition resolve_dropped_attempt ::
    "timestamp \<Rightarrow> uuid option \<Rightarrow> int \<Rightarrow> unacknowledged_claim \<Rightarrow> string \<Rightarrow> store
     \<Rightarrow> dropped_attempt_resolution \<times> store" where
  "resolve_dropped_attempt now w retry_delay_ms c q s =
     (case requeue_guarded_sql now (claim_guard_of w c) (Some DROPPED_ATTEMPT_ERROR) retry_delay_ms
        \<lparr> allow_running = True, allow_swept_abort = True, refund_attempt = False, close_intake = False \<rparr> q s of
        (True, s') \<Rightarrow> (DRequeued, s')
      | (False, s') \<Rightarrow>
          (case abort_unsettled_claim now q w c DROPPED_ATTEMPT_ERROR s' of
             (True, s'') \<Rightarrow> (DAborted, s'')
           | (False, s'') \<Rightarrow> (DUnchanged, s'')))"

definition recover_dropped_attempt ::
    "(duration \<Rightarrow> duration) \<Rightarrow> timestamp \<Rightarrow> job_row \<Rightarrow> handle \<Rightarrow> store \<Rightarrow> dropped_attempt_resolution \<times> handle \<times> store" where
  "recover_dropped_attempt jitter now row h s =
     (case resolve_dropped_attempt now (j_worker_id row) (duration_to_ms (row_next_retry_delay jitter row))
             \<lparr> uc_id = j_id row, uc_attempts = j_attempts row \<rparr> (h_name h) s of
        (r, s') \<Rightarrow>
          (r, (case r of DRequeued \<Rightarrow> record_retry h | DAborted \<Rightarrow> record_abort h | DUnchanged \<Rightarrow> h), s'))"

section \<open>Leases\<close>

datatype lease_intake = Reopen | Open | Closed

fun reopens :: "lease_intake \<Rightarrow> bool" where
  "reopens Reopen = True"
| "reopens _ = False"

fun accepts_when_created :: "lease_intake \<Rightarrow> bool" where
  "accepts_when_created Closed = False"
| "accepts_when_created _ = True"

definition validate_worker_info ::
    "(json \<Rightarrow> string list) \<Rightarrow> json \<Rightarrow> json option \<Rightarrow> duration \<Rightarrow> unit result" where
  "validate_worker_info chunks stats metadata ttl =
     and_then (validate_duration ''worker info TTL'' ttl) (\<lambda>_.
     and_then (config_err (validate_json_document chunks ''worker stats'' stats)) (\<lambda>_.
       case metadata of
         Some v \<Rightarrow> config_err (validate_json_document chunks ''worker metadata'' v)
       | None \<Rightarrow> Inr ()))"

text \<open>The upsert: a row of another queue under the same id matches neither branch.\<close>

definition write_worker_info ::
    "(json \<Rightarrow> string list) \<Rightarrow> timestamp \<Rightarrow> uuid \<Rightarrow> json \<Rightarrow> json option \<Rightarrow> duration \<Rightarrow> lease_intake \<Rightarrow> handle \<Rightarrow> store
     \<Rightarrow> unit result \<times> store" where
  "write_worker_info chunks now w stats metadata ttl intake h s =
     (case validate_worker_info chunks stats metadata ttl of
        Inl e \<Rightarrow> (Inl e, s)
      | Inr _ \<Rightarrow>
          (case lookup_row w_id w (st_workers s) of
             None \<Rightarrow>
               (Inr (), s\<lparr> st_workers := st_workers s @ [\<lparr> w_id = w, w_queue = h_name h, w_stats = stats,
                  w_metadata = metadata, w_started_at = now, w_heartbeat_at = now,
                  w_expires_at = now + interval_ms (duration_to_ms ttl),
                  w_accepting = accepts_when_created intake \<rparr>] \<rparr>)
           | Some r \<Rightarrow>
               (if w_queue r \<noteq> h_name h
                then (Inl (Config ''worker id already belongs to a different queue''), s)
                else (Inr (), s\<lparr> st_workers := update_rows (\<lambda>x. w_id x = w)
                        (\<lambda>x. x\<lparr> w_stats := stats, w_metadata := metadata, w_heartbeat_at := now,
                                w_expires_at := now + interval_ms (duration_to_ms ttl),
                                w_accepting := (if reopens intake then True else w_accepting x) \<rparr>)
                        (st_workers s) \<rparr>))))"

definition stop_worker_intake :: "timestamp \<Rightarrow> uuid \<Rightarrow> handle \<Rightarrow> store \<Rightarrow> store" where
  "stop_worker_intake now w h s = s\<lparr> st_workers := close_worker now (h_name h) (Some w) (st_workers s) \<rparr>"

section \<open>The abort poll\<close>

record abort_claim =
  ac_id :: uuid
  ac_attempts :: int

record aborting_attempt =
  aa_id :: uuid
  aa_attempts :: int
  aa_swept :: bool
  aa_reason :: "string option"

record abort_poll =
  ap_aborting :: "aborting_attempt list"
  ap_missing :: "abort_claim list"
  ap_superseded :: "abort_claim list"

definition aborting_attempt_of :: "job_row \<Rightarrow> aborting_attempt" where
  "aborting_attempt_of j = \<lparr> aa_id = j_id j, aa_attempts = j_attempts j,
     aa_swept = is_swept_marked (j_error j) (j_result j), aa_reason = j_error j \<rparr>"

fun aborting_of_loop :: "job_row list \<Rightarrow> uuid \<Rightarrow> abort_claim list \<Rightarrow> abort_poll" where
  "aborting_of_loop present w [] = \<lparr> ap_aborting = [], ap_missing = [], ap_superseded = [] \<rparr>"
| "aborting_of_loop present w (c # cs) =
     (let poll = aborting_of_loop present w cs in
      case lookup_row j_id (ac_id c) present of
        None \<Rightarrow> poll\<lparr> ap_missing := c # ap_missing poll \<rparr>
      | Some j \<Rightarrow>
          (if j_attempts j \<noteq> ac_attempts c \<or> j_worker_id j \<noteq> Some w
             then poll\<lparr> ap_superseded := c # ap_superseded poll \<rparr>
           else if j_status j \<in> {Aborting, Aborted}
             then poll\<lparr> ap_aborting := aborting_attempt_of j # ap_aborting poll \<rparr>
           else poll))"

definition aborting_of :: "abort_claim list \<Rightarrow> uuid \<Rightarrow> handle \<Rightarrow> store \<Rightarrow> abort_poll" where
  "aborting_of claims w h s =
     aborting_of_loop (filter (\<lambda>j. j_id j \<in> ac_id ` set claims \<and> j_queue j = h_name h) (st_jobs s)) w claims"

section \<open>Pages, counts and purge\<close>

definition page_key :: "job_row \<Rightarrow> int \<times> int" where
  "page_key j = (- j_enqueued_at j, - int (j_id j))"

definition jobs_page ::
    "job_status option \<Rightarrow> string option \<Rightarrow> nat \<Rightarrow> (timestamp \<times> uuid) option \<Rightarrow> handle \<Rightarrow> store \<Rightarrow> job_row list" where
  "jobs_page status name limit before h s =
     select_rows (\<lambda>j. j_queue j = h_name h \<and>
         (case status of None \<Rightarrow> True | Some st \<Rightarrow> j_status j = st) \<and>
         (case name of None \<Rightarrow> True | Some n \<Rightarrow> j_name j = n) \<and>
         (case before of None \<Rightarrow> True | Some c \<Rightarrow> (j_enqueued_at j, j_id j) < c))
       page_key limit (st_jobs s)"

record queue_counts =
  qc_queued :: nat
  qc_running :: nat
  qc_scheduled :: nat
  qc_failed :: nat
  qc_aborted :: nat
  qc_oldest_ready_at :: "timestamp option"

definition count_rows :: "(job_row \<Rightarrow> bool) \<Rightarrow> handle \<Rightarrow> store \<Rightarrow> nat" where
  "count_rows p h s = length (filter (\<lambda>j. j_queue j = h_name h \<and> p j) (st_jobs s))"

definition counts :: "timestamp \<Rightarrow> handle \<Rightarrow> store \<Rightarrow> queue_counts" where
  "counts now h s = \<lparr>
     qc_queued = count_rows (\<lambda>j. j_status j = Queued \<and> j_scheduled_at j \<le> now) h s,
     qc_running = count_rows (\<lambda>j. j_status j \<in> {Running, Aborting}) h s,
     qc_scheduled = count_rows (\<lambda>j. j_status j = Queued \<and> j_scheduled_at j > now) h s,
     qc_failed = count_rows (\<lambda>j. j_status j = Failed) h s,
     qc_aborted = count_rows (\<lambda>j. j_status j = Aborted) h s,
     qc_oldest_ready_at =
       (case select_rows (\<lambda>j. j_queue j = h_name h \<and> j_status j = Queued \<and> j_scheduled_at j \<le> now)
               (\<lambda>j. (j_scheduled_at j, j_id j)) 1 (st_jobs s) of
          [] \<Rightarrow> None | j # _ \<Rightarrow> Some (j_scheduled_at j)) \<rparr>"

definition purge_queued_jobs ::
    "(uuid \<Rightarrow> bool) \<Rightarrow> string option \<Rightarrow> nat \<Rightarrow> handle \<Rightarrow> store \<Rightarrow> nat result \<times> store" where
  "purge_queued_jobs locked name limit h s =
     (if limit = 0 then (Inl (Config ''purge limit must be at least one job''), s)
      else
        let doomed = map j_id (select_rows (\<lambda>j. j_queue j = h_name h \<and> j_status j = Queued \<and>
                (case name of None \<Rightarrow> True | Some n \<Rightarrow> j_name j = n) \<and> \<not> locked (j_id j))
                (\<lambda>j. (j_scheduled_at j, j_id j)) limit (st_jobs s));
            p = (\<lambda>j. j_id j \<in> set doomed \<and> j_status j = Queued)
        in (Inr (length (filter p (st_jobs s))), s\<lparr> st_jobs := delete_rows p (st_jobs s) \<rparr>))"

record worker_cursor =
  wc_started_at :: timestamp
  wc_id :: uuid

definition workers_page :: "timestamp \<Rightarrow> nat \<Rightarrow> worker_cursor option \<Rightarrow> handle \<Rightarrow> store \<Rightarrow> worker_row list" where
  "workers_page now limit after h s =
     select_rows (\<lambda>w. w_queue w = h_name h \<and> w_expires_at w > now \<and>
         (case after of None \<Rightarrow> True | Some c \<Rightarrow> (w_started_at w, w_id w) > (wc_started_at c, wc_id c)))
       (\<lambda>w. (w_started_at w, w_id w)) limit (st_workers s)"

section \<open>Consumers and attempts\<close>

text \<open>
  The public capability of \<^verbatim>\<open>queue.rs\<close>: an attempt owns the row snapshot of its claim
  and remembers whether one of its own transitions settled it; dropping it
  unsettled starts the recovery.
\<close>

record attempt =
  at_row :: job_row
  at_settled :: bool

definition consumer_dequeue ::
    "(uuid \<Rightarrow> bool) \<Rightarrow> handle \<Rightarrow> timestamp \<Rightarrow> int \<Rightarrow> uuid \<Rightarrow> store \<Rightarrow> attempt list result \<times> store" where
  "consumer_dequeue locked h now limit w s =
     (case dequeue_consumer locked h now limit w s of
        (Inl e, s') \<Rightarrow> (Inl e, s')
      | (Inr js, s') \<Rightarrow> (Inr (map (\<lambda>j. \<lparr> at_row = j, at_settled = False \<rparr>) js), s'))"

definition consumer_heartbeat ::
    "(json \<Rightarrow> string list) \<Rightarrow> timestamp \<Rightarrow> uuid \<Rightarrow> json \<Rightarrow> json option \<Rightarrow> duration \<Rightarrow> handle \<Rightarrow> store
     \<Rightarrow> unit result \<times> store" where
  "consumer_heartbeat chunks now w stats metadata ttl h s =
     (case validate_nonzero_duration ''worker lease TTL'' ttl of
        Inl e \<Rightarrow> (Inl e, s)
      | Inr _ \<Rightarrow> write_worker_info chunks now w stats metadata ttl Reopen h s)"

definition attempt_finish ::
    "(json \<Rightarrow> string list) \<Rightarrow> timestamp \<Rightarrow> attempt \<Rightarrow> job_status \<Rightarrow> json option \<Rightarrow> string option \<Rightarrow> handle \<Rightarrow> store
     \<Rightarrow> bool result \<times> attempt \<times> handle \<times> store" where
  "attempt_finish chunks now a st res err h s =
     (case finish chunks now (at_row a) st res err h s of
        (r, h', s') \<Rightarrow> (r, if r = Inr True then a\<lparr> at_settled := True \<rparr> else a, h', s'))"

definition attempt_retry ::
    "(json \<Rightarrow> string list) \<Rightarrow> (duration \<Rightarrow> duration) \<Rightarrow> timestamp \<Rightarrow> attempt \<Rightarrow> string \<Rightarrow> handle \<Rightarrow> store
     \<Rightarrow> bool result \<times> attempt \<times> handle \<times> store" where
  "attempt_retry chunks jitter now a err h s =
     (case retry chunks jitter now (at_row a) err h s of
        (r, h', s') \<Rightarrow> (r, if r = Inr True then a\<lparr> at_settled := True \<rparr> else a, h', s'))"

definition attempt_drop ::
    "(duration \<Rightarrow> duration) \<Rightarrow> timestamp \<Rightarrow> attempt \<Rightarrow> handle \<Rightarrow> store \<Rightarrow> handle \<times> store" where
  "attempt_drop jitter now a h s =
     (if at_settled a then (h, s)
      else case recover_dropped_attempt jitter now (at_row a) h s of (r, h', s') \<Rightarrow> (h', s'))"

section \<open>Lemmas\<close>

interpretation unsettled: live_row_update
  "\<lambda>j. err_fits (Some reason) \<and> unsettled_guard q g j \<and> j_failed_ttl_ms j \<noteq> Some 0" "unsettled_row now reason"
  for reason q g now
  by unfold_locales (auto simp: unsettled_guard_def unsettled_row_def row_check_defs)

lemma store_ok_abort_unsettled:
  assumes "store_ok s" "length reason \<le> 1048576" "abort_unsettled_claim now q w c reason s = (b, s')"
  shows "store_ok s'"
proof -
  let ?p = "unsettled_guard q (claim_guard_of w c)"
  have "jobs_ok (finish_rows ?p j_failed_ttl_ms (unsettled_row now reason) (st_jobs s))"
    using unsettled.jobs_ok_update [of "delete_rows (\<lambda>j. ?p j \<and> j_failed_ttl_ms j = Some 0) (st_jobs s)"
        reason q "claim_guard_of w c" now] jobs_ok_delete [OF store_ok_jobs [OF assms(1)]] assms(2)
    by (simp add: finish_rows_def)
  then show ?thesis using assms(1,3) by (auto simp: abort_unsettled_claim_def Let_def store_ok_set_jobs)
qed

text \<open>
  Both statements of a resolver only touch rows under the claim, and what they
  touch is not active any more.
\<close>

definition active :: "job_row \<Rightarrow> bool" where
  "active j \<longleftrightarrow> j_status j \<in> {Running, Aborting}"

definition active_preserved :: "store \<Rightarrow> store \<Rightarrow> bool" where
  "active_preserved s s' \<longleftrightarrow> (\<forall>j\<in>set (st_jobs s'). active j \<longrightarrow> j \<in> set (st_jobs s))"

lemma active_preserved_trans: "active_preserved s s' \<Longrightarrow> active_preserved s' s'' \<Longrightarrow> active_preserved s s''"
  by (auto simp: active_preserved_def)

lemma active_preserved_refl [simp]: "active_preserved s s"
  by (simp add: active_preserved_def)

lemma requeue_row_not_active [simp]: "\<not> active (requeue_row now d err refund j)"
  by (simp add: requeue_row_def active_def)

lemma requeue_sql_jobs:
  assumes "requeue_guarded_sql now g err d gs q s = (b, s')"
  shows "st_jobs s' = update_rows (requeue_guard q g gs) (requeue_row now d err (refund_attempt gs)) (st_jobs s)"
    "b \<longleftrightarrow> filter (requeue_guard q g gs) (st_jobs s) \<noteq> []"
  using assms by (simp_all only: requeue_guarded_sql_def Let_def prod.inject) auto

lemma requeue_sql_active: "requeue_guarded_sql now g err d gs q s = (b, s') \<Longrightarrow> active_preserved s s'"
  by (drule requeue_sql_jobs(1)) (auto simp: active_preserved_def mem_update_rows)

lemma in_finish_rows:
  "x \<in> set (finish_rows p ttl f rows) \<longleftrightarrow>
     (\<exists>j\<in>set rows. (p j \<and> ttl j \<noteq> Some 0 \<and> x = f j) \<or> (\<not> p j \<and> x = j))"
  unfolding finish_rows_def mem_update_rows by auto

lemma abort_unsettled_active: "abort_unsettled_claim now q w c reason s = (b, s') \<Longrightarrow> active_preserved s s'"
  by (auto simp: abort_unsettled_claim_def Let_def active_preserved_def in_finish_rows unsettled_row_def active_def)

lemma abort_unsettled_settles:
  assumes "abort_unsettled_claim now q w c reason s = (b, s')" "j \<in> set (st_jobs s')" "active j"
  shows "\<not> under_claim q (claim_guard_of w c) j"
  using assms
  by (auto simp: abort_unsettled_claim_def Let_def in_finish_rows unsettled_guard_def unsettled_row_def active_def)

lemma requeue_sql_settles:
  assumes ok: "jobs_ok (st_jobs s)" and q: "requeue_guarded_sql now g err d gs q s = (True, s')"
    and j: "j \<in> set (st_jobs s')" "active j"
  shows "\<not> under_claim q g j"
proof
  assume u: "under_claim q g j"
  obtain x where x: "x \<in> set (st_jobs s)" "requeue_guard q g gs x"
    using requeue_sql_jobs(2) [OF q] by (auto simp: filter_empty_conv)
  have js: "j \<in> set (st_jobs s)" "\<not> requeue_guard q g gs j"
    using j requeue_sql_jobs(1) [OF q] by (auto simp: mem_update_rows)
  have "j = x"
    using under_claim_unique [OF ok x(1) _ js(1) u] x(2) by (simp add: requeue_guard_def)
  then show False using x js by simp
qed

lemma resolve_claims_ok:
  "store_ok s \<Longrightarrow> resolve_claims now q w cs (a, b, s) = (a', b', s') \<Longrightarrow> store_ok s' \<and> active_preserved s s'"
proof (induction cs arbitrary: a b s)
  case (Cons c cs)
  let ?gs = "\<lparr> allow_running = True, allow_swept_abort = True, refund_attempt = True, close_intake = False \<rparr>"
  obtain b1 s1 where q: "requeue_guarded_sql now (claim_guard_of (Some w) c) (Some UNACKNOWLEDGED_CLAIM_ERROR) 0 ?gs q s = (b1, s1)"
    by fastforce
  have s1: "store_ok s1" "active_preserved s s1"
    using store_ok_requeue_guarded_sql [OF Cons.prems(1) _ q] requeue_sql_active [OF q]
    by (auto simp: UNACKNOWLEDGED_CLAIM_ERROR_def)
  obtain b2 s2 where u: "abort_unsettled_claim now q (Some w) c UNACKNOWLEDGED_CLAIM_ERROR s1 = (b2, s2)" by fastforce
  have s2: "store_ok s2" "active_preserved s1 s2"
    using store_ok_abort_unsettled [OF s1(1) _ u] abort_unsettled_active [OF u]
    by (auto simp: UNACKNOWLEDGED_CLAIM_ERROR_def)
  show ?case
    using Cons.prems(2) Cons.IH [OF s1(1)] Cons.IH [OF s2(1)] q u s1 s2
    by (auto split: bool.splits intro: active_preserved_trans)
qed simp

lemma resolve_claims_settles:
  "store_ok s \<Longrightarrow> resolve_claims now q w cs (a, b, s) = (a', b', s') \<Longrightarrow> c \<in> set cs \<Longrightarrow>
   j \<in> set (st_jobs s') \<Longrightarrow> active j \<Longrightarrow> \<not> under_claim q (claim_guard_of (Some w) c) j"
proof (induction cs arbitrary: a b s)
  case (Cons d cs)
  let ?gs = "\<lparr> allow_running = True, allow_swept_abort = True, refund_attempt = True, close_intake = False \<rparr>"
  obtain b1 s1 where q: "requeue_guarded_sql now (claim_guard_of (Some w) d) (Some UNACKNOWLEDGED_CLAIM_ERROR) 0 ?gs q s = (b1, s1)"
    by fastforce
  have s1: "store_ok s1" using store_ok_requeue_guarded_sql [OF Cons.prems(1) _ q] by (simp add: UNACKNOWLEDGED_CLAIM_ERROR_def)
  obtain b2 s2 where u: "abort_unsettled_claim now q (Some w) d UNACKNOWLEDGED_CLAIM_ERROR s1 = (b2, s2)" by fastforce
  have s2: "store_ok s2" using store_ok_abort_unsettled [OF s1 _ u] by (simp add: UNACKNOWLEDGED_CLAIM_ERROR_def)
  define t where "t = (if b1 then s1 else s2)"
  have t: "store_ok t" "\<exists>a b. resolve_claims now q w cs (a, b, t) = (a', b', s')"
    using Cons.prems(2) q u s1 s2 by (auto simp: t_def split: bool.splits)
  then obtain a1 b3 where r: "resolve_claims now q w cs (a1, b3, t) = (a', b', s')" by blast
  show ?case
  proof (cases "c \<in> set cs")
    case True
    then show ?thesis using Cons.IH [OF t(1) r] Cons.prems(4,5) by blast
  next
    case False
    then have "c = d" using Cons.prems(3) by simp
    moreover have "j \<in> set (st_jobs t)"
      using resolve_claims_ok [OF t(1) r] Cons.prems(4,5) by (simp add: active_preserved_def)
    ultimately show ?thesis
      using requeue_sql_settles [OF store_ok_jobs [OF Cons.prems(1)], of now _ _ 0 ?gs q s1 j] q
        abort_unsettled_settles [OF u, of j] Cons.prems(5)
      by (cases b1) (auto simp: t_def)
  qed
qed simp

lemma resolve_dropped_attempt_ok:
  assumes s: "store_ok s" and r: "resolve_dropped_attempt now w d c q s = (x, s')"
  shows "store_ok s' \<and> active_preserved s s' \<and>
    (\<forall>j\<in>set (st_jobs s'). active j \<longrightarrow> \<not> under_claim q (claim_guard_of w c) j)"
proof -
  let ?gs = "\<lparr> allow_running = True, allow_swept_abort = True, refund_attempt = False, close_intake = False \<rparr>"
  obtain b1 s1 where q: "requeue_guarded_sql now (claim_guard_of w c) (Some DROPPED_ATTEMPT_ERROR) d ?gs q s = (b1, s1)"
    by fastforce
  have s1: "store_ok s1" "active_preserved s s1"
    using store_ok_requeue_guarded_sql [OF s _ q] requeue_sql_active [OF q] by (auto simp: DROPPED_ATTEMPT_ERROR_def)
  obtain b2 s2 where u: "abort_unsettled_claim now q w c DROPPED_ATTEMPT_ERROR s1 = (b2, s2)" by fastforce
  have s2: "store_ok s2" "active_preserved s1 s2"
    using store_ok_abort_unsettled [OF s1(1) _ u] abort_unsettled_active [OF u] by (auto simp: DROPPED_ATTEMPT_ERROR_def)
  show ?thesis
    using r q u s1 s2 requeue_sql_settles [OF store_ok_jobs [OF s]] abort_unsettled_settles [OF u]
    by (auto simp: resolve_dropped_attempt_def split: bool.splits intro: active_preserved_trans)
qed

lemma lookup_filter_queue:
  assumes "jobs_ok rows"
  shows "lookup_row j_id i (filter (\<lambda>j. j_id j \<in> I \<and> j_queue j = q) rows) = Some j \<longleftrightarrow>
    j \<in> set rows \<and> j_id j = i \<and> i \<in> I \<and> j_queue j = q"
proof -
  have d: "distinct (map j_id (filter (\<lambda>j. j_id j \<in> I \<and> j_queue j = q) rows))"
    using assms by (simp add: jobs_ok_def distinct_map_filter)
  show ?thesis
    using lookup_row_eq [OF d, of j]
      lookup_row_Some [of j_id i "filter (\<lambda>j. j_id j \<in> I \<and> j_queue j = q) rows" j] by auto
qed

lemma aborting_of_loop_missing:
  "set (ap_missing (aborting_of_loop present w cs)) = {c \<in> set cs. lookup_row j_id (ac_id c) present = None}"
proof (induction cs)
  case (Cons c cs)
  have "set (ap_missing (aborting_of_loop present w (c # cs))) =
      (if lookup_row j_id (ac_id c) present = None then {c} else {}) \<union> set (ap_missing (aborting_of_loop present w cs))"
    by (cases "lookup_row j_id (ac_id c) present") (simp_all add: Let_def)
  then show ?case unfolding Cons.IH by auto
qed simp

lemma aborting_of_loop_superseded:
  "set (ap_superseded (aborting_of_loop present w cs)) = {c \<in> set cs. \<exists>j. lookup_row j_id (ac_id c) present = Some j \<and>
      (j_attempts j \<noteq> ac_attempts c \<or> j_worker_id j \<noteq> Some w)}"
proof (induction cs)
  case (Cons c cs)
  have "set (ap_superseded (aborting_of_loop present w (c # cs))) =
      (if \<exists>j. lookup_row j_id (ac_id c) present = Some j \<and> (j_attempts j \<noteq> ac_attempts c \<or> j_worker_id j \<noteq> Some w)
       then {c} else {}) \<union> set (ap_superseded (aborting_of_loop present w cs))"
    by (cases "lookup_row j_id (ac_id c) present") (simp_all add: Let_def)
  then show ?case unfolding Cons.IH by auto
qed simp

lemma aborting_of_loop_aborting:
  "set (ap_aborting (aborting_of_loop present w cs)) =
     (\<Union>c\<in>set cs. {aborting_attempt_of j | j. lookup_row j_id (ac_id c) present = Some j \<and> j_attempts j = ac_attempts c \<and>
       j_worker_id j = Some w \<and> j_status j \<in> {Aborting, Aborted}})"
proof (induction cs)
  case (Cons c cs)
  let ?S = "\<lambda>c. {aborting_attempt_of j | j. lookup_row j_id (ac_id c) present = Some j \<and>
      j_attempts j = ac_attempts c \<and> j_worker_id j = Some w \<and> j_status j \<in> {Aborting, Aborted}}"
  have one: "?S c = (case lookup_row j_id (ac_id c) present of None \<Rightarrow> {} | Some j \<Rightarrow>
      if j_attempts j = ac_attempts c \<and> j_worker_id j = Some w \<and> j_status j \<in> {Aborting, Aborted}
      then {aborting_attempt_of j} else {})"
    by (cases "lookup_row j_id (ac_id c) present") auto
  have "set (ap_aborting (aborting_of_loop present w (c # cs))) =
      ?S c \<union> set (ap_aborting (aborting_of_loop present w cs))"
    unfolding one by (cases "lookup_row j_id (ac_id c) present") (simp_all add: Let_def)
  then show ?case unfolding Cons.IH by simp
qed simp

lemmas aborting_of_loop_sets = aborting_of_loop_missing aborting_of_loop_superseded aborting_of_loop_aborting

lemma store_ok_write_worker_info:
  "store_ok s \<Longrightarrow> write_worker_info chunks now w stats metadata ttl intake h s = (r, s') \<Longrightarrow> store_ok s'"
  using store_ok_workers [of s]
  by (auto simp: write_worker_info_def workers_ok_def lookup_row_None map_update_rows
      split: sum.splits option.splits if_splits intro!: store_ok_set_workers)

lemma store_ok_stop_worker_intake: "store_ok s \<Longrightarrow> store_ok (stop_worker_intake now w h s)"
  by (simp add: stop_worker_intake_def store_ok_set_workers workers_ok_close store_ok_workers)

lemma store_ok_purge_queued:
  "store_ok s \<Longrightarrow> purge_queued_jobs locked name limit h s = (r, s') \<Longrightarrow> store_ok s'"
  using jobs_ok_delete [OF store_ok_jobs, of s]
  by (auto simp: purge_queued_jobs_def Let_def store_ok_set_jobs split: if_splits)

section \<open>Properties\<close>

text \<open>
  No claim is lost. After the resolver of unacknowledged dequeue commits has
  run, none of its claims is still active: every row the server really committed
  for this worker under one of the claims was requeued or finished as aborted, and
  no active row of anybody else was touched.
\<close>

theorem unacknowledged_claims_settled:
  assumes "store_ok s" "requeue_unacknowledged_claims now w claims h s = (n, h', s')"
  shows "store_ok s' \<and>
    (\<forall>c\<in>set claims. \<forall>j\<in>set (st_jobs s'). j_id j = uc_id c \<and> j_queue j = h_name h \<and>
       j_attempts j = uc_attempts c \<and> j_worker_id j = Some w \<longrightarrow> j_status j \<notin> {Running, Aborting}) \<and>
    (\<forall>j\<in>set (st_jobs s'). j_status j \<in> {Running, Aborting} \<longrightarrow> j \<in> set (st_jobs s))"
proof (cases "claims = []")
  case True
  then show ?thesis using assms by (simp add: requeue_unacknowledged_claims_def)
next
  case False
  then obtain a b where r: "resolve_claims now (h_name h) w claims (0, 0, s) = (a, b, s')"
    using assms(2) by (auto simp: requeue_unacknowledged_claims_def split: prod.splits)
  show ?thesis
    using resolve_claims_ok [OF assms(1) r] resolve_claims_settles [OF assms(1) r]
    by (auto simp: active_preserved_def active_def under_claim_def claim_guard_of_def)
qed

theorem unacknowledged_claims_settled_witness:
  "\<exists>n h' s'. requeue_unacknowledged_claims 3000 3 [\<lparr> uc_id = 7, uc_attempts = 1 \<rparr>] sample_handle
      (sample_store sample_running) = (n, h', s') \<and> n = 1 \<and> store_ok s' \<and> map j_status (st_jobs s') = [Queued]"
proof -
  let ?r = "requeue_unacknowledged_claims 3000 3 [\<lparr> uc_id = 7, uc_attempts = 1 \<rparr>] sample_handle (sample_store sample_running)"
  have v: "fst ?r = 1 \<and> map j_status (st_jobs (snd (snd ?r))) = [Queued]"
    by (simp add: requeue_unacknowledged_claims_def requeue_guarded_sql_def requeue_guard_def under_claim_def
        claim_guard_of_def sample_store_def sample_running_def claim_row_def sample_row_def sample_handle_def requeue_row_def)
  obtain n h' s' where e: "?r = (n, h', s')" by (metis prod_cases3)
  show ?thesis using unacknowledged_claims_settled [OF sample_store_ok [OF sample_row_ok(2)] e] e v by auto
qed

text \<open>
  Dropping an attempt without settling it loses nothing. The recovery leaves
  no active row under the dropped claim: it is queued again as a spent attempt, or
  finished as aborted when no attempt is left or an abort was pending; an attempt
  that one of its own transitions settled is left alone.
\<close>

theorem dropped_attempt_is_recovered:
  assumes "store_ok s" "attempt_drop jitter now a h s = (h', s')"
  shows "store_ok s' \<and> (at_settled a \<longrightarrow> h' = h \<and> s' = s) \<and>
    (\<not> at_settled a \<longrightarrow>
      (\<forall>j\<in>set (st_jobs s'). j_id j = j_id (at_row a) \<and> j_queue j = h_name h \<and> j_attempts j = j_attempts (at_row a) \<and>
         j_worker_id j = j_worker_id (at_row a) \<longrightarrow> j_status j \<notin> {Running, Aborting}) \<and>
      (\<forall>j\<in>set (st_jobs s'). j_status j \<in> {Running, Aborting} \<longrightarrow> j \<in> set (st_jobs s)))"
proof (cases "at_settled a")
  case True
  then show ?thesis using assms by (simp add: attempt_drop_def)
next
  case False
  let ?c = "\<lparr> uc_id = j_id (at_row a), uc_attempts = j_attempts (at_row a) \<rparr>"
  obtain r where r: "resolve_dropped_attempt now (j_worker_id (at_row a))
      (duration_to_ms (row_next_retry_delay jitter (at_row a))) ?c (h_name h) s = (r, s')"
    using assms(2) False by (auto simp: attempt_drop_def recover_dropped_attempt_def split: prod.splits)
  show ?thesis using resolve_dropped_attempt_ok [OF assms(1) r] False
    by (auto simp: active_preserved_def active_def under_claim_def claim_guard_of_def)
qed

theorem dropped_attempt_is_recovered_witness:
  "store_ok (snd (attempt_drop id 3000 \<lparr> at_row = sample_running, at_settled = False \<rparr> sample_handle (sample_store sample_running))) \<and>
   map j_status (st_jobs (snd (attempt_drop id 3000 \<lparr> at_row = sample_running, at_settled = False \<rparr> sample_handle
     (sample_store sample_running)))) = [Aborted]"
proof
  obtain h' s' where e: "attempt_drop id 3000 \<lparr> at_row = sample_running, at_settled = False \<rparr> sample_handle
     (sample_store sample_running) = (h', s')" by fastforce
  show "store_ok (snd (attempt_drop id 3000 \<lparr> at_row = sample_running, at_settled = False \<rparr> sample_handle
      (sample_store sample_running)))"
    using dropped_attempt_is_recovered [OF sample_store_ok [OF sample_row_ok(2)] e] e by simp
  have d: "j_failed_ttl_ms sample_running \<noteq> Some 0"
    by (simp add: sample_running_def claim_row_def sample_row_def new_job_row_def sample_request_def
        job_request_new_def job_config_default_def)
  have f: "j_attempts sample_running = 1" "j_max_attempts sample_running = 1" "j_id sample_running = 7"
    "j_queue sample_running = ''default''" "j_worker_id sample_running = Some 3" "j_status sample_running = Running"
    by (simp_all add: sample_running_def claim_row_def sample_row_def new_job_row_def sample_request_def
        job_request_new_def job_config_default_def u32_as_i32_def)
  show "map j_status (st_jobs (snd (attempt_drop id 3000 \<lparr> at_row = sample_running, at_settled = False \<rparr> sample_handle
     (sample_store sample_running)))) = [Aborted]"
    using d f
    by (simp add: attempt_drop_def recover_dropped_attempt_def resolve_dropped_attempt_def requeue_guarded_sql_def
        requeue_guard_def under_claim_def claim_guard_of_def sample_store_def abort_unsettled_claim_def finish_rows_def
        delete_rows_def unsettled_guard_def unsettled_row_def sample_handle_def Let_def)
qed

text \<open>
  A heartbeat keeps a lease alive and never reopens a closed intake. A
  successful write leaves exactly one lease under the worker's id, in this queue,
  alive for the whole ttl from now; unless it asks to reopen, a lease that was
  closed stays closed and one created while shutting down starts closed; leases
  of other workers are untouched; and an id that belongs to another queue is
  refused without any change.
\<close>

theorem heartbeat_never_reopens:
  assumes s: "store_ok s" and e: "write_worker_info chunks now w stats metadata ttl intake h s = (r, s')"
  shows "store_ok s' \<and> (r \<noteq> Inr () \<longrightarrow> s' = s) \<and>
    (\<forall>x\<in>set (st_workers s). w_id x = w \<and> w_queue x \<noteq> h_name h \<longrightarrow> r \<noteq> Inr ()) \<and>
    (r = Inr () \<longrightarrow>
      (\<exists>x\<in>set (st_workers s'). w_id x = w \<and> w_queue x = h_name h \<and>
         w_expires_at x = now + interval_ms (duration_to_ms ttl) \<and>
         (intake = Closed \<longrightarrow> w_accepting x \<longrightarrow> (\<exists>y\<in>set (st_workers s). w_id y = w \<and> w_accepting y)) \<and>
         (\<forall>y\<in>set (st_workers s). w_id y = w \<longrightarrow> intake \<noteq> Reopen \<longrightarrow> w_accepting x = w_accepting y)) \<and>
      (\<forall>x. w_id x \<noteq> w \<longrightarrow> (x \<in> set (st_workers s') \<longleftrightarrow> x \<in> set (st_workers s))))"
proof -
  have d: "distinct (map w_id (st_workers s))" using s by (simp add: store_ok_def workers_ok_def)
  show ?thesis
  proof (cases "validate_worker_info chunks stats metadata ttl")
    case (Inl err)
    then show ?thesis using e s by (auto simp: write_worker_info_def)
  next
    case (Inr u)
    show ?thesis
    proof (cases "lookup_row w_id w (st_workers s)")
      case None
      then have no: "\<forall>x\<in>set (st_workers s). w_id x \<noteq> w" by (simp add: lookup_row_None)
      show ?thesis using e Inr None no store_ok_write_worker_info [OF s e]
        by (cases intake) (auto simp: write_worker_info_def)
    next
      case (Some y)
      have y: "y \<in> set (st_workers s)" "w_id y = w" using lookup_row_Some [OF Some] by auto
      have uniq: "\<And>x. x \<in> set (st_workers s) \<Longrightarrow> w_id x = w \<Longrightarrow> x = y"
        using distinct_key_eq [OF d _ y(1)] y(2) by simp
      show ?thesis
      proof (cases "w_queue y = h_name h")
        case False
        then show ?thesis using e Inr Some s uniq by (auto simp: write_worker_info_def)
      next
        case True
        let ?f = "\<lambda>x. x\<lparr> w_stats := stats, w_metadata := metadata, w_heartbeat_at := now,
                    w_expires_at := now + interval_ms (duration_to_ms ttl),
                    w_accepting := (if reopens intake then True else w_accepting x) \<rparr>"
        have w': "st_workers s' = update_rows (\<lambda>x. w_id x = w) ?f (st_workers s)" "r = Inr ()"
          using e Inr Some True by (auto simp: write_worker_info_def)
        have "?f y \<in> set (st_workers s')" unfolding w'(1) by (rule update_rows_hit [where p = "\<lambda>x. w_id x = w", OF y])
        moreover have "\<forall>x. w_id x \<noteq> w \<longrightarrow> (x \<in> set (st_workers s') \<longleftrightarrow> x \<in> set (st_workers s))"
          unfolding w'(1) by (auto simp: mem_update_rows)
        moreover have "\<forall>z\<in>set (st_workers s). w_id z = w \<longrightarrow> intake \<noteq> Reopen \<longrightarrow> w_accepting (?f y) = w_accepting z"
          using uniq by (cases intake) auto
        moreover have "intake = Closed \<longrightarrow> w_accepting (?f y) \<longrightarrow> (\<exists>z\<in>set (st_workers s). w_id z = w \<and> w_accepting z)"
          using y by auto
        moreover have "\<forall>z\<in>set (st_workers s). \<not> (w_id z = w \<and> w_queue z \<noteq> h_name h)" using uniq True by blast
        moreover have "w_id (?f y) = w" "w_queue (?f y) = h_name h"
          "w_expires_at (?f y) = now + interval_ms (duration_to_ms ttl)" using y True by simp_all
        ultimately show ?thesis using w'(2) store_ok_write_worker_info [OF s e] by blast
      qed
    qed
  qed
qed

theorem heartbeat_never_reopens_witness:
  "\<exists>s'. write_worker_info (\<lambda>_. []) 2000 3 (JObject []) None 1000000 Closed sample_handle
      (stop_worker_intake 1500 3 sample_handle (sample_store sample_row)) = (Inr (), s') \<and>
    store_ok s' \<and> map w_accepting (st_workers s') = [False]"
proof -
  let ?s = "stop_worker_intake 1500 3 sample_handle (sample_store sample_row)"
  have ok: "store_ok ?s" by (rule store_ok_stop_worker_intake [OF sample_store_ok [OF sample_row_ok(1)]])
  have v: "validate_worker_info (\<lambda>_. []) (JObject []) None 1000000 = Inr ()"
    by (simp add: validate_worker_info_def valid_elims duration_consts)
  let ?r = "write_worker_info (\<lambda>_. []) 2000 3 (JObject []) None 1000000 Closed sample_handle ?s"
  have v: "fst ?r = Inr () \<and> map w_accepting (st_workers (snd ?r)) = [False]"
    using v by (simp add: write_worker_info_def stop_worker_intake_def close_worker_def sample_store_def
        sample_worker_def lookup_row_def sample_handle_def)
  obtain r s' where e: "?r = (r, s')" by fastforce
  then show ?thesis using heartbeat_never_reopens [OF ok e] v by simp
qed

text \<open>
  The abort poll sorts a worker's in-flight claims exactly: a claim is missing
  when its row is gone from the queue, superseded when the row is there under
  another attempt number or another owner, aborting (with the sweeper's flag and
  the stored reason) when it is still this worker's and an abort is pending, and in
  none of the three lists when it runs on as claimed.
\<close>

lemma aborting_of_classifies:
  assumes "store_ok s"
  shows "set (ap_missing (aborting_of claims w h s)) =
      {c \<in> set claims. \<forall>j\<in>set (st_jobs s). \<not> (j_id j = ac_id c \<and> j_queue j = h_name h)} \<and>
    set (ap_superseded (aborting_of claims w h s)) =
      {c \<in> set claims. \<exists>j\<in>set (st_jobs s). j_id j = ac_id c \<and> j_queue j = h_name h \<and>
         (j_attempts j \<noteq> ac_attempts c \<or> j_worker_id j \<noteq> Some w)} \<and>
    set (ap_aborting (aborting_of claims w h s)) =
      {aborting_attempt_of j | c j. c \<in> set claims \<and> j \<in> set (st_jobs s) \<and> under_claim (h_name h) \<lparr> ag_id = ac_id c,
            ag_attempts = ac_attempts c, ag_worker_id = Some w \<rparr> j \<and> j_status j \<in> {Aborting, Aborted}}"
proof -
  let ?P = "filter (\<lambda>j. j_id j \<in> ac_id ` set claims \<and> j_queue j = h_name h) (st_jobs s)"
  have some: "c \<in> set claims \<Longrightarrow> lookup_row j_id (ac_id c) ?P = Some j \<longleftrightarrow>
      j \<in> set (st_jobs s) \<and> j_id j = ac_id c \<and> j_queue j = h_name h" for c j
    using lookup_filter_queue [OF store_ok_jobs [OF assms]] by blast
  have none: "c \<in> set claims \<Longrightarrow> lookup_row j_id (ac_id c) ?P = None \<longleftrightarrow>
      (\<forall>j\<in>set (st_jobs s). \<not> (j_id j = ac_id c \<and> j_queue j = h_name h))" for c
    using some [of c] by (cases "lookup_row j_id (ac_id c) ?P") auto
  have 1: "{c \<in> set claims. lookup_row j_id (ac_id c) ?P = None} =
      {c \<in> set claims. \<forall>j\<in>set (st_jobs s). \<not> (j_id j = ac_id c \<and> j_queue j = h_name h)}"
    using none by (intro Collect_cong) auto
  have 2: "{c \<in> set claims. \<exists>j. lookup_row j_id (ac_id c) ?P = Some j \<and>
        (j_attempts j \<noteq> ac_attempts c \<or> j_worker_id j \<noteq> Some w)} =
      {c \<in> set claims. \<exists>j\<in>set (st_jobs s). j_id j = ac_id c \<and> j_queue j = h_name h \<and>
         (j_attempts j \<noteq> ac_attempts c \<or> j_worker_id j \<noteq> Some w)}"
    using some by (intro Collect_cong conj_cong refl) auto
  have 3: "x \<in> (\<Union>c\<in>set claims. {aborting_attempt_of j | j. lookup_row j_id (ac_id c) ?P = Some j \<and>
        j_attempts j = ac_attempts c \<and> j_worker_id j = Some w \<and> j_status j \<in> {Aborting, Aborted}}) \<longleftrightarrow>
      (\<exists>c j. x = aborting_attempt_of j \<and> c \<in> set claims \<and> j \<in> set (st_jobs s) \<and>
         under_claim (h_name h) \<lparr> ag_id = ac_id c, ag_attempts = ac_attempts c, ag_worker_id = Some w \<rparr> j \<and>
         j_status j \<in> {Aborting, Aborted})" for x
    unfolding UN_iff mem_Collect_eq under_claim_def using some by fastforce
  show ?thesis
    unfolding aborting_of_def aborting_of_loop_sets 1 2 using 3 by (intro conjI refl set_eqI) simp
qed

end
