(* ===== verification/Sweep_Model.thy ===== *)
theory Sweep_Model
  imports Db_Recovery
begin

text \<open>
  The cluster-coordinated sweeper (\<^verbatim>\<open>sweeper.rs\<close> and the two abandoned-attempt
  batches of \<^verbatim>\<open>database.rs\<close>): purging expired rows, leases and cron claims, the two
  phases of stuck-job recovery, and the leadership state machine around a pass.
  \<open>locked\<close> are rows other transactions hold (FOR UPDATE SKIP LOCKED), \<open>env1\<close> to
  \<open>env3\<close> what other writers do between the statements of one recovery, and
  \<open>clk k\<close> is the \<^verbatim>\<open>now()\<close> of the \<open>k\<close>-th statement of a pass.
\<close>

section \<open>Reports\<close>

record sweep_operations =
  so_expired_jobs :: bool
  so_cron_occurrences :: bool
  so_workers :: bool
  so_stuck_jobs :: bool

definition SWEEP_ALL :: sweep_operations where
  "SWEEP_ALL = \<lparr> so_expired_jobs = True, so_cron_occurrences = True, so_workers = True, so_stuck_jobs = True \<rparr>"

definition SWEEP_NONE :: sweep_operations where
  "SWEEP_NONE = \<lparr> so_expired_jobs = False, so_cron_occurrences = False, so_workers = False, so_stuck_jobs = False \<rparr>"

definition sweep_any :: "sweep_operations \<Rightarrow> bool" where
  "sweep_any o1 \<longleftrightarrow> so_expired_jobs o1 \<or> so_cron_occurrences o1 \<or> so_workers o1 \<or> so_stuck_jobs o1"

record sweeper_report =
  sr_leader :: bool
  sr_purged_jobs :: nat
  sr_cancelling :: "uuid list"
  sr_swept :: "uuid list"
  sr_unfinished :: sweep_operations

definition report_default :: sweeper_report where
  "report_default = \<lparr> sr_leader = False, sr_purged_jobs = 0, sr_cancelling = [], sr_swept = [], sr_unfinished = SWEEP_NONE \<rparr>"

definition has_more_work :: "sweeper_report \<Rightarrow> bool" where
  "has_more_work r = sweep_any (sr_unfinished r)"

section \<open>Purging\<close>

definition purge_expired_jobs :: "(uuid \<Rightarrow> bool) \<Rightarrow> timestamp \<Rightarrow> nat \<Rightarrow> handle \<Rightarrow> store \<Rightarrow> nat \<times> store" where
  "purge_expired_jobs locked now batch_size h s =
     (let expired = map j_id (select_rows (\<lambda>j. j_queue j = h_name h \<and> j_status j \<in> {Complete, Failed, Aborted} \<and>
             (case j_expires_at j of Some e \<Rightarrow> e \<le> now | None \<Rightarrow> False) \<and> \<not> locked (j_id j))
           (\<lambda>j. (j_expires_at j, j_id j)) batch_size (st_jobs s));
          p = (\<lambda>j. j_id j \<in> set expired)
      in (length (filter p (st_jobs s)), s\<lparr> st_jobs := delete_rows p (st_jobs s) \<rparr>))"

definition purge_cron_occurrences ::
    "(string \<times> string \<times> timestamp \<Rightarrow> bool) \<Rightarrow> timestamp \<Rightarrow> nat \<Rightarrow> handle \<Rightarrow> store \<Rightarrow> nat \<times> store" where
  "purge_cron_occurrences locked now batch_size h s =
     (let expired = map occurrence_key (select_rows (\<lambda>c. co_queue c = h_name h \<and> co_expires_at c \<le> now \<and>
             \<not> locked (occurrence_key c)) (\<lambda>c. (co_expires_at c, co_dedupe_key c, co_scheduled_at c))
             batch_size (st_occurrences s));
          p = (\<lambda>c. occurrence_key c \<in> set expired)
      in (length (filter p (st_occurrences s)), s\<lparr> st_occurrences := delete_rows p (st_occurrences s) \<rparr>))"

definition purge_worker_leases ::
    "(uuid \<Rightarrow> bool) \<Rightarrow> timestamp \<Rightarrow> nat \<Rightarrow> int \<Rightarrow> handle \<Rightarrow> store \<Rightarrow> nat \<times> store" where
  "purge_worker_leases locked now batch_size grace_ms h s =
     (let expired = map w_id (select_rows (\<lambda>w. w_queue w = h_name h \<and>
             w_expires_at w \<le> now - interval_ms (2 * grace_ms) \<and> \<not> locked (w_id w))
           (\<lambda>w. (w_expires_at w, w_id w)) batch_size (st_workers s));
          p = (\<lambda>w. w_id w \<in> set expired)
      in (length (filter p (st_workers s)), s\<lparr> st_workers := delete_rows p (st_workers s) \<rparr>))"

section \<open>Stuck jobs\<close>

text \<open>A row of the scan with its \<^verbatim>\<open>owner_gone\<close> column.\<close>

record stuck_job =
  sj_row :: job_row
  sj_owner_gone :: bool

definition lease_expiry :: "store \<Rightarrow> job_row \<Rightarrow> timestamp option" where
  "lease_expiry s j = map_option w_expires_at (lease_row s j)"

definition scan_guard :: "store \<Rightarrow> timestamp \<Rightarrow> int \<Rightarrow> string \<Rightarrow> job_row \<Rightarrow> bool" where
  "scan_guard s now grace_ms q j \<longleftrightarrow>
     j_queue j = q \<and> j_status j \<in> {Running, Aborting} \<and>
     (job_is_stuck now grace_ms j (lease_expiry s j) \<or> row_swept j) \<and>
     (j_status j = Running \<or>
      (case lease_expiry s j of None \<Rightarrow> True | Some e \<Rightarrow> e \<le> now) \<or>
      (j_dedupe_key j = None \<and> \<not> (row_swept j \<and> j_attempts j < j_max_attempts j)))"

text \<open>\<^verbatim>\<open>ORDER BY touched_at, id\<close>, nulls last.\<close>

definition scan_key :: "job_row \<Rightarrow> bool \<times> timestamp option \<times> uuid" where
  "scan_key j = (j_touched_at j = None, j_touched_at j, j_id j)"

definition scan_stuck :: "timestamp \<Rightarrow> nat \<Rightarrow> int \<Rightarrow> string \<Rightarrow> store \<Rightarrow> stuck_job list" where
  "scan_stuck now batch_size grace_ms q s =
     map (\<lambda>j. \<lparr> sj_row = j, sj_owner_gone = (lease_row s j = None) \<rparr>)
       (select_rows (scan_guard s now grace_ms q) scan_key batch_size (st_jobs s))"

definition same_claim :: "job_row \<Rightarrow> stuck_job \<Rightarrow> bool" where
  "same_claim j r \<longleftrightarrow> j_id j = j_id (sj_row r) \<and> j_attempts j = j_attempts (sj_row r) \<and>
     j_worker_id j = j_worker_id (sj_row r)"

definition mark_guard :: "store \<Rightarrow> timestamp \<Rightarrow> int \<Rightarrow> string \<Rightarrow> stuck_job list \<Rightarrow> job_row \<Rightarrow> bool" where
  "mark_guard s now grace_ms q reqs j \<longleftrightarrow>
     list_ex (same_claim j) reqs \<and> j_queue j = q \<and> j_status j = Running \<and>
     job_is_stuck now grace_ms j (lease_expiry s j)"

definition mark_row :: "timestamp \<Rightarrow> job_row \<Rightarrow> job_row" where
  "mark_row now j = j\<lparr> j_status := Aborting, j_error := Some SWEPT, j_result := Some swept_marker,
     j_touched_at := Some now \<rparr>"

definition mark_stuck :: "timestamp \<Rightarrow> int \<Rightarrow> string \<Rightarrow> stuck_job list \<Rightarrow> store \<Rightarrow> uuid list \<times> store" where
  "mark_stuck now grace_ms q reqs s =
     (if reqs = [] then ([], s)
      else let p = mark_guard s now grace_ms q reqs
           in (map j_id (filter p (st_jobs s)), s\<lparr> st_jobs := update_rows p (mark_row now) (st_jobs s) \<rparr>))"

text \<open>
  The cooperative window: an owner whose lease row is still on disk keeps the whole
  grace from the abort mark.
\<close>

definition window_over :: "store \<Rightarrow> timestamp \<Rightarrow> int \<Rightarrow> job_row \<Rightarrow> bool" where
  "window_over s now grace_ms j \<longleftrightarrow> lease_row s j = None \<or>
     (case j_touched_at j of Some t \<Rightarrow> t + interval_ms grace_ms \<le> now | None \<Rightarrow> False)"

definition swept_retry_guard :: "store \<Rightarrow> timestamp \<Rightarrow> int \<Rightarrow> string \<Rightarrow> stuck_job list \<Rightarrow> job_row \<Rightarrow> bool" where
  "swept_retry_guard s now grace_ms q reqs j \<longleftrightarrow>
     list_ex (same_claim j) reqs \<and> j_queue j = q \<and> j_status j = Aborting \<and> row_swept j \<and>
     j_attempts j < j_max_attempts j \<and> \<not> has_live_lease s now j \<and> window_over s now grace_ms j"

definition stuck_is_retryable :: "stuck_job \<Rightarrow> bool" where
  "stuck_is_retryable r = has_attempts_remaining (j_attempts (sj_row r)) (j_max_attempts (sj_row r))"

definition stuck_next_retry_delay :: "(uuid \<Rightarrow> duration \<Rightarrow> duration) \<Rightarrow> stuck_job \<Rightarrow> duration" where
  "stuck_next_retry_delay jitter r =
     retry_delay_for (jitter (j_id (sj_row r))) (j_retry_delay_ms (sj_row r)) (j_backoff (sj_row r)) (j_attempts (sj_row r))"

definition swept_retry_row :: "(uuid \<Rightarrow> duration \<Rightarrow> duration) \<Rightarrow> timestamp \<Rightarrow> stuck_job list \<Rightarrow> job_row \<Rightarrow> job_row" where
  "swept_retry_row jitter now reqs j =
     (case find (same_claim j) reqs of
        Some r \<Rightarrow> requeue_row now (duration_to_ms (stuck_next_retry_delay jitter r)) None False j
      | None \<Rightarrow> j)"

definition retry_swept_abandoned_batch ::
    "(uuid \<Rightarrow> duration \<Rightarrow> duration) \<Rightarrow> timestamp \<Rightarrow> stuck_job list \<Rightarrow> handle \<Rightarrow> store \<Rightarrow> uuid list \<times> handle \<times> store" where
  "retry_swept_abandoned_batch jitter now reqs h s =
     (if reqs = [] then ([], h, s)
      else let p = swept_retry_guard s now (duration_to_ms (h_sweep_grace h)) (h_name h) reqs;
               f = swept_retry_row jitter now reqs;
               requeued = map f (filter p (st_jobs s))
           in (map j_id requeued, (record_retry ^^ length requeued) h,
               notify (if list_ex (\<lambda>j. j_scheduled_at j \<le> now) requeued then [NEnqueue (h_name h)] else [])
                 (s\<lparr> st_jobs := update_rows p f (st_jobs s) \<rparr>)))"

definition stuck_abort_guard :: "store \<Rightarrow> timestamp \<Rightarrow> int \<Rightarrow> string \<Rightarrow> stuck_job list \<Rightarrow> job_row \<Rightarrow> bool" where
  "stuck_abort_guard s now grace_ms q reqs j \<longleftrightarrow>
     list_ex (same_claim j) reqs \<and> j_queue j = q \<and> j_status j \<in> {Running, Aborting} \<and>
     (job_is_stuck now grace_ms j (lease_expiry s j) \<or> row_swept j) \<and>
     (j_dedupe_key j = None \<or> \<not> has_live_lease s now j) \<and> window_over s now grace_ms j"

text \<open>\<^verbatim>\<open>abort_set_sql!\<close>.\<close>

definition abort_set_row :: "timestamp \<Rightarrow> job_row \<Rightarrow> job_row" where
  "abort_set_row now j = j\<lparr> j_status := Aborted, j_result := None, j_completed_at := Some now,
     j_touched_at := Some now, j_expires_at := expiry now (j_failed_ttl_ms j) \<rparr>"

definition abort_stuck_abandoned_batch ::
    "timestamp \<Rightarrow> stuck_job list \<Rightarrow> handle \<Rightarrow> store \<Rightarrow> uuid list \<times> handle \<times> store" where
  "abort_stuck_abandoned_batch now reqs h s =
     (if reqs = [] then ([], h, s)
      else let p = stuck_abort_guard s now (duration_to_ms (h_sweep_grace h)) (h_name h) reqs;
               finished = filter p (st_jobs s)
           in (map j_id finished, (record_abort ^^ length finished) h,
               notify (done_notifications (h_name h) Aborted finished)
                 (s\<lparr> st_jobs := finish_rows p j_failed_ttl_ms (abort_set_row now) (st_jobs s) \<rparr>)))"

text \<open>The two phases. What the abandoned rows are and which of them may be retried.\<close>

definition abandoned_rows :: "stuck_job list \<Rightarrow> uuid list \<Rightarrow> stuck_job list" where
  "abandoned_rows stuck marked =
     filter (\<lambda>r. j_status (sj_row r) \<noteq> Running) stuck @
     filter (\<lambda>r. j_status (sj_row r) = Running \<and> sj_owner_gone r \<and> j_id (sj_row r) \<in> set marked) stuck"

definition sweep_retryable :: "stuck_job \<Rightarrow> bool" where
  "sweep_retryable r \<longleftrightarrow> (j_status (sj_row r) = Running \<or> row_swept (sj_row r)) \<and> stuck_is_retryable r"

definition recover_stuck_jobs ::
    "(store \<Rightarrow> store) \<Rightarrow> (store \<Rightarrow> store) \<Rightarrow> (store \<Rightarrow> store) \<Rightarrow> (uuid \<Rightarrow> duration \<Rightarrow> duration) \<Rightarrow> (nat \<Rightarrow> timestamp)
     \<Rightarrow> nat \<Rightarrow> int \<Rightarrow> sweeper_report \<Rightarrow> handle \<Rightarrow> store \<Rightarrow> nat \<times> sweeper_report \<times> handle \<times> store" where
  "recover_stuck_jobs env1 env2 env3 jitter clk batch_size grace_ms report h s =
     (let stuck = scan_stuck (clk 3) batch_size grace_ms (h_name h) s;
          running = filter (\<lambda>r. j_status (sj_row r) = Running) stuck;
          (marked, s1) = mark_stuck (clk 4) grace_ms (h_name h) running (env1 s);
          report1 = report\<lparr> sr_cancelling := sr_cancelling report @
             filter (\<lambda>i. i \<in> set marked) (map (j_id \<circ> sj_row) running) \<rparr>;
          abandoned = abandoned_rows stuck marked;
          (retried, h2, s2) = retry_swept_abandoned_batch jitter (clk 5) (filter sweep_retryable abandoned) h (env2 s1);
          (aborted, h3, s3) = abort_stuck_abandoned_batch (clk 6) (filter (\<lambda>r. \<not> sweep_retryable r) abandoned) h2 (env3 s2)
      in (length stuck, report1\<lparr> sr_swept := sr_swept report1 @ retried @ aborted \<rparr>, h3, s3))"

section \<open>A pass and the leadership around it\<close>

record sweeper =
  sp_leader :: bool
  sp_failed_passes :: nat

definition MAX_LEADER_SWEEP_FAILURES :: nat where "MAX_LEADER_SWEEP_FAILURES = 3"

definition sweeper_release :: "sweeper \<Rightarrow> sweeper" where
  "sweeper_release sp = sp\<lparr> sp_leader := False \<rparr>"

text \<open>
  \<open>probe_ok\<close>: the leadership connection still answers; \<open>lock\<close>: the outcome of trying
  the advisory lock on a fresh connection.
\<close>

definition ensure_leadership :: "bool \<Rightarrow> bool result \<Rightarrow> sweeper \<Rightarrow> bool result \<times> sweeper" where
  "ensure_leadership probe_ok lock sp =
     (if sp_leader sp \<and> probe_ok then (Inr True, sp)
      else let sp1 = (if sp_leader sp then sweeper_release sp else sp)
           in case lock of
                Inl e \<Rightarrow> (Inl e, sp1)
              | Inr True \<Rightarrow> (Inr True, sp1\<lparr> sp_leader := True \<rparr>)
              | Inr False \<Rightarrow> (Inr False, sp1))"

text \<open>The database work of a pass that holds leadership.\<close>

definition sweep_work ::
    "(uuid \<Rightarrow> bool) \<Rightarrow> (string \<times> string \<times> timestamp \<Rightarrow> bool) \<Rightarrow> (uuid \<Rightarrow> bool)
     \<Rightarrow> (store \<Rightarrow> store) \<Rightarrow> (store \<Rightarrow> store) \<Rightarrow> (store \<Rightarrow> store) \<Rightarrow> (uuid \<Rightarrow> duration \<Rightarrow> duration) \<Rightarrow> (nat \<Rightarrow> timestamp)
     \<Rightarrow> sweep_operations \<Rightarrow> handle \<Rightarrow> store \<Rightarrow> sweeper_report \<times> handle \<times> store" where
  "sweep_work lj lc lw env1 env2 env3 jitter clk ops h s =
     (let batch_size = nat (h_sweep_batch_size h);
          grace_ms = duration_to_ms (h_sweep_grace h);
          r0 = report_default\<lparr> sr_leader := True \<rparr>;
          (r1, s1) = (if so_expired_jobs ops then
             let (n, s') = purge_expired_jobs lj (clk 0) batch_size h s
             in (r0\<lparr> sr_purged_jobs := n,
                     sr_unfinished := (sr_unfinished r0)\<lparr> so_expired_jobs := (n = batch_size) \<rparr> \<rparr>, s') else (r0, s));
          (r2, s2) = (if so_cron_occurrences ops then
             let (n, s') = purge_cron_occurrences lc (clk 1) batch_size h s1
             in (r1\<lparr> sr_unfinished := (sr_unfinished r1)\<lparr> so_cron_occurrences := (n = batch_size) \<rparr> \<rparr>, s') else (r1, s1));
          (r3, s3) = (if so_workers ops then
             let (n, s') = purge_worker_leases lw (clk 2) batch_size grace_ms h s2
             in (r2\<lparr> sr_unfinished := (sr_unfinished r2)\<lparr> so_workers := (n = batch_size) \<rparr> \<rparr>, s') else (r2, s2))
      in if so_stuck_jobs ops then
           let (n, r4, h', s4) = recover_stuck_jobs env1 env2 env3 jitter clk batch_size grace_ms r3 h s3
           in (r4\<lparr> sr_unfinished := (sr_unfinished r4)\<lparr> so_stuck_jobs := (n = batch_size) \<rparr> \<rparr>, h', s4)
         else (r3, h, s3))"

definition sweep_pass ::
    "(uuid \<Rightarrow> bool) \<Rightarrow> (string \<times> string \<times> timestamp \<Rightarrow> bool) \<Rightarrow> (uuid \<Rightarrow> bool)
     \<Rightarrow> (store \<Rightarrow> store) \<Rightarrow> (store \<Rightarrow> store) \<Rightarrow> (store \<Rightarrow> store) \<Rightarrow> (uuid \<Rightarrow> duration \<Rightarrow> duration)
     \<Rightarrow> bool \<Rightarrow> bool result \<Rightarrow> (nat \<Rightarrow> timestamp) \<Rightarrow> sweep_operations \<Rightarrow> sweeper \<Rightarrow> handle \<Rightarrow> store
     \<Rightarrow> sweeper_report result \<times> sweeper \<times> handle \<times> store" where
  "sweep_pass lj lc lw env1 env2 env3 jitter probe_ok lock clk ops sp h s =
     (if \<not> sweep_any ops then (Inr (report_default\<lparr> sr_leader := sp_leader sp \<rparr>), sp, h, s)
      else case ensure_leadership probe_ok lock sp of
        (Inl e, sp') \<Rightarrow> (Inl e, sp', h, s)
      | (Inr False, sp') \<Rightarrow> (Inr report_default, sp', h, s)
      | (Inr True, sp') \<Rightarrow>
          (let (r, h', s') = sweep_work lj lc lw env1 env2 env3 jitter clk ops h s in (Inr r, sp', h', s')))"

text \<open>
  What the outcome of a pass does to leadership; \<open>None\<close> is a pass abandoned at its
  deadline.
\<close>

definition settle_pass :: "(sweeper_report result) option \<Rightarrow> sweeper \<Rightarrow> sweeper_report result \<times> sweeper" where
  "settle_pass pass_result sp =
     (let (res, sp1) = (case pass_result of
            Some r \<Rightarrow> (r, sp)
          | None \<Rightarrow> (Inl (WorkerTask ''sweep pass exceeded its deadline''), sweeper_release sp))
      in case res of
           Inr r \<Rightarrow> (res, sp1\<lparr> sp_failed_passes := 0 \<rparr>)
         | Inl e \<Rightarrow>
             (if sp_leader sp1 then
                (let sp2 = sp1\<lparr> sp_failed_passes := sp_failed_passes sp1 + 1 \<rparr>
                 in if sp_failed_passes sp2 \<ge> MAX_LEADER_SWEEP_FAILURES
                    then (res, sweeper_release (sp2\<lparr> sp_failed_passes := 0 \<rparr>))
                    else (res, sp2))
              else (res, sp1)))"

text \<open>
  \<^verbatim>\<open>Sweeper::sweep_operations\<close>: the leadership gate of the pass, then the work of the
  pass with its possible outcomes (a report, a failed statement, or \<open>None\<close> for the
  deadline), then what the outcome does to leadership.
\<close>

definition sweep_call ::
    "bool \<Rightarrow> bool result \<Rightarrow> (sweeper_report result) option \<Rightarrow> sweep_operations \<Rightarrow> sweeper
     \<Rightarrow> sweeper_report result \<times> sweeper" where
  "sweep_call probe_ok lock work ops sp =
     (if \<not> sweep_any ops then settle_pass (Some (Inr (report_default\<lparr> sr_leader := sp_leader sp \<rparr>))) sp
      else case ensure_leadership probe_ok lock sp of
        (Inl e, sp') \<Rightarrow> settle_pass (Some (Inl e)) sp'
      | (Inr False, sp') \<Rightarrow> settle_pass (Some (Inr report_default)) sp'
      | (Inr True, sp') \<Rightarrow> settle_pass work sp')"

section \<open>Every statement keeps the schema\<close>

interpretation mark: live_row_update "mark_guard s now grace_ms q reqs" "mark_row t"
  for s now grace_ms q reqs t
  by unfold_locales (auto simp: mark_guard_def mark_row_def row_check_defs SWEPT_def)

interpretation swept_retry: live_row_update "swept_retry_guard s now grace_ms q reqs" "swept_retry_row jitter t reqs"
  for s now grace_ms q reqs jitter t
  by unfold_locales
    (auto simp: swept_retry_guard_def swept_retry_row_def requeue_row_def row_check_defs split: option.splits if_splits)

interpretation stuck_abort: live_row_update
  "\<lambda>j. stuck_abort_guard s now grace_ms q reqs j \<and> j_failed_ttl_ms j \<noteq> Some 0" "abort_set_row t"
  for s now grace_ms q reqs t
  by unfold_locales (auto simp: stuck_abort_guard_def abort_set_row_def row_check_defs)

lemma store_ok_purge_expired_jobs: "store_ok s \<Longrightarrow> store_ok (snd (purge_expired_jobs l now n h s))"
  by (simp add: purge_expired_jobs_def Let_def store_ok_set_jobs jobs_ok_delete store_ok_jobs)

lemma store_ok_purge_cron_occurrences: "store_ok s \<Longrightarrow> store_ok (snd (purge_cron_occurrences l now n h s))"
  by (simp add: purge_cron_occurrences_def Let_def store_ok_def crons_ok_def distinct_map_delete_rows)

lemma store_ok_purge_worker_leases: "store_ok s \<Longrightarrow> store_ok (snd (purge_worker_leases l now n g h s))"
  by (simp add: purge_worker_leases_def Let_def store_ok_set_workers workers_ok_def store_ok_def distinct_map_delete_rows crons_ok_def)

lemma purges_keep_jobs [simp]:
  "st_jobs (snd (purge_cron_occurrences lc now n h s)) = st_jobs s"
  "st_jobs (snd (purge_worker_leases lw now n g h s)) = st_jobs s"
  by (simp_all add: purge_cron_occurrences_def purge_worker_leases_def Let_def)

lemma purges_shrink:
  "st_workers (snd (purge_expired_jobs lj now n h s)) = st_workers s"
  "st_workers (snd (purge_cron_occurrences lc now n h s)) = st_workers s"
  "set (st_workers (snd (purge_worker_leases lw now n g h s))) \<subseteq> set (st_workers s)"
  "length (st_jobs (snd (purge_expired_jobs lj now n h s))) \<le> length (st_jobs s)"
  by (auto simp: purge_expired_jobs_def purge_cron_occurrences_def purge_worker_leases_def Let_def delete_rows_def)

lemma store_ok_mark_stuck: "store_ok s \<Longrightarrow> store_ok (snd (mark_stuck now g q reqs s))"
  using mark.jobs_ok_update [OF store_ok_jobs] by (simp add: mark_stuck_def Let_def store_ok_set_jobs)

lemma store_ok_retry_swept_batch:
  "store_ok s \<Longrightarrow> store_ok (snd (snd (retry_swept_abandoned_batch jitter now reqs h s)))"
  using swept_retry.jobs_ok_update [OF store_ok_jobs]
  by (simp add: retry_swept_abandoned_batch_def Let_def store_ok_set_jobs)

lemma store_ok_abort_stuck_batch:
  "store_ok s \<Longrightarrow> store_ok (snd (snd (abort_stuck_abandoned_batch now reqs h s)))"
  using stuck_abort.jobs_ok_update [OF jobs_ok_delete [OF store_ok_jobs]]
  by (simp add: abort_stuck_abandoned_batch_def Let_def store_ok_set_jobs finish_rows_def)

section \<open>Invariants of a pass\<close>

text \<open>What every statement of a pass and every other writer keeps, the pass keeps.\<close>

lemma sweep_work_invariant:
  assumes I: "I s"
    and purges: "\<And>s. I s \<Longrightarrow> I (snd (purge_expired_jobs lj (clk 0) (nat (h_sweep_batch_size h)) h s))"
      "\<And>s. I s \<Longrightarrow> I (snd (purge_cron_occurrences lc (clk 1) (nat (h_sweep_batch_size h)) h s))"
      "\<And>s. I s \<Longrightarrow> I (snd (purge_worker_leases lw (clk 2) (nat (h_sweep_batch_size h)) (duration_to_ms (h_sweep_grace h)) h s))"
    and stuck: "\<And>s r. I s \<Longrightarrow> I (snd (snd (snd (recover_stuck_jobs env1 env2 env3 jitter clk
        (nat (h_sweep_batch_size h)) (duration_to_ms (h_sweep_grace h)) r h s))))"
  shows "I (snd (snd (sweep_work lj lc lw env1 env2 env3 jitter clk ops h s)))"
  using I purges stuck by (simp add: sweep_work_def Let_def split_beta)

lemma recover_stuck_jobs_invariant:
  assumes I: "I s"
    and env: "\<And>e s. e \<in> {env1, env2, env3} \<Longrightarrow> I s \<Longrightarrow> I (e s)"
    and stmts: "\<And>reqs s. I s \<Longrightarrow> I (snd (mark_stuck (clk 4) grace_ms (h_name h) reqs s))"
      "\<And>reqs h s. I s \<Longrightarrow> I (snd (snd (retry_swept_abandoned_batch jitter (clk 5) reqs h s)))"
      "\<And>reqs h s. I s \<Longrightarrow> I (snd (snd (abort_stuck_abandoned_batch (clk 6) reqs h s)))"
  shows "I (snd (snd (snd (recover_stuck_jobs env1 env2 env3 jitter clk n grace_ms r h s))))"
  using I env stmts by (simp add: recover_stuck_jobs_def Let_def split_beta)

lemma store_ok_sweep_work:
  assumes "store_ok s" "\<And>e s. e \<in> {env1, env2, env3} \<Longrightarrow> store_ok s \<Longrightarrow> store_ok (e s)"
  shows "store_ok (snd (snd (sweep_work lj lc lw env1 env2 env3 jitter clk ops h s)))"
proof (rule sweep_work_invariant [where I = store_ok])
  show "store_ok (snd (snd (snd (recover_stuck_jobs env1 env2 env3 jitter clk n g r h s))))"
    if "store_ok s" for s r n g
    using that assms(2) by (rule recover_stuck_jobs_invariant)
      (auto intro: store_ok_mark_stuck store_ok_retry_swept_batch store_ok_abort_stuck_batch)
qed (use assms(1) in \<open>auto intro: store_ok_purge_expired_jobs store_ok_purge_cron_occurrences store_ok_purge_worker_leases\<close>)

lemma purge_expired_keeps:
  assumes "store_ok s" "j \<in> set (st_jobs s)"
    and "is_live j \<or> (case j_expires_at j of Some e \<Rightarrow> now < e | None \<Rightarrow> True)"
  shows "j \<in> set (st_jobs (snd (purge_expired_jobs l now n h s)))"
proof -
  have d: "distinct (map j_id (st_jobs s))" using assms(1) by (simp add: store_ok_def jobs_ok_def)
  show ?thesis
    unfolding purge_expired_jobs_def Let_def
    using assms(2,3) by (simp, intro key_not_selected [OF d]) (auto simp: is_live_def split: option.splits)
qed

section \<open>Attempts under a live lease\<close>

text \<open>The row \<open>j\<close> and the lease row \<open>w\<close> that covers it are on disk.\<close>

definition leased :: "job_row \<Rightarrow> worker_row \<Rightarrow> store \<Rightarrow> bool" where
  "leased j w s \<longleftrightarrow> store_ok s \<and> j \<in> set (st_jobs s) \<and> w \<in> set (st_workers s) \<and>
     j_worker_id j = Some (w_id w) \<and> j_queue j = w_queue w"

lemma leased_lease_row: "leased j w s \<Longrightarrow> lease_row s j = Some w"
proof -
  assume l: "leased j w s"
  have d: "distinct (map w_id (st_workers s))" using l by (simp add: leased_def store_ok_def workers_ok_def)
  show ?thesis
  proof (cases "lease_row s j")
    case None
    then show ?thesis using l by (auto simp: lease_row_def find_None_iff leased_def)
  next
    case (Some x)
    then have "x \<in> set (st_workers s)" "w_id x = w_id w"
      using l by (auto simp: lease_row_def find_Some_iff leased_def)
    then show ?thesis using distinct_key_eq [OF d] Some l by (auto simp: leased_def)
  qed
qed

lemma leased_live: "leased j w s \<Longrightarrow> has_live_lease s now j \<longleftrightarrow> now < w_expires_at w"
proof -
  assume l: "leased j w s"
  have "distinct (map w_id (st_workers s))" using l by (simp add: leased_def store_ok_def workers_ok_def)
  then have "\<And>x. x \<in> set (st_workers s) \<Longrightarrow> w_id x = w_id w \<Longrightarrow> x = w"
    using l distinct_key_eq [of w_id "st_workers s"] by (auto simp: leased_def)
  then show ?thesis using l by (auto simp: has_live_lease_def leased_def list_ex_iff)
qed

lemma leased_unique: "leased j w s \<Longrightarrow> x \<in> set (st_jobs s) \<Longrightarrow> j_id x = j_id j \<Longrightarrow> x = j"
  by (auto simp: leased_def intro: jobs_ok_unique_id [OF store_ok_jobs])

text \<open>A recovery batch that names no row of this id leaves it alone.\<close>

lemma leased_unnamed:
  assumes "leased j w s" "\<And>r. r \<in> set reqs \<Longrightarrow> j_id (sj_row r) \<noteq> j_id j"
  shows "leased j w (snd (snd (retry_swept_abandoned_batch jitter now reqs h s)))"
    "leased j w (snd (snd (abort_stuck_abandoned_batch now reqs h s)))"
proof -
  have none: "\<not> list_ex (same_claim j) reqs" using assms(2) by (force simp: list_ex_iff same_claim_def)
  have j: "j \<in> set (st_jobs s)" using assms(1) by (simp add: leased_def)
  have "j \<in> set (st_jobs (snd (snd (retry_swept_abandoned_batch jitter now reqs h s))))"
    using j none by (simp add: retry_swept_abandoned_batch_def Let_def mem_update_rows swept_retry_guard_def)
  moreover have "j \<in> set (st_jobs (snd (snd (abort_stuck_abandoned_batch now reqs h s))))"
    using j none by (auto simp: abort_stuck_abandoned_batch_def Let_def in_finish_rows stuck_abort_guard_def)
  ultimately show "leased j w (snd (snd (retry_swept_abandoned_batch jitter now reqs h s)))"
    "leased j w (snd (snd (abort_stuck_abandoned_batch now reqs h s)))"
    using assms(1) store_ok_retry_swept_batch store_ok_abort_stuck_batch
    by (auto simp: leased_def retry_swept_abandoned_batch_def abort_stuck_abandoned_batch_def Let_def)
qed

lemma leased_purges:
  assumes l: "leased j w s" and live: "is_live j" "now - interval_ms (2 * g) < w_expires_at w"
  shows "leased j w (snd (purge_expired_jobs lj t n h s))"
    "leased j w (snd (purge_cron_occurrences lc t n h s))"
    "leased j w (snd (purge_worker_leases lw now n g h s))"
proof -
  have d: "distinct (map w_id (st_workers s))" and m: "j \<in> set (st_jobs s)" "w \<in> set (st_workers s)"
    using l by (simp_all add: leased_def store_ok_def workers_ok_def)
  have "j \<in> set (st_jobs (snd (purge_expired_jobs lj t n h s)))"
    using l live(1) m(1) by (intro purge_expired_keeps) (auto simp: leased_def)
  then show "leased j w (snd (purge_expired_jobs lj t n h s))"
    using l store_ok_purge_expired_jobs [of s lj t n h] by (simp add: leased_def purge_expired_jobs_def Let_def)
  show "leased j w (snd (purge_cron_occurrences lc t n h s))"
    using l store_ok_purge_cron_occurrences [of s lc t n h] by (simp add: leased_def purge_cron_occurrences_def Let_def)
  have "w \<in> set (st_workers (snd (purge_worker_leases lw now n g h s)))"
    unfolding purge_worker_leases_def Let_def
    using m(2) live(2) by (simp, intro key_not_selected [OF d m(2)]) auto
  then show "leased j w (snd (purge_worker_leases lw now n g h s))"
    using l store_ok_purge_worker_leases [of s lw now n g h] by (simp add: leased_def purge_worker_leases_def Let_def)
qed

text \<open>
  The attempts recovery has to leave to their owner while its lease is live: a
  running attempt that is not past its timeout and grace, and an abort in progress
  that holds a dedupe key or is to be retried.
\<close>

definition shielded :: "timestamp \<Rightarrow> int \<Rightarrow> job_row \<Rightarrow> bool" where
  "shielded now grace_ms j \<longleftrightarrow>
     (j_status j = Running \<and> (case (j_timeout_ms j, j_started_at j) of
        (Some t, Some started) \<Rightarrow> now \<le> started + interval_ms (t + grace_ms) | _ \<Rightarrow> True)) \<or>
     (j_status j = Aborting \<and> (j_dedupe_key j \<noteq> None \<or> row_swept j \<and> j_attempts j < j_max_attempts j))"

lemma shielded_live: "shielded now g j \<Longrightarrow> is_live j"
  by (auto simp: shielded_def is_live_def)

lemma shielded_not_stuck:
  "leased j w s \<Longrightarrow> shielded now g j \<Longrightarrow> j_status j = Running \<Longrightarrow> 0 \<le> g \<Longrightarrow> now < w_expires_at w \<Longrightarrow>
     \<not> job_is_stuck now g j (lease_expiry s j)"
  by (auto simp: shielded_def job_is_stuck_def lease_expiry_def leased_lease_row split: option.splits)

lemma shielded_scanned:
  assumes l: "leased j w s" and sh: "shielded now g j" "now < w_expires_at w"
    and r: "r \<in> set (scan_stuck now n g q s)" "j_id (sj_row r) = j_id j"
  shows "sj_row r = j \<and> j_status j = Running"
proof -
  have x: "sj_row r \<in> set (st_jobs s)" "scan_guard s now g q (sj_row r)"
    using r(1) by (auto simp: scan_stuck_def dest: in_select_rows)
  then have "sj_row r = j" using leased_unique [OF l] r(2) by blast
  then show ?thesis using x(2) sh l by (auto simp: scan_guard_def shielded_def lease_expiry_def leased_lease_row)
qed

lemma leased_mark_stuck:
  assumes l: "leased j w s" and sh: "shielded now g j" "0 \<le> g" "now < w_expires_at w"
  shows "leased j w (snd (mark_stuck now g q reqs s)) \<and> j_id j \<notin> set (fst (mark_stuck now g q reqs s))"
proof -
  have n: "\<not> mark_guard s now g q reqs j"
    using shielded_not_stuck [OF l sh(1) _ sh(2,3)] by (auto simp: mark_guard_def)
  have "x = j" if "x \<in> set (st_jobs s)" "j_id j = j_id x" for x using leased_unique [OF l] that by simp
  then show ?thesis
    using l n store_ok_mark_stuck [of s now g q reqs]
    by (auto simp: leased_def mark_stuck_def Let_def mem_update_rows)
qed

lemma batch_ids:
  "set (fst (retry_swept_abandoned_batch jitter now reqs h s)) \<subseteq> (j_id \<circ> sj_row) ` set reqs"
  "set (fst (abort_stuck_abandoned_batch now reqs h s)) \<subseteq> (j_id \<circ> sj_row) ` set reqs"
proof -
  have "j_id (swept_retry_row jitter now reqs x) = j_id x" for x
    by (simp add: swept_retry_row_def requeue_row_def split: option.splits)
  then show "set (fst (retry_swept_abandoned_batch jitter now reqs h s)) \<subseteq> (j_id \<circ> sj_row) ` set reqs"
    by (auto simp: retry_swept_abandoned_batch_def Let_def swept_retry_guard_def list_ex_iff same_claim_def)
  show "set (fst (abort_stuck_abandoned_batch now reqs h s)) \<subseteq> (j_id \<circ> sj_row) ` set reqs"
    by (auto simp: abort_stuck_abandoned_batch_def Let_def stuck_abort_guard_def list_ex_iff same_claim_def)
qed

lemma leased_recover:
  assumes l: "leased j w s" and g: "0 \<le> g"
    and sh: "\<And>k. shielded (clk k) g j" "\<And>k. clk k < w_expires_at w"
    and env: "\<And>e s. e \<in> {env1, env2, env3} \<Longrightarrow> leased j w s \<Longrightarrow> leased j w (e s)"
    and r: "j_id j \<notin> set (sr_cancelling r) \<union> set (sr_swept r)"
    and res: "recover_stuck_jobs env1 env2 env3 jitter clk n g r h s = (m, r', h', s')"
  shows "leased j w s' \<and> j_id j \<notin> set (sr_cancelling r') \<union> set (sr_swept r')"
proof -
  let ?stuck = "scan_stuck (clk 3) n g (h_name h) s"
  let ?running = "filter (\<lambda>r. j_status (sj_row r) = Running) ?stuck"
  obtain marked s1 where mk: "mark_stuck (clk 4) g (h_name h) ?running (env1 s) = (marked, s1)" by fastforce
  have s1: "leased j w s1" "j_id j \<notin> set marked"
    using leased_mark_stuck [of j w "env1 s" "clk 4" g "h_name h" ?running] env [of env1] l sh g mk by auto
  let ?ab = "abandoned_rows ?stuck marked"
  have un: "j_id (sj_row x) \<noteq> j_id j" if "x \<in> set ?ab" for x
    using shielded_scanned [OF l sh(1) sh(2), of x 3 n "h_name h"] that s1(2)
    by (auto simp: abandoned_rows_def)
  obtain ids2 h2 s2 where r2: "retry_swept_abandoned_batch jitter (clk 5) (filter sweep_retryable ?ab) h (env2 s1) = (ids2, h2, s2)"
    by (metis prod_cases3)
  have s2: "leased j w s2" "j_id j \<notin> set ids2"
    using leased_unnamed(1) [of j w "env2 s1" "filter sweep_retryable ?ab" jitter "clk 5" h] env [of env2] s1 un r2
      batch_ids(1) [of jitter "clk 5" "filter sweep_retryable ?ab" h "env2 s1"]
    by fastforce+
  let ?t = "filter (\<lambda>r. \<not> sweep_retryable r) ?ab"
  obtain ids3 h3 s3 where r3: "abort_stuck_abandoned_batch (clk 6) ?t h2 (env3 s2) = (ids3, h3, s3)"
    by (metis prod_cases3)
  have s3: "leased j w s3" "j_id j \<notin> set ids3"
    using leased_unnamed(2) [of j w "env3 s2" ?t "clk 6" h2] env [of env3] s2 un r3
      batch_ids(2) [of "clk 6" ?t h2 "env3 s2"]
    by fastforce+
  show ?thesis
    using res mk r2 r3 s1 s2 s3 r unfolding recover_stuck_jobs_def Let_def by auto
qed

text \<open>A pass is its three purges followed by the recovery.\<close>

definition purged_store ::
    "(uuid \<Rightarrow> bool) \<Rightarrow> (string \<times> string \<times> timestamp \<Rightarrow> bool) \<Rightarrow> (uuid \<Rightarrow> bool)
     \<Rightarrow> (nat \<Rightarrow> timestamp) \<Rightarrow> sweep_operations \<Rightarrow> handle \<Rightarrow> store \<Rightarrow> store" where
  "purged_store lj lc lw clk ops h s =
     (let n = nat (h_sweep_batch_size h);
          s1 = if so_expired_jobs ops then snd (purge_expired_jobs lj (clk 0) n h s) else s;
          s2 = if so_cron_occurrences ops then snd (purge_cron_occurrences lc (clk 1) n h s1) else s1
      in if so_workers ops then snd (purge_worker_leases lw (clk 2) n (duration_to_ms (h_sweep_grace h)) h s2) else s2)"

lemma sweep_work_split:
  "\<exists>r3. sr_cancelling r3 = [] \<and> sr_swept r3 = [] \<and>
     sweep_work lj lc lw env1 env2 env3 jitter clk ops h s =
      (if so_stuck_jobs ops then
         let (n, r4, h', s4) = recover_stuck_jobs env1 env2 env3 jitter clk (nat (h_sweep_batch_size h))
               (duration_to_ms (h_sweep_grace h)) r3 h (purged_store lj lc lw clk ops h s)
         in (r4\<lparr> sr_unfinished := (sr_unfinished r4)\<lparr> so_stuck_jobs := (n = nat (h_sweep_batch_size h)) \<rparr> \<rparr>, h', s4)
       else (r3, h, purged_store lj lc lw clk ops h s))"
  by (rule exI [of _ "fst (sweep_work lj lc lw env1 env2 env3 jitter clk (ops\<lparr> so_stuck_jobs := False \<rparr>) h s)"])
    (simp add: sweep_work_def purged_store_def Let_def split_beta report_default_def)

text \<open>What a statement makes of the one row of an id.\<close>

lemma finished_row:
  assumes "jobs_ok rows" "j \<in> set rows" "\<And>x. p x \<Longrightarrow> j_id (f x) = j_id x"
    and "x \<in> set (finish_rows p ttl f rows)" "j_id x = j_id j"
  shows "x = (if p j then f j else j)"
proof -
  obtain y where y: "y \<in> set rows" "p y \<and> x = f y \<or> \<not> p y \<and> x = y"
    using assms(4) by (auto simp: in_finish_rows)
  then have "y = j" using assms(3,5) jobs_ok_unique_id [OF assms(1) y(1) assms(2)] by auto
  then show ?thesis using y(2) by auto
qed

lemma purged_store_orphan:
  assumes "store_ok s" "j \<in> set (st_jobs s)" "is_live j" "lease_row s j = None"
  shows "store_ok (purged_store lj lc lw clk ops h s)" "j \<in> set (st_jobs (purged_store lj lc lw clk ops h s))"
    "lease_row (purged_store lj lc lw clk ops h s) j = None"
    "length (st_jobs (purged_store lj lc lw clk ops h s)) \<le> length (st_jobs s)"
proof -
  show "store_ok (purged_store lj lc lw clk ops h s)"
    using assms(1) by (simp add: purged_store_def Let_def store_ok_purge_expired_jobs
        store_ok_purge_cron_occurrences store_ok_purge_worker_leases)
  show "j \<in> set (st_jobs (purged_store lj lc lw clk ops h s))"
    using assms(2) purge_expired_keeps [OF assms(1,2), of "clk 0" lj _ h] assms(3)
    by (simp add: purged_store_def Let_def)
  have "set (st_workers (purged_store lj lc lw clk ops h s)) \<subseteq> set (st_workers s)"
    unfolding purged_store_def Let_def
    by (auto simp: purges_shrink(1,2) split: if_splits dest!: subsetD [OF purges_shrink(3)])
  then show "lease_row (purged_store lj lc lw clk ops h s) j = None"
    using assms(4) unfolding lease_row_def find_None_iff by blast
  show "length (st_jobs (purged_store lj lc lw clk ops h s)) \<le> length (st_jobs s)"
    by (simp add: purged_store_def Let_def purges_shrink(4))
qed

lemma scan_finds:
  assumes "j \<in> set (st_jobs s)" "scan_guard s now g q j" "length (st_jobs s) \<le> n"
  shows "\<lparr> sj_row = j, sj_owner_gone = (lease_row s j = None) \<rparr> \<in> set (scan_stuck now n g q s)"
proof -
  have "length (filter (scan_guard s now g q) (st_jobs s)) \<le> n"
    using assms(3) le_trans length_filter_le by blast
  then show ?thesis using assms(1,2) by (auto simp: scan_stuck_def select_rows_def)
qed

lemma no_lease_no_live_lease: "lease_row s j = None \<Longrightarrow> \<not> has_live_lease s now j"
  by (auto simp: lease_row_def find_None_iff has_live_lease_def list_ex_iff)

lemma mark_stuck_orphan:
  assumes ok: "store_ok s" and j: "j \<in> set (st_jobs s)" "j_queue j = q" "j_status j = Running"
    and r: "r \<in> set reqs" "sj_row r = j" and stuck: "job_is_stuck now g j (lease_expiry s j)"
    and res: "mark_stuck now g q reqs s = (marked, s1)"
  shows "j_id j \<in> set marked" "mark_row now j \<in> set (st_jobs s1)" "st_workers s1 = st_workers s"
proof -
  have "mark_guard s now g q reqs j" using j r stuck by (auto simp: mark_guard_def list_ex_iff same_claim_def)
  then show "j_id j \<in> set marked" "mark_row now j \<in> set (st_jobs s1)" "st_workers s1 = st_workers s"
    using res j(1) r(1) by (auto simp: mark_stuck_def Let_def mem_update_rows split: if_splits)
qed

lemma j_id_swept_retry_row [simp]: "j_id (swept_retry_row jitter now reqs j) = j_id j"
  by (simp add: swept_retry_row_def requeue_row_def split: option.splits)

lemma retry_batch_orphan:
  assumes ok: "store_ok s" and j: "j \<in> set (st_jobs s)" "j_queue j = h_name h" "j_status j = Aborting" "row_swept j"
    and r: "r \<in> set reqs" "same_claim j r" and gone: "lease_row s j = None"
    and res: "retry_swept_abandoned_batch jitter now reqs h s = (ids, h', s')"
    and left: "j_attempts j < j_max_attempts j"
  shows "j_id j \<in> set ids" "swept_retry_row jitter now reqs j \<in> set (st_jobs s')"
proof -
  let ?p = "swept_retry_guard s now (duration_to_ms (h_sweep_grace h)) (h_name h) reqs"
  have "?p j"
    using j r gone left no_lease_no_live_lease [OF gone]
    by (auto simp: swept_retry_guard_def list_ex_iff window_over_def)
  then show "j_id j \<in> set ids" "swept_retry_row jitter now reqs j \<in> set (st_jobs s')"
    using res j(1) r(1) update_rows_hit [of j "st_jobs s" ?p "swept_retry_row jitter now reqs"]
    by (auto simp: retry_swept_abandoned_batch_def Let_def comp_def split: if_splits)
qed

lemma record_retry_keeps [simp]:
  "h_name ((record_retry ^^ n) h) = h_name h" "h_sweep_grace ((record_retry ^^ n) h) = h_sweep_grace h"
  by (induction n) (simp_all add: record_retry_def)

lemma retry_batch_frame:
  assumes "retry_swept_abandoned_batch jitter now reqs h s = (ids, h', s')"
  shows "h_name h' = h_name h" "h_sweep_grace h' = h_sweep_grace h" "st_workers s' = st_workers s"
  using assms by (auto simp: retry_swept_abandoned_batch_def Let_def split: if_splits)

lemma abort_batch_orphan:
  assumes j: "j \<in> set (st_jobs s)" "j_queue j = h_name h" "j_status j = Aborting" "row_swept j"
    and r: "r \<in> set reqs" "same_claim j r" and gone: "lease_row s j = None"
  shows "stuck_abort_guard s now (duration_to_ms (h_sweep_grace h)) (h_name h) reqs j"
    "j_id j \<in> set (fst (abort_stuck_abandoned_batch now reqs h s))"
proof -
  show "stuck_abort_guard s now (duration_to_ms (h_sweep_grace h)) (h_name h) reqs j"
    using assms no_lease_no_live_lease [OF gone] by (auto simp: stuck_abort_guard_def list_ex_iff window_over_def)
  then show "j_id j \<in> set (fst (abort_stuck_abandoned_batch now reqs h s))"
    using j(1) r(1) by (auto simp: abort_stuck_abandoned_batch_def Let_def)
qed

lemma abort_batch_rows:
  assumes "store_ok s" "j \<in> set (st_jobs s)" "abort_stuck_abandoned_batch now reqs h s = (ids, h', s')"
    and "x \<in> set (st_jobs s')" "j_id x = j_id j"
  shows "x = (if stuck_abort_guard s now (duration_to_ms (h_sweep_grace h)) (h_name h) reqs j then abort_set_row now j else j)"
proof (cases "reqs = []")
  case True
  then show ?thesis
    using assms jobs_ok_unique_id [OF store_ok_jobs [OF assms(1)], of x j]
    by (simp add: abort_stuck_abandoned_batch_def stuck_abort_guard_def)
next
  case False
  then show ?thesis
    using finished_row [OF store_ok_jobs [OF assms(1)] assms(2), of
        "stuck_abort_guard s now (duration_to_ms (h_sweep_grace h)) (h_name h) reqs" "abort_set_row now" x j_failed_ttl_ms]
      assms(3-5) by (auto simp: abort_stuck_abandoned_batch_def Let_def abort_set_row_def)
qed

lemma one_row:
  assumes "\<And>x. x \<in> set rows \<Longrightarrow> j_id x = i \<Longrightarrow> x = y" "P y"
  shows "\<forall>x\<in>set rows. j_id x = i \<longrightarrow> P x"
  using assms by blast

text \<open>Phase two on a row that carries the abort mark and whose owner has no lease row.\<close>

lemma recovery_of_marked_row:
  assumes ok: "store_ok s1" and j: "j \<in> set (st_jobs s1)" "j_queue j = h_name h" "j_status j = Aborting" "row_swept j"
    and gone: "lease_row s1 j = None"
    and r: "r \<in> set ab" "same_claim j r" "sweep_retryable r \<longleftrightarrow> j_attempts j < j_max_attempts j"
    and r2: "retry_swept_abandoned_batch jitter t5 (filter sweep_retryable ab) h s1 = (ids2, h2, s2)"
    and r3: "abort_stuck_abandoned_batch t6 (filter (\<lambda>r. \<not> sweep_retryable r) ab) h2 s2 = (ids3, h3, s3)"
  shows "j_id j \<in> set ids2 \<union> set ids3 \<and>
    (\<forall>x\<in>set (st_jobs s3). j_id x = j_id j \<longrightarrow>
       j_attempts x = j_attempts j \<and> j_dedupe_key x = j_dedupe_key j \<and>
       (if j_attempts j < j_max_attempts j then j_status x = Queued \<and> j_worker_id x = None
        else j_status x = Aborted \<and> j_error x = Some SWEPT)) \<and>
    (j_attempts j < j_max_attempts j \<or> j_failed_ttl_ms j \<noteq> Some 0 \<longrightarrow> j_id j \<in> set (map j_id (st_jobs s3)))"
proof -
  let ?t = "filter (\<lambda>r. \<not> sweep_retryable r) ab"
  let ?guard = "stuck_abort_guard s2 t6 (duration_to_ms (h_sweep_grace h2)) (h_name h2) ?t"
  have ok2: "store_ok s2" using store_ok_retry_swept_batch [OF ok] r2 by (metis snd_conv)
  note frame = retry_batch_frame [OF r2]
  let ?P = "\<lambda>x. j_attempts x = j_attempts j \<and> j_dedupe_key x = j_dedupe_key j \<and>
       (if j_attempts j < j_max_attempts j then j_status x = Queued \<and> j_worker_id x = None
        else j_status x = Aborted \<and> j_error x = Some SWEPT)"
  show ?thesis
  proof (cases "j_attempts j < j_max_attempts j")
    case True
    let ?j2 = "swept_retry_row jitter t5 (filter sweep_retryable ab) j"
    have j2: "j_id j \<in> set ids2" "?j2 \<in> set (st_jobs s2)"
      using retry_batch_orphan [OF ok j _ r(2) gone r2 True] r(1,3) True by auto
    obtain r' where "find (same_claim j) (filter sweep_retryable ab) = Some r'"
      using r True by (cases "find (same_claim j) (filter sweep_retryable ab)") (auto simp: find_None_iff)
    then have f: "j_id ?j2 = j_id j" "j_status ?j2 = Queued" "j_worker_id ?j2 = None" "j_attempts ?j2 = j_attempts j"
      "j_dedupe_key ?j2 = j_dedupe_key j"
      by (simp_all add: swept_retry_row_def requeue_row_def)
    then have n: "\<not> ?guard ?j2" by (simp add: stuck_abort_guard_def)
    have "?j2 \<in> set (st_jobs s3)"
      using r3 j2(2) n by (auto simp: abort_stuck_abandoned_batch_def Let_def in_finish_rows split: if_splits)
    then have here: "j_id j \<in> set (map j_id (st_jobs s3))" using f(1) by (metis image_eqI list.set_map)
    have u: "x = ?j2" if "x \<in> set (st_jobs s3)" "j_id x = j_id j" for x
      using abort_batch_rows [OF ok2 j2(2) r3, of x] n f(1) that by simp
    have "?P ?j2" using f True by simp
    from here one_row [of "st_jobs s3" "j_id j" ?j2 ?P, OF u this] j2(1) show ?thesis by simp
  next
    case False
    let ?j3 = "abort_set_row t6 j"
    have j1: "j \<in> set (st_jobs s2)" "lease_row s2 j = None"
      using j(1) gone r2 False frame(3)
      by (auto simp: retry_swept_abandoned_batch_def Let_def mem_update_rows swept_retry_guard_def
          lease_row_def split: if_splits)
    have g: "?guard j" "j_id j \<in> set ids3"
      using abort_batch_orphan [OF j1(1) _ j(3,4) _ r(2) j1(2), of h2 ?t t6] j(2) frame(1) r(1,3) False r3 by auto
    have f: "j_id ?j3 = j_id j" "j_attempts ?j3 = j_attempts j" "j_dedupe_key ?j3 = j_dedupe_key j"
      "j_status ?j3 = Aborted" "j_error ?j3 = Some SWEPT"
      using j(4) by (simp_all add: abort_set_row_def row_swept_def is_swept_marked_def)
    have "?j3 \<in> set (st_jobs s3)" if "j_failed_ttl_ms j \<noteq> Some 0"
      using r3 j1(1) g(1) that
      by (auto simp: abort_stuck_abandoned_batch_def Let_def in_finish_rows stuck_abort_guard_def split: if_splits)
    then have here: "j_failed_ttl_ms j \<noteq> Some 0 \<Longrightarrow> j_id j \<in> set (map j_id (st_jobs s3))"
      using f(1) by (metis image_eqI list.set_map)
    have u: "x = ?j3" if "x \<in> set (st_jobs s3)" "j_id x = j_id j" for x
      using abort_batch_rows [OF ok2 j1(1) r3, of x] g(1) that by simp
    have "?P ?j3" using f False by simp
    from one_row [of "st_jobs s3" "j_id j" ?j3 ?P, OF u this] g(2) here False show ?thesis by simp
  qed
qed

section \<open>Properties\<close>






text \<open>
  A sweep pass keeps the history. Whatever it purges and recovers, the schema
  holds afterwards, and a finished row whose retention has not run out when the
  pass starts is still there, unchanged.
\<close>

theorem sweep_keeps_history:
  assumes "store_ok s" "j \<in> set (st_jobs s)" "is_terminal (j_status j)"
    and "case j_expires_at j of None \<Rightarrow> True | Some e \<Rightarrow> clk 0 < e"
  shows "store_ok (snd (snd (sweep_work lj lc lw id id id jitter clk ops h s))) \<and>
    j \<in> set (st_jobs (snd (snd (sweep_work lj lc lw id id id jitter clk ops h s))))"
proof -
  let ?I = "\<lambda>s. store_ok s \<and> j \<in> set (st_jobs s)"
  have dead: "\<not> is_live j" using assms(3) by (simp add: is_live_iff)
  have recover: "?I (snd (snd (snd (recover_stuck_jobs id id id jitter clk n g r h s))))" if "?I s" for s r n g
  proof (rule recover_stuck_jobs_invariant [where I = ?I, OF that])
    fix reqs s assume s: "?I s"
    show "?I (snd (mark_stuck (clk 4) g (h_name h) reqs s))"
      using s dead store_ok_mark_stuck
      by (auto simp: mark_stuck_def Let_def mem_update_rows dest: mark.only_live)
  next
    fix reqs h s assume s: "?I s"
    show "?I (snd (snd (retry_swept_abandoned_batch jitter (clk 5) reqs h s)))"
      using s dead store_ok_retry_swept_batch
      by (auto simp: retry_swept_abandoned_batch_def Let_def mem_update_rows dest: swept_retry.only_live)
    have "\<not> stuck_abort_guard s now g q reqs j" for now g q
      using dead by (auto simp: stuck_abort_guard_def is_live_def)
    then show "?I (snd (snd (abort_stuck_abandoned_batch (clk 6) reqs h s)))"
      using s store_ok_abort_stuck_batch by (auto simp: abort_stuck_abandoned_batch_def Let_def in_finish_rows)
  qed simp
  show ?thesis
    by (rule sweep_work_invariant [where I = ?I, OF _ _ _ _ recover])
      (use assms purge_expired_keeps in \<open>auto simp: store_ok_purge_expired_jobs store_ok_purge_cron_occurrences
         store_ok_purge_worker_leases\<close>)
qed

theorem sweep_keeps_history_witness:
  "finish_row 3000 Complete None None sample_running \<in> set (st_jobs (snd (snd (sweep_work (\<lambda>_. False) (\<lambda>_. False)
     (\<lambda>_. False) id id id (\<lambda>_ d. d) (\<lambda>k. 4000) SWEEP_ALL sample_handle
     (sample_store (finish_row 3000 Complete None None sample_running))))))"
proof -
  let ?j = "finish_row 3000 Complete None None sample_running"
  have "row_ok ?j"
    using sample_row_ok(2) by (simp add: finish_row_def row_ok_def attempts_ok_def)
  from sample_store_ok [OF this] show ?thesis
    using sweep_keeps_history [of "sample_store ?j" ?j "\<lambda>k. 4000" "\<lambda>_. False" "\<lambda>_. False" "\<lambda>_. False" "\<lambda>_ d. d" SWEEP_ALL sample_handle]
    by (simp add: sample_store_def finish_row_def expiry_def finish_ttl_def sample_running_def claim_row_def sample_row_def
        new_job_row_def sample_request_def job_request_new_def job_config_default_def duration_consts
        duration_to_ms_def duration_to_ms_checked_def div_ceil_def)
qed

text \<open>
  C38: leadership is surrendered. A pass gives up leadership at once when it runs into
  its deadline; a leader whose passes fail keeps it for at most two of them in a
  row, so the third consecutive failure releases the lock; a pass that returns a
  report starts the count again; and no pass makes a process leader without the
  advisory lock.
\<close>

theorem leadership_is_surrendered:
  assumes "sp_failed_passes sp < MAX_LEADER_SWEEP_FAILURES" "sweep_any ops"
    and "sweep_call probe_ok lock work ops sp = (res, sp')"
  shows "sp_failed_passes sp' < MAX_LEADER_SWEEP_FAILURES \<and>
    (sp_leader sp' \<longrightarrow> (sp_leader sp \<and> probe_ok) \<or> lock = Inr True) \<and>
    (work = None \<longrightarrow> \<not> sp_leader sp') \<and>
    (\<forall>r. work = Some (Inr r) \<and> sp_leader sp' \<longrightarrow> sp_failed_passes sp' = 0) \<and>
    (\<forall>e. work = Some (Inl e) \<and> sp_leader sp' \<longrightarrow> sp_failed_passes sp' = sp_failed_passes sp + 1) \<and>
    (\<forall>e. work = Some (Inl e) \<and> sp_failed_passes sp = 2 \<longrightarrow> \<not> sp_leader sp')"
  using assms
  by (auto simp: sweep_call_def ensure_leadership_def settle_pass_def sweeper_release_def MAX_LEADER_SWEEP_FAILURES_def
      Let_def split: if_splits sum.splits bool.splits option.splits prod.splits)

theorem leadership_is_surrendered_witness:
  "\<not> sp_leader (snd (sweep_call True (Inr False) (Some (Inl (WorkerTask ''x''))) SWEEP_ALL
      \<lparr> sp_leader = True, sp_failed_passes = 2 \<rparr>))"
  using leadership_is_surrendered [of "\<lparr> sp_leader = True, sp_failed_passes = 2 \<rparr>" SWEEP_ALL True "Inr False"
      "Some (Inl (WorkerTask ''x''))"]
  by (simp add: MAX_LEADER_SWEEP_FAILURES_def SWEEP_ALL_def sweep_any_def prod_eq_iff)

end
