(* ===== verification/Cron_Time.thy ===== *)
theory Cron_Time
  imports Job_Model "HOL-Library.Signed_Division"
begin

text \<open>
  Cron schedules in time (\<^verbatim>\<open>job.rs\<close>): the forward search with its search window, the
  binary search for the latest occurrence, misfire policies, publication
  deadlines and the registered cron entry. The crontab matcher belongs to another
  crate: a parsed expression is a \<open>crontab\<close>, its two lookup functions, and
  \<open>crontab_law\<close> states what its documentation promises about them.
\<close>

section \<open>Time\<close>

definition SECOND :: timestamp where "SECOND = 1000000000"

text \<open>\<^verbatim>\<open>Timestamp::as_second\<close> drops the fraction, towards zero.\<close>

definition as_second :: "timestamp \<Rightarrow> int" where
  "as_second t = t sdiv SECOND"

definition TIMESTAMP_MIN :: timestamp where "TIMESTAMP_MIN = -377705023201 * SECOND"

definition from_second :: "int \<Rightarrow> timestamp option" where
  "from_second s = (if -377705023201 \<le> s \<and> s \<le> 253402207200 then Some (s * SECOND) else None)"

definition saturating_add :: "int \<Rightarrow> int \<Rightarrow> int" where
  "saturating_add a b = max (- i64_max - 1) (min i64_max (a + b))"

definition saturating_sub :: "int \<Rightarrow> int \<Rightarrow> int" where
  "saturating_sub a b = max (- i64_max - 1) (min i64_max (a - b))"

text \<open>Rounding down to a whole second; below \<^verbatim>\<open>Timestamp::MIN\<close> there is nothing to round to.\<close>

definition round_cron_timestamp :: "timestamp \<Rightarrow> timestamp result" where
  "round_cron_timestamp t =
     (let r = t div SECOND * SECOND in
      if r < TIMESTAMP_MIN then Inl (Config ''cron occurrence: rounding failed'') else Inr r)"

section \<open>Schedules\<close>

record crontab =
  find_next :: "timestamp \<Rightarrow> timestamp option"
  crontab_matches :: "timestamp \<Rightarrow> bool option"

definition CRON_CYCLE_SECONDS :: int where "CRON_CYCLE_SECONDS = 146097 * 86400"
definition CRON_SEARCH_STEP_SECONDS :: int where "CRON_SEARCH_STEP_SECONDS = 3 * 365 * 86400"
definition CRON_SEARCH_HEADROOM_SECONDS :: int where "CRON_SEARCH_HEADROOM_SECONDS = 4 * 366 * 86400"

lemmas cron_consts = CRON_CYCLE_SECONDS_def CRON_SEARCH_STEP_SECONDS_def CRON_SEARCH_HEADROOM_SECONDS_def

definition searchable :: int where
  "searchable = saturating_sub (as_second TIMESTAMP_MAX) CRON_SEARCH_HEADROOM_SECONDS"

lemma as_second_whole [simp]: "as_second (s * SECOND) = s"
  by (simp add: as_second_def SECOND_def signed_divide_int_def abs_mult sgn_mult sgn_mult_abs)

lemma from_second_Some: "from_second s = Some t \<Longrightarrow> as_second t = s"
  by (auto simp: from_second_def split: if_splits)

function next_after_loop :: "crontab \<Rightarrow> int \<Rightarrow> timestamp \<Rightarrow> timestamp option" where
  "next_after_loop cron limit_seconds cursor =
     (if as_second cursor > searchable then None
      else case find_next cron cursor of
        Some next \<Rightarrow> if as_second next \<le> limit_seconds then Some next else None
      | None \<Rightarrow>
          (let next_seconds = min (saturating_add (as_second cursor) CRON_SEARCH_STEP_SECONDS) limit_seconds in
           if next_seconds \<le> as_second cursor then None
           else case from_second next_seconds of
                  None \<Rightarrow> None
                | Some c \<Rightarrow> next_after_loop cron limit_seconds c))"
  by pat_completeness auto
termination
  by (relation "measure (\<lambda>(cron, limit_seconds, cursor). nat (limit_seconds - as_second cursor))")
    (auto dest!: from_second_Some)

definition next_after :: "crontab \<Rightarrow> timestamp \<Rightarrow> timestamp option" where
  "next_after cron t =
     next_after_loop cron (min (saturating_add (as_second t) CRON_CYCLE_SECONDS) (as_second TIMESTAMP_MAX)) t"

text \<open>The binary search between the seconds \<open>low\<close> and \<open>high\<close>; \<open>None\<close> is the \<^verbatim>\<open>?\<close> of an unrepresentable probe.\<close>

function previous_loop :: "crontab \<Rightarrow> timestamp \<Rightarrow> timestamp \<Rightarrow> int \<Rightarrow> int \<Rightarrow> timestamp option" where
  "previous_loop cron now latest low high =
     (if high - low > 1 then
        (let midpoint = low + (high - low) sdiv 2 in
         case from_second midpoint of
           None \<Rightarrow> None
         | Some probe \<Rightarrow>
             (case next_after cron probe of
                Some next \<Rightarrow> if next \<le> now then previous_loop cron now next midpoint high
                             else previous_loop cron now latest low midpoint
              | None \<Rightarrow> previous_loop cron now latest low midpoint))
      else Some latest)"
  by pat_completeness auto
termination
  by (relation "measure (\<lambda>(cron, now, latest, low, high). nat (high - low))")
    (auto simp: signed_divide_int_def)

definition previous_at_or_before :: "crontab \<Rightarrow> timestamp \<Rightarrow> timestamp option" where
  "previous_at_or_before cron now =
     Option.bind (from_second (as_second now div 60 * 60)) (\<lambda>minute.
     Option.bind (crontab_matches cron minute) (\<lambda>hit.
       if hit then Some minute
       else
         (let floor_seconds = max (saturating_sub (as_second now) CRON_CYCLE_SECONDS) (as_second TIMESTAMP_MIN) in
          Option.bind (from_second floor_seconds) (\<lambda>floor.
          Option.bind (next_after cron floor) (\<lambda>latest.
            if latest > now then None
            else previous_loop cron now latest floor_seconds (as_second now))))))"

section \<open>Misfire policies\<close>

datatype cron_misfire_policy = Skip "duration option" | FireOnce

definition misfire_validate :: "cron_misfire_policy \<Rightarrow> unit result" where
  "misfire_validate p =
     (case p of Skip (Some grace) \<Rightarrow> validate_nonzero_duration ''cron misfire grace'' grace | _ \<Rightarrow> Inr ())"

fun misfire_kind :: "cron_misfire_policy \<Rightarrow> string" where
  "misfire_kind (Skip g) = ''skip''"
| "misfire_kind FireOnce = ''fire_once''"

fun misfire_grace_ms :: "cron_misfire_policy \<Rightarrow> int option" where
  "misfire_grace_ms (Skip g) = map_option duration_to_ms g"
| "misfire_grace_ms FireOnce = None"

record cron_options =
  opt_revision :: nat
  opt_misfire :: cron_misfire_policy

section \<open>Entries\<close>

record cron_entry =
  ce_cron :: crontab
  ce_source :: string
  ce_expr :: string
  ce_dedupe_key :: string
  ce_template :: job_request
  ce_options :: cron_options
  ce_definition :: json

text \<open>\<^verbatim>\<open>split_ascii_whitespace().count()\<close>.\<close>

definition ascii_whitespace :: "char \<Rightarrow> bool" where
  "ascii_whitespace c \<longleftrightarrow> c \<in> {CHR 0x20, CHR 0x09, CHR 0x0A, CHR 0x0C, CHR 0x0D}"

fun count_fields :: "bool \<Rightarrow> string \<Rightarrow> nat" where
  "count_fields in_field [] = 0"
| "count_fields in_field (c # cs) =
     (if ascii_whitespace c then count_fields False cs
      else (if in_field then 0 else 1) + count_fields True cs)"

text \<open>\<open>parse\<close> and \<open>normal_form\<close> are the crontab crate's.\<close>

definition parse_cron ::
    "(string \<Rightarrow> string + crontab) \<Rightarrow> (string \<Rightarrow> string) \<Rightarrow> string \<Rightarrow> (crontab \<times> string) result" where
  "parse_cron parse normal_form expr =
     (if count_fields False expr \<noteq> 5
        then Inl (Config (''invalid cron expression '' @ debug_str expr @ '': expected 5 whitespace-separated fields''))
      else case parse expr of
             Inl e \<Rightarrow> Inl (Config (''invalid cron expression '' @ debug_str expr @ '': '' @ e))
           | Inr cron \<Rightarrow> Inr (cron, normal_form expr))"

definition json_int :: "int \<Rightarrow> json" where
  "json_int i = JNumber (if 0 \<le> i then PosInt (nat i) else NegInt i)"

definition json_opt :: "int option \<Rightarrow> json" where
  "json_opt x = (case x of None \<Rightarrow> JNull | Some i \<Rightarrow> json_int i)"

text \<open>The stored definition; a backoff that does not serialize makes the macro panic.\<close>

definition cron_definition :: "job_request \<Rightarrow> json option" where
  "cron_definition t =
     (case backoff_to_json (cfg_backoff (rq_config t)) of
        None \<Rightarrow> None
      | Some backoff \<Rightarrow> Some (JObject [
          (''payload'', rq_payload t),
          (''max_attempts'', json_int (int (cfg_max_attempts (rq_config t)))),
          (''timeout_ms'', json_opt (map_option duration_to_ms (cfg_timeout (rq_config t)))),
          (''result_ttl_ms'', json_opt (as_result_ttl_ms (cfg_retention (rq_config t)))),
          (''failed_ttl_ms'', json_opt (as_result_ttl_ms (cfg_failed_retention (rq_config t)))),
          (''retry_delay_ms'', json_int (duration_to_ms (cfg_retry_delay (rq_config t)))),
          (''backoff'', backoff),
          (''priority'', json_int (cfg_priority (rq_config t))),
          (''meta'', rq_meta t)]))"

text \<open>\<^verbatim>\<open>None\<close> is the panic of \<^verbatim>\<open>json!\<close>.\<close>

definition cron_entry_with_options ::
    "(string \<Rightarrow> string + crontab) \<Rightarrow> (string \<Rightarrow> string) \<Rightarrow> (json \<Rightarrow> string list) \<Rightarrow> timestamp \<Rightarrow> string \<Rightarrow> job_request
     \<Rightarrow> cron_options \<Rightarrow> (cron_entry result) option" where
  "cron_entry_with_options parse normal_form chunks now expr template options =
     (let key = (case rq_dedupe_key template of Some k \<Rightarrow> k | None \<Rightarrow> ''cron:'' @ rq_name template);
          template' = template\<lparr> rq_dedupe_key := Some key \<rparr>
      in case and_then (parse_cron parse normal_form expr) (\<lambda>cron.
              and_then (misfire_validate (opt_misfire options)) (\<lambda>_.
              and_then (if int (opt_revision options) \<le> i64_max then Inr ()
                        else Inl (Config ''cron revision must fit PostgreSQL bigint'')) (\<lambda>_.
              and_then (job_request_validate chunks now template') (\<lambda>_. Inr cron)))) of
           Inl e \<Rightarrow> Some (Inl e)
         | Inr (cron, source) \<Rightarrow>
             map_option (\<lambda>d. Inr \<lparr> ce_cron = cron, ce_source = source, ce_expr = expr, ce_dedupe_key = key,
                ce_template = template', ce_options = options, ce_definition = d \<rparr>) (cron_definition template'))"

definition next_occurrence :: "cron_entry \<Rightarrow> timestamp \<Rightarrow> timestamp result" where
  "next_occurrence e now =
     and_then (round_cron_timestamp now) (\<lambda>now.
       case next_after (ce_cron e) now of
         Some t \<Rightarrow> Inr t
       | None \<Rightarrow> Inl (Config ''cron occurrence: schedule has no next occurrence''))"

definition previous_occurrence :: "cron_entry \<Rightarrow> timestamp \<Rightarrow> timestamp result" where
  "previous_occurrence e now =
     and_then (round_cron_timestamp now) (\<lambda>now.
       case previous_at_or_before (ce_cron e) now of
         Some t \<Rightarrow> Inr t
       | None \<Rightarrow> Inl (Config ''cron occurrence: schedule has no previous occurrence''))"

definition publication_deadline :: "cron_entry \<Rightarrow> timestamp \<Rightarrow> timestamp \<Rightarrow> timestamp" where
  "publication_deadline e occurrence successor =
     (let grace = (case opt_misfire (ce_options e) of
             Skip (Some g) \<Rightarrow> interval_ms (duration_to_ms g)
           | Skip None \<Rightarrow> max ((successor - occurrence) sdiv 5) SECOND
           | FireOnce \<Rightarrow> successor - occurrence);
          sum = occurrence + grace
      in min successor (if TIMESTAMP_MIN \<le> sum \<and> sum \<le> TIMESTAMP_MAX then sum else successor))"

definition job_for :: "cron_entry \<Rightarrow> timestamp \<Rightarrow> job_request" where
  "job_for e t = (ce_template e)\<lparr> rq_scheduled_at := Some t \<rparr>"

section \<open>What the crontab crate promises\<close>

text \<open>
  \<open>fires\<close> are the instants an expression denotes: whole minutes, recognised by
  \<^verbatim>\<open>matches\<close>; \<^verbatim>\<open>find_next\<close> returns the first one strictly later, or fails when there is
  none within its lookup window of four years.
\<close>

definition MINUTE :: timestamp where "MINUTE = 60 * SECOND"

definition crontab_law :: "(timestamp \<Rightarrow> bool) \<Rightarrow> crontab \<Rightarrow> bool" where
  "crontab_law fires cron \<longleftrightarrow>
     (\<forall>t. fires t \<longrightarrow> t mod MINUTE = 0) \<and>
     (\<forall>t. t mod MINUTE = 0 \<longrightarrow> crontab_matches cron t = Some (fires t)) \<and>
     (\<forall>c n. find_next cron c = Some n \<longrightarrow> c < n \<and> fires n \<and> (\<forall>t. c < t \<and> t < n \<longrightarrow> \<not> fires t)) \<and>
     (\<forall>c. find_next cron c = None \<longrightarrow> (\<forall>t. c < t \<and> t \<le> c + 4 * 365 * 86400 * SECOND \<longrightarrow> \<not> fires t))"

definition no_fire_between :: "(timestamp \<Rightarrow> bool) \<Rightarrow> timestamp \<Rightarrow> timestamp \<Rightarrow> bool" where
  "no_fire_between fires a b \<longleftrightarrow> (\<forall>t. a < t \<and> t < b \<longrightarrow> \<not> fires t)"

definition whole :: "timestamp \<Rightarrow> bool" where "whole t \<longleftrightarrow> as_second t * SECOND = t"

lemma whole_mult [simp]: "whole (s * SECOND)"
  by (simp add: whole_def)

lemma whole_mod: "t mod SECOND = 0 \<Longrightarrow> whole t"
  by (metis as_second_whole whole_def mult.commute mult_div_mod_eq add.right_neutral)

lemma whole_less: "whole a \<Longrightarrow> whole b \<Longrightarrow> a < b \<longleftrightarrow> as_second a < as_second b"
  unfolding whole_def by (metis SECOND_def mult_less_cancel_right_pos zero_less_numeral)

lemma whole_le: "whole a \<Longrightarrow> whole b \<Longrightarrow> a \<le> b \<longleftrightarrow> as_second a \<le> as_second b"
  using whole_less [of b a] by auto

lemma law_minute: "crontab_law fires cron \<Longrightarrow> fires t \<Longrightarrow> t mod MINUTE = 0"
  by (simp add: crontab_law_def)

lemma law_whole: "crontab_law fires cron \<Longrightarrow> fires t \<Longrightarrow> whole t"
  using law_minute [of fires cron t]
  by (intro whole_mod) (metis MINUTE_def dvd_trans mod_0_imp_dvd mod_eq_0_iff_dvd dvd_triv_right)

lemma law_next:
  assumes "crontab_law fires cron" "find_next cron c = Some n"
  shows "c < n" "fires n" "no_fire_between fires c n"
  using assms by (auto simp: crontab_law_def no_fire_between_def)

lemma law_none:
  assumes "crontab_law fires cron" "find_next cron c = None" "fires t" "c < t"
  shows "c + 4 * 365 * 86400 * SECOND < t"
  using assms unfolding crontab_law_def by (meson not_le)

lemma no_fire_step:
  "no_fire_between fires a c \<Longrightarrow> \<not> fires c \<or> c \<le> a \<Longrightarrow> no_fire_between fires c b \<Longrightarrow> a \<le> c \<Longrightarrow> no_fire_between fires a b"
  unfolding no_fire_between_def by (metis linorder_less_linear order_le_less_trans)

section \<open>The searches find what they look for\<close>

lemma saturating_add_le: "0 \<le> b \<Longrightarrow> - i64_max - 1 \<le> a \<Longrightarrow> saturating_add a b \<le> a + b"
  by (simp add: saturating_add_def)

text \<open>One step of the forward search after an exhausted lookup skips no occurrence.\<close>

lemma search_step:
  assumes law: "crontab_law fires cron" and none: "find_next cron cursor = None"
    and w: "whole cursor" "- i64_max - 1 \<le> as_second cursor"
    and next_seconds: "as_second c \<le> saturating_add (as_second cursor) CRON_SEARCH_STEP_SECONDS" "whole c"
    and fire: "fires t" "cursor < t"
  shows "c < t"
proof -
  have "as_second c \<le> as_second cursor + CRON_SEARCH_STEP_SECONDS"
    using next_seconds(1) saturating_add_le [OF _ w(2), of CRON_SEARCH_STEP_SECONDS] by (simp add: cron_consts)
  then have "c \<le> cursor + CRON_SEARCH_STEP_SECONDS * SECOND"
    using w(1) next_seconds(2) unfolding whole_def
    by (metis SECOND_def distrib_right mult_right_mono zero_le_numeral)
  also have "\<dots> < t"
    using law_none [OF law none fire] by (simp add: cron_consts SECOND_def)
  finally show ?thesis .
qed

declare next_after_loop.simps [simp del] previous_loop.simps [simp del]

lemma next_after_loop_cases:
  assumes "next_after_loop cron limit cursor = r" "as_second cursor \<le> searchable"
  obtains (found) n where "find_next cron cursor = Some n" "r = (if as_second n \<le> limit then Some n else None)"
  | (stop) "find_next cron cursor = None" "r = None"
      "min (saturating_add (as_second cursor) CRON_SEARCH_STEP_SECONDS) limit \<le> as_second cursor \<or>
       from_second (min (saturating_add (as_second cursor) CRON_SEARCH_STEP_SECONDS) limit) = None"
  | (next_probe) c where "find_next cron cursor = None" "r = next_after_loop cron limit c" "whole c"
      "as_second c = min (saturating_add (as_second cursor) CRON_SEARCH_STEP_SECONDS) limit"
      "as_second cursor < as_second c"
proof (cases "find_next cron cursor")
  case None
  let ?n = "min (saturating_add (as_second cursor) CRON_SEARCH_STEP_SECONDS) limit"
  have step: "next_after_loop cron limit cursor =
      (if ?n \<le> as_second cursor then None else case from_second ?n of None \<Rightarrow> None | Some c \<Rightarrow> next_after_loop cron limit c)"
    using assms(2) None by (subst next_after_loop.simps) (simp add: Let_def)
  show ?thesis
  proof (cases "?n \<le> as_second cursor \<or> from_second ?n = None")
    case True
    then have "r = None" using assms(1) step by (auto split: option.splits)
    then show ?thesis using stop [OF None _ True] by blast
  next
    case False
    then obtain c where c: "from_second ?n = Some c" by auto
    have "whole c" using c by (auto simp: from_second_def split: if_splits)
    moreover have "as_second cursor < as_second c" using False from_second_Some [OF c] by linarith
    moreover have "r = next_after_loop cron limit c" using assms(1) step c False by simp
    ultimately show ?thesis using next_probe [OF None _ _ from_second_Some [OF c]] by blast
  qed
next
  case (Some n)
  then show ?thesis
    using found assms by (subst (asm) next_after_loop.simps) auto
qed

lemma next_after_loop_sound:
  "crontab_law fires cron \<Longrightarrow> next_after_loop cron limit cursor = Some n \<Longrightarrow> whole cursor \<Longrightarrow>
   - i64_max - 1 \<le> as_second cursor \<Longrightarrow>
     cursor < n \<and> fires n \<and> no_fire_between fires cursor n \<and> as_second n \<le> limit"
proof (induction "nat (limit - as_second cursor)" arbitrary: cursor rule: less_induct)
  case less
  have s: "as_second cursor \<le> searchable"
    using less.prems(2) by (subst (asm) next_after_loop.simps) (simp split: if_splits)
  from less.prems(2) s show ?case
  proof (cases rule: next_after_loop_cases)
    case (found m)
    then show ?thesis using law_next [OF less.prems(1)] less.prems(2) by (auto split: if_splits)
  next
    case stop
    then show ?thesis using less.prems by simp
  next
    case (next_probe c)
    have lt: "cursor < c" using next_probe(3,5) less.prems(3) by (simp add: whole_less)
    have skip: "c < t" if "fires t" "cursor < t" for t
      using search_step [OF less.prems(1) next_probe(1) less.prems(3,4) _ next_probe(3) that] next_probe(4) by simp
    have "c < n \<and> fires n \<and> no_fire_between fires c n \<and> as_second n \<le> limit"
      using less.hyps [of c] less.prems(1,4) next_probe(2-5) less.prems(2) by simp
    then show ?thesis using lt skip unfolding no_fire_between_def by (metis order_less_trans)
  qed
qed

lemma next_after_loop_complete:
  "crontab_law fires cron \<Longrightarrow> whole cursor \<Longrightarrow> - 377705023201 \<le> as_second cursor \<Longrightarrow> fires t \<Longrightarrow> cursor < t \<Longrightarrow>
   as_second t \<le> limit \<Longrightarrow> as_second t \<le> searchable \<Longrightarrow> limit \<le> 253402207200 \<Longrightarrow>
     next_after_loop cron limit cursor \<noteq> None"
proof (induction "nat (limit - as_second cursor)" arbitrary: cursor rule: less_induct)
  case less
  have wt: "whole t" using law_whole [OF less.prems(1,4)] .
  have lt: "as_second cursor < as_second t" using less.prems(2,5) wt by (simp add: whole_less)
  have s: "as_second cursor \<le> searchable" using lt less.prems(7) by simp
  from refl s show ?case
  proof (cases rule: next_after_loop_cases [where cron = cron and limit = limit])
    case (found m)
    have "m \<le> t"
      using law_next(3) [OF less.prems(1) found(1)] less.prems(4,5) unfolding no_fire_between_def by (meson not_le)
    moreover have "whole m" using law_next(2) [OF less.prems(1) found(1)] law_whole [OF less.prems(1)] by blast
    ultimately have "as_second m \<le> limit" using less.prems(6) wt by (simp add: whole_le)
    then show ?thesis using found(2) by simp
  next
    case stop
    have "as_second cursor < min (saturating_add (as_second cursor) CRON_SEARCH_STEP_SECONDS) limit"
      using lt less.prems(3,6,8) by (simp add: saturating_add_def cron_consts)
    moreover have "min (saturating_add (as_second cursor) CRON_SEARCH_STEP_SECONDS) limit \<le> 253402207200"
      using less.prems(8) by linarith
    ultimately show ?thesis using stop(3) less.prems(3) by (auto simp: from_second_def)
  next
    case (next_probe c)
    have "c < t"
      using search_step [OF less.prems(1) next_probe(1) less.prems(2) _ _ next_probe(3) less.prems(4,5)] less.prems(3) next_probe(4)
      by simp
    then show ?thesis
      using less.hyps [of c] less.prems next_probe(2-5) lt by simp
  qed
qed

text \<open>The whole seconds a search may start from.\<close>

definition in_range :: "timestamp \<Rightarrow> bool" where
  "in_range t \<longleftrightarrow> whole t \<and> - 377705023201 \<le> as_second t \<and> as_second t \<le> 253402207200"

lemma as_second_max [simp]: "as_second TIMESTAMP_MAX = 253402207200" "as_second TIMESTAMP_MIN = -377705023201"
  by (simp_all add: as_second_def TIMESTAMP_MAX_def TIMESTAMP_MIN_def SECOND_def signed_divide_int_def)

lemma searchable_value: "searchable = 253275717600"
  by (simp add: searchable_def saturating_sub_def cron_consts)

lemma next_after_sound:
  assumes "crontab_law fires cron" "in_range t" "next_after cron t = Some n"
  shows "t < n" "fires n" "no_fire_between fires t n"
  using next_after_loop_sound [OF assms(1) assms(3) [unfolded next_after_def]] assms(2) by (auto simp: in_range_def)

lemma next_after_complete:
  assumes "crontab_law fires cron" "in_range t" "fires x" "t < x"
    and "as_second x \<le> as_second t + CRON_CYCLE_SECONDS" "as_second x \<le> searchable"
  shows "\<exists>n. next_after cron t = Some n \<and> n \<le> x"
proof -
  have lim: "as_second x \<le> min (saturating_add (as_second t) CRON_CYCLE_SECONDS) 253402207200"
    using assms(5,6) assms(2) by (auto simp: saturating_add_def cron_consts in_range_def searchable_value)
  obtain n where n: "next_after cron t = Some n"
    using next_after_loop_complete [OF assms(1) _ _ assms(3,4) lim assms(6)] assms(2)
    by (auto simp: next_after_def in_range_def)
  then show ?thesis
    using next_after_sound [OF assms(1,2) n] assms(3,4) unfolding no_fire_between_def by (meson not_le)
qed

lemma in_range_from_second: "from_second s = Some t \<Longrightarrow> in_range t \<and> as_second t = s \<and> t = s * SECOND"
  by (auto simp: from_second_def in_range_def split: if_splits)

text \<open>
  The invariant of the binary search: \<open>latest\<close> is the first occurrence after \<open>low\<close>,
  it is not after \<open>now\<close>, and none lies after \<open>high\<close>.
\<close>

lemma previous_loop_correct:
  "crontab_law fires cron \<Longrightarrow> whole now \<Longrightarrow> as_second now \<le> searchable \<Longrightarrow> low < high \<Longrightarrow> high \<le> as_second now \<Longrightarrow>
   as_second now - CRON_CYCLE_SECONDS \<le> low \<Longrightarrow> - 377705023201 \<le> low \<Longrightarrow>
   fires latest \<Longrightarrow> low * SECOND < latest \<Longrightarrow> latest \<le> now \<Longrightarrow> no_fire_between fires (low * SECOND) latest \<Longrightarrow>
   (\<forall>t. fires t \<and> high * SECOND < t \<longrightarrow> now < t) \<Longrightarrow>
     \<exists>r. previous_loop cron now latest low high = Some r \<and> fires r \<and> r \<le> now \<and> (\<forall>t. fires t \<and> r < t \<longrightarrow> now < t)"
proof (induction cron now latest low high rule: previous_loop.induct)
  case (1 cron now latest low high)
  note prems = "1.prems"
  show ?case
  proof (cases "high - low > 1")
    case False
    have high: "high = low + 1" using False prems(4) by simp
    have w: "whole latest" using law_whole [OF prems(1,8)] .
    have "low < as_second latest" using prems(9) w by (metis as_second_whole whole_less whole_mult)
    then have ge: "high * SECOND \<le> latest" using w high by (metis add1_zle_eq as_second_whole whole_le whole_mult)
    have "now < t" if "fires t" "latest < t" for t using prems(12) that ge by auto
    then show ?thesis
      using False prems(8,10) by (subst previous_loop.simps) auto
  next
    case True
    define m where "m = low + (high - low) sdiv 2"
    have m: "low < m" "m < high" using True by (auto simp: m_def signed_divide_int_def)
    have probe: "from_second m = Some (m * SECOND)"
      using m prems(3,5,7) by (simp add: from_second_def searchable_value)
    have r: "in_range (m * SECOND)" using in_range_from_second [OF probe] by simp
    have step: "previous_loop cron now latest low high =
       (case next_after cron (m * SECOND) of
          Some n \<Rightarrow> if n \<le> now then previous_loop cron now n m high else previous_loop cron now latest low m
        | None \<Rightarrow> previous_loop cron now latest low m)"
      using True probe by (subst previous_loop.simps) (simp add: Let_def flip: m_def)
    show ?thesis
    proof (cases "\<exists>n. next_after cron (m * SECOND) = Some n \<and> n \<le> now")
      case hit: True
      then obtain n where n: "next_after cron (m * SECOND) = Some n" "n \<le> now" by blast
      note s = next_after_sound [OF prems(1) r n(1)]
      have "\<exists>r. previous_loop cron now n m high = Some r \<and> fires r \<and> r \<le> now \<and> (\<forall>t. fires t \<and> r < t \<longrightarrow> now < t)"
        using "1.IH"(2) [OF True m_def probe n(1) n(2)] prems m s n(2) by simp
      then show ?thesis using step n by simp
    next
      case miss: False
      have none: "now < t" if "fires t" "m * SECOND < t" for t
      proof (rule ccontr)
        assume "\<not> now < t"
        then have le: "t \<le> now" by simp
        have w: "whole t" using law_whole [OF prems(1) that(1)] .
        have "as_second t \<le> as_second now" using le w prems(2) by (simp add: whole_le)
        then have "\<exists>n. next_after cron (m * SECOND) = Some n \<and> n \<le> t"
          using next_after_complete [OF prems(1) r that] prems(3,6) m by simp
        then show False using miss le by auto
      qed
      have "\<exists>r. previous_loop cron now latest low m = Some r \<and> fires r \<and> r \<le> now \<and> (\<forall>t. fires t \<and> r < t \<longrightarrow> now < t)"
      proof (cases "next_after cron (m * SECOND)")
        case None
        then show ?thesis using "1.IH"(1) [OF True m_def probe None] prems m none by simp
      next
        case (Some n)
        then show ?thesis using "1.IH"(3) [OF True m_def probe Some] miss prems m none by simp
      qed
      then show ?thesis using step miss by (auto split: option.splits)
    qed
  qed
qed

text \<open>\<open>t\<close> is the latest occurrence not after \<open>now\<close>.\<close>

definition latest_fire :: "(timestamp \<Rightarrow> bool) \<Rightarrow> timestamp \<Rightarrow> timestamp \<Rightarrow> bool" where
  "latest_fire fires now t \<longleftrightarrow> fires t \<and> t \<le> now \<and> (\<forall>x. fires x \<and> t < x \<longrightarrow> now < x)"

lemma minute_floor:
  assumes "whole now" "as_second now div 60 * 60 * SECOND < x" "x mod MINUTE = 0"
  shows "now < x"
proof -
  obtain k where k: "x = k * MINUTE" using assms(3) by (metis dvdE mod_0_imp_dvd mult.commute)
  have "as_second now div 60 < k" using assms(2) by (simp add: k MINUTE_def SECOND_def)
  then have "as_second now < 60 * k" by presburger
  then show ?thesis using assms(1) unfolding whole_def k MINUTE_def SECOND_def by linarith
qed

text \<open>The start of the backward search, one cycle back.\<close>

definition cycle_floor :: "timestamp \<Rightarrow> int" where
  "cycle_floor now = max (as_second now - CRON_CYCLE_SECONDS) (- 377705023201)"

lemma previous_unfold:
  assumes "crontab_law fires cron" "in_range now"
  shows "previous_at_or_before cron now =
    Option.bind (from_second (as_second now div 60 * 60)) (\<lambda>minute.
      if fires minute then Some minute
      else Option.bind (next_after cron (cycle_floor now * SECOND)) (\<lambda>latest.
        if latest > now then None else previous_loop cron now latest (cycle_floor now) (as_second now)))"
    and "in_range (cycle_floor now * SECOND)"
proof -
  have rn: "- 377705023201 \<le> as_second now" "as_second now \<le> 253402207200" using assms(2) by (auto simp: in_range_def)
  have f: "max (saturating_sub (as_second now) CRON_CYCLE_SECONDS) (- 377705023201) = cycle_floor now"
    using rn by (simp add: saturating_sub_def cron_consts cycle_floor_def)
  have fs: "from_second (cycle_floor now) = Some (cycle_floor now * SECOND)"
    using rn by (simp add: from_second_def cron_consts cycle_floor_def)
  show "in_range (cycle_floor now * SECOND)" using in_range_from_second [OF fs] by blast
  have hit: "crontab_matches cron minute = Some (fires minute)" if "from_second (as_second now div 60 * 60) = Some minute" for minute
    using assms(1) in_range_from_second [OF that] by (auto simp: crontab_law_def MINUTE_def SECOND_def)
  show "previous_at_or_before cron now =
    Option.bind (from_second (as_second now div 60 * 60)) (\<lambda>minute.
      if fires minute then Some minute
      else Option.bind (next_after cron (cycle_floor now * SECOND)) (\<lambda>latest.
        if latest > now then None else previous_loop cron now latest (cycle_floor now) (as_second now)))"
    unfolding previous_at_or_before_def Let_def as_second_max f fs
    using hit by (cases "from_second (as_second now div 60 * 60)") auto
qed

lemma previous_search:
  assumes law: "crontab_law fires cron" and now: "in_range now" "as_second now \<le> searchable"
    and n: "next_after cron (cycle_floor now * SECOND) = Some n" "n \<le> now"
  shows "\<exists>r. previous_loop cron now n (cycle_floor now) (as_second now) = Some r \<and> latest_fire fires now r"
proof -
  have wn: "whole now" using now(1) by (simp add: in_range_def)
  note s = next_after_sound [OF law previous_unfold(2) [OF law now(1)] n(1)]
  have "cycle_floor now * SECOND < now" using s(1) n(2) by simp
  then have lt: "cycle_floor now < as_second now" using wn by (metis as_second_whole whole_less whole_mult)
  have "as_second now * SECOND = now" using wn by (simp add: whole_def)
  then show ?thesis
    using previous_loop_correct [OF law wn now(2) lt order_refl _ _ s(2,1) n(2) s(3)]
    by (auto simp: latest_fire_def cycle_floor_def)
qed

lemma previous_sound:
  assumes law: "crontab_law fires cron" and now: "in_range now" "as_second now \<le> searchable"
    and p: "previous_at_or_before cron now = Some t"
  shows "latest_fire fires now t"
proof -
  let ?m = "as_second now div 60 * 60"
  have wn: "whole now" using now(1) by (simp add: in_range_def)
  have "?m \<le> as_second now" by presburger
  then have m_le: "?m * SECOND \<le> now" using wn by (metis as_second_whole whole_le whole_mult)
  have late: "now < x" if "fires x" "?m * SECOND < x" for x
    using minute_floor [OF wn that(2)] law_minute [OF law that(1)] by simp
  show ?thesis
  proof (cases "fires (?m * SECOND)")
    case True
    then have "t = ?m * SECOND"
      using p unfolding previous_unfold(1) [OF law now(1)] by (auto simp: from_second_def split: if_splits)
    then show ?thesis using True m_le late by (auto simp: latest_fire_def)
  next
    case False
    obtain n where "next_after cron (cycle_floor now * SECOND) = Some n" "n \<le> now"
      "previous_loop cron now n (cycle_floor now) (as_second now) = Some t"
      using p False unfolding previous_unfold(1) [OF law now(1)]
      by (auto simp: bind_eq_Some_conv dest!: in_range_from_second split: if_splits)
    then show ?thesis using previous_search [OF law now] by fastforce
  qed
qed

lemma previous_complete:
  assumes law: "crontab_law fires cron" and now: "in_range now" "as_second now \<le> searchable"
    and x: "fires x" "x \<le> now" "as_second now - CRON_CYCLE_SECONDS < as_second x" "- 377705023201 < as_second x"
    and m: "- 377705023201 \<le> as_second now div 60 * 60"
  shows "\<exists>t. previous_at_or_before cron now = Some t"
proof -
  have wn: "whole now" and rn: "as_second now \<le> 253402207200" using now(1) by (auto simp: in_range_def)
  have wx: "whole x" using law_whole [OF law x(1)] .
  have xs: "as_second x \<le> as_second now" using x(2) wx wn by (simp add: whole_le)
  have low: "cycle_floor now * SECOND < x"
    using x(3,4) wx unfolding cycle_floor_def by (metis as_second_whole max_less_iff_conj whole_less whole_mult)
  have "as_second x \<le> cycle_floor now + CRON_CYCLE_SECONDS" using xs unfolding cycle_floor_def by linarith
  then obtain n where n: "next_after cron (cycle_floor now * SECOND) = Some n" "n \<le> x"
    using next_after_complete [OF law previous_unfold(2) [OF law now(1)] x(1) low] now(2) xs
    by (metis as_second_whole order_trans)
  obtain r where "previous_loop cron now n (cycle_floor now) (as_second now) = Some r"
    using previous_search [OF law now n(1)] n(2) x(2) by fastforce
  moreover have "as_second now div 60 * 60 \<le> 253402207200" using rn by presburger
  then have "\<exists>t. from_second (as_second now div 60 * 60) = Some t" using m by (simp add: from_second_def)
  ultimately show ?thesis using n x(2) unfolding previous_unfold(1) [OF law now(1)] by auto
qed

section \<open>Properties\<close>

lemma div_bounds: "0 < m \<Longrightarrow> x div m * m \<le> x \<and> x < x div m * m + m" for x m :: int
  using pos_mod_bound [of m x] pos_mod_sign [of m x] by (simp flip: minus_mod_eq_div_mult)

lemma round_cron_timestamp_Inr:
  assumes "round_cron_timestamp now = Inr r" "now \<le> TIMESTAMP_MAX"
  shows "in_range r" "r \<le> now" "now < r + SECOND"
proof -
  have r: "r = now div SECOND * SECOND" "TIMESTAMP_MIN \<le> r"
    using assms(1) by (auto simp: round_cron_timestamp_def Let_def split: if_splits)
  have "- 377705023201 \<le> now div SECOND" "now div SECOND \<le> 253402207200"
    using r assms(2) by (auto simp: TIMESTAMP_MIN_def TIMESTAMP_MAX_def SECOND_def)
  then show "in_range r" using r(1) by (simp add: in_range_def)
  show "r \<le> now" "now < r + SECOND" using div_bounds [of SECOND now] by (simp_all add: r(1) SECOND_def)
qed

lemma round_cron_timestamp_total: "TIMESTAMP_MIN \<le> now \<Longrightarrow> \<exists>r. round_cron_timestamp now = Inr r"
proof -
  assume "TIMESTAMP_MIN \<le> now"
  then have "- 377705023201 \<le> now div SECOND"
    using zdiv_mono1 [of TIMESTAMP_MIN now SECOND] by (simp add: TIMESTAMP_MIN_def SECOND_def)
  then show ?thesis by (simp add: round_cron_timestamp_def Let_def TIMESTAMP_MIN_def SECOND_def)
qed

lemma whole_step: "whole t \<Longrightarrow> in_range r \<Longrightarrow> r < t \<Longrightarrow> r + SECOND \<le> t"
proof -
  assume a: "whole t" "in_range r" "r < t"
  then have "as_second r + 1 \<le> as_second t" using whole_less [of r t] by (simp add: in_range_def)
  then have "(as_second r + 1) * SECOND \<le> as_second t * SECOND" by (simp add: SECOND_def)
  then show ?thesis using a(1,2) by (simp add: whole_def in_range_def distrib_right)
qed

lemma next_occurrence_exists:
  assumes law: "crontab_law fires (ce_cron e)" and max: "TIMESTAMP_MIN \<le> now" "now \<le> TIMESTAMP_MAX"
    and x: "fires x" "now < x" "as_second x \<le> now div SECOND + CRON_CYCLE_SECONDS" "as_second x \<le> searchable"
  shows "\<exists>t. next_occurrence e now = Inr t \<and> t \<le> x"
proof -
  obtain r where r: "round_cron_timestamp now = Inr r"
    using round_cron_timestamp_total [OF max(1)] by blast
  note rr = round_cron_timestamp_Inr [OF r max(2)]
  have "as_second r = now div SECOND" using r by (auto simp: round_cron_timestamp_def Let_def split: if_splits)
  then obtain n where "next_after (ce_cron e) r = Some n" "n \<le> x"
    using next_after_complete [OF law rr(1) x(1)] x rr(2) by auto
  then show ?thesis using r by (simp add: next_occurrence_def)
qed

text \<open>
  C17: the next occurrence of a schedule. Given what the crontab crate documents, a
  successful lookup returns the first occurrence strictly after \<open>now\<close>, although it
  rounds \<open>now\<close> down and searches in windows; and whenever the schedule fires within
  one Gregorian cycle, safely below the largest representable instant, the lookup
  succeeds. The search loop always terminates.
\<close>

theorem next_occurrence_correct:
  assumes law: "crontab_law fires (ce_cron e)" and max: "TIMESTAMP_MIN \<le> now" "now \<le> TIMESTAMP_MAX"
  shows "(\<forall>t. next_occurrence e now = Inr t \<longrightarrow> now < t \<and> fires t \<and> no_fire_between fires now t) \<and>
    (\<forall>x. fires x \<and> now < x \<and> as_second x \<le> now div SECOND + CRON_CYCLE_SECONDS \<and> as_second x \<le> searchable
       \<longrightarrow> (\<exists>t. next_occurrence e now = Inr t \<and> t \<le> x))"
proof -
  obtain r where r: "round_cron_timestamp now = Inr r"
    using round_cron_timestamp_total [OF max(1)] by blast
  note rr = round_cron_timestamp_Inr [OF r max(2)]
  have up: "now < t" if "fires t" "r < t" for t
    using whole_step [OF law_whole [OF law that(1)] rr(1) that(2)] rr(3) by simp
  have eq: "next_occurrence e now = Inr t \<longleftrightarrow> next_after (ce_cron e) r = Some t" for t
    using r by (auto simp: next_occurrence_def split: option.splits)
  have "now < t \<and> fires t \<and> no_fire_between fires now t" if "next_occurrence e now = Inr t" for t
    using next_after_sound [OF law rr(1), of t] that eq up rr(2) unfolding no_fire_between_def
    by (metis order_le_less_trans)
  then show ?thesis using next_occurrence_exists [OF law max] by blast
qed

text \<open>The schedule that fires every minute, for the witnesses.\<close>

definition minutely :: crontab where
  "minutely = \<lparr> find_next = (\<lambda>c. Some ((c div MINUTE + 1) * MINUTE)), crontab_matches = (\<lambda>_. Some True) \<rparr>"

lemma minutely_law: "crontab_law (\<lambda>t. t mod MINUTE = 0) minutely"
proof -
  have "\<not> MINUTE dvd t" if "c < t" "t < (c div MINUTE + 1) * MINUTE" for c t
  proof
    assume "MINUTE dvd t"
    then obtain k where k: "t = k * MINUTE" by (metis dvdE mult.commute)
    have "k < c div MINUTE + 1" using that(2) by (simp add: k MINUTE_def SECOND_def)
    then have "k * MINUTE \<le> c div MINUTE * MINUTE" by (simp add: MINUTE_def SECOND_def)
    also have "\<dots> \<le> c" using div_bounds [of MINUTE c] by (simp add: MINUTE_def SECOND_def)
    finally show False using that(1) k by simp
  qed
  moreover have "c < (c div MINUTE + 1) * MINUTE" for c using div_bounds [of MINUTE c] by (simp add: MINUTE_def SECOND_def)
  ultimately show ?thesis by (auto simp: crontab_law_def minutely_def mod_eq_0_iff_dvd)
qed

definition sample_cron :: cron_entry where
  "sample_cron = \<lparr> ce_cron = minutely, ce_source = ''* * * * *'', ce_expr = ''* * * * *'', ce_dedupe_key = ''cron:tick'',
     ce_template = (job_request_new ''tick'' JNull)\<lparr> rq_dedupe_key := Some ''cron:tick'' \<rparr>,
     ce_options = \<lparr> opt_revision = 0, opt_misfire = Skip None \<rparr>, ce_definition = JNull \<rparr>"

theorem next_occurrence_correct_witness:
  "\<exists>t. next_occurrence sample_cron (90 * SECOND) = Inr t \<and> t \<le> 120 * SECOND"
proof -
  have "crontab_law (\<lambda>t. t mod MINUTE = 0) (ce_cron sample_cron)" by (simp add: sample_cron_def minutely_law)
  from next_occurrence_correct [OF this, of "90 * SECOND"] show ?thesis
    by (auto simp: TIMESTAMP_MIN_def TIMESTAMP_MAX_def SECOND_def as_second_def signed_divide_int_def MINUTE_def
        cron_consts searchable_value)
qed

text \<open>
  The latest occurrence. The binary search over the forward lookup returns the
  latest occurrence at or before \<open>now\<close>; it finds one whenever the schedule fired
  within the last Gregorian cycle.
\<close>

theorem previous_occurrence_correct:
  assumes law: "crontab_law fires (ce_cron e)" and now: "TIMESTAMP_MIN + MINUTE \<le> now" "now div SECOND \<le> searchable"
  shows "(\<forall>t. previous_occurrence e now = Inr t \<longrightarrow> latest_fire fires now t) \<and>
    (\<forall>x. fires x \<and> x \<le> now \<and> TIMESTAMP_MIN < x \<and> now div SECOND - CRON_CYCLE_SECONDS < as_second x
       \<longrightarrow> (\<exists>t. previous_occurrence e now = Inr t))"
proof -
  obtain r where r: "round_cron_timestamp now = Inr r"
    using round_cron_timestamp_total [of now] now(1) by (auto simp: MINUTE_def SECOND_def)
  have max: "now \<le> TIMESTAMP_MAX" using now(2) by (simp add: searchable_value TIMESTAMP_MAX_def SECOND_def)
  note rr = round_cron_timestamp_Inr [OF r max]
  have rs: "as_second r = now div SECOND" using r by (auto simp: round_cron_timestamp_def Let_def split: if_splits)
  have down: "t \<le> r" if "fires t" "t \<le> now" for t
    using whole_step [OF law_whole [OF law that(1)] rr(1)] that(2) rr(3) by force
  have eq: "previous_occurrence e now = Inr t \<longleftrightarrow> previous_at_or_before (ce_cron e) r = Some t" for t
    using r by (auto simp: previous_occurrence_def split: option.splits)
  have "latest_fire fires now t" if "previous_occurrence e now = Inr t" for t
    using previous_sound [OF law rr(1), of t] that eq rr(2) down now(2) rs unfolding latest_fire_def
    by (metis not_le order_trans)
  moreover have "\<exists>t. previous_occurrence e now = Inr t"
    if x: "fires x" "x \<le> now" "TIMESTAMP_MIN < x" "now div SECOND - CRON_CYCLE_SECONDS < as_second x" for x
  proof -
    have "as_second TIMESTAMP_MIN < as_second x"
      using x(3) whole_less [OF _ law_whole [OF law x(1)], of TIMESTAMP_MIN] whole_mult [of "-377705023201"]
      by (metis TIMESTAMP_MIN_def)
    moreover have "- 377705023201 \<le> as_second r div 60 * 60"
      using zdiv_mono1 [OF now(1), of SECOND] unfolding rs by (simp add: TIMESTAMP_MIN_def MINUTE_def SECOND_def)
    ultimately show ?thesis
      using previous_complete [OF law rr(1) _ x(1) down [OF x(1,2)]] x(4) now(2) eq by (simp add: rs)
  qed
  ultimately show ?thesis by blast
qed

theorem previous_occurrence_correct_witness:
  "\<exists>t. previous_occurrence sample_cron (90 * SECOND) = Inr t \<and> latest_fire (\<lambda>t. t mod MINUTE = 0) (90 * SECOND) t"
proof -
  have "crontab_law (\<lambda>t. t mod MINUTE = 0) (ce_cron sample_cron)" by (simp add: sample_cron_def minutely_law)
  from previous_occurrence_correct [OF this, of "90 * SECOND"]
  have a: "(\<forall>t. previous_occurrence sample_cron (90 * SECOND) = Inr t \<longrightarrow> latest_fire (\<lambda>t. t mod MINUTE = 0) (90 * SECOND) t) \<and>
    (\<forall>x. x mod MINUTE = 0 \<and> x \<le> 90 * SECOND \<and> TIMESTAMP_MIN < x \<and> 90 * SECOND div SECOND - CRON_CYCLE_SECONDS < as_second x
       \<longrightarrow> (\<exists>t. previous_occurrence sample_cron (90 * SECOND) = Inr t))"
    by (simp add: TIMESTAMP_MIN_def SECOND_def MINUTE_def searchable_value)
  moreover have "\<exists>t. previous_occurrence sample_cron (90 * SECOND) = Inr t"
  proof (rule a [THEN conjunct2, rule_format, of "60 * SECOND"])
    show "60 * SECOND mod MINUTE = 0 \<and> 60 * SECOND \<le> 90 * SECOND \<and> TIMESTAMP_MIN < 60 * SECOND \<and>
        90 * SECOND div SECOND - CRON_CYCLE_SECONDS < as_second (60 * SECOND)"
      by (simp add: MINUTE_def SECOND_def TIMESTAMP_MIN_def cron_consts as_second_def signed_divide_int_def)
  qed
  ultimately show ?thesis by metis
qed

text \<open>
  The publication deadline of an occurrence lies strictly after it and never
  after its successor; an explicit grace bounds it further, the adaptive default
  grants at most a fifth of the period or one second, and firing once grants the
  whole period.
\<close>

theorem publication_deadline_bounds:
  assumes "occurrence < successor" "successor \<le> TIMESTAMP_MAX" "TIMESTAMP_MIN \<le> occurrence"
    and "misfire_validate (opt_misfire (ce_options e)) = Inr ()"
  shows "occurrence < publication_deadline e occurrence successor \<and>
    publication_deadline e occurrence successor \<le> successor \<and>
    (case opt_misfire (ce_options e) of
       Skip (Some g) \<Rightarrow> publication_deadline e occurrence successor \<le> occurrence + interval_ms (duration_to_ms g)
         \<or> TIMESTAMP_MAX < occurrence + interval_ms (duration_to_ms g)
     | Skip None \<Rightarrow> 5 * (publication_deadline e occurrence successor - occurrence) \<le> max (successor - occurrence) (5 * SECOND)
     | FireOnce \<Rightarrow> publication_deadline e occurrence successor = successor)"
proof (cases "opt_misfire (ce_options e)")
  case FireOnce
  then show ?thesis using assms by (simp add: publication_deadline_def)
next
  case (Skip g)
  show ?thesis
  proof (cases g)
    case None
    have q: "(successor - occurrence) sdiv 5 = (successor - occurrence) div 5"
      using assms(1) by (simp add: signed_divide_int_def)
    have "5 * ((successor - occurrence) div 5) \<le> successor - occurrence" by presburger
    then show ?thesis
      using Skip None assms(1-3) by (auto simp: publication_deadline_def Let_def q SECOND_def max_def min_def)
  next
    case (Some d)
    have "0 < duration_to_ms d"
      using assms(4) Skip Some
      by (intro duration_to_ms_pos) (auto simp: misfire_validate_def validate_nonzero_duration_def split: if_splits)
    then show ?thesis
      using Skip Some assms(1-3) by (auto simp: publication_deadline_def Let_def min_def)
  qed
qed

theorem publication_deadline_bounds_witness:
  "60 * SECOND < publication_deadline sample_cron (60 * SECOND) (120 * SECOND)"
  using publication_deadline_bounds [of "60 * SECOND" "120 * SECOND" sample_cron]
  by (simp add: SECOND_def TIMESTAMP_MIN_def TIMESTAMP_MAX_def misfire_validate_def sample_cron_def)

end
