(* ===== verification/Cron_Schedule.thy ===== *)
theory Cron_Schedule
  imports Sweep_Model Cron_Time
begin

text \<open>
  Durable cron schedules (\<^verbatim>\<open>database.rs\<close>): registering a definition under its
  revision, choosing the occurrence a misfire policy publishes, and publishing it
  exactly once through the occurrence claim. \<open>jsonb_eq\<close> is PostgreSQL's equality of
  documents; \<open>env1\<close> to \<open>env4\<close> are other writers between the statements of the
  scheduling transaction (while it waits for the schedule row, for the dedupe-key
  lock, and around the insert), \<open>contended\<close> that another scheduler holds the row.
\<close>

section \<open>Reconciliation\<close>

datatype cron_authority = Active | Inactive int

definition schedule_row :: "string \<Rightarrow> string \<Rightarrow> store \<Rightarrow> cron_schedule option" where
  "schedule_row q key s = lookup_row schedule_key (q, key) (st_schedules s)"

definition same_definition :: "(json \<Rightarrow> json \<Rightarrow> bool) \<Rightarrow> cron_entry \<Rightarrow> cron_schedule \<Rightarrow> bool" where
  "same_definition jsonb_eq e c \<longleftrightarrow>
     cs_revision c = int (opt_revision (ce_options e)) \<and> cs_name c = rq_name (ce_template e) \<and>
     cs_expression c = ce_expr e \<and> jsonb_eq (cs_definition c) (ce_definition e) \<and>
     cs_misfire_policy c = misfire_kind (opt_misfire (ce_options e)) \<and>
     cs_grace_ms c = misfire_grace_ms (opt_misfire (ce_options e))"

definition fresh_schedule :: "timestamp \<Rightarrow> cron_entry \<Rightarrow> timestamp \<Rightarrow> string \<Rightarrow> cron_schedule" where
  "fresh_schedule now e next_run_at q = \<lparr>
     cs_queue = q, cs_dedupe_key = ce_dedupe_key e, cs_name = rq_name (ce_template e), cs_expression = ce_expr e,
     cs_definition = ce_definition e, cs_revision = int (opt_revision (ce_options e)),
     cs_misfire_policy = misfire_kind (opt_misfire (ce_options e)),
     cs_grace_ms = misfire_grace_ms (opt_misfire (ce_options e)),
     cs_next_run_at = next_run_at, cs_created_at = now, cs_updated_at = now \<rparr>"

definition replace_schedule :: "timestamp \<Rightarrow> cron_entry \<Rightarrow> timestamp \<Rightarrow> cron_schedule \<Rightarrow> cron_schedule" where
  "replace_schedule now e next_run_at c = (fresh_schedule now e next_run_at (cs_queue c))\<lparr>
     cs_next_run_at := (if cs_expression c = ce_expr e then cs_next_run_at c else next_run_at),
     cs_created_at := cs_created_at c \<rparr>"

text \<open>The upsert: a stored revision that is not lower is left alone.\<close>

definition upsert_schedule :: "timestamp \<Rightarrow> cron_entry \<Rightarrow> timestamp \<Rightarrow> string \<Rightarrow> cron_schedule list \<Rightarrow> cron_schedule list" where
  "upsert_schedule now e next_run_at q rows =
     (if (q, ce_dedupe_key e) \<in> set (map schedule_key rows)
      then update_rows (\<lambda>c. schedule_key c = (q, ce_dedupe_key e) \<and> cs_revision c < int (opt_revision (ce_options e)))
             (replace_schedule now e next_run_at) rows
      else rows @ [fresh_schedule now e next_run_at q])"

definition reconcile_cron ::
    "(json \<Rightarrow> json \<Rightarrow> bool) \<Rightarrow> timestamp \<Rightarrow> cron_entry \<Rightarrow> timestamp \<Rightarrow> handle \<Rightarrow> store \<Rightarrow> cron_authority result \<times> store" where
  "reconcile_cron jsonb_eq server_now e now h s =
     (let revision = int (opt_revision (ce_options e)) in
      if revision > i64_max then (Inl (Config ''cron revision must fit PostgreSQL bigint''), s)
      else case next_occurrence e now of
        Inl err \<Rightarrow> (Inl err, s)
      | Inr next_run_at \<Rightarrow>
          (let s' = s\<lparr> st_schedules := upsert_schedule server_now e next_run_at (h_name h) (st_schedules s) \<rparr> in
           case schedule_row (h_name h) (ce_dedupe_key e) s' of
             None \<Rightarrow> (Inl (Db ''no rows returned by a query that expected to return at least one row''), s)
           | Some c \<Rightarrow>
               (if cs_revision c > revision then (Inr (Inactive (cs_revision c)), s')
                else if \<not> same_definition jsonb_eq e c
                  then (Inl (Config (''cron '' @ debug_str (ce_dedupe_key e) @ '' conflicts with the stored definition'')), s')
                else (Inr Active, s'))))"

definition remove_cron_schedule :: "string \<Rightarrow> handle \<Rightarrow> store \<Rightarrow> bool \<times> store" where
  "remove_cron_schedule key h s =
     (let p = (\<lambda>c. schedule_key c = (h_name h, key))
      in (list_ex p (st_schedules s), s\<lparr> st_schedules := delete_rows p (st_schedules s) \<rparr>))"

definition due_crons :: "timestamp \<Rightarrow> string list \<Rightarrow> timestamp option \<Rightarrow> handle \<Rightarrow> store \<Rightarrow> string list" where
  "due_crons now keys through h s =
     filter (\<lambda>k. case schedule_row (h_name h) k s of
        None \<Rightarrow> True
      | Some c \<Rightarrow> cs_next_run_at c \<le> (case through of Some t \<Rightarrow> t | None \<Rightarrow> now)) keys"

section \<open>Choosing the occurrence\<close>

definition skip_catch_up ::
    "cron_entry \<Rightarrow> timestamp \<Rightarrow> timestamp \<Rightarrow> (timestamp \<times> timestamp \<times> bool) result" where
  "skip_catch_up e stored_occurrence current =
     and_then (next_occurrence e stored_occurrence) (\<lambda>successor.
       if current < publication_deadline e stored_occurrence successor then Inr (stored_occurrence, successor, True)
       else and_then (previous_occurrence e current) (\<lambda>recent.
         if recent > stored_occurrence then
           and_then (next_occurrence e recent) (\<lambda>recent_successor.
             if current < publication_deadline e recent recent_successor
             then Inr (recent, recent_successor, True)
             else Inr (stored_occurrence, successor, False))
         else Inr (stored_occurrence, successor, False)))"

text \<open>What a pass publishes: the occurrence, its successor, whether to publish it, and the next cursor.\<close>

definition choose_occurrence ::
    "cron_entry \<Rightarrow> timestamp \<Rightarrow> timestamp \<Rightarrow> timestamp \<Rightarrow> (timestamp \<times> timestamp \<times> bool \<times> timestamp) result" where
  "choose_occurrence e stored scheduling_time current =
     and_then (case opt_misfire (ce_options e) of
         Skip _ \<Rightarrow> skip_catch_up e stored scheduling_time
       | FireOnce \<Rightarrow>
           and_then (previous_occurrence e scheduling_time) (\<lambda>occurrence.
           and_then (next_occurrence e occurrence) (\<lambda>successor. Inr (occurrence, successor, True)))) (\<lambda>(occurrence, successor, publish).
       let publish' = (publish \<and> current < publication_deadline e occurrence successor) in
       and_then (if publish' then Inr successor else next_occurrence e scheduling_time) (\<lambda>next_run_at.
         Inr (occurrence, successor, publish', next_run_at)))"

section \<open>Publishing\<close>

datatype cron_schedule_result =
    NotDue
  | Contended
  | Superseded int
  | Conflicting int
  | Published uuid timestamp
  | AlreadyPublished timestamp
  | SkippedStale timestamp
  | SkippedHeld timestamp dedupe_holder

definition cron_job_row :: "string \<Rightarrow> timestamp \<Rightarrow> uuid \<Rightarrow> cron_entry \<Rightarrow> timestamp \<Rightarrow> json \<Rightarrow> job_row" where
  "cron_job_row q wall new_id e occurrence backoff =
     (new_job_row q wall new_id (job_for e occurrence) None False backoff)\<lparr>
       j_kind := ''cron'', j_cron_expr := Some (ce_expr e) \<rparr>"

definition claim_occurrence ::
    "string \<Rightarrow> string \<Rightarrow> timestamp \<Rightarrow> timestamp \<Rightarrow> store \<Rightarrow> bool \<times> store" where
  "claim_occurrence q key occurrence expires_at s =
     (if (q, key, occurrence) \<in> set (map occurrence_key (st_occurrences s)) then (False, s)
      else (True, s\<lparr> st_occurrences := st_occurrences s @
        [\<lparr> co_queue = q, co_dedupe_key = key, co_scheduled_at = occurrence, co_expires_at = expires_at \<rparr>] \<rparr>))"

text \<open>A rollback takes the transaction's own claim back.\<close>

definition unclaim :: "string \<Rightarrow> string \<Rightarrow> timestamp \<Rightarrow> store \<Rightarrow> store" where
  "unclaim q key occurrence s =
     s\<lparr> st_occurrences := delete_rows (\<lambda>c. occurrence_key c = (q, key, occurrence)) (st_occurrences s) \<rparr>"

definition advance_cursor :: "timestamp \<Rightarrow> string \<Rightarrow> string \<Rightarrow> timestamp \<Rightarrow> store \<Rightarrow> store" where
  "advance_cursor now q key next_run_at s =
     s\<lparr> st_schedules := update_rows (\<lambda>c. schedule_key c = (q, key))
          (\<lambda>c. c\<lparr> cs_next_run_at := next_run_at, cs_updated_at := now \<rparr>) (st_schedules s) \<rparr>"

definition publish_occurrence ::
    "(store \<Rightarrow> store) \<Rightarrow> (store \<Rightarrow> store) \<Rightarrow> timestamp \<Rightarrow> uuid \<Rightarrow> cron_entry \<Rightarrow> timestamp \<Rightarrow> bool \<Rightarrow> timestamp \<Rightarrow> handle \<Rightarrow> store
     \<Rightarrow> cron_schedule_result result \<times> store" where
  "publish_occurrence env3 env4 wall new_id e occurrence publish claim_expires_at h s =
     (let q = h_name h; key = ce_dedupe_key e;
          (claimed, s3) = claim_occurrence q key occurrence claim_expires_at s
      in if \<not> claimed then (Inr (AlreadyPublished occurrence), s3)
         else if \<not> publish then (Inr (SkippedStale occurrence), s3)
         else case live_dedupe_holder h key s3 of
           Some d \<Rightarrow> (Inr (SkippedHeld occurrence d), s3)
         | None \<Rightarrow>
             (case backoff_to_json (cfg_backoff (rq_config (ce_template e))) of
                None \<Rightarrow> (Inl (Serde ''duration does not fit in u64 ms''), unclaim q key occurrence s3)
              | Some backoff \<Rightarrow>
                  (let s4 = env3 s3 in
                   case insert_on_conflict (cron_job_row q wall new_id e occurrence backoff) (st_jobs s4) of
                     Inl err \<Rightarrow> (Inl err, unclaim q key occurrence s4)
                   | Inr (Some js) \<Rightarrow>
                       (Inr (Published new_id occurrence), notify [NEnqueue q] (s4\<lparr> st_jobs := js \<rparr>))
                   | Inr None \<Rightarrow>
                       (let s5 = env4 s4 in
                        case live_dedupe_holder h key s5 of
                          Some d \<Rightarrow> (Inr (SkippedHeld occurrence d), s5)
                        | None \<Rightarrow> (Inl (DedupeRace (''cron '' @ debug_str key @ '' lost its dedupe key to a writer that did not take the enqueue lock; the occurrence will be retried'')),
                                   unclaim q key occurrence s5)))))"

definition schedule_cron ::
    "(json \<Rightarrow> json \<Rightarrow> bool) \<Rightarrow> (store \<Rightarrow> store) \<Rightarrow> (store \<Rightarrow> store) \<Rightarrow> (store \<Rightarrow> store) \<Rightarrow> (store \<Rightarrow> store) \<Rightarrow> bool
     \<Rightarrow> timestamp \<Rightarrow> timestamp \<Rightarrow> timestamp \<Rightarrow> uuid \<Rightarrow> cron_entry \<Rightarrow> timestamp option \<Rightarrow> handle \<Rightarrow> store
     \<Rightarrow> cron_schedule_result result \<times> store" where
  "schedule_cron jsonb_eq env1 env2 env3 env4 contended now current wall new_id e through h s =
     (let revision = int (opt_revision (ce_options e)); q = h_name h; key = ce_dedupe_key e in
      if revision > i64_max then (Inl (Config ''cron revision must fit PostgreSQL bigint''), s)
      else case schedule_row q key s of
        None \<Rightarrow> (Inl (Config (''cron schedule '' @ debug_str key @ '' was not reconciled'')), s)
      | Some observed \<Rightarrow>
          if cs_revision observed > revision then (Inr (Superseded (cs_revision observed)), s)
          else if \<not> same_definition jsonb_eq e observed then (Inr (Conflicting (cs_revision observed)), s)
          else if cs_next_run_at observed > (case through of Some t \<Rightarrow> t | None \<Rightarrow> now) then (Inr NotDue, s)
          else
            let s1 = env1 s in
            case (case schedule_row q key s1 of
                    Some c \<Rightarrow> if cs_revision c = revision \<and> jsonb_eq (cs_definition c) (ce_definition e) \<and>
                                 cs_next_run_at c \<le> (case through of Some t \<Rightarrow> t | None \<Rightarrow> now) \<and>
                                 (through \<noteq> None \<or> \<not> contended)
                              then Some (cs_next_run_at c) else None
                  | None \<Rightarrow> None) of
              None \<Rightarrow> (Inr (if through \<noteq> None then NotDue else Contended), s1)
            | Some due \<Rightarrow>
                let s2 = env2 s1; scheduling_time = (case through of Some t \<Rightarrow> t | None \<Rightarrow> current) in
                case choose_occurrence e due scheduling_time current of
                  Inl err \<Rightarrow> (Inl err, s2)
                | Inr (occurrence, successor, publish, next_run_at) \<Rightarrow>
                    (case publish_occurrence env3 env4 wall new_id e occurrence publish
                            (max successor (current + SECOND)) h s2 of
                       (Inl err, s') \<Rightarrow> (Inl err, s')
                     | (Inr result, s') \<Rightarrow> (Inr result, advance_cursor now q key next_run_at s')))"

section \<open>Lemmas\<close>

text \<open>What the constructor of an entry guarantees.\<close>

definition entry_ok :: "cron_entry \<Rightarrow> bool" where
  "entry_ok e \<longleftrightarrow> (\<exists>chunks now. job_request_validate chunks now (ce_template e) = Inr ()) \<and>
     rq_dedupe_key (ce_template e) = Some (ce_dedupe_key e) \<and>
     misfire_validate (opt_misfire (ce_options e)) = Inr () \<and> int (opt_revision (ce_options e)) \<le> i64_max"

lemma cron_entry_with_options_ok:
  assumes "cron_entry_with_options parse nf chunks now expr template opts = Some (Inr e)"
  shows "entry_ok e"
  using assms
  by (auto simp: cron_entry_with_options_def entry_ok_def Let_def split: sum.splits option.splits if_splits prod.splits) blast+

lemma cron_job_row_ok:
  assumes "entry_ok e" "handle_ok h"
  shows "row_ok (cron_job_row (h_name h) wall i e occ v)"
proof -
  obtain chunks now where "job_request_validate chunks now (ce_template e) = Inr ()"
    using assms(1) by (auto simp: entry_ok_def)
  then have "row_ok (new_job_row (h_name h) wall i (ce_template e) None False v)"
    using new_job_row_ok assms(2) by (auto simp: handle_ok_def)
  then show ?thesis by (simp add: cron_job_row_def job_for_def new_job_row_def row_ok_def attempts_ok_def)
qed

lemma cron_job_row_simps [simp]:
  "j_id (cron_job_row q wall i e occ v) = i" "j_status (cron_job_row q wall i e occ v) = Queued"
  "j_queue (cron_job_row q wall i e occ v) = q" "j_kind (cron_job_row q wall i e occ v) = ''cron''"
  "j_scheduled_at (cron_job_row q wall i e occ v) = occ" "j_attempts (cron_job_row q wall i e occ v) = 0"
  "j_dedupe_key (cron_job_row q wall i e occ v) = rq_dedupe_key (ce_template e)"
  "j_cron_expr (cron_job_row q wall i e occ v) = Some (ce_expr e)"
  by (simp_all add: cron_job_row_def job_for_def new_job_row_def)

lemma schedule_row_Some:
  "schedule_row q key s = Some c \<Longrightarrow> c \<in> set (st_schedules s) \<and> schedule_key c = (q, key)"
  by (auto simp: schedule_row_def dest: lookup_row_Some)

lemma crons_ok_claim: "store_ok s \<Longrightarrow> store_ok (snd (claim_occurrence q key occ ex s))"
  by (auto simp: claim_occurrence_def store_ok_def crons_ok_def occurrence_key_def)

lemma store_ok_unclaim: "store_ok s \<Longrightarrow> store_ok (unclaim q key occ s)"
  by (simp add: unclaim_def store_ok_def crons_ok_def distinct_map_delete_rows)

lemma store_ok_advance_cursor: "store_ok s \<Longrightarrow> store_ok (advance_cursor now q key t s)"
proof -
  assume s: "store_ok s"
  let ?f = "\<lambda>c. c\<lparr> cs_next_run_at := t, cs_updated_at := now \<rparr>"
  have "map schedule_key (update_rows p ?f rows) = map schedule_key rows" for p rows
    by (rule map_update_rows) (simp add: schedule_key_def)
  moreover have "schedule_ok (?f c) = schedule_ok c" for c by (simp add: schedule_ok_def)
  ultimately show ?thesis
    using s by (auto simp: advance_cursor_def store_ok_def crons_ok_def list_all_iff mem_update_rows)
qed

lemma store_ok_upsert:
  assumes "store_ok s"
  shows "store_ok (s\<lparr> st_schedules := upsert_schedule now e t q (st_schedules s) \<rparr>)"
proof -
  have keys: "map schedule_key (update_rows (\<lambda>c. schedule_key c = (q, ce_dedupe_key e) \<and> P c) (replace_schedule now e t) rows) =
      map schedule_key rows" for P rows
    by (induction rows) (auto simp: schedule_key_def replace_schedule_def fresh_schedule_def)
  have fresh: "schedule_key (fresh_schedule now e t q) = (q, ce_dedupe_key e)"
    by (simp add: schedule_key_def fresh_schedule_def)
  have new: "schedule_ok (fresh_schedule now e t q)" for t q
    by (cases "opt_misfire (ce_options e)")
      (auto simp: schedule_ok_def fresh_schedule_def duration_to_ms_nonneg split: option.splits)
  then have replaced: "schedule_ok (replace_schedule now e t c)" for c
    by (simp add: schedule_ok_def replace_schedule_def)
  have "distinct (map schedule_key (upsert_schedule now e t q (st_schedules s)))"
    using assms by (auto simp: upsert_schedule_def store_ok_def crons_ok_def keys fresh)
  moreover have "list_all schedule_ok (upsert_schedule now e t q (st_schedules s))"
    using assms new replaced by (auto simp: upsert_schedule_def store_ok_def crons_ok_def list_all_iff mem_update_rows)
  ultimately show ?thesis using assms by (simp add: store_ok_def crons_ok_def)
qed

lemma upsert_others:
  "schedule_key c \<noteq> (q, ce_dedupe_key e) \<Longrightarrow> c \<in> set (upsert_schedule now e t q rows) \<longleftrightarrow> c \<in> set rows"
  by (auto simp: upsert_schedule_def mem_update_rows schedule_key_def replace_schedule_def fresh_schedule_def)

lemma upsert_noop:
  assumes "distinct (map schedule_key rows)" "lookup_row schedule_key (q, ce_dedupe_key e) rows = Some c"
    "\<not> cs_revision c < int (opt_revision (ce_options e))"
  shows "upsert_schedule now e t q rows = rows"
proof -
  have c: "c \<in> set rows" "schedule_key c = (q, ce_dedupe_key e)" using lookup_row_Some [OF assms(2)] by auto
  have only: "x = c" if "x \<in> set rows" "schedule_key x = (q, ce_dedupe_key e)" for x
    using distinct_key_eq [OF assms(1) that(1) c(1)] that(2) c(2) by simp
  have "(q, ce_dedupe_key e) \<in> set (map schedule_key rows)" using c by (metis image_eqI list.set_map)
  moreover have "update_rows (\<lambda>c. schedule_key c = (q, ce_dedupe_key e) \<and> cs_revision c < int (opt_revision (ce_options e)))
      (replace_schedule now e t) rows = rows"
    by (rule update_rows_id) (use only assms(3) in blast)
  ultimately show ?thesis by (simp add: upsert_schedule_def)
qed

lemma upsert_lookup:
  assumes d: "distinct (map schedule_key rows)"
  shows "lookup_row schedule_key (q, ce_dedupe_key e) (upsert_schedule now e t q rows) =
    Some (case lookup_row schedule_key (q, ce_dedupe_key e) rows of
            None \<Rightarrow> fresh_schedule now e t q
          | Some c \<Rightarrow> if cs_revision c < int (opt_revision (ce_options e)) then replace_schedule now e t c else c)"
proof (cases "lookup_row schedule_key (q, ce_dedupe_key e) rows")
  case None
  then have "upsert_schedule now e t q rows = rows @ [fresh_schedule now e t q]"
    by (auto simp: upsert_schedule_def lookup_row_None)
  moreover have "find (\<lambda>r. schedule_key r = (q, ce_dedupe_key e)) (rows @ [fresh_schedule now e t q]) = Some (fresh_schedule now e t q)"
    if "\<forall>r\<in>set rows. schedule_key r \<noteq> (q, ce_dedupe_key e)"
    using that by (induction rows) (auto simp: schedule_key_def fresh_schedule_def)
  ultimately show ?thesis using None lookup_row_None [of schedule_key "(q, ce_dedupe_key e)" rows] by (simp add: lookup_row_def)
next
  case (Some c)
  have c: "c \<in> set rows" "schedule_key c = (q, ce_dedupe_key e)" using lookup_row_Some [OF Some] by auto
  show ?thesis
  proof (cases "cs_revision c < int (opt_revision (ce_options e))")
    case False
    then show ?thesis using upsert_noop [OF d Some] Some by simp
  next
    case True
    let ?p = "\<lambda>x. schedule_key x = (q, ce_dedupe_key e) \<and> cs_revision x < int (opt_revision (ce_options e))"
    have up: "upsert_schedule now e t q rows = update_rows ?p (replace_schedule now e t) rows"
      using c by (auto simp: upsert_schedule_def intro: rev_image_eqI)
    have k: "schedule_key (replace_schedule now e t c) = (q, ce_dedupe_key e)"
      using c(2) by (simp add: schedule_key_def replace_schedule_def fresh_schedule_def)
    have "map schedule_key (update_rows ?p (replace_schedule now e t) rows) = map schedule_key rows"
      by (induction rows) (auto simp: schedule_key_def replace_schedule_def fresh_schedule_def)
    then have "distinct (map schedule_key (update_rows ?p (replace_schedule now e t) rows))" using d by simp
    moreover have "replace_schedule now e t c \<in> set (update_rows ?p (replace_schedule now e t) rows)"
      using c True by (intro update_rows_hit) auto
    ultimately show ?thesis
      using lookup_row_eq [of schedule_key _ "replace_schedule now e t c"] k Some True by (simp add: up)
  qed
qed

lemma store_ok_reconcile_cron: "store_ok s \<Longrightarrow> store_ok (snd (reconcile_cron jsonb_eq snow e now h s))"
  using store_ok_upsert by (auto simp: reconcile_cron_def Let_def split: sum.splits option.splits)

lemma store_ok_remove_cron: "store_ok s \<Longrightarrow> store_ok (snd (remove_cron_schedule key h s))"
  by (auto simp: remove_cron_schedule_def Let_def store_ok_def crons_ok_def distinct_map_delete_rows list_all_iff)

text \<open>The outcomes of publishing, by cases.\<close>

lemma publish_occurrence_cases:
  assumes "publish_occurrence env3 env4 wall i e occ publish ex h s = (r, s')"
  obtains (known) "r = Inr (AlreadyPublished occ)" "s' = s"
      "(h_name h, ce_dedupe_key e, occ) \<in> set (map occurrence_key (st_occurrences s))"
  | (other) x where "(h_name h, ce_dedupe_key e, occ) \<notin> set (map occurrence_key (st_occurrences s))"
      "x \<in> {id, env3, env4 \<circ> env3}"
      "s' = x (snd (claim_occurrence (h_name h) (ce_dedupe_key e) occ ex s))"
      "r = Inr (SkippedStale occ) \<or> (\<exists>d. r = Inr (SkippedHeld occ d))"
  | (failed) x err where "x \<in> {id, env3, env4 \<circ> env3}" "r = Inl err"
      "s' = unclaim (h_name h) (ce_dedupe_key e) occ (x (snd (claim_occurrence (h_name h) (ce_dedupe_key e) occ ex s)))"
  | (published) v s4 js where "r = Inr (Published i occ)"
      "(h_name h, ce_dedupe_key e, occ) \<notin> set (map occurrence_key (st_occurrences s))"
      "s4 = env3 (snd (claim_occurrence (h_name h) (ce_dedupe_key e) occ ex s))"
      "insert_on_conflict (cron_job_row (h_name h) wall i e occ v) (st_jobs s4) = Inr (Some js)"
      "s' = notify [NEnqueue (h_name h)] (s4\<lparr> st_jobs := js \<rparr>)" "publish"
proof -
  let ?k = "(h_name h, ce_dedupe_key e, occ)"
  let ?s3 = "snd (claim_occurrence (h_name h) (ce_dedupe_key e) occ ex s)"
  note def = publish_occurrence_def Let_def split_beta
  show thesis
  proof (cases "?k \<in> set (map occurrence_key (st_occurrences s))")
    case True
    then show thesis using known assms by (simp add: def claim_occurrence_def)
  next
    case False
    then have c: "fst (claim_occurrence (h_name h) (ce_dedupe_key e) occ ex s)" by (simp add: claim_occurrence_def)
    consider (stale) "\<not> publish" | (held) d where "publish" "live_dedupe_holder h (ce_dedupe_key e) ?s3 = Some d"
      | (serde) "publish" "live_dedupe_holder h (ce_dedupe_key e) ?s3 = None"
          "backoff_to_json (cfg_backoff (rq_config (ce_template e))) = None"
      | (insert) v where "publish" "live_dedupe_holder h (ce_dedupe_key e) ?s3 = None"
          "backoff_to_json (cfg_backoff (rq_config (ce_template e))) = Some v"
      by fastforce
    then show thesis
    proof cases
      case stale
      then show thesis using other [OF False, of id] assms c by (simp add: def)
    next
      case held
      then show thesis using other [OF False, of id] assms c by (auto simp: def)
    next
      case serde
      then show thesis using failed [of id] assms c by (auto simp: def)
    next
      case (insert v)
      show thesis
      proof (cases "insert_on_conflict (cron_job_row (h_name h) wall i e occ v) (st_jobs (env3 ?s3))")
        case (Inl err)
        then show thesis using failed [of env3] assms c insert by (auto simp: def)
      next
        case (Inr x)
        show thesis
        proof (cases x)
          case None
          then show thesis
            using other [OF False, of "env4 \<circ> env3"] failed [of "env4 \<circ> env3"] assms c insert Inr
            by (cases "live_dedupe_holder h (ce_dedupe_key e) (env4 (env3 ?s3))") (auto simp: def)
        next
          case (Some js)
          then show thesis using published [OF _ False refl, of v js] assms c insert Inr by (auto simp: def)
        qed
      qed
    qed
  qed
qed

text \<open>The schedule row a scheduling transaction locks, as its cursor.\<close>

definition locked_cursor ::
    "(json \<Rightarrow> json \<Rightarrow> bool) \<Rightarrow> bool \<Rightarrow> timestamp \<Rightarrow> cron_entry \<Rightarrow> timestamp option \<Rightarrow> handle \<Rightarrow> store \<Rightarrow> timestamp option" where
  "locked_cursor jsonb_eq contended now e through h s1 =
     (case schedule_row (h_name h) (ce_dedupe_key e) s1 of
        Some c \<Rightarrow> if cs_revision c = int (opt_revision (ce_options e)) \<and> jsonb_eq (cs_definition c) (ce_definition e) \<and>
                     cs_next_run_at c \<le> (case through of Some t \<Rightarrow> t | None \<Rightarrow> now) \<and>
                     (through \<noteq> None \<or> \<not> contended)
                  then Some (cs_next_run_at c) else None
      | None \<Rightarrow> None)"

lemma locked_cursor_Some:
  assumes "locked_cursor jsonb_eq contended now e through h s1 = Some due"
  shows "\<exists>c. schedule_row (h_name h) (ce_dedupe_key e) s1 = Some c \<and> due = cs_next_run_at c"
    "due \<le> (case through of Some t \<Rightarrow> t | None \<Rightarrow> now)"
  using assms by (auto simp: locked_cursor_def split: option.splits if_splits)

lemma schedule_cron_cases:
  assumes "schedule_cron jsonb_eq env1 env2 env3 env4 contended now current wall i e through h s = (r, s')"
  obtains (idle) x where "x \<in> {id, env1, env2 \<circ> env1}" "s' = x s" "\<And>n occ. r \<noteq> Inr (Published n occ)"
  | (worked) due occ succ publish cursor' s2 where
      "locked_cursor jsonb_eq contended now e through h (env1 s) = Some due"
      "choose_occurrence e due (case through of Some t \<Rightarrow> t | None \<Rightarrow> current) current = Inr (occ, succ, publish, cursor')"
      "publish_occurrence env3 env4 wall i e occ publish (max succ (current + SECOND)) h (env2 (env1 s)) = (r, s2)"
      "s' = (if isl r then s2 else advance_cursor now (h_name h) (ce_dedupe_key e) cursor' s2)"
proof -
  let ?rev = "int (opt_revision (ce_options e))" and ?thr = "case through of Some t \<Rightarrow> t | None \<Rightarrow> now"
  note def = schedule_cron_def Let_def locked_cursor_def [symmetric]
  consider (early) "?rev > i64_max \<or> (\<forall>c. schedule_row (h_name h) (ce_dedupe_key e) s = Some c \<longrightarrow>
        cs_revision c > ?rev \<or> \<not> same_definition jsonb_eq e c \<or> cs_next_run_at c > ?thr)"
    | (locking) c where "\<not> ?rev > i64_max" "schedule_row (h_name h) (ce_dedupe_key e) s = Some c"
        "\<not> cs_revision c > ?rev" "same_definition jsonb_eq e c" "\<not> cs_next_run_at c > ?thr"
    by blast
  then show thesis
  proof cases
    case early
    then have "s' = s \<and> (\<forall>n occ. r \<noteq> Inr (Published n occ))"
      using assms unfolding def by (auto split: option.splits if_splits)
    then show thesis using idle [of id] by auto
  next
    case (locking c)
    show thesis
    proof (cases "locked_cursor jsonb_eq contended now e through h (env1 s)")
      case None
      then show thesis using assms locking idle [of env1] unfolding def by auto
    next
      case (Some due)
      let ?t = "case through of Some t \<Rightarrow> t | None \<Rightarrow> current"
      show thesis
      proof (cases "choose_occurrence e due ?t current")
        case (Inl err)
        then show thesis using assms locking Some idle [of "env2 \<circ> env1"] unfolding def by auto
      next
        case (Inr x)
        obtain occ succ publish cursor' where x: "x = (occ, succ, publish, cursor')" by (cases x)
        obtain r2 s2 where p: "publish_occurrence env3 env4 wall i e occ publish (max succ (current + SECOND)) h
            (env2 (env1 s)) = (r2, s2)" by fastforce
        have "r = r2 \<and> s' = (if isl r then s2 else advance_cursor now (h_name h) (ce_dedupe_key e) cursor' s2)"
          using assms locking Some Inr x p unfolding def by (auto split: sum.splits)
        then show thesis using worked [OF Some Inr [unfolded x]] p by blast
      qed
    qed
  qed
qed

lemma store_ok_publish:
  assumes "store_ok s" "entry_ok e" "handle_ok h" "\<And>x. store_ok x \<Longrightarrow> store_ok (env3 x)" "\<And>x. store_ok x \<Longrightarrow> store_ok (env4 x)"
    and "publish_occurrence env3 env4 wall i e occ publish ex h s = (r, s')"
  shows "store_ok s'"
proof -
  have c: "store_ok (snd (claim_occurrence (h_name h) (ce_dedupe_key e) occ ex s))" using crons_ok_claim [OF assms(1)] .
  have x: "store_ok (x (snd (claim_occurrence (h_name h) (ce_dedupe_key e) occ ex s)))" if "x \<in> {id, env3, env4 \<circ> env3}" for x
    using that c assms(4,5) by auto
  from assms(6) show ?thesis
  proof (cases rule: publish_occurrence_cases)
    case (published v s4 js)
    have s4: "store_ok s4" using published(3) assms(4) c by blast
    have "jobs_ok js"
      using jobs_ok_insert [OF store_ok_jobs [OF s4] cron_job_row_ok [OF assms(2,3)] published(4)] .
    then show ?thesis using published(5) s4 by (simp add: store_ok_set_jobs)
  qed (use assms(1) x store_ok_unclaim in auto)
qed

lemma store_ok_schedule_cron:
  assumes "store_ok s" "entry_ok e" "handle_ok h" "\<And>x f. f \<in> {env1, env2, env3, env4} \<Longrightarrow> store_ok x \<Longrightarrow> store_ok (f x)"
    and "schedule_cron jsonb_eq env1 env2 env3 env4 contended now current wall i e through h s = (r, s')"
  shows "store_ok s'"
  using assms(5)
proof (cases rule: schedule_cron_cases)
  case (worked due occ succ publish cursor' s2)
  have "store_ok s2"
    using store_ok_publish [OF _ assms(2,3) _ _ worked(3)] assms(1,4) by simp
  then show ?thesis using worked(4) store_ok_advance_cursor by auto
qed (use assms(1,4) in auto)

text \<open>What choosing under a lawful crontab means.\<close>

lemma next_occurrence_law:
  assumes "crontab_law fires (ce_cron e)" "TIMESTAMP_MIN \<le> now" "now \<le> TIMESTAMP_MAX" "next_occurrence e now = Inr t"
  shows "now < t" "fires t" "no_fire_between fires now t"
proof -
  obtain r where r: "round_cron_timestamp now = Inr r" "next_after (ce_cron e) r = Some t"
    using assms(4) by (auto simp: next_occurrence_def split: option.splits)
  note rr = round_cron_timestamp_Inr [OF r(1) assms(3)] and s = next_after_sound [OF assms(1) _ r(2)]
  show "now < t" using whole_step [OF law_whole [OF assms(1) s(2) [OF rr(1)]] rr(1) s(1) [OF rr(1)]] rr(3) by simp
  show "fires t" using s(2) [OF rr(1)] .
  show "no_fire_between fires now t" using s(3) [OF rr(1)] rr(2) by (auto simp: no_fire_between_def)
qed

lemma previous_occurrence_law:
  assumes law: "crontab_law fires (ce_cron e)" and now: "now div SECOND \<le> searchable" "previous_occurrence e now = Inr t"
  shows "latest_fire fires now t"
proof -
  have max: "now \<le> TIMESTAMP_MAX" using now(1) by (simp add: searchable_value TIMESTAMP_MAX_def SECOND_def)
  obtain r where r: "round_cron_timestamp now = Inr r" "previous_at_or_before (ce_cron e) r = Some t"
    using now(2) by (auto simp: previous_occurrence_def split: option.splits)
  note rr = round_cron_timestamp_Inr [OF r(1) max]
  have "as_second r = now div SECOND" using r(1) by (auto simp: round_cron_timestamp_def Let_def split: if_splits)
  then have l: "latest_fire fires r t" using previous_sound [OF law rr(1) _ r(2)] now(1) by simp
  have "now < x" if "fires x" "r < x" for x
    using whole_step [OF law_whole [OF law that(1)] rr(1) that(2)] rr(3) by simp
  then show ?thesis using l rr(2) unfolding latest_fire_def by (metis not_le order_trans)
qed

lemma skip_catch_up_picks:
  assumes "skip_catch_up e stored current = Inr (occ, succ, p)"
  shows "next_occurrence e occ = Inr succ \<and> (occ = stored \<or> previous_occurrence e current = Inr occ)"
proof (cases "next_occurrence e stored")
  case (Inl err)
  then show ?thesis using assms by (simp add: skip_catch_up_def)
next
  case nxt: (Inr y)
  show ?thesis
  proof (cases "previous_occurrence e current")
    case (Inl err)
    then show ?thesis using assms nxt by (simp add: skip_catch_up_def split: if_splits)
  next
    case prev: (Inr x)
    then show ?thesis
      using assms nxt by (cases "next_occurrence e x") (simp_all add: skip_catch_up_def split: if_splits)
  qed
qed

lemma publication_deadline_le: "publication_deadline e occ succ \<le> succ"
  by (simp add: publication_deadline_def Let_def)

lemma sample_cron_next: "next_occurrence sample_cron (60 * SECOND) = Inr (120 * SECOND)"
proof -
  have "next_after minutely (60 * SECOND) = Some (120 * SECOND)"
    unfolding next_after_def
    by (subst next_after_loop.simps)
      (simp add: minutely_def searchable_value MINUTE_def SECOND_def as_second_def signed_divide_int_def
        saturating_add_def cron_consts TIMESTAMP_MAX_def)
  then show ?thesis
    by (simp add: next_occurrence_def round_cron_timestamp_def Let_def sample_cron_def SECOND_def TIMESTAMP_MIN_def)
qed

section \<open>Properties\<close>




definition sample_schedule :: cron_schedule where
  "sample_schedule = fresh_schedule 0 sample_cron (60 * SECOND) ''default''"


text \<open>
  C16: registering a cron definition. The stored revision never goes down: a lower
  revision is told it is inactive and changes nothing, an equal one changes
  nothing either and is active exactly when it matches the stored definition, and
  a higher one replaces the definition, keeping the cursor when the expression is
  the same and starting at the next occurrence when it is not. A definition that
  is not stored yet is stored and active. Other schedules are untouched.
\<close>

theorem reconcile_cron_monotone:
  assumes ok: "store_ok s" and refl: "jsonb_eq (ce_definition e) (ce_definition e)"
    and rev: "int (opt_revision (ce_options e)) \<le> i64_max" and nxt: "next_occurrence e now = Inr t"
    and res: "reconcile_cron jsonb_eq snow e now h s = (r, s')"
  shows "store_ok s' \<and> st_jobs s' = st_jobs s \<and>
    (\<forall>c. schedule_key c \<noteq> (h_name h, ce_dedupe_key e) \<longrightarrow> (c \<in> set (st_schedules s') \<longleftrightarrow> c \<in> set (st_schedules s))) \<and>
    (case schedule_row (h_name h) (ce_dedupe_key e) s of
       None \<Rightarrow> r = Inr Active \<and> schedule_row (h_name h) (ce_dedupe_key e) s' = Some (fresh_schedule snow e t (h_name h))
     | Some c \<Rightarrow>
         (if int (opt_revision (ce_options e)) < cs_revision c then r = Inr (Inactive (cs_revision c)) \<and> s' = s
          else if int (opt_revision (ce_options e)) = cs_revision c
            then (r = Inr Active \<longleftrightarrow> same_definition jsonb_eq e c) \<and> s' = s
          else r = Inr Active \<and> (\<exists>c'. schedule_row (h_name h) (ce_dedupe_key e) s' = Some c' \<and>
             same_definition jsonb_eq e c' \<and>
             cs_next_run_at c' = (if cs_expression c = ce_expr e then cs_next_run_at c else t))))"
proof -
  let ?k = "(h_name h, ce_dedupe_key e)" and ?rev = "int (opt_revision (ce_options e))"
  let ?rows = "upsert_schedule snow e t (h_name h) (st_schedules s)"
  have d: "distinct (map schedule_key (st_schedules s))" using ok by (simp add: store_ok_def crons_ok_def)
  have def: "reconcile_cron jsonb_eq snow e now h s =
     (case lookup_row schedule_key ?k ?rows of
        None \<Rightarrow> (Inl (Db ''no rows returned by a query that expected to return at least one row''), s)
      | Some c \<Rightarrow> (if cs_revision c > ?rev then (Inr (Inactive (cs_revision c)), s\<lparr> st_schedules := ?rows \<rparr>)
                else if \<not> same_definition jsonb_eq e c
                  then (Inl (Config (''cron '' @ debug_str (ce_dedupe_key e) @ '' conflicts with the stored definition'')), s\<lparr> st_schedules := ?rows \<rparr>)
                else (Inr Active, s\<lparr> st_schedules := ?rows \<rparr>)))"
    using rev nxt by (simp add: reconcile_cron_def Let_def schedule_row_def)
  have ok': "store_ok s'" using store_ok_reconcile_cron [OF ok] res by (metis snd_conv)
  have same: "same_definition jsonb_eq e (fresh_schedule snow e t (h_name h))" "same_definition jsonb_eq e (replace_schedule snow e t c)" for c
    using refl by (simp_all add: same_definition_def replace_schedule_def fresh_schedule_def)
  have revs: "cs_revision (fresh_schedule snow e t (h_name h)) = ?rev" "cs_revision (replace_schedule snow e t c) = ?rev"
    "cs_next_run_at (replace_schedule snow e t c) = (if cs_expression c = ce_expr e then cs_next_run_at c else t)" for c
    by (simp_all add: replace_schedule_def fresh_schedule_def)
  note upsert_others [of _ "h_name h" e snow t "st_schedules s"]
  then show ?thesis
    using res def upsert_lookup [OF d, of "h_name h" e snow t] upsert_noop [OF d, of "h_name h" e _ snow t] same revs ok'
    by (cases "lookup_row schedule_key ?k (st_schedules s)") (auto simp: schedule_row_def split: if_splits)
qed

theorem reconcile_cron_monotone_witness:
  "fst (reconcile_cron (=) 0 sample_cron (60 * SECOND) sample_handle empty_store) = Inr Active"
proof -
  obtain r s' where r: "reconcile_cron (=) 0 sample_cron (60 * SECOND) sample_handle empty_store = (r, s')" by fastforce
  have "int (opt_revision (ce_options sample_cron)) \<le> i64_max" by (simp add: sample_cron_def)
  then show ?thesis
    using reconcile_cron_monotone [OF store_ok_empty refl _ sample_cron_next r] r
    by (simp add: schedule_row_def lookup_row_def) (simp add: empty_store_def)
qed

end
