(* ===== verification/Queue_System.thy ===== *)
theory Queue_System
  imports Cron_Schedule
begin

text \<open>
  The queue as a system: every process of a deployment works on one store, and a run
  is a sequence of the statements and transactions of the component theories in any
  order, by any handle, worker, attempt or sweeper, with any arguments. The step
  relation has one rule per statement, so its runs contain every interleaving of
  the operations built from them. The system remembers the job identifiers generated
  so far (a generated UUID is new) and the claims handed out to workers.

  The abstract specification is the life of a single job: which status may
  follow which and when the attempt counter moves. Every step of the system
  refines it.
\<close>

section \<open>The life of a job\<close>

definition lifecycle :: "job_status \<Rightarrow> job_status \<Rightarrow> bool" where
  "lifecycle a b \<longleftrightarrow> a = b \<or>
     (a = Queued \<and> b \<in> {Running, Aborted}) \<or>
     (a = Running \<and> b \<in> {Queued, Aborting, Complete, Failed, Aborted}) \<or>
     (a = Aborting \<and> b \<in> {Queued, Complete, Failed, Aborted})"

text \<open>
  The attempt counter moves exactly with a claim, what was asked for never changes
  (the queue, the handler's name, the payload, the dedupe key and the metadata), and what a
  finished job recorded stays: its result, its error and its completion time.
\<close>

record life =
  lf_request :: "string \<times> string \<times> json \<times> string option \<times> json"
  lf_status :: job_status
  lf_attempts :: int
  lf_outcome :: "json option \<times> string option \<times> timestamp option"

definition life_step :: "life \<Rightarrow> life \<Rightarrow> bool" where
  "life_step x y \<longleftrightarrow> lf_request y = lf_request x \<and> lifecycle (lf_status x) (lf_status y) \<and>
     lf_attempts y = (if lf_status x = Queued \<and> lf_status y = Running then lf_attempts x + 1 else lf_attempts x) \<and>
     (is_terminal (lf_status x) \<longrightarrow> lf_outcome y = lf_outcome x)"

definition life_of :: "job_row \<Rightarrow> life" where
  "life_of j = \<lparr> lf_request = (j_queue j, j_name j, j_payload j, j_dedupe_key j, j_meta j), lf_status = j_status j, lf_attempts = j_attempts j,
     lf_outcome = (j_result j, j_error j, j_completed_at j) \<rparr>"

type_synonym lives = "uuid \<rightharpoonup> life"

definition abs_jobs :: "store \<Rightarrow> lives" where
  "abs_jobs s = (\<lambda>i. map_option life_of (lookup_row j_id i (st_jobs s)))"

text \<open>
  The specification: identifiers ever used, the lives of the jobs on disk, and the
  claims (job and attempt number) handed out so far. In a step jobs live on, end, or
  appear, queued and under an identifier that was never used before; and a claim
  is handed out for each queued job that starts to run.
\<close>

record spec =
  sp_used :: "uuid set"
  sp_lives :: lives
  sp_claims :: "(uuid \<times> int) list"

definition spec_step :: "spec \<Rightarrow> spec \<Rightarrow> bool" where
  "spec_step x x' \<longleftrightarrow> sp_used x \<subseteq> sp_used x' \<and>
     (\<forall>i y. sp_lives x' i = Some y \<longrightarrow>
        (case sp_lives x i of Some z \<Rightarrow> life_step z y | None \<Rightarrow> i \<in> sp_used x' - sp_used x \<and> lf_status y = Queued)) \<and>
     (\<exists>cs. sp_claims x' = sp_claims x @ cs \<and> distinct cs \<and>
        (\<forall>i n. (i, n) \<in> set cs \<longrightarrow>
           (\<exists>y y'. sp_lives x i = Some y \<and> lf_status y = Queued \<and> lf_attempts y = n - 1 \<and>
                  sp_lives x' i = Some y' \<and> lf_status y' = Running \<and> lf_attempts y' = n)))"

section \<open>Tables that move by the specification\<close>

definition table_step :: "uuid set \<Rightarrow> job_row list \<Rightarrow> job_row list \<Rightarrow> bool" where
  "table_step new rows rows' \<longleftrightarrow>
     (\<forall>j'\<in>set rows'. (\<exists>j\<in>set rows. j_id j = j_id j' \<and> life_step (life_of j) (life_of j')) \<or>
        (j_id j' \<in> new \<and> j_status j' = Queued))"

lemma life_step_refl [simp]: "life_step x x"
  by (simp add: life_step_def lifecycle_def)

lemma table_step_subset: "set rows' \<subseteq> set rows \<Longrightarrow> table_step new rows rows'"
  unfolding table_step_def by (metis life_step_refl subsetD)

lemma table_step_refl [simp]: "table_step new rows rows"
  by (simp add: table_step_subset)

lemma table_step_shrink:
  "table_step new rows rows' \<Longrightarrow> set rows \<subseteq> set rows0 \<Longrightarrow> table_step new rows0 rows'"
  unfolding table_step_def by blast

lemma table_step_new:
  "table_step new rows rows' \<Longrightarrow> j_id j \<in> new \<Longrightarrow> j_status j = Queued \<Longrightarrow> table_step new rows (rows' @ [j])"
  by (auto simp: table_step_def)

lemma table_step_insert:
  "insert_on_conflict j rows' = Inr (Some rows'') \<Longrightarrow> table_step new rows rows' \<Longrightarrow> j_id j \<in> new \<Longrightarrow>
     j_status j = Queued \<Longrightarrow> table_step new rows rows''"
  by (simp add: insert_on_conflict_Some table_step_new)

lemma table_step_insert_all:
  assumes "insert_all js rows' = Inr (rows'', ids)" "table_step new rows rows'"
    "\<And>j. j \<in> set js \<Longrightarrow> j_id j \<in> new \<and> j_status j = Queued"
  shows "table_step new rows rows''"
  using assms
proof (induction js rows' arbitrary: rows'' ids rule: insert_all.induct)
  case (2 j js rows')
  from "2.prems"(1) obtain r where r: "insert_on_conflict j rows' = Inr r" by (auto split: sum.splits)
  show ?case
  proof (cases r)
    case None
    then show ?thesis using 2 r by simp
  next
    case (Some rows1)
    then have "table_step new rows rows1" using table_step_insert [of j rows' rows1 new rows] 2 r by simp
    then show ?thesis using "2.IH"(2) "2.prems" r Some by (auto split: sum.splits)
  qed
qed simp

lemma jobs_ok_insert_all:
  assumes "insert_all js rows = Inr (rows', ids)" "jobs_ok rows" "list_all row_ok js"
  shows "jobs_ok rows'"
  using assms
proof (induction js rows arbitrary: rows' ids rule: insert_all.induct)
  case (2 j js rows)
  from "2.prems"(1) obtain r where r: "insert_on_conflict j rows = Inr r" by (auto split: sum.splits)
  then show ?case using 2 jobs_ok_insert [of rows j] by (cases r) (auto split: sum.splits)
qed simp

text \<open>The contract of an UPDATE that moves rows by the specification.\<close>

locale lifecycle_update = row_update +
  assumes moves: "p j \<Longrightarrow> life_step (life_of j) (life_of (f j))"
begin

lemma table_step_update: "table_step new rows (update_rows p f rows)"
  unfolding table_step_def
proof
  fix j' assume "j' \<in> set (update_rows p f rows)"
  then consider (hit) j where "j \<in> set rows" "p j" "j' = f j" | (miss) "j' \<in> set rows" by (auto simp: mem_update_rows)
  then show "(\<exists>j\<in>set rows. j_id j = j_id j' \<and> life_step (life_of j) (life_of j')) \<or> (j_id j' \<in> new \<and> j_status j' = Queued)"
    by cases (use moves keeps_identity in auto)
qed

lemma table_step_finish:
  "table_step new rows (update_rows p f (delete_rows q rows))"
  using table_step_update by (rule table_step_shrink) (auto simp: delete_rows_def)

end

lemmas life_defs = life_step_def lifecycle_def life_of_def

interpretation claim_life: lifecycle_update "claim_guard h now opened cands" "claim_row now w"
  for h now opened cands w
  by unfold_locales (auto simp: claim_guard_def claimable_def claim_row_def life_defs)

interpretation requeue_life: lifecycle_update
  "\<lambda>j. err_fits err \<and> requeue_guard q g gs j" "requeue_row now d err (refund_attempt gs)"
  for q g gs now d err
  by unfold_locales (auto simp: requeue_guard_def requeue_row_def life_defs)

interpretation finish_life: lifecycle_update
  "\<lambda>j. (err_fits err \<and> is_terminal st) \<and> finish_guard q g st j \<and> finish_ttl st j \<noteq> Some 0"
  "finish_row now st res err"
  for q g st now res err
  by unfold_locales (cases st, auto simp: finish_guard_def finish_row_def life_defs)

interpretation abort_life: lifecycle_update
  "\<lambda>j. err_fits (Some reason) \<and> abort_guard q i j" "abort_row now reason"
  for reason q i now
  by unfold_locales (auto simp: abort_guard_def abort_row_def life_defs)

interpretation unsettled_life: lifecycle_update
  "\<lambda>j. err_fits (Some reason) \<and> unsettled_guard q g j \<and> j_failed_ttl_ms j \<noteq> Some 0" "unsettled_row now reason"
  for reason q g now
  by unfold_locales (auto simp: unsettled_guard_def unsettled_row_def life_defs)

interpretation mark_life: lifecycle_update "mark_guard s now grace_ms q reqs" "mark_row t"
  for s now grace_ms q reqs t
  by unfold_locales (auto simp: mark_guard_def mark_row_def life_defs)

interpretation swept_retry_life: lifecycle_update "swept_retry_guard s now grace_ms q reqs" "swept_retry_row jitter t reqs"
  for s now grace_ms q reqs jitter t
  by unfold_locales
    (auto simp: swept_retry_guard_def swept_retry_row_def requeue_row_def life_defs split: option.splits)

interpretation stuck_abort_life: lifecycle_update
  "\<lambda>j. stuck_abort_guard s now grace_ms q reqs j \<and> j_failed_ttl_ms j \<noteq> Some 0" "abort_set_row t"
  for s now grace_ms q reqs t
  by unfold_locales (auto simp: stuck_abort_guard_def abort_set_row_def life_defs)

interpretation retry_mark_life: lifecycle_update "retry_source_guard q i" "\<lambda>j. j\<lparr> j_retried_at := Some now \<rparr>"
  for q i now
  by unfold_locales (auto simp: life_defs)

interpretation awaited_mark_life: lifecycle_update
  "\<lambda>j. j_id j = i \<and> j_queue j = q \<and> \<not> j_awaited j" "\<lambda>j. j\<lparr> j_awaited := True \<rparr>"
  for i q
  by unfold_locales (auto simp: life_defs)

section \<open>The statements of a deployment\<close>

text \<open>
  \<open>statement s new claims s'\<close>: one committed statement or transaction of any process
  turns the store \<open>s\<close> into \<open>s'\<close>, generating the job identifiers \<open>new\<close> and handing
  out the claims \<open>claims\<close>. What the callers check before they send a statement (a
  validated request, a bounded error text, a registered cron entry) is a premise.
\<close>

inductive statement :: "store \<Rightarrow> uuid list \<Rightarrow> (uuid \<times> int) list \<Rightarrow> store \<Rightarrow> bool" where
  st_insert: "handle_ok h \<Longrightarrow> job_request_validate chunks now job = Inr () \<Longrightarrow>
    insert_job m i job delay awaited h s = (r, h', s') \<Longrightarrow> statement s [i] [] s'"
| st_insert_batch: "handle_ok h \<Longrightarrow> list_all (\<lambda>(i, job, delay). job_request_validate chunks now job = Inr ()) items \<Longrightarrow>
    insert_jobs m items h s = (r, h', s') \<Longrightarrow> statement s (map fst items) [] s'"
| st_await: "statement s [] [] (mark_awaited i h s)"
| st_dequeue: "dequeue_claim locked h now n w req s = (js, s') \<Longrightarrow>
    statement s [] (map (\<lambda>j. (j_id j, j_attempts j)) js) s'"
| st_finish: "err_fits err \<Longrightarrow> finish_with_guards now g st res err h s = (r, h', s') \<Longrightarrow> statement s [] [] s'"
| st_requeue: "err_fits err \<Longrightarrow> requeue_guarded_sql now g err delay_ms gs q s = (b, s') \<Longrightarrow> statement s [] [] s'"
| st_abort: "abort chunks now i reason h s = (r, h', s') \<Longrightarrow> statement s [] [] s'"
| st_manual_retry: "retry_job_occurrence chunks now clock new i reason h s = (r, h', s') \<Longrightarrow> statement s [new] [] s'"
| st_unsettled: "length reason \<le> 1048576 \<Longrightarrow> abort_unsettled_claim now q w c reason s = (b, s') \<Longrightarrow> statement s [] [] s'"
| st_heartbeat: "write_worker_info chunks now w stats metadata ttl intake h s = (r, s') \<Longrightarrow> statement s [] [] s'"
| st_stop_intake: "statement s [] [] (stop_worker_intake now w h s)"
| st_purge_queued: "purge_queued_jobs locked name limit h s = (r, s') \<Longrightarrow> statement s [] [] s'"
| st_purge_jobs: "statement s [] [] (snd (purge_expired_jobs locked now n h s))"
| st_purge_crons: "statement s [] [] (snd (purge_cron_occurrences lockedc now n h s))"
| st_purge_leases: "statement s [] [] (snd (purge_worker_leases locked now n grace_ms h s))"
| st_mark: "statement s [] [] (snd (mark_stuck now grace_ms q reqs s))"
| st_retry_swept: "statement s [] [] (snd (snd (retry_swept_abandoned_batch jitter now reqs h s)))"
| st_abort_stuck: "statement s [] [] (snd (snd (abort_stuck_abandoned_batch now reqs h s)))"
| st_cron: "entry_ok e \<Longrightarrow> handle_ok h \<Longrightarrow>
    schedule_cron jsonb_eq id id id id contended now current wall new e through h s = (r, s') \<Longrightarrow> statement s [new] [] s'"
| st_reconcile: "statement s [] [] (snd (reconcile_cron jsonb_eq snow e now h s))"
| st_remove_cron: "statement s [] [] (snd (remove_cron_schedule key h s))"

record sys =
  sy_store :: store
  sy_used :: "uuid set"
  sy_claims :: "(uuid \<times> int) list"

text \<open>A generated identifier is new; the claims accumulate.\<close>

inductive queue_step :: "sys \<Rightarrow> sys \<Rightarrow> bool" where
  queue_step: "statement (sy_store y) new cs s' \<Longrightarrow> set new \<inter> sy_used y = {} \<Longrightarrow>
    queue_step y \<lparr> sy_store = s', sy_used = sy_used y \<union> set new, sy_claims = sy_claims y @ cs \<rparr>"

definition sys_ok :: "sys \<Rightarrow> bool" where
  "sys_ok y \<longleftrightarrow> store_ok (sy_store y) \<and> j_id ` set (st_jobs (sy_store y)) \<subseteq> sy_used y"

definition abs_sys :: "sys \<Rightarrow> spec" where
  "abs_sys y = \<lparr> sp_used = sy_used y, sp_lives = abs_jobs (sy_store y), sp_claims = sy_claims y \<rparr>"

section \<open>Every statement keeps the schema and refines the specification\<close>

lemma store_ok_insert_jobs:
  assumes "store_ok s" "handle_ok h" "list_all (\<lambda>(i, job, delay). job_request_validate chunks now job = Inr ()) items"
    and "insert_jobs m items h s = (r, h', s')"
  shows "store_ok s'"
proof -
  have "list_all row_ok (map (\<lambda>((i, job, delay), v). new_job_row (h_name h) (m_server m) i job delay False v) (zip items bs))" for bs
    using assms(2,3) new_job_row_ok by (fastforce simp: list_all_iff handle_ok_def dest: set_zip_leftD)
  then show ?thesis using assms(1,4) jobs_ok_insert_all [OF _ store_ok_jobs [OF assms(1)]]
    by (auto simp: insert_jobs_def Let_def store_ok_set_jobs split: if_splits sum.splits prod.splits)
qed

lemma statement_store_ok:
  assumes "statement s new cs s'" "store_ok s"
  shows "store_ok s'"
  using assms
proof (induction rule: statement.induct)
  case st_insert then show ?case using insert_job_ok by blast
next
  case st_insert_batch then show ?case using store_ok_insert_jobs by blast
next
  case st_cron then show ?case using store_ok_schedule_cron [where ?env1.0 = id and ?env2.0 = id and ?env3.0 = id and ?env4.0 = id] by auto
qed (auto intro: store_ok_mark_awaited store_ok_dequeue_claim store_ok_finish_with_guards store_ok_requeue_guarded_sql
    store_ok_abort store_ok_retry_job_occurrence store_ok_abort_unsettled store_ok_write_worker_info
    store_ok_stop_worker_intake store_ok_purge_queued store_ok_purge_expired_jobs store_ok_purge_cron_occurrences
    store_ok_purge_worker_leases store_ok_mark_stuck store_ok_retry_swept_batch store_ok_abort_stuck_batch
    store_ok_reconcile_cron store_ok_remove_cron)

lemma table_step_insert_job:
  "insert_job m i job delay awaited h s = (r, h', s') \<Longrightarrow> table_step {i} (st_jobs s) (st_jobs s')"
  by (erule insert_job_cases) (simp_all add: table_step_new)

lemma table_step_insert_jobs:
  "insert_jobs m items h s = (r, h', s') \<Longrightarrow> table_step (fst ` set items) (st_jobs s) (st_jobs s')"
  by (auto simp: insert_jobs_def Let_def split: if_splits sum.splits prod.splits
      elim!: table_step_insert_all dest!: set_zip_leftD) force+

lemma table_step_manual_retry:
  "retry_job_occurrence chunks now clock new i reason h s = (r, h', s') \<Longrightarrow> table_step {new} (st_jobs s) (st_jobs s')"
  using retry_mark_life.table_step_update
  by (auto simp: retry_job_occurrence_def Let_def retried_row_def split: sum.splits option.splits elim!: table_step_insert)

lemma jobs_cron_bookkeeping [simp]:
  "st_jobs (snd (claim_occurrence q key occ ex s)) = st_jobs s" "st_jobs (unclaim q key occ s) = st_jobs s"
  "st_jobs (advance_cursor now q key t s) = st_jobs s"
  "st_jobs (snd (reconcile_cron jsonb_eq snow e now h s)) = st_jobs s"
  "st_jobs (snd (remove_cron_schedule key h s)) = st_jobs s"
  by (auto simp: claim_occurrence_def unclaim_def advance_cursor_def reconcile_cron_def remove_cron_schedule_def Let_def
      split: sum.splits option.splits)

lemma table_step_publish:
  assumes "publish_occurrence id id wall i e occ publish ex h s = (r, s')"
  shows "table_step {i} (st_jobs s) (st_jobs s')"
  using assms by (rule publish_occurrence_cases) (auto elim!: table_step_insert)

lemma table_step_cron:
  assumes "schedule_cron jsonb_eq id id id id contended now current wall i e through h s = (r, s')"
  shows "table_step {i} (st_jobs s) (st_jobs s')"
  using assms
proof (rule schedule_cron_cases)
  fix due occ succ publish cursor' s2
  assume "publish_occurrence id id wall i e occ publish (max succ (current + SECOND)) h (id (id s)) = (r, s2)"
    and "s' = (if isl r then s2 else advance_cursor now (h_name h) (ce_dedupe_key e) cursor' s2)"
  then show ?thesis using table_step_publish by auto
qed auto

lemma statement_table_step:
  assumes "statement s new cs s'"
  shows "table_step (set new) (st_jobs s) (st_jobs s')"
  using assms
proof (induction rule: statement.induct)
  case st_insert then show ?case using table_step_insert_job by simp
next
  case st_insert_batch then show ?case using table_step_insert_jobs by simp
next
  case st_await show ?case using awaited_mark_life.table_step_update by (simp add: mark_awaited_def)
next
  case st_dequeue then show ?case using claim_life.table_step_update by (auto simp: dequeue_claim_def Let_def)
next
  case (st_finish err now g st res h s r h' s')
  then show ?case using finish_life.table_step_finish [where err = err and st = st]
    by (auto simp: finish_with_guards_def finish_rows_def Let_def split: if_splits)
next
  case (st_requeue err now g delay_ms gs q s b s')
  then show ?case using requeue_life.table_step_update [where err = err]
    by (auto simp: requeue_guarded_sql_def Let_def)
next
  case (st_abort chunks now i reason h s r h' s')
  then show ?case using abort_life.table_step_update [where reason = "truncate_stored_error reason"]
    by (auto simp: abort_def Let_def split: sum.splits if_splits)
next
  case st_manual_retry then show ?case using table_step_manual_retry by simp
next
  case (st_unsettled reason now q w c s b s')
  then show ?case using unsettled_life.table_step_finish [where reason = reason]
    by (auto simp: abort_unsettled_claim_def finish_rows_def Let_def)
next
  case st_heartbeat then show ?case by (auto simp: write_worker_info_def split: sum.splits option.splits if_splits)
next
  case st_stop_intake show ?case by (simp add: stop_worker_intake_def)
next
  case st_purge_queued
  then show ?case by (auto simp: purge_queued_jobs_def Let_def delete_rows_def split: if_splits intro!: table_step_subset)
next
  case st_purge_jobs
  show ?case by (auto simp: purge_expired_jobs_def Let_def delete_rows_def intro!: table_step_subset)
next
  case st_mark show ?case using mark_life.table_step_update by (simp add: mark_stuck_def Let_def)
next
  case st_retry_swept
  show ?case using swept_retry_life.table_step_update by (simp add: retry_swept_abandoned_batch_def Let_def)
next
  case st_abort_stuck
  show ?case using stuck_abort_life.table_step_finish by (simp add: abort_stuck_abandoned_batch_def finish_rows_def Let_def)
next
  case st_cron then show ?case using table_step_cron by simp
qed simp_all

section \<open>Simulation\<close>

text \<open>
  The contract of a refinement: a concrete step from a good state is a step of the
  specification between the abstractions and ends in a good state. What every step of
  the specification keeps then holds of every concrete run.
\<close>

locale simulation =
  fixes cstep :: "'c \<Rightarrow> 'c \<Rightarrow> bool" and astep :: "'a \<Rightarrow> 'a \<Rightarrow> bool"
    and abstr :: "'c \<Rightarrow> 'a" and good :: "'c \<Rightarrow> bool"
  assumes keeps_good: "good c \<Longrightarrow> cstep c c' \<Longrightarrow> good c'"
    and simulates: "good c \<Longrightarrow> cstep c c' \<Longrightarrow> astep (abstr c) (abstr c')"
begin

lemma run_good: "cstep\<^sup>*\<^sup>* c c' \<Longrightarrow> good c \<Longrightarrow> good c'"
  by (induction rule: rtranclp_induct) (auto intro: keeps_good)

lemma run_simulates: "cstep\<^sup>*\<^sup>* c c' \<Longrightarrow> good c \<Longrightarrow> astep\<^sup>*\<^sup>* (abstr c) (abstr c')"
proof (induction rule: rtranclp_induct)
  case (step c1 c2)
  then have "astep (abstr c1) (abstr c2)" using simulates run_good by blast
  then show ?case using step by (simp add: rtranclp.rtrancl_into_rtrancl)
qed simp

end

text \<open>A simulation of a specification with an invariant, and an ordering its steps follow.\<close>

locale simulation_invariant = simulation +
  fixes inv :: "'b \<Rightarrow> bool" and follows :: "'b \<Rightarrow> 'b \<Rightarrow> bool"
  assumes keeps_inv: "inv a \<Longrightarrow> astep a a' \<Longrightarrow> inv a'"
    and follows_refl: "follows a a"
    and follows_step: "follows a a' \<Longrightarrow> astep a' a'' \<Longrightarrow> follows a a''"
begin

lemma abstract_run_inv: "astep\<^sup>*\<^sup>* a a' \<Longrightarrow> inv a \<Longrightarrow> inv a'"
  by (induction rule: rtranclp_induct) (auto intro: keeps_inv)

lemma abstract_run_follows: "astep\<^sup>*\<^sup>* a a' \<Longrightarrow> follows a a'"
  by (induction rule: rtranclp_induct) (auto intro: follows_refl follows_step)

lemma run_inv: "cstep\<^sup>*\<^sup>* c c' \<Longrightarrow> good c \<Longrightarrow> inv (abstr c) \<Longrightarrow> inv (abstr c')"
  using abstract_run_inv run_simulates by blast

lemma run_follows: "cstep\<^sup>*\<^sup>* c c' \<Longrightarrow> good c \<Longrightarrow> follows (abstr c) (abstr c')"
  using abstract_run_follows run_simulates by blast

end

text \<open>The invariant of the specification: no claim twice, none ahead of the attempt counter.\<close>

definition spec_inv :: "spec \<Rightarrow> bool" where
  "spec_inv x \<longleftrightarrow> dom (sp_lives x) \<subseteq> sp_used x \<and> distinct (sp_claims x) \<and>
     (\<forall>i n. (i, n) \<in> set (sp_claims x) \<longrightarrow> i \<in> sp_used x \<and> (\<forall>y. sp_lives x i = Some y \<longrightarrow> n \<le> lf_attempts y))"

text \<open>What a run does to a single job: its request stays, its counter never goes back, a finished job stays as it is, a removed one stays removed.\<close>

definition spec_follows :: "spec \<Rightarrow> spec \<Rightarrow> bool" where
  "spec_follows x x' \<longleftrightarrow> sp_used x \<subseteq> sp_used x' \<and>
     (\<forall>i\<in>sp_used x. \<forall>y'. sp_lives x' i = Some y' \<longrightarrow>
        (\<exists>y. sp_lives x i = Some y \<and> lf_request y' = lf_request y \<and> lf_attempts y \<le> lf_attempts y' \<and>
           (is_terminal (lf_status y) \<longrightarrow> y' = y)))"

lemma life_step_mono: "life_step y y' \<Longrightarrow> lf_request y' = lf_request y \<and> lf_attempts y \<le> lf_attempts y' \<and> (is_terminal (lf_status y) \<longrightarrow> y' = y)"
  by (cases "lf_status y") (auto simp: life_step_def lifecycle_def)

lemma spec_step_follows:
  assumes "spec_step x x'"
  shows "spec_follows x x'"
  unfolding spec_follows_def
proof (intro conjI ballI allI impI)
  show "sp_used x \<subseteq> sp_used x'" using assms by (simp add: spec_step_def)
  fix i y' assume i: "i \<in> sp_used x" and l': "sp_lives x' i = Some y'"
  then have "case sp_lives x i of Some z \<Rightarrow> life_step z y' | None \<Rightarrow> i \<in> sp_used x' - sp_used x \<and> lf_status y' = Queued"
    using assms unfolding spec_step_def by blast
  then obtain z where "sp_lives x i = Some z" "life_step z y'" using i by (auto split: option.splits)
  then show "\<exists>y. sp_lives x i = Some y \<and> lf_request y' = lf_request y \<and> lf_attempts y \<le> lf_attempts y' \<and>
      (is_terminal (lf_status y) \<longrightarrow> y' = y)"
    using life_step_mono by blast
qed

lemma spec_follows_refl: "spec_follows x x"
  by (auto simp: spec_follows_def)

lemma spec_follows_trans:
  assumes "spec_follows x x'" "spec_follows x' x''"
  shows "spec_follows x x''"
  unfolding spec_follows_def
proof (intro conjI ballI allI impI)
  show "sp_used x \<subseteq> sp_used x''" using assms unfolding spec_follows_def by blast
  fix i y'' assume i: "i \<in> sp_used x" and l: "sp_lives x'' i = Some y''"
  have "i \<in> sp_used x'" using i assms(1) unfolding spec_follows_def by blast
  then obtain y' where y': "sp_lives x' i = Some y'" "lf_request y'' = lf_request y'" "lf_attempts y' \<le> lf_attempts y''" "is_terminal (lf_status y') \<longrightarrow> y'' = y'"
    using l assms(2) unfolding spec_follows_def by blast
  then obtain y where "sp_lives x i = Some y" "lf_request y' = lf_request y" "lf_attempts y \<le> lf_attempts y'"
      "is_terminal (lf_status y) \<longrightarrow> y' = y"
    using i assms(1) unfolding spec_follows_def by blast
  then show "\<exists>y. sp_lives x i = Some y \<and> lf_request y'' = lf_request y \<and> lf_attempts y \<le> lf_attempts y'' \<and> (is_terminal (lf_status y) \<longrightarrow> y'' = y)"
    using y' by auto
qed

lemma spec_step_inv:
  assumes inv: "spec_inv x" and step: "spec_step x x'"
  shows "spec_inv x'"
proof -
  obtain cs where cs: "sp_claims x' = sp_claims x @ cs" "distinct cs"
      "\<And>i n. (i, n) \<in> set cs \<Longrightarrow> \<exists>y y'. sp_lives x i = Some y \<and> lf_attempts y = n - 1 \<and> sp_lives x' i = Some y' \<and> lf_attempts y' = n"
    using step unfolding spec_step_def by blast
  have used: "sp_used x \<subseteq> sp_used x'" using step by (simp add: spec_step_def)
  have dom: "dom (sp_lives x') \<subseteq> sp_used x'"
  proof
    fix i assume "i \<in> dom (sp_lives x')"
    then obtain y where "sp_lives x' i = Some y" by blast
    then have "case sp_lives x i of Some z \<Rightarrow> life_step z y | None \<Rightarrow> i \<in> sp_used x' - sp_used x \<and> lf_status y = Queued"
      using step unfolding spec_step_def by blast
    then show "i \<in> sp_used x'" using inv used by (cases "sp_lives x i") (auto simp: spec_inv_def)
  qed
  have old: "n \<le> lf_attempts y'" if c: "(i, n) \<in> set (sp_claims x)" and l: "sp_lives x' i = Some y'" for i n y'
  proof -
    have "i \<in> sp_used x" using inv c by (auto simp: spec_inv_def)
    then obtain y where "sp_lives x i = Some y" "lf_attempts y \<le> lf_attempts y'"
      using spec_step_follows [OF step] l unfolding spec_follows_def by blast
    then show ?thesis using inv c by (fastforce simp: spec_inv_def)
  qed
  have "set (sp_claims x) \<inter> set cs = {}"
    using inv cs(3) by (fastforce simp: spec_inv_def)
  moreover have "i \<in> sp_used x'" if "(i, n) \<in> set (sp_claims x @ cs)" for i n
    using that inv cs(3) [of i n] used dom by (auto simp: spec_inv_def)
  ultimately show ?thesis using inv cs dom old by (fastforce simp: spec_inv_def)
qed

section \<open>The system refines the specification\<close>

lemma dequeue_claims_start:
  assumes "jobs_ok (st_jobs s)" "dequeue_claim locked h now n w req s = (js, s')" "j \<in> set js"
  shows "\<exists>j0\<in>set (st_jobs s). j_id j0 = j_id j \<and> j_status j0 = Queued \<and> j_attempts j0 = j_attempts j - 1 \<and>
    j \<in> set (st_jobs s') \<and> j_status j = Running"
proof -
  let ?p = "claim_guard h now (\<not> req \<or> intake_open h now w s) (dequeue_candidates locked h now n s)"
  have p: "\<And>j. ?p j \<Longrightarrow> j_status j = Queued" "js = map (claim_row now w) (filter ?p (st_jobs s))"
      "st_jobs s' = update_rows ?p (claim_row now w) (st_jobs s)"
    using assms(2) by (auto simp: dequeue_claim_def Let_def claim_guard_def claimable_def)
  then obtain j0 where "j0 \<in> set (st_jobs s)" "?p j0" "j = claim_row now w j0" using assms(3) by auto
  then show ?thesis using p(1,3) by (auto simp: claim_row_def mem_update_rows intro!: bexI [of _ j0])
qed

lemma abs_jobs_eq: "jobs_ok (st_jobs s) \<Longrightarrow> j \<in> set (st_jobs s) \<Longrightarrow> abs_jobs s (j_id j) = Some (life_of j)"
  by (simp add: abs_jobs_def jobs_ok_lookup)

lemma abs_jobs_Some: "abs_jobs s i = Some y \<Longrightarrow> \<exists>j\<in>set (st_jobs s). j_id j = i \<and> y = life_of j"
  by (auto simp: abs_jobs_def dest: lookup_row_Some)

lemma statement_claims:
  assumes "statement s new cs s'" "store_ok s"
  shows "distinct cs \<and> (\<forall>i n. (i, n) \<in> set cs \<longrightarrow>
    (\<exists>y y'. abs_jobs s i = Some y \<and> lf_status y = Queued \<and> lf_attempts y = n - 1 \<and>
       abs_jobs s' i = Some y' \<and> lf_status y' = Running \<and> lf_attempts y' = n))"
  using assms
proof (cases rule: statement.cases)
  case (st_dequeue locked h now n w req js)
  note ok = store_ok_jobs [OF assms(2)] store_ok_jobs [OF statement_store_ok [OF assms]]
  have "distinct (map j_id js)" using dequeue_claimed_distinct [OF ok(1) st_dequeue(3)] by blast
  then have "distinct cs" using st_dequeue(2) by (auto simp: distinct_map inj_on_def)
  moreover have "\<exists>y y'. abs_jobs s (j_id j) = Some y \<and> lf_status y = Queued \<and> lf_attempts y = j_attempts j - 1 \<and>
       abs_jobs s' (j_id j) = Some y' \<and> lf_status y' = Running \<and> lf_attempts y' = j_attempts j"
    if j: "j \<in> set js" for j
  proof -
    obtain j0 where "j0 \<in> set (st_jobs s)" "j_id j0 = j_id j" "j_status j0 = Queued" "j_attempts j0 = j_attempts j - 1"
        "j \<in> set (st_jobs s')" "j_status j = Running"
      using dequeue_claims_start [OF ok(1) st_dequeue(3) j] by blast
    then show ?thesis using abs_jobs_eq [OF ok(1), of j0] abs_jobs_eq [OF ok(2), of j] by (simp add: life_of_def)
  qed
  ultimately show ?thesis using st_dequeue(2) by auto
qed auto

lemma queue_step_refines:
  assumes "sys_ok y" "queue_step y y'"
  shows "sys_ok y'" and "spec_step (abs_sys y) (abs_sys y')"
proof -
  from assms(2) obtain new cs s' where st: "statement (sy_store y) new cs s'" and fresh: "set new \<inter> sy_used y = {}"
    and y': "y' = \<lparr> sy_store = s', sy_used = sy_used y \<union> set new, sy_claims = sy_claims y @ cs \<rparr>"
    by cases auto
  note ok = assms(1) [unfolded sys_ok_def]
  have ok': "store_ok s'" using statement_store_ok [OF st] ok by blast
  have t: "table_step (set new) (st_jobs (sy_store y)) (st_jobs s')" using statement_table_step [OF st] .
  show "sys_ok y'" using ok ok' t unfolding sys_ok_def y' table_step_def by fastforce
  have "case abs_jobs (sy_store y) i of Some z \<Rightarrow> life_step z x
      | None \<Rightarrow> i \<in> sy_used y \<union> set new - sy_used y \<and> lf_status x = Queued" if x: "abs_jobs s' i = Some x" for i x
  proof -
    obtain j' where j': "j' \<in> set (st_jobs s')" "j_id j' = i" "x = life_of j'" using abs_jobs_Some [OF x] by blast
    consider (old) j where "j \<in> set (st_jobs (sy_store y))" "j_id j = i" "life_step (life_of j) x"
      | (new) "i \<in> set new" "j_status j' = Queued"
      using t j' unfolding table_step_def by blast
    then show ?thesis
    proof cases
      case old
      then show ?thesis using abs_jobs_eq [OF store_ok_jobs, of "sy_store y" j] ok by simp
    next
      case new
      then have "i \<notin> sy_used y" using fresh by blast
      moreover have "abs_jobs (sy_store y) i = None"
        using abs_jobs_Some [of "sy_store y" i] ok calculation by (cases "abs_jobs (sy_store y) i") auto
      ultimately show ?thesis using new j' by (simp add: life_of_def)
    qed
  qed
  then show "spec_step (abs_sys y) (abs_sys y')"
    using statement_claims [OF st] ok unfolding spec_step_def y' abs_sys_def
    by (simp cong: option.case_cong)
qed

interpretation queue: simulation queue_step spec_step abs_sys sys_ok
  by unfold_locales (auto intro: queue_step_refines)

interpretation queue_spec: simulation_invariant queue_step spec_step abs_sys sys_ok spec_inv spec_follows
  by unfold_locales (auto intro: spec_step_inv spec_follows_refl spec_follows_trans spec_step_follows)

section \<open>Operations as runs\<close>

lemma queue_step_plain:
  assumes "statement (sy_store y) [] [] s'"
  shows "queue_step y (y\<lparr> sy_store := s' \<rparr>)"
proof -
  have eq: "\<lparr> sy_store = s', sy_used = sy_used y \<union> set [], sy_claims = sy_claims y @ [] \<rparr> = y\<lparr> sy_store := s' \<rparr>"
    by (cases y) simp
  show ?thesis using queue_step [OF assms] unfolding eq by simp
qed

lemma run_plain:
  "queue_step\<^sup>*\<^sup>* y (y\<lparr> sy_store := s1 \<rparr>) \<Longrightarrow> statement s1 [] [] s2 \<Longrightarrow> queue_step\<^sup>*\<^sup>* y (y\<lparr> sy_store := s2 \<rparr>)"
  using queue_step_plain [of "y\<lparr> sy_store := s1 \<rparr>" s2] by (simp add: rtranclp.rtrancl_into_rtrancl)

lemma run_refl: "queue_step\<^sup>*\<^sup>* y (y\<lparr> sy_store := sy_store y \<rparr>)"
  by simp

lemma sweep_work_run:
  "queue_step\<^sup>*\<^sup>* y (y\<lparr> sy_store := snd (snd (sweep_work lj lc lw id id id jitter clk ops h (sy_store y))) \<rparr>)"
proof (rule sweep_work_invariant [where I = "\<lambda>s. queue_step\<^sup>*\<^sup>* y (y\<lparr> sy_store := s \<rparr>)"], rule run_refl)
  show "queue_step\<^sup>*\<^sup>* y (y\<lparr> sy_store := snd (snd (snd (recover_stuck_jobs id id id jitter clk n g r h s))) \<rparr>)"
    if "queue_step\<^sup>*\<^sup>* y (y\<lparr> sy_store := s \<rparr>)" for s r n g
    using that by (rule recover_stuck_jobs_invariant [where I = "\<lambda>s. queue_step\<^sup>*\<^sup>* y (y\<lparr> sy_store := s \<rparr>)"])
      (auto intro: run_plain st_mark st_retry_swept st_abort_stuck)
qed (auto intro: run_plain st_purge_jobs st_purge_crons st_purge_leases)

lemma finish_run: "finish chunks now jb st res err h (sy_store y) = (r, h', s') \<Longrightarrow> queue_step\<^sup>*\<^sup>* y (y\<lparr> sy_store := s' \<rparr>)"
  using run_plain [OF run_refl, of y s'] st_finish [of "map_option truncate_stored_error err"]
  by (auto simp: finish_def split: sum.splits)

lemma requeue_run:
  assumes "requeue_guarded now g err delay gs h (sy_store y) = (b, s')" "err_fits err"
  shows "queue_step\<^sup>*\<^sup>* y (y\<lparr> sy_store := s' \<rparr>)"
  using run_plain [OF run_refl st_requeue [OF assms(2)]] assms(1) by (simp add: requeue_guarded_def)

lemma settle_runs:
  "retry chunks jitter now jb e h (sy_store y) = (r, h', s') \<Longrightarrow> queue_step\<^sup>*\<^sup>* y (y\<lparr> sy_store := s' \<rparr>)"
  "retry_swept chunks jitter now jb err h (sy_store y) = (r, h', s') \<Longrightarrow> queue_step\<^sup>*\<^sup>* y (y\<lparr> sy_store := s' \<rparr>)"
  "requeue_shutdown chunks now jb e h (sy_store y) = (r, h', s') \<Longrightarrow> queue_step\<^sup>*\<^sup>* y (y\<lparr> sy_store := s' \<rparr>)"
  by (auto simp: retry_def retry_swept_def requeue_shutdown_def Let_def
      split: sum.splits if_splits prod.splits elim!: requeue_run)

lemma dequeue_run:
  assumes "dequeue_worker locked env probe_fails h now limit w (sy_store y) = (r, s')"
  shows "\<exists>cs. queue_step\<^sup>*\<^sup>* y (y\<lparr> sy_store := s', sy_claims := sy_claims y @ cs \<rparr>) \<and>
    (\<forall>b. r = Inr b \<longrightarrow> set cs = (\<lambda>j. (j_id j, j_attempts j)) ` set (db_jobs b))"
proof (cases "limit \<le> 0")
  case True
  then show ?thesis using assms by (intro exI [of _ "[]"]) (auto simp: dequeue_worker_def dequeue_inner_def)
next
  case False
  obtain js s1 where c: "dequeue_claim locked h now (nat limit) w True (sy_store y) = (js, s1)" by fastforce
  let ?cs = "map (\<lambda>j. (j_id j, j_attempts j)) js"
  have r: "s' = s1 \<and> (\<forall>b. r = Inr b \<longrightarrow> set (db_jobs b) = set js)"
    using assms c False by (auto simp: dequeue_worker_def dequeue_inner_def Let_def split: sum.splits if_splits)
  have "queue_step y \<lparr> sy_store = s1, sy_used = sy_used y \<union> set [], sy_claims = sy_claims y @ ?cs \<rparr>"
    by (rule queue_step, rule st_dequeue [OF c]) simp
  also have "\<lparr> sy_store = s1, sy_used = sy_used y \<union> set [], sy_claims = sy_claims y @ ?cs \<rparr>
      = y\<lparr> sy_store := s', sy_claims := sy_claims y @ ?cs \<rparr>" using r by (cases y) simp
  finally show ?thesis using r by (intro exI [of _ ?cs]) (auto intro: r_into_rtranclp)
qed

section \<open>Properties\<close>

definition sample_sys :: "job_row \<Rightarrow> sys" where
  "sample_sys j = \<lparr> sy_store = sample_store j, sy_used = {j_id j}, sy_claims = [] \<rparr>"

definition claimed_sys :: "job_row \<Rightarrow> sys" where
  "claimed_sys j = \<lparr> sy_store = snd (dequeue_claim (\<lambda>_. False) sample_handle 2000 1 3 True (sample_store j)),
     sy_used = {j_id j},
     sy_claims = map (\<lambda>j. (j_id j, j_attempts j)) (fst (dequeue_claim (\<lambda>_. False) sample_handle 2000 1 3 True (sample_store j))) \<rparr>"

lemma sample_sys_ok: "row_ok j \<Longrightarrow> sys_ok (sample_sys j)"
  by (simp add: sys_ok_def sample_sys_def sample_store_ok) (simp add: sample_store_def)

lemma sample_sys_step: "queue_step (sample_sys j) (claimed_sys j)"
proof -
  have "statement (sample_store j) [] (sy_claims (claimed_sys j)) (sy_store (claimed_sys j))"
    unfolding claimed_sys_def sys.simps by (rule st_dequeue [of "\<lambda>_. False" sample_handle 2000 1 3 True]) simp
  then show ?thesis using queue_step [of "sample_sys j" "[]" "sy_claims (claimed_sys j)" "sy_store (claimed_sys j)"]
    by (simp add: sample_sys_def claimed_sys_def)
qed

lemma sample_sys_claims: "sy_claims (claimed_sys sample_row) = [(7, 1)]"
  by (simp add: claimed_sys_def dequeue_claim_def dequeue_candidates_def claim_guard_def claimable_def intake_open_def
      select_rows_def claim_row_def sample_defs Let_def)

text \<open>
  C1: the whole system refines the life of a job. From a well-formed state, after any
  interleaving of the statements of any number of processes, the store satisfies
  the schema (one row per identifier, one live row per dedupe key, every CHECK
  constraint), every identifier on disk was generated, and the run is, job by
  job, a run of the specification.
\<close>

theorem queue_refines_lifecycle:
  assumes "sys_ok y" "queue_step\<^sup>*\<^sup>* y y'"
  shows "sys_ok y' \<and> spec_step\<^sup>*\<^sup>* (abs_sys y) (abs_sys y')"
  using queue.run_good queue.run_simulates assms by blast

theorem queue_refines_lifecycle_witness:
  "sys_ok (sample_sys sample_row) \<and> queue_step\<^sup>*\<^sup>* (sample_sys sample_row) (claimed_sys sample_row) \<and>
   sys_ok (claimed_sys sample_row) \<and> spec_step\<^sup>*\<^sup>* (abs_sys (sample_sys sample_row)) (abs_sys (claimed_sys sample_row))"
proof -
  have "queue_step\<^sup>*\<^sup>* (sample_sys sample_row) (claimed_sys sample_row)" using sample_sys_step by blast
  then show ?thesis using queue_refines_lifecycle [of "sample_sys sample_row" "claimed_sys sample_row"]
    sample_sys_ok [OF sample_row_ok(1)] by blast
qed

text \<open>
  C2: every attempt is handed out at most once. However dequeues, finishes, retries,
  requeues, refunds, sweeps and manual retries of any number of workers interleave,
  no two dequeues return the same attempt of the same job, and no claim handed out
  is ahead of the attempt counter on disk.
\<close>

theorem claims_handed_out_once:
  assumes "sys_ok y" "sy_claims y = []" "queue_step\<^sup>*\<^sup>* y y'"
  shows "distinct (sy_claims y') \<and>
    (\<forall>j\<in>set (st_jobs (sy_store y')). \<forall>n. (j_id j, n) \<in> set (sy_claims y') \<longrightarrow> n \<le> j_attempts j)"
proof -
  have "spec_inv (abs_sys y)"
    using assms(1,2) by (auto simp: spec_inv_def abs_sys_def sys_ok_def dest!: abs_jobs_Some)
  then have inv: "spec_inv (abs_sys y')" using queue_spec.run_inv assms(1,3) by blast
  have "sys_ok y'" using queue.run_good assms(1,3) by blast
  then have "abs_jobs (sy_store y') (j_id j) = Some (life_of j)" if "j \<in> set (st_jobs (sy_store y'))" for j
    using that abs_jobs_eq store_ok_jobs by (auto simp: sys_ok_def)
  then show ?thesis using inv by (fastforce simp: spec_inv_def abs_sys_def life_of_def)
qed

theorem claims_handed_out_once_witness:
  "sys_ok (sample_sys sample_row) \<and> sy_claims (sample_sys sample_row) = [] \<and>
   queue_step\<^sup>*\<^sup>* (sample_sys sample_row) (claimed_sys sample_row) \<and>
   sy_claims (claimed_sys sample_row) = [(7, 1)] \<and> distinct (sy_claims (claimed_sys sample_row))"
proof -
  have "queue_step\<^sup>*\<^sup>* (sample_sys sample_row) (claimed_sys sample_row)" using sample_sys_step by blast
  moreover have "sy_claims (sample_sys sample_row) = []" by (simp add: sample_sys_def)
  ultimately show ?thesis using claims_handed_out_once [of "sample_sys sample_row" "claimed_sys sample_row"]
    sample_sys_ok [OF sample_row_ok(1)] sample_sys_claims by blast
qed

text \<open>
  C3: finished is finished. In every run a job keeps its queue, name, payload,
  dedupe key and metadata, a finished job keeps its status, attempts,
  result, error and completion time for as long as its row exists, the attempt counter of a job
  never goes back, and an identifier whose row was removed never comes back.
\<close>

theorem finished_jobs_are_immutable:
  assumes "sys_ok y" "queue_step\<^sup>*\<^sup>* y y'" "i \<in> sy_used y" "j' \<in> set (st_jobs (sy_store y'))" "j_id j' = i"
  shows "\<exists>j\<in>set (st_jobs (sy_store y)). j_id j = i \<and> j_queue j' = j_queue j \<and> j_name j' = j_name j \<and>
    j_payload j' = j_payload j \<and> j_dedupe_key j' = j_dedupe_key j \<and> j_meta j' = j_meta j \<and>
    j_attempts j \<le> j_attempts j' \<and>
    (is_terminal (j_status j) \<longrightarrow> j_status j' = j_status j \<and> j_attempts j' = j_attempts j \<and>
       j_result j' = j_result j \<and> j_error j' = j_error j \<and> j_completed_at j' = j_completed_at j)"
proof -
  have "sys_ok y'" using queue.run_good assms(1,2) by blast
  then have l': "abs_jobs (sy_store y') i = Some (life_of j')"
    using abs_jobs_eq store_ok_jobs assms(4,5) by (auto simp: sys_ok_def)
  have "spec_follows (abs_sys y) (abs_sys y')" using queue_spec.run_follows assms(1,2) by blast
  then obtain x where x: "abs_jobs (sy_store y) i = Some x" "lf_request (life_of j') = lf_request x" "lf_attempts x \<le> lf_attempts (life_of j')"
      "is_terminal (lf_status x) \<longrightarrow> life_of j' = x"
    using assms(3) l' unfolding spec_follows_def abs_sys_def spec.simps by blast
  then obtain j where "j \<in> set (st_jobs (sy_store y))" "j_id j = i" "x = life_of j" using abs_jobs_Some by blast
  then show ?thesis using x by (intro bexI [of _ j]) (auto simp: life_of_def)
qed

theorem finished_jobs_are_immutable_witness:
  "\<exists>j'. j' \<in> set (st_jobs (sy_store (claimed_sys sample_row))) \<and> j_id j' = 7 \<and>
    (\<exists>j\<in>set (st_jobs (sy_store (sample_sys sample_row))). j_id j = 7 \<and> j_queue j' = j_queue j \<and> j_name j' = j_name j \<and>
    j_payload j' = j_payload j \<and> j_dedupe_key j' = j_dedupe_key j \<and> j_meta j' = j_meta j \<and> j_attempts j \<le> j_attempts j' \<and>
    (is_terminal (j_status j) \<longrightarrow> j_status j' = j_status j \<and> j_attempts j' = j_attempts j \<and>
       j_result j' = j_result j \<and> j_error j' = j_error j \<and> j_completed_at j' = j_completed_at j))"
proof -
  have r: "queue_step\<^sup>*\<^sup>* (sample_sys sample_row) (claimed_sys sample_row)" using sample_sys_step by blast
  have i: "7 \<in> sy_used (sample_sys sample_row)" by (simp add: sample_sys_def sample_defs)
  have "\<exists>j'. j' \<in> set (st_jobs (sy_store (claimed_sys sample_row))) \<and> j_id j' = 7"
    by (simp add: claimed_sys_def dequeue_claim_def claim_row_def sample_defs Let_def update_rows_def)
  then obtain j' where "j' \<in> set (st_jobs (sy_store (claimed_sys sample_row)))" "j_id j' = 7" by blast
  then show ?thesis
    using finished_jobs_are_immutable [OF sample_sys_ok [OF sample_row_ok(1)] r i, of j'] by blast
qed


end
