(* ===== verification/Worker_Attempt.thy ===== *)
theory Worker_Attempt
  imports Queue_System
begin

text \<open>
  One attempt inside a worker (\<^verbatim>\<open>worker.rs\<close>): how an abort request reaches it, how
  the end of its handler is classified, and how the outcome is written to the store
  (\<^verbatim>\<open>try_finalize\<close> and its retry loop). A tokio select is the event that won it; what
  other processes do between two statements are the functions \<open>env1\<close>, \<open>env2\<close>;
  \<open>clk\<close> gives the transaction time of each statement.
\<close>

section \<open>Abort requests\<close>

datatype worker_abort_reason = User string | Swept | Missing | RowSuperseded

text \<open>
  The registry entry of an attempt: its two cancellation tokens and the reason, which
  is recorded once.
\<close>

record worker_inflight_job =
  if_cooperative :: bool
  if_force :: bool
  if_abort_reason :: "worker_abort_reason option"

definition abort_immediate :: "worker_abort_reason \<Rightarrow> bool" where
  "abort_immediate reason \<longleftrightarrow> (case reason of User _ \<Rightarrow> False | _ \<Rightarrow> True)"

text \<open>The second component: a task that force-stops the handler after the grace is spawned.\<close>

definition request_abort :: "worker_abort_reason \<Rightarrow> duration \<Rightarrow> worker_inflight_job \<Rightarrow> worker_inflight_job \<times> bool" where
  "request_abort reason grace e =
     (let immediate = abort_immediate reason;
          e1 = (case if_abort_reason e of None \<Rightarrow> e\<lparr> if_abort_reason := Some reason \<rparr> | Some _ \<Rightarrow> e)
      in if if_abort_reason e \<noteq> None \<and> \<not> immediate then (e, False)
         else let e2 = e1\<lparr> if_cooperative := True \<rparr>
              in if immediate \<or> grace = 0 then (e2\<lparr> if_force := True \<rparr>, False) else (e2, True))"

type_synonym inflight = "(uuid \<times> int) \<rightharpoonup> worker_inflight_job"

definition request_in :: "(uuid \<times> int) \<Rightarrow> worker_abort_reason \<Rightarrow> duration \<Rightarrow> inflight \<Rightarrow> inflight" where
  "request_in key reason grace m =
     (case m key of Some e \<Rightarrow> m(key \<mapsto> fst (request_abort reason grace e)) | None \<Rightarrow> m)"

text \<open>What the abort loop does with one answer of the poll.\<close>

definition abort_reason_of :: "aborting_attempt \<Rightarrow> worker_abort_reason" where
  "abort_reason_of a =
     (if aa_swept a then Swept else User (case aa_reason a of Some r \<Rightarrow> r | None \<Rightarrow> ''aborted''))"

definition apply_poll :: "duration \<Rightarrow> abort_poll \<Rightarrow> inflight \<Rightarrow> inflight" where
  "apply_poll grace poll m =
     fold (\<lambda>c. request_in (ac_id c, ac_attempts c) RowSuperseded grace) (ap_superseded poll)
       (fold (\<lambda>c. request_in (ac_id c, ac_attempts c) Missing grace) (ap_missing poll)
         (fold (\<lambda>a. request_in (aa_id a, aa_attempts a) (abort_reason_of a) grace) (ap_aborting poll) m))"

section \<open>Running the handler\<close>

datatype worker_attempt_result = Success json | Errored job_error | Cancelled | Unhandled

datatype panic_payload = StrPayload string | OpaquePayload

text \<open>How a handler task ends: a value, an error of its own, a panic, or its cancellation.\<close>

datatype join_result = Returned json | HandlerError job_error | Panicked panic_payload | JoinCancelled

fun panic_message :: "panic_payload \<Rightarrow> string" where
  "panic_message (StrPayload m) = m"
| "panic_message OpaquePayload = ''handler panicked''"

definition handler_errored :: "job_error \<Rightarrow> worker_attempt_result" where
  "handler_errored e = Errored (job_error_new (je_kind e) (je_message e))"

definition classify_attempt_join ::
    "(json \<Rightarrow> string list) \<Rightarrow> join_result \<Rightarrow> worker_attempt_result \<Rightarrow> worker_attempt_result" where
  "classify_attempt_join chunks r cancelled =
     (case r of
        Returned v \<Rightarrow>
          (case validate_json_document chunks ''job result'' v of
             Inl message \<Rightarrow> Errored (job_error_new KDecode (''result encode: '' @ message))
           | Inr _ \<Rightarrow> Success v)
      | HandlerError e \<Rightarrow> handler_errored e
      | Panicked p \<Rightarrow> Errored (job_error_new KPanic (panic_message p))
      | JoinCancelled \<Rightarrow> cancelled)"

text \<open>
  The arm the biased select took: the force token, the handler, or the timeout. After
  a force stop and after a timeout the task is aborted and joined for a bounded
  time, \<open>None\<close> when it did not settle.
\<close>

datatype attempt_event = ForceStop "join_result option" | HandlerDone join_result | TimedOut "join_result option"

definition run_attempt ::
    "(duration \<Rightarrow> string) \<Rightarrow> (json \<Rightarrow> string list) \<Rightarrow> (string \<Rightarrow> bool) \<Rightarrow> attempt_event \<Rightarrow> job_row \<Rightarrow> worker_attempt_result" where
  "run_attempt show_duration chunks handlers ev job =
     (if \<not> handlers (j_name job) then Unhandled
      else case ev of
        ForceStop _ \<Rightarrow> Cancelled
      | HandlerDone r \<Rightarrow> classify_attempt_join chunks r Cancelled
      | TimedOut joined \<Rightarrow>
          (case joined of
             Some (Panicked p) \<Rightarrow> Errored (job_error_new KPanic (panic_message p))
           | Some (HandlerError e) \<Rightarrow> handler_errored e
           | _ \<Rightarrow> Errored (job_error_new KTimeout (''attempt exceeded '' @
                    show_duration (case row_timeout job of Some t \<Rightarrow> t | None \<Rightarrow> 0)))))"

section \<open>Finalization\<close>

datatype worker_process_result =
    PComplete
  | Retried job_error
  | RetriedElsewhere job_error
  | PFailed job_error
  | PAborted job_error
  | Requeued
  | Bounced
  | Unconfirmed

type_synonym finalization = "worker_process_result result \<times> handle \<times> store"

definition finish_aborted_fallback ::
    "(json \<Rightarrow> string list) \<Rightarrow> timestamp \<Rightarrow> job_row \<Rightarrow> handle \<Rightarrow> store \<Rightarrow> finalization" where
  "finish_aborted_fallback chunks now job h s =
     (case finish chunks now job Aborted None None h s of
        (Inr True, h', s') \<Rightarrow> (Inr (PAborted (job_error_new KAborted ''abort requested during attempt'')), h', s')
      | (Inr False, h', s') \<Rightarrow> (Inr Unconfirmed, h', s')
      | (Inl e, h', s') \<Rightarrow> (Inl e, h', s'))"

definition finish_with_swept_fallback ::
    "(json \<Rightarrow> string list) \<Rightarrow> (store \<Rightarrow> store) \<Rightarrow> (nat \<Rightarrow> timestamp) \<Rightarrow> job_row \<Rightarrow> job_status \<Rightarrow> json option \<Rightarrow> string option
     \<Rightarrow> worker_process_result \<Rightarrow> handle \<Rightarrow> store \<Rightarrow> finalization" where
  "finish_with_swept_fallback chunks env1 clk job st res err process_result h s =
     (case finish chunks (clk 0) job st res err h s of
        (Inr True, h', s') \<Rightarrow> (Inr process_result, h', s')
      | (Inr False, h', s') \<Rightarrow> finish_aborted_fallback chunks (clk 1) job h' (env1 s')
      | (Inl e, h', s') \<Rightarrow> (Inl e, h', s'))"

definition swept_retry_refusal_result ::
    "(json \<Rightarrow> string list) \<Rightarrow> (store \<Rightarrow> store) \<Rightarrow> timestamp \<Rightarrow> job_row \<Rightarrow> job_error \<Rightarrow> handle \<Rightarrow> store \<Rightarrow> finalization" where
  "swept_retry_refusal_result chunks env2 now job retry_error h s =
     (case db_job h (j_id job) s of
        Some current \<Rightarrow>
          (if j_attempts current > j_attempts job \<or> j_status current \<in> {Queued, Running}
           then (Inr (RetriedElsewhere retry_error), h, s)
           else if j_status current = Aborted
           then (Inr (PAborted (job_error_new KAborted (case j_error current of Some e \<Rightarrow> e | None \<Rightarrow> ''aborted''))), h, s)
           else finish_aborted_fallback chunks now job h (env2 s))
      | None \<Rightarrow> (Inr Unconfirmed, h, s))"

definition retry_swept_or_refuse ::
    "(json \<Rightarrow> string list) \<Rightarrow> (duration \<Rightarrow> duration) \<Rightarrow> (store \<Rightarrow> store) \<Rightarrow> (store \<Rightarrow> store) \<Rightarrow> (nat \<Rightarrow> timestamp) \<Rightarrow> job_row
     \<Rightarrow> job_error \<Rightarrow> string option \<Rightarrow> handle \<Rightarrow> store \<Rightarrow> finalization" where
  "retry_swept_or_refuse chunks jitter env1 env2 clk job err stored_error h s =
     (case retry_swept chunks jitter (clk 0) job stored_error h s of
        (Inr True, h', s') \<Rightarrow> (Inr (Retried err), h', s')
      | (Inr False, h', s') \<Rightarrow> swept_retry_refusal_result chunks env2 (clk 1) job err h' (env1 s')
      | (Inl e, h', s') \<Rightarrow> (Inl e, h', s'))"

definition shutdown_result :: "bool result \<times> handle \<times> store \<Rightarrow> finalization" where
  "shutdown_result r =
     (case r of
        (Inr True, h', s') \<Rightarrow> (Inr Requeued, h', s')
      | (Inr False, h', s') \<Rightarrow> (Inr Unconfirmed, h', s')
      | (Inl e, h', s') \<Rightarrow> (Inl e, h', s'))"

fun abort_reason_text :: "worker_abort_reason \<Rightarrow> string option" where
  "abort_reason_text Swept = Some ''swept''"
| "abort_reason_text (User reason) = Some reason"
| "abort_reason_text Missing = Some ''job row was deleted while the attempt was running''"
| "abort_reason_text RowSuperseded = None"

definition try_finalize ::
    "(json \<Rightarrow> string list) \<Rightarrow> (duration \<Rightarrow> duration) \<Rightarrow> (store \<Rightarrow> store) \<Rightarrow> (store \<Rightarrow> store) \<Rightarrow> (nat \<Rightarrow> timestamp) \<Rightarrow> job_row
     \<Rightarrow> worker_attempt_result \<Rightarrow> worker_abort_reason option \<Rightarrow> bool \<Rightarrow> handle \<Rightarrow> store \<Rightarrow> finalization" where
  "try_finalize chunks jitter env1 env2 clk job result abort_reason shutdown h s =
     (case result of
        Success v \<Rightarrow> finish_with_swept_fallback chunks env1 clk job Complete (Some v) None PComplete h s
      | Errored err \<Rightarrow>
          (if je_kind err = KAborted \<and> shutdown \<and> abort_reason = None
           then shutdown_result (requeue_shutdown chunks (clk 0) job (job_error_display err) h s)
           else if row_is_retryable job \<and> kind_is_retryable (je_kind err)
           then (case retry chunks jitter (clk 0) job (job_error_display err) h s of
                   (Inr True, h', s') \<Rightarrow> (Inr (Retried err), h', s')
                 | (Inr False, h', s') \<Rightarrow> swept_retry_refusal_result chunks env2 (clk 1) job err h' (env1 s')
                 | (Inl e, h', s') \<Rightarrow> (Inl e, h', s'))
           else finish_with_swept_fallback chunks env1 clk job Failed None (Some (job_error_display err)) (PFailed err) h s)
      | Cancelled \<Rightarrow>
          (case abort_reason of
             Some reason \<Rightarrow>
               (if reason = Swept \<and> row_is_retryable job
                then retry_swept_or_refuse chunks jitter env1 env2 clk job (job_error_new KTimeout ''swept'') None h s
                else case abort_reason_text reason of
                  None \<Rightarrow> (Inr Unconfirmed, h, s)
                | Some text \<Rightarrow>
                    (case finish chunks (clk 0) job Aborted None (Some text) h s of
                       (Inr True, h', s') \<Rightarrow> (Inr (PAborted (job_error_new KAborted text)), h', s')
                     | (Inr False, h', s') \<Rightarrow> (Inr Unconfirmed, h', s')
                     | (Inl e, h', s') \<Rightarrow> (Inl e, h', s')))
           | None \<Rightarrow> shutdown_result (requeue_shutdown chunks (clk 0) job ''cancelled'' h s))
      | Unhandled \<Rightarrow>
          (case requeue_unhandled jitter (clk 0) job h s of
             (Inr True, h', s') \<Rightarrow> (Inr Bounced, h', s')
           | (Inr False, h', s') \<Rightarrow> finish_aborted_fallback chunks (clk 1) job h' (env1 s')
           | (Inl e, h', s') \<Rightarrow> (Inl e, h', s')))"

text \<open>
  The retry loop around it. A round is answered; or its answer is lost although its
  statements ran (a deadline, a broken connection); or nothing of it reached the
  database. After a failed round the loop ends unconfirmed when the shutdown is
  forced. \<open>None\<close>: it is still retrying when the given rounds are over.
\<close>

datatype finalize_round =
    Answered "store \<Rightarrow> store" "store \<Rightarrow> store"
  | AnswerLost "store \<Rightarrow> store" "store \<Rightarrow> store"
  | NotReached "store \<Rightarrow> store"

record finalize_try =
  ft_round :: finalize_round
  ft_abort_reason :: "worker_abort_reason option"
  ft_shutdown :: bool
  ft_forced :: bool

fun finalize ::
    "(json \<Rightarrow> string list) \<Rightarrow> (duration \<Rightarrow> duration) \<Rightarrow> (nat \<Rightarrow> nat \<Rightarrow> timestamp) \<Rightarrow> job_row \<Rightarrow> worker_attempt_result
     \<Rightarrow> finalize_try list \<Rightarrow> handle \<Rightarrow> store \<Rightarrow> (worker_process_result \<times> handle \<times> store) option" where
  "finalize chunks jitter clk job result [] h s = None"
| "finalize chunks jitter clk job result (t # ts) h s =
     (let attempt = (\<lambda>env1 env2. try_finalize chunks jitter env1 env2 (clk (length ts)) job result (ft_abort_reason t) (ft_shutdown t) h s);
          late = Inl (WorkerTask ''worker database operation exceeded its deadline'');
          (r, h', s') =
            (case ft_round t of
               Answered env1 env2 \<Rightarrow> attempt env1 env2
             | AnswerLost env1 env2 \<Rightarrow> (late, h, snd (snd (attempt env1 env2)))
             | NotReached env1 \<Rightarrow> (late, h, env1 s))
      in case r of
           Inr p \<Rightarrow> Some (p, h', s')
         | Inl e \<Rightarrow>
             (if ft_forced t then Some (Unconfirmed, h', s')
              else finalize chunks jitter clk job result ts h' s'))"

text \<open>What the worker counts for a result.\<close>

fun count_result :: "worker_process_result \<Rightarrow> counters \<Rightarrow> counters" where
  "count_result PComplete c = c\<lparr> n_complete := n_complete c + 1 \<rparr>"
| "count_result (Retried _) c = c\<lparr> n_retried := n_retried c + 1 \<rparr>"
| "count_result Requeued c = c\<lparr> n_retried := n_retried c + 1 \<rparr>"
| "count_result (PFailed _) c = c\<lparr> n_failed := n_failed c + 1 \<rparr>"
| "count_result (PAborted _) c = c\<lparr> n_aborted := n_aborted c + 1 \<rparr>"
| "count_result Bounced c = c"
| "count_result (RetriedElsewhere _) c = c"
| "count_result Unconfirmed c = c"


section \<open>What the statements do for the attempt that holds the row\<close>

text \<open>
  The worker's snapshot \<open>job\<close> still holds the row \<open>j\<close>: same claim, still active,
  and the stored ceiling was not lowered since the dequeue.
\<close>

definition holds :: "job_row \<Rightarrow> job_row \<Rightarrow> handle \<Rightarrow> store \<Rightarrow> bool" where
  "holds job j h s \<longleftrightarrow> store_ok s \<and> j \<in> set (st_jobs s) \<and> under_claim (h_name h) (guard_of_row job) j \<and>
     j_status j \<in> {Running, Aborting} \<and> j_queue job = h_name h \<and> j_max_attempts job \<le> j_max_attempts j"

definition status_now :: "job_row \<Rightarrow> job_status \<Rightarrow> store \<Rightarrow> bool" where
  "status_now j st s' \<longleftrightarrow> (\<forall>x\<in>set (st_jobs s'). j_id x = j_id j \<longrightarrow> j_status x = st)"

definition only_row :: "job_row \<Rightarrow> store \<Rightarrow> store \<Rightarrow> bool" where
  "only_row j s s' \<longleftrightarrow> (\<forall>x. j_id x \<noteq> j_id j \<longrightarrow> (x \<in> set (st_jobs s') \<longleftrightarrow> x \<in> set (st_jobs s)))"

lemma only_row_update:
  "j_id j' = j_id j \<Longrightarrow> st_jobs s' = update_rows (\<lambda>x. j_id x = j_id j) (\<lambda>_. j') (st_jobs s) \<Longrightarrow> only_row j s s'"
  "st_jobs s' = delete_rows (\<lambda>x. j_id x = j_id j) (st_jobs s) \<Longrightarrow> only_row j s s'"
  by (auto simp: only_row_def in_update_rows)

lemma only_row_refl: "st_jobs s' = st_jobs s \<Longrightarrow> only_row j s s'"
  by (simp add: only_row_def)

lemma h_name_record [simp]:
  "h_name (record_complete h) = h_name h" "h_name (record_failed h) = h_name h"
  "h_name (record_retry h) = h_name h" "h_name (record_abort h) = h_name h"
  by (simp_all add: record_complete_def record_failed_def record_retry_def record_abort_def)

lemma holds_only:
  "holds job j h s \<Longrightarrow> x \<in> set (st_jobs s) \<Longrightarrow> under_claim (h_name h) (guard_of_row job) x \<Longrightarrow> x = j"
  unfolding holds_def using under_claim_unique store_ok_jobs by blast

lemma finish_takes:
  assumes H: "holds job j h s" and p: "finish_guard (h_name h) (guard_of_row job) st j"
    and v: "validate_finalization chunks res err = Inr ()" "is_terminal st"
  shows "\<exists>h' s'. finish chunks now job st res err h s = (Inr True, h', s') \<and> status_now j st s' \<and> only_row j s s' \<and> h_name h' = h_name h"
proof -
  let ?p = "finish_guard (h_name h) (guard_of_row job) st"
  note hd = H [unfolded holds_def]
  have ok: "jobs_ok (st_jobs s)" "j \<in> set (st_jobs s)" using hd store_ok_jobs by auto
  have only: "x \<in> set (st_jobs s) \<Longrightarrow> ?p x = (j_id x = j_id j)" for x
    using p holds_only [OF H, of x] jobs_ok_unique_id [OF ok(1) _ ok(2), of x] by (auto simp: finish_guard_def)
  have "filter ?p (st_jobs s) \<noteq> []" using ok(2) p by (auto simp: filter_empty_conv)
  moreover have "status_now j st s'" "only_row j s s'"
    if "st_jobs s' = finish_rows ?p (finish_ttl st) (finish_row now st res e) (st_jobs s)" for e s'
    using that finish_rows_one [OF ok only]
    by (auto simp: status_now_def only_row_def in_update_rows finish_row_def split: if_splits)
  ultimately show ?thesis
    using hd v by (auto simp: finish_def ensure_owns_def finish_with_guards_def Let_def split: job_status.split)
qed

lemma finish_refused:
  assumes H: "holds job j h s" and p: "\<not> finish_guard (h_name h) (guard_of_row job) st j"
    and v: "validate_finalization chunks res err = Inr ()" "is_terminal st"
  shows "finish chunks now job st res err h s = (Inr False, h, s)"
proof -
  have "filter (finish_guard (h_name h) (guard_of_row job) st) (st_jobs s) = []"
    using p holds_only [OF H] by (auto simp: filter_empty_conv finish_guard_def)
  then show ?thesis using H v by (auto simp: finish_def ensure_owns_def finish_with_guards_def Let_def holds_def)
qed

lemma requeue_takes:
  assumes H: "holds job j h s" and p: "requeue_guard (h_name h) (guard_of_row job) gs j"
  shows "\<exists>s'. requeue_guarded now (guard_of_row job) err d gs h s = (True, s') \<and> status_now j Queued s' \<and> only_row j s s'"
proof -
  have ok: "jobs_ok (st_jobs s)" "j \<in> set (st_jobs s)" using H store_ok_jobs by (auto simp: holds_def)
  obtain s' where "requeue_guarded now (guard_of_row job) err d gs h s = (True, s')"
      "st_jobs s' = update_rows (\<lambda>x. j_id x = j_id j) (\<lambda>_. requeue_row now (duration_to_ms d) err (refund_attempt gs) j) (st_jobs s)"
    using requeue_guarded_takes [OF ok p] by blast
  then show ?thesis by (auto simp: status_now_def only_row_def in_update_rows requeue_row_def)
qed

lemma requeue_refused:
  assumes H: "holds job j h s" and p: "\<not> requeue_guard (h_name h) (guard_of_row job) gs j"
  shows "\<exists>s'. requeue_guarded now (guard_of_row job) err d gs h s = (False, s') \<and> st_jobs s' = st_jobs s \<and> holds job j h s'"
proof -
  have "\<not> requeue_guard (h_name h) (guard_of_row job) gs x" if "x \<in> set (st_jobs s)" for x
    using p that holds_only [OF H, of x] by (auto simp: requeue_guard_def)
  then have "filter (requeue_guard (h_name h) (guard_of_row job) gs) (st_jobs s) = []"
      "update_rows (requeue_guard (h_name h) (guard_of_row job) gs) f (st_jobs s) = st_jobs s" for f
    by (auto simp: filter_empty_conv update_rows_id)
  then show ?thesis using H workers_ok_close
    by (auto simp: requeue_guarded_def requeue_guarded_sql_def Let_def holds_def store_ok_def crons_ok_def)
qed

lemma holds_db_job: "holds job j h s \<Longrightarrow> db_job h (j_id job) s = Some j"
proof -
  assume H: "holds job j h s"
  then have j: "j \<in> set (st_jobs s)" "j_id j = j_id job" "j_queue j = h_name h" "jobs_ok (st_jobs s)"
    using store_ok_jobs by (auto simp: holds_def under_claim_def)
  then obtain x where x: "db_job h (j_id job) s = Some x"
    by (cases "db_job h (j_id job) s") (auto simp: db_job_def find_None_iff)
  then have "x \<in> set (st_jobs s)" "j_id x = j_id job" by (auto simp: db_job_def find_Some_iff)
  then show ?thesis using x j jobs_ok_unique_id by metis
qed

section \<open>Every end of an attempt can be stored\<close>

fun storable :: "(json \<Rightarrow> string list) \<Rightarrow> worker_attempt_result \<Rightarrow> bool" where
  "storable chunks (Success v) = (validate_json_document chunks ''job result'' v = Inr ())"
| "storable chunks (Errored e) = (NUL \<notin> set (job_error_display e))"
| "storable chunks Cancelled = True"
| "storable chunks Unhandled = True"

lemma storable_run_attempt: "storable chunks (run_attempt show_duration chunks handlers ev job)"
  by (auto simp: run_attempt_def classify_attempt_join_def handler_errored_def display_storable
      split: attempt_event.splits join_result.splits option.splits sum.splits)

lemma validate_finalization_ok [simp]:
  "validate_finalization chunks None None = Inr ()"
  "NUL \<notin> set e \<Longrightarrow> validate_finalization chunks None (Some e) = Inr ()"
  "validate_json_document chunks ''job result'' v = Inr () \<Longrightarrow> validate_finalization chunks (Some v) None = Inr ()"
  by (auto simp: validate_finalization_def split: sum.splits)

section \<open>Settling\<close>

text \<open>
  What a result claims about the row: the status it has when it is still on disk.
  \<open>Unconfirmed\<close> leaves the jobs table as it was.
\<close>

definition settles :: "worker_process_result \<Rightarrow> job_row \<Rightarrow> store \<Rightarrow> store \<Rightarrow> bool" where
  "settles r j s s' =
     (case r of
        PComplete \<Rightarrow> status_now j Complete s'
      | Retried _ \<Rightarrow> status_now j Queued s'
      | RetriedElsewhere _ \<Rightarrow> False
      | PFailed _ \<Rightarrow> status_now j Failed s'
      | PAborted _ \<Rightarrow> status_now j Aborted s'
      | Requeued \<Rightarrow> status_now j Queued s'
      | Bounced \<Rightarrow> status_now j Queued s'
      | Unconfirmed \<Rightarrow> st_jobs s' = st_jobs s)"

text \<open>A user asked for the abort: the row is aborting without the sweeper's mark.\<close>

definition user_aborted :: "job_row \<Rightarrow> bool" where
  "user_aborted j \<longleftrightarrow> j_status j = Aborting \<and> \<not> row_swept j"

definition is_aborted :: "worker_process_result \<Rightarrow> bool" where
  "is_aborted r \<longleftrightarrow> (case r of PAborted _ \<Rightarrow> True | _ \<Rightarrow> False)"

lemma holds_guards:
  assumes "holds job j h s"
  shows "finish_guard (h_name h) (guard_of_row job) st j \<longleftrightarrow> st = Aborted \<or> \<not> user_aborted j"
    and "requeue_guard (h_name h) (guard_of_row job) gs j \<longleftrightarrow>
      (if j_status j = Running then allow_running gs else allow_swept_abort gs \<and> row_swept j) \<and>
      (if refund_attempt gs then j_attempts j < max_attempts_cap else j_attempts j < j_max_attempts j)"
  using assms by (auto simp: holds_def finish_guard_def requeue_guard_def user_aborted_def)

lemma fallback_aborts:
  assumes "holds job j h s"
  shows "\<exists>r h' s'. finish_aborted_fallback chunks now job h s = (Inr r, h', s') \<and> is_aborted r \<and> status_now j Aborted s'"
  using finish_takes [OF assms, of Aborted chunks None None now] holds_guards(1) [OF assms, of Aborted]
  by (auto simp: finish_aborted_fallback_def is_aborted_def)

lemma finish_or_abort:
  assumes H: "holds job j h s" and v: "validate_finalization chunks res err = Inr ()" "is_terminal st"
  shows "\<exists>r h' s'. finish_with_swept_fallback chunks id clk job st res err ok h s = (Inr r, h', s') \<and>
    (if user_aborted j \<and> st \<noteq> Aborted then is_aborted r \<and> status_now j Aborted s' else r = ok \<and> status_now j st s')"
proof (cases "user_aborted j \<and> st \<noteq> Aborted")
  case True
  then have "finish chunks (clk 0) job st res err h s = (Inr False, h, s)"
    using finish_refused [OF H _ v] holds_guards(1) [OF H] by simp
  then show ?thesis using True fallback_aborts [OF H, of chunks "clk 1"] by (simp add: finish_with_swept_fallback_def)
next
  case False
  then show ?thesis
    using finish_takes [OF H _ v, of "clk 0"] holds_guards(1) [OF H] by (auto simp: finish_with_swept_fallback_def)
qed

lemma refusal_aborts:
  assumes "holds job j h s" "j_status j = Aborting"
  shows "\<exists>r h' s'. swept_retry_refusal_result chunks id now job e h s = (Inr r, h', s') \<and> is_aborted r \<and> status_now j Aborted s'"
proof -
  have "j_attempts j = j_attempts job" using assms(1) by (auto simp: holds_def under_claim_def)
  then show ?thesis using fallback_aborts [OF assms(1), of chunks now] holds_db_job [OF assms(1)] assms(2)
    by (simp add: swept_retry_refusal_result_def)
qed

text \<open>The requeues of an attempt that holds its row, by what is on disk.\<close>

lemma shutdown_requeues:
  assumes H: "holds job j h s" and e: "NUL \<notin> set e"
  shows "\<exists>r h' s'. shutdown_result (requeue_shutdown chunks now job e h s) = (Inr r, h', s') \<and>
    (if user_aborted j \<or> max_attempts_cap \<le> j_attempts j then r = Unconfirmed \<and> st_jobs s' = st_jobs s
     else r = Requeued \<and> status_now j Queued s')"
proof -
  let ?gs = "\<lparr> allow_running = True, allow_swept_abort = True, refund_attempt = True, close_intake = True \<rparr>"
  have q: "j_queue job = h_name h" "j_status j \<in> {Running, Aborting}" using H by (auto simp: holds_def)
  have g: "requeue_guard (h_name h) (guard_of_row job) ?gs j \<longleftrightarrow> \<not> (user_aborted j \<or> max_attempts_cap \<le> j_attempts j)"
    using holds_guards(2) [OF H, of ?gs] q by (auto simp: user_aborted_def)
  show ?thesis
    using requeue_takes [OF H, of ?gs now "Some (truncate_stored_error e)" 0]
      requeue_refused [OF H, of ?gs now "Some (truncate_stored_error e)" 0] g q(1) e
    by (auto simp: requeue_shutdown_def ensure_owns_def shutdown_result_def) blast
qed

lemma retry_or_abort:
  assumes H: "holds job j h s" and e: "NUL \<notin> set e" and r: "row_is_retryable job"
  shows "(user_aborted j \<longrightarrow> (\<exists>s'. retry chunks jitter now job e h s = (Inr False, h, s') \<and> holds job j h s')) \<and>
    (\<not> user_aborted j \<longrightarrow> (\<exists>h' s'. retry chunks jitter now job e h s = (Inr True, h', s') \<and> status_now j Queued s'))"
proof -
  let ?gs = "\<lparr> allow_running = True, allow_swept_abort = True, refund_attempt = False, close_intake = False \<rparr>"
  have q: "j_queue job = h_name h" "j_status j \<in> {Running, Aborting}" "j_attempts j < j_max_attempts j"
    using H r by (auto simp: holds_def under_claim_def row_is_retryable_def has_attempts_remaining_def)
  have g: "requeue_guard (h_name h) (guard_of_row job) ?gs j \<longleftrightarrow> \<not> user_aborted j"
    using holds_guards(2) [OF H, of ?gs] q by (auto simp: user_aborted_def)
  show ?thesis
    using requeue_takes [OF H, of ?gs now "Some (truncate_stored_error e)" "row_next_retry_delay jitter job"]
      requeue_refused [OF H, of ?gs now "Some (truncate_stored_error e)" "row_next_retry_delay jitter job"] g q(1) e r
    by (auto simp: retry_def ensure_owns_def)
qed

lemma retry_swept_or_abort:
  assumes H: "holds job j h s" and r: "row_is_retryable job" and a: "j_status j = Aborting"
  shows "(user_aborted j \<longrightarrow> (\<exists>s'. retry_swept chunks jitter now job None h s = (Inr False, h, s') \<and> holds job j h s')) \<and>
    (\<not> user_aborted j \<longrightarrow> (\<exists>h' s'. retry_swept chunks jitter now job None h s = (Inr True, h', s') \<and> status_now j Queued s'))"
proof -
  let ?gs = "\<lparr> allow_running = False, allow_swept_abort = True, refund_attempt = False, close_intake = False \<rparr>"
  have q: "j_queue job = h_name h" "j_attempts j < j_max_attempts j"
    using H r by (auto simp: holds_def under_claim_def row_is_retryable_def has_attempts_remaining_def)
  have g: "requeue_guard (h_name h) (guard_of_row job) ?gs j \<longleftrightarrow> \<not> user_aborted j"
    using holds_guards(2) [OF H, of ?gs] q a by (auto simp: user_aborted_def)
  show ?thesis
    using requeue_takes [OF H, of ?gs now None "row_next_retry_delay jitter job"]
      requeue_refused [OF H, of ?gs now None "row_next_retry_delay jitter job"] g q(1)
    by (auto simp: retry_swept_def ensure_owns_def)
qed

lemma unhandled_bounces:
  assumes H: "holds job j h s"
  shows "(user_aborted j \<or> max_attempts_cap \<le> j_attempts j \<longrightarrow>
      (\<exists>s'. requeue_unhandled jitter now job h s = (Inr False, h, s') \<and> holds job j h s')) \<and>
    (\<not> (user_aborted j \<or> max_attempts_cap \<le> j_attempts j) \<longrightarrow>
      (\<exists>s'. requeue_unhandled jitter now job h s = (Inr True, h, s') \<and> status_now j Queued s'))"
proof -
  let ?gs = "\<lparr> allow_running = True, allow_swept_abort = True, refund_attempt = True, close_intake = False \<rparr>"
  let ?e = "Some (''no handler registered for job '' @ debug_str (j_name job))"
  let ?d = "UNHANDLED_REQUEUE_DELAY + jitter UNHANDLED_REQUEUE_JITTER"
  have q: "j_queue job = h_name h" "j_status j \<in> {Running, Aborting}" using H by (auto simp: holds_def)
  have g: "requeue_guard (h_name h) (guard_of_row job) ?gs j \<longleftrightarrow> \<not> (user_aborted j \<or> max_attempts_cap \<le> j_attempts j)"
    using holds_guards(2) [OF H, of ?gs] q by (auto simp: user_aborted_def)
  show ?thesis
    using requeue_takes [OF H, of ?gs now ?e ?d] requeue_refused [OF H, of ?gs now ?e ?d] g q(1)
    by (auto simp: requeue_unhandled_def ensure_owns_def)
qed

text \<open>What a finalization of the attempt that holds the row comes to.\<close>

definition settled_by :: "finalization \<Rightarrow> job_row \<Rightarrow> worker_abort_reason option \<Rightarrow> store \<Rightarrow> bool" where
  "settled_by f j abort_reason s \<longleftrightarrow>
     (\<exists>r h' s'. f = (Inr r, h', s') \<and> settles r j s s' \<and>
        (user_aborted j \<longrightarrow> is_aborted r \<or> r = Unconfirmed) \<and>
        (r = Unconfirmed \<longrightarrow> abort_reason = None \<and> (user_aborted j \<or> max_attempts_cap \<le> j_attempts j)))"

lemma settled_by_abort:
  "\<exists>r h' s'. f = (Inr r, h', s') \<and> is_aborted r \<and> status_now j Aborted s' \<Longrightarrow> settled_by f j reason s"
  by (auto simp: settled_by_def settles_def is_aborted_def split: worker_process_result.splits)

lemma settled_by_status:
  "settles r j s s' \<Longrightarrow> \<not> user_aborted j \<Longrightarrow> r \<noteq> Unconfirmed \<Longrightarrow> settled_by (Inr r, h', s') j reason s"
  by (auto simp: settled_by_def)

lemma settled_finish:
  assumes "holds job j h s" "validate_finalization chunks res err = Inr ()" "is_terminal st" "st \<noteq> Aborted"
    and "\<And>s'. status_now j st s' \<Longrightarrow> settles ok j s s'" "ok \<noteq> Unconfirmed"
  shows "settled_by (finish_with_swept_fallback chunks id clk job st res err ok h s) j reason s"
  using finish_or_abort [OF assms(1-3), of clk ok] assms(4-6) settled_by_abort settled_by_status
  by (cases "user_aborted j") fastforce+

lemma settled_shutdown:
  assumes "holds job j h s" "NUL \<notin> set e"
  shows "settled_by (shutdown_result (requeue_shutdown chunks now job e h s)) j None s"
  using shutdown_requeues [OF assms, of chunks now]
  by (auto simp: settled_by_def settles_def is_aborted_def split: if_splits)

lemma settled_errored:
  assumes H: "holds job j h s" and e: "NUL \<notin> set (job_error_display e)"
  shows "settled_by (try_finalize chunks jitter id id clk job (Errored e) reason shutdown h s) j reason s"
proof (cases "je_kind e = KAborted \<and> shutdown \<and> reason = None")
  case True
  then show ?thesis using settled_shutdown [OF H e] by (simp add: try_finalize_def)
next
  case kind: False
  show ?thesis
  proof (cases "row_is_retryable job \<and> kind_is_retryable (je_kind e)")
    case True
    note r = retry_or_abort [OF H e, of chunks jitter "clk 0"]
    show ?thesis
    proof (cases "user_aborted j")
      case ua: True
      then obtain s' where s': "retry chunks jitter (clk 0) job (job_error_display e) h s = (Inr False, h, s')" "holds job j h s'"
        using r True by blast
      then show ?thesis using settled_by_abort [OF refusal_aborts [OF s'(2)]] ua True kind
        by (auto simp: try_finalize_def user_aborted_def)
    next
      case False
      then show ?thesis using r True kind by (auto simp: try_finalize_def settles_def intro!: settled_by_status)
    qed
  next
    case False
    then show ?thesis using settled_finish [OF H, of chunks None "Some (job_error_display e)" Failed "PFailed e"] e kind
      by (auto simp: try_finalize_def settles_def)
  qed
qed

lemma settled_swept:
  assumes H: "holds job j h s" and r: "row_is_retryable job" "j_status j = Aborting"
  shows "settled_by (retry_swept_or_refuse chunks jitter id id clk job e None h s) j reason s"
proof (cases "user_aborted j")
  case True
  then obtain s' where s': "retry_swept chunks jitter (clk 0) job None h s = (Inr False, h, s')" "holds job j h s'"
    using retry_swept_or_abort [OF H r] by blast
  then show ?thesis using settled_by_abort [OF refusal_aborts [OF s'(2) r(2)]] by (simp add: retry_swept_or_refuse_def)
next
  case False
  then show ?thesis using retry_swept_or_abort [OF H r, of chunks jitter "clk 0"]
    by (auto simp: retry_swept_or_refuse_def settles_def intro!: settled_by_status)
qed

lemma settled_cancelled:
  assumes H: "holds job j h s"
    and reason: "reason = Some Swept \<Longrightarrow> j_status j = Aborting" "reason \<noteq> Some RowSuperseded"
      "\<And>t. reason = Some (User t) \<Longrightarrow> NUL \<notin> set t"
  shows "settled_by (try_finalize chunks jitter id id clk job Cancelled reason shutdown h s) j reason s"
proof (cases reason)
  case None
  then show ?thesis using settled_shutdown [OF H, of "''cancelled''"] by (simp add: try_finalize_def)
next
  case (Some a)
  show ?thesis
  proof (cases "a = Swept \<and> row_is_retryable job")
    case True
    then show ?thesis using settled_swept [OF H] reason(1) Some by (simp add: try_finalize_def)
  next
    case False
    obtain t where t: "abort_reason_text a = Some t" "NUL \<notin> set t" using reason Some by (cases a) auto
    then show ?thesis
      using finish_takes [OF H, of Aborted chunks None "Some t" "clk 0"] holds_guards(1) [OF H, of Aborted] False Some
      by (auto simp: try_finalize_def is_aborted_def intro!: settled_by_abort)
  qed
qed

lemma settled_unhandled:
  assumes H: "holds job j h s"
  shows "settled_by (try_finalize chunks jitter id id clk job Unhandled reason shutdown h s) j reason s"
proof (cases "user_aborted j \<or> max_attempts_cap \<le> j_attempts j")
  case True
  then obtain s' where s': "requeue_unhandled jitter (clk 0) job h s = (Inr False, h, s')" "holds job j h s'"
    using unhandled_bounces [OF H] by blast
  then show ?thesis using settled_by_abort [OF fallback_aborts [OF s'(2)]] by (simp add: try_finalize_def)
next
  case False
  then show ?thesis using unhandled_bounces [OF H, of jitter "clk 0"]
    by (auto simp: try_finalize_def settles_def intro!: settled_by_status)
qed

section \<open>Answers and retries\<close>

text \<open>A statement of the attempt is answered whenever its arguments are valid, whatever is on disk.\<close>

definition answers :: "handle \<Rightarrow> 'a result \<times> handle \<times> store \<Rightarrow> bool" where
  "answers h f \<longleftrightarrow> \<not> isl (fst f) \<and> h_name (fst (snd f)) = h_name h"

lemma finish_answers:
  assumes "j_queue job = h_name h" "validate_finalization chunks res err = Inr ()" "is_terminal st"
  shows "answers h (finish chunks now job st res err h s)"
  using assms by (auto simp: answers_def finish_def finish_with_guards_def ensure_owns_def Let_def split: job_status.split)

lemma requeues_answer:
  assumes "j_queue job = h_name h" "NUL \<notin> set e"
  shows "answers h (retry chunks jitter now job e h s)" "answers h (retry_swept chunks jitter now job None h s)"
    "answers h (requeue_shutdown chunks now job e h s)" "answers h (requeue_unhandled jitter now job h s)"
  using assms
  by (auto simp: answers_def retry_def retry_swept_def requeue_shutdown_def requeue_unhandled_def ensure_owns_def Let_def split_beta)

lemma answers_match:
  assumes "answers h f"
    and "\<And>h' s'. h_name h' = h_name h \<Longrightarrow> answers h (yes h' s')" "\<And>h' s'. h_name h' = h_name h \<Longrightarrow> answers h (no h' s')"
  shows "answers h (case f of (Inr True, h', s') \<Rightarrow> yes h' s' | (Inr False, h', s') \<Rightarrow> no h' s' | (Inl e, h', s') \<Rightarrow> (Inl e, h', s'))"
  using assms by (cases f) (auto simp: answers_def split: sum.splits bool.splits)

lemma answers_now [simp]: "answers h (Inr x, h', s') \<longleftrightarrow> h_name h' = h_name h"
  by (simp add: answers_def)

lemma fallbacks_answer:
  assumes "j_queue job = h_name h" "h_name h' = h_name h"
  shows "answers h (finish_aborted_fallback chunks now job h' s)"
    and "answers h (swept_retry_refusal_result chunks env2 now job e h' s)"
proof -
  have f: "answers h (finish_aborted_fallback chunks now job h' s)" for s
    unfolding finish_aborted_fallback_def
    by (rule answers_match) (use finish_answers [of job h' chunks None None Aborted now s] assms in \<open>auto simp: answers_def\<close>)
  show "answers h (finish_aborted_fallback chunks now job h' s)" by (rule f)
  show "answers h (swept_retry_refusal_result chunks env2 now job e h' s)"
    using f assms by (auto simp: swept_retry_refusal_result_def split: option.splits)
qed

lemma try_finalize_answers:
  assumes q: "j_queue job = h_name h" and st: "storable chunks result" and u: "\<And>t. reason = Some (User t) \<Longrightarrow> NUL \<notin> set t"
  shows "answers h (try_finalize chunks jitter env1 env2 clk job result reason shutdown h s)"
proof (cases result)
  case (Success v)
  then show ?thesis using st q
    by (auto simp: try_finalize_def finish_with_swept_fallback_def intro!: answers_match finish_answers fallbacks_answer)
next
  case (Errored e)
  then show ?thesis using st q
    by (auto simp: try_finalize_def finish_with_swept_fallback_def shutdown_result_def
        intro!: answers_match finish_answers requeues_answer fallbacks_answer)
next
  case Cancelled
  show ?thesis
  proof (cases reason)
    case None
    then show ?thesis using Cancelled q
      by (auto simp: try_finalize_def shutdown_result_def intro!: answers_match requeues_answer)
  next
    case (Some a)
    then show ?thesis using Cancelled q u requeues_answer(2) [OF q, of "[]"]
      by (cases a) (auto simp: try_finalize_def retry_swept_or_refuse_def intro!: answers_match finish_answers fallbacks_answer)
  qed
next
  case Unhandled
  then show ?thesis using q requeues_answer(4) [OF q, of "[]"]
    by (auto simp: try_finalize_def intro!: answers_match fallbacks_answer)
qed

lemma finalize_ends:
  assumes "storable chunks result"
  shows "j_queue job = h_name h \<Longrightarrow> \<exists>t\<in>set ts. ft_forced t \<or> (\<exists>env1 env2. ft_round t = Answered env1 env2) \<Longrightarrow>
    \<forall>t\<in>set ts. \<forall>u. ft_abort_reason t = Some (User u) \<longrightarrow> NUL \<notin> set u \<Longrightarrow>
    \<exists>p h' s'. finalize chunks jitter clk job result ts h s = Some (p, h', s')"
proof (induction ts arbitrary: h s)
  case (Cons t ts)
  let ?once = "\<lambda>env1 env2. try_finalize chunks jitter env1 env2 (clk (length ts)) job result (ft_abort_reason t) (ft_shutdown t) h s"
  have a: "answers h (?once env1 env2)" for env1 env2
    by (rule try_finalize_answers) (use Cons.prems assms in auto)
  have rest: "\<exists>p h' s'. finalize chunks jitter clk job result ts h s1 = Some (p, h', s')"
    if "\<not> ft_forced t" "\<And>env1 env2. ft_round t \<noteq> Answered env1 env2" for s1
    by (rule Cons.IH) (use Cons.prems that in auto)
  show ?case
  proof (cases "ft_round t")
    case (Answered env1 env2)
    then show ?thesis using a [of env1 env2] by (cases "?once env1 env2") (auto simp: answers_def split: sum.splits)
  next
    case (AnswerLost env1 env2)
    then show ?thesis using rest by (auto simp: Let_def)
  next
    case (NotReached env1)
    then show ?thesis using rest by (auto simp: Let_def)
  qed
qed simp

text \<open>Once the claim is settled, no statement of the attempt finds a row.\<close>

definition claim_settled :: "job_row \<Rightarrow> handle \<Rightarrow> store \<Rightarrow> bool" where
  "claim_settled job h s \<longleftrightarrow>
     (\<forall>x\<in>set (st_jobs s). under_claim (h_name h) (guard_of_row job) x \<longrightarrow> j_status x \<notin> {Running, Aborting})"

text \<open>The result of a statement that takes no row: refused or invalid, and the jobs table as it was.\<close>

definition takes_nothing :: "handle \<Rightarrow> store \<Rightarrow> bool result \<times> handle \<times> store \<Rightarrow> bool" where
  "takes_nothing h s f \<longleftrightarrow> fst f \<noteq> Inr True \<and> fst (snd f) = h \<and> st_jobs (snd (snd f)) = st_jobs s"

lemma settled_finish_nothing:
  assumes "claim_settled job h s"
  shows "takes_nothing h s (finish chunks now job st res err h s)"
proof -
  have "filter (finish_guard (h_name h) (guard_of_row job) st) (st_jobs s) = []"
    using assms by (auto simp: filter_empty_conv finish_guard_def claim_settled_def)
  then show ?thesis by (auto simp: takes_nothing_def finish_def finish_with_guards_def Let_def split: sum.splits)
qed

lemma settled_requeue_nothing:
  assumes "claim_settled job h s"
  shows "takes_nothing h s (retry chunks jitter now job e h s)" "takes_nothing h s (retry_swept chunks jitter now job err h s)"
    "takes_nothing h s (requeue_shutdown chunks now job e h s)" "takes_nothing h s (requeue_unhandled jitter now job h s)"
proof -
  have g: "\<not> requeue_guard (h_name h) (guard_of_row job) gs x" if "x \<in> set (st_jobs s)" for gs x
    using assms that by (auto simp: requeue_guard_def claim_settled_def)
  have r: "requeue_guarded now (guard_of_row job) er d gs h s \<noteq> (True, s1)"
      "requeue_guarded now (guard_of_row job) er d gs h s = (b, s1) \<Longrightarrow> st_jobs s1 = st_jobs s" for er d gs b s1
    using requeue_guarded_refuses [of s h "guard_of_row job" gs now er d] g by (metis fst_conv, metis snd_conv)
  show "takes_nothing h s (retry chunks jitter now job e h s)" "takes_nothing h s (retry_swept chunks jitter now job err h s)"
    "takes_nothing h s (requeue_shutdown chunks now job e h s)" "takes_nothing h s (requeue_unhandled jitter now job h s)"
    by (auto simp: takes_nothing_def retry_def retry_swept_def requeue_shutdown_def requeue_unhandled_def Let_def
        r(1) dest: r(2) split: sum.splits prod.splits)
qed

lemma takes_nothing_match:
  assumes "takes_nothing h s f" and "\<And>s'. st_jobs s' = st_jobs s \<Longrightarrow> st_jobs (snd (snd (no h s'))) = st_jobs s"
  shows "st_jobs (snd (snd (case f of (Inr True, h', s') \<Rightarrow> yes h' s' | (Inr False, h', s') \<Rightarrow> no h' s' |
    (Inl e, h', s') \<Rightarrow> (Inl e, h', s')))) = st_jobs s"
  using assms by (cases f) (auto simp: takes_nothing_def split: sum.splits bool.splits)

lemma claim_settled_jobs: "st_jobs s' = st_jobs s \<Longrightarrow> claim_settled job h s' = claim_settled job h s"
  by (simp add: claim_settled_def)

lemma settled_fallback_nothing:
  assumes "claim_settled job h s"
  shows "st_jobs (snd (snd (finish_aborted_fallback chunks now job h s))) = st_jobs s"
  unfolding finish_aborted_fallback_def by (rule takes_nothing_match [OF settled_finish_nothing [OF assms]]) simp

lemma settled_refusal_nothing:
  assumes "claim_settled job h s"
  shows "st_jobs (snd (snd (swept_retry_refusal_result chunks id now job e h s))) = st_jobs s"
  using settled_fallback_nothing [OF assms] by (simp add: swept_retry_refusal_result_def split: option.splits)

lemma settled_try_nothing:
  assumes C: "claim_settled job h s"
  shows "st_jobs (snd (snd (try_finalize chunks jitter id id clk job result reason shutdown h s))) = st_jobs s"
proof -
  have fb: "st_jobs s' = st_jobs s \<Longrightarrow> st_jobs (snd (snd (finish_aborted_fallback chunks now job h s'))) = st_jobs s" for now s'
    using settled_fallback_nothing claim_settled_jobs C by metis
  have rf: "st_jobs s' = st_jobs s \<Longrightarrow> st_jobs (snd (snd (swept_retry_refusal_result chunks id now job e h s'))) = st_jobs s" for now e s'
    using settled_refusal_nothing claim_settled_jobs C by metis
  show ?thesis
    by (auto simp: try_finalize_def finish_with_swept_fallback_def shutdown_result_def retry_swept_or_refuse_def
        split: worker_attempt_result.split option.split intro!: takes_nothing_match settled_finish_nothing [OF C]
        settled_requeue_nothing [OF C] fb rf)
qed

lemma settles_claim:
  assumes "holds job j h s" "settles r j s s'" "r \<noteq> Unconfirmed"
  shows "claim_settled job h s'"
  using assms by (auto simp: claim_settled_def settles_def status_now_def holds_def under_claim_def
      split: worker_process_result.splits)

lemma sample_holds: "holds sample_running sample_running sample_handle (sample_store sample_running)"
  using sample_store_ok [OF sample_row_ok(2)]
  by (simp add: holds_def under_claim_def guard_of_row_def) (simp add: sample_defs claim_row_def)

section \<open>Properties\<close>

text \<open>
  C4: every attempt is settled. Whatever way the handler of a worker that holds a
  row ends (a value, an error, a panic, a timeout, a cancellation, no handler), one
  undisturbed finalization succeeds and the row has the status the worker reports:
  complete, failed, aborted, or queued again. The only exception is a shutdown
  requeue that is refused, for a row a user is aborting or that is at the attempt
  ceiling: then the worker reports it unconfirmed and the jobs table is unchanged.
  A user abort always wins: the row ends aborted or is left to the sweeper, whatever the
  handler returned.
\<close>

theorem attempt_is_settled:
  assumes H: "holds job j h s"
    and reason: "abort_reason = Some Swept \<Longrightarrow> j_status j = Aborting" "abort_reason \<noteq> Some RowSuperseded"
      "\<And>t. abort_reason = Some (User t) \<Longrightarrow> NUL \<notin> set t"
  shows "\<exists>r h' s'. try_finalize chunks jitter id id clk job (run_attempt show_duration chunks handlers ev job)
      abort_reason shutdown h s = (Inr r, h', s') \<and> settles r j s s' \<and>
    (user_aborted j \<longrightarrow> is_aborted r \<or> r = Unconfirmed) \<and>
    (r = Unconfirmed \<longrightarrow> abort_reason = None \<and> (user_aborted j \<or> max_attempts_cap \<le> j_attempts j))"
proof -
  let ?fin = "run_attempt show_duration chunks handlers ev job"
  have st: "storable chunks ?fin" by (rule storable_run_attempt)
  have "settled_by (try_finalize chunks jitter id id clk job ?fin abort_reason shutdown h s) j abort_reason s"
  proof (cases ?fin)
    case (Success v)
    then show ?thesis using settled_finish [OF H, of chunks "Some v" None Complete PComplete] st
      by (simp add: try_finalize_def settles_def)
  next
    case (Errored e)
    then show ?thesis using settled_errored [OF H] st by simp
  next
    case Cancelled
    then show ?thesis using settled_cancelled [OF H reason] by simp
  next
    case Unhandled
    then show ?thesis using settled_unhandled [OF H] by simp
  qed
  then show ?thesis by (simp add: settled_by_def)
qed

theorem attempt_is_settled_witness:
  "\<exists>r h' s'. holds sample_running sample_running sample_handle (sample_store sample_running) \<and>
    try_finalize (\<lambda>_. []) id id id (\<lambda>_. 3000) sample_running
      (run_attempt (\<lambda>_. []) (\<lambda>_. []) (\<lambda>_. True) (HandlerDone (Returned JNull)) sample_running) None False
      sample_handle (sample_store sample_running) = (Inr r, h', s') \<and> settles r sample_running (sample_store sample_running) s'"
proof -
  note H = sample_holds
  show ?thesis
    using H attempt_is_settled [OF H, of None "\<lambda>_. []" id "\<lambda>_. 3000" "\<lambda>_. []" "\<lambda>_. True" "HandlerDone (Returned JNull)" False]
    by auto
qed

text \<open>
  C22: the finalization loop ends. Whatever is on disk and however many rounds are lost on the
  way, it returns as soon as one round is answered or the shutdown is forced: no value, error, panic
  text or abort reason makes the database refuse the outcome for good.
\<close>

theorem finalize_returns:
  assumes "j_queue job = h_name h"
    and "\<exists>t\<in>set ts. ft_forced t \<or> (\<exists>env1 env2. ft_round t = Answered env1 env2)"
    and "\<And>t u. t \<in> set ts \<Longrightarrow> ft_abort_reason t = Some (User u) \<Longrightarrow> NUL \<notin> set u"
  shows "\<exists>p h' s'. finalize chunks jitter clk job (run_attempt show_duration chunks handlers ev job) ts h s = Some (p, h', s')"
  using finalize_ends [OF storable_run_attempt] assms by blast

theorem finalize_returns_witness:
  "\<exists>p h' s'. finalize (\<lambda>_. []) id (\<lambda>_ _. 3000) sample_running
    (run_attempt (\<lambda>_. []) (\<lambda>_. []) (\<lambda>_. True) (HandlerDone (Panicked OpaquePayload)) sample_running)
    [\<lparr> ft_round = NotReached id, ft_abort_reason = None, ft_shutdown = False, ft_forced = False \<rparr>,
     \<lparr> ft_round = Answered id id, ft_abort_reason = None, ft_shutdown = False, ft_forced = False \<rparr>]
    sample_handle (sample_store sample_running) = Some (p, h', s')"
  by (rule finalize_returns) (auto simp: sample_defs claim_row_def)

text \<open>
  A lost answer does no harm. When a finalization settled the row but its answer
  was lost, finalizing the same attempt again, with any outcome, abort reason or
  shutdown state, changes no job row.
\<close>

theorem lost_answer_is_harmless:
  assumes "holds job j h s"
    and "try_finalize chunks jitter id id clk job result reason shutdown h s = (Inr r, h', s')"
    and "settles r j s s'" "r \<noteq> Unconfirmed"
  shows "st_jobs (snd (snd (try_finalize chunks jitter id id clk' job result' reason' shutdown' h s'))) = st_jobs s'"
  using settled_try_nothing settles_claim assms by blast

theorem lost_answer_is_harmless_witness:
  "\<exists>h' s'. try_finalize (\<lambda>_. []) id id id (\<lambda>_. 3000) sample_running (Success JNull) None False
      sample_handle (sample_store sample_running) = (Inr PComplete, h', s') \<and>
    st_jobs (snd (snd (try_finalize (\<lambda>_. []) id id id (\<lambda>_. 4000) sample_running Cancelled None True sample_handle s'))) = st_jobs s'"
proof -
  note H = sample_holds
  have n: "\<not> user_aborted sample_running" by (simp add: user_aborted_def sample_running_def claim_row_def)
  obtain h' s' where t: "try_finalize (\<lambda>_. []) id id id (\<lambda>_. 3000) sample_running (Success JNull) None False
      sample_handle (sample_store sample_running) = (Inr PComplete, h', s')" "status_now sample_running Complete s'"
    using finish_or_abort [OF H, of "\<lambda>_. []" "Some JNull" None Complete "\<lambda>_. 3000" PComplete] n
    by (auto simp: try_finalize_def validate_json_document_Inr json_contains_nul.simps)
  then show ?thesis using lost_answer_is_harmless [OF H t(1)] by (simp add: settles_def)
qed

end
