(* ===== verification/Worker_Intake.thy ===== *)
theory Worker_Intake
  imports Worker_Attempt
begin

text \<open>
  The intake of a worker (\<^verbatim>\<open>worker.rs\<close>): the buffer between the single fetcher and
  the processor slots with its demand bookkeeping, one iteration of the fetch loop on
  every answer of the database, a processor's poll, the burst budget, and the
  drain of the buffer on shutdown. Every method works under the buffer lock, so it is one
  step. Monotonic instants are nanoseconds; the generation counters
  count demands and do not reach the end of their 64 bits.
\<close>

section \<open>The intake\<close>

record worker_intake =
  in_buffer :: "job_row list"
  in_idle :: nat
  in_demand_generation :: nat
  in_drained_generation :: nat
  in_stopping :: bool

definition intake_new :: worker_intake where
  "intake_new = \<lparr> in_buffer = [], in_idle = 0, in_demand_generation = 0, in_drained_generation = 0, in_stopping = False \<rparr>"

text \<open>\<^verbatim>\<open>fetch_sub(1)\<close> on an unsigned counter wraps.\<close>

definition fetch_sub1 :: "nat \<Rightarrow> nat" where
  "fetch_sub1 n = (if n = 0 then u64_max else n - 1)"

definition intake_claim :: "worker_intake \<Rightarrow> job_row option \<times> worker_intake" where
  "intake_claim i =
     (if in_stopping i then (None, i)
      else case in_buffer i of
        [] \<Rightarrow> (None, i)
      | job # rest \<Rightarrow> (Some job, i\<lparr> in_buffer := rest, in_idle := fetch_sub1 (in_idle i) \<rparr>))"

definition register_demand :: "worker_intake \<Rightarrow> nat \<times> worker_intake" where
  "register_demand i =
     (let generation = in_demand_generation i + 1
      in (generation, i\<lparr> in_demand_generation := generation, in_idle := in_idle i + 1 \<rparr>))"

definition demand_snapshot :: "worker_intake \<Rightarrow> nat \<times> nat" where
  "demand_snapshot i = (in_idle i - length (in_buffer i), in_demand_generation i)"

definition demand_is_drained :: "nat \<Rightarrow> worker_intake \<Rightarrow> bool" where
  "demand_is_drained generation i \<longleftrightarrow> in_drained_generation i \<ge> generation"

definition withdraw_demand :: "worker_intake \<Rightarrow> worker_intake" where
  "withdraw_demand i = i\<lparr> in_idle := fetch_sub1 (in_idle i) \<rparr>"

definition begin_shutdown :: "worker_intake \<Rightarrow> worker_intake" where
  "begin_shutdown i = i\<lparr> in_stopping := True \<rparr>"

section \<open>The fetcher\<close>

definition DEQUEUE_RETRY_INITIAL_MAX_MS :: nat where "DEQUEUE_RETRY_INITIAL_MAX_MS = 3"
definition DEQUEUE_RETRY_MAX_MS :: nat where "DEQUEUE_RETRY_MAX_MS = 100"

record fetch_state =
  fs_retry_max_ms :: nat
  fs_unclaimable_since :: "nat option"
  fs_failing_since :: "nat option"
  fs_intake_closed_since :: "nat option"

definition fetch_state_new :: fetch_state where
  "fetch_state_new = \<lparr> fs_retry_max_ms = DEQUEUE_RETRY_INITIAL_MAX_MS, fs_unclaimable_since = None,
     fs_failing_since = None, fs_intake_closed_since = None \<rparr>"

text \<open>How an iteration goes on: fetch again, wait for a wakeup, or drain the buffer and return.\<close>

datatype fetch_next = Refetch | Rest | EndFetch "error option"

definition since_or :: "nat option \<Rightarrow> nat \<Rightarrow> nat" where
  "since_or since now = (case since of Some t \<Rightarrow> t | None \<Rightarrow> now)"

definition over_budget :: "duration option \<Rightarrow> nat \<Rightarrow> nat \<Rightarrow> bool" where
  "over_budget budget since now \<longleftrightarrow> (case budget of Some b \<Rightarrow> now - since \<ge> b | None \<Rightarrow> False)"

definition drained_up_to :: "nat \<Rightarrow> worker_intake \<Rightarrow> worker_intake" where
  "drained_up_to generation i = i\<lparr> in_drained_generation := max (in_drained_generation i) generation \<rparr>"

definition unclaimable_budget :: "bool \<Rightarrow> duration option \<Rightarrow> duration option" where
  "unclaimable_budget burst dequeue_timeout = (if burst then dequeue_timeout else None)"

text \<open>
  One iteration on the answer of the dequeue. \<open>stopped\<close>: the stop token is set at the
  check or the wait that follows the answer; \<open>lease_failing\<close>: the health reporter
  says the heartbeat is failing.
\<close>

definition fetch_round ::
    "duration option \<Rightarrow> nat \<Rightarrow> bool \<Rightarrow> bool \<Rightarrow> nat \<Rightarrow> nat \<Rightarrow> dequeue_batch result \<Rightarrow> fetch_state \<Rightarrow> worker_intake
     \<Rightarrow> fetch_next \<times> fetch_state \<times> worker_intake" where
  "fetch_round budget now stopped lease_failing want generation dequeue fs i =
     (case dequeue of
        Inr result \<Rightarrow>
          (let fs0 = fs\<lparr> fs_failing_since := None \<rparr> in
           if db_jobs result = [] \<and> db_intake_open result \<and> \<not> db_work_available result then
             (Rest, fs0\<lparr> fs_retry_max_ms := DEQUEUE_RETRY_INITIAL_MAX_MS, fs_unclaimable_since := None,
                fs_intake_closed_since := None \<rparr>, drained_up_to generation i)
           else if db_jobs result = [] \<and> db_intake_open result then
             (let since = since_or (fs_unclaimable_since fs0) now;
                  fs1 = fs0\<lparr> fs_intake_closed_since := None, fs_unclaimable_since := Some since \<rparr>
              in if over_budget budget since now then (Rest, fs1, drained_up_to generation i)
                 else if fs_retry_max_ms fs1 \<ge> DEQUEUE_RETRY_MAX_MS then (Rest, fs1, i)
                 else if stopped then (EndFetch None, fs1, i)
                 else (Refetch, fs1\<lparr> fs_retry_max_ms := min (fs_retry_max_ms fs1 * 2) DEQUEUE_RETRY_MAX_MS \<rparr>, i))
           else if db_jobs result = [] then
             (let fs1 = fs0\<lparr> fs_retry_max_ms := DEQUEUE_RETRY_INITIAL_MAX_MS, fs_unclaimable_since := None \<rparr>;
                  since = since_or (fs_intake_closed_since fs1) now;
                  fs2 = fs1\<lparr> fs_intake_closed_since := (if lease_failing then Some since else None) \<rparr>
              in if lease_failing \<and> over_budget budget since now
                 then (EndFetch (Some (WorkerTask ''worker lease could not be maintained for the whole dequeue timeout'')), fs2, i)
                 else if stopped then (EndFetch None, fs2, i)
                 else (Rest, fs2, i))
           else
             (let fs1 = fs0\<lparr> fs_retry_max_ms := DEQUEUE_RETRY_INITIAL_MAX_MS, fs_unclaimable_since := None,
                    fs_intake_closed_since := None \<rparr>;
                  i1 = i\<lparr> in_buffer := in_buffer i @ db_jobs result \<rparr>
              in if stopped then (EndFetch None, fs1, i1)
                 else if length (db_jobs result) < want \<and> \<not> db_work_available result
                 then (Rest, fs1, drained_up_to generation i1)
                 else (Refetch, fs1, i1)))
      | Inl err \<Rightarrow>
          (let since = since_or (fs_failing_since fs) now;
               fs1 = fs\<lparr> fs_unclaimable_since := None, fs_failing_since := Some since \<rparr>
           in if over_budget budget since now then (EndFetch (Some err), fs1, i)
              else if stopped then (EndFetch None, fs1, i)
              else (Rest, fs1, i)))"

section \<open>The processors\<close>

datatype worker_fetch = Job job_row | Stop | Drained

text \<open>One check of \<^verbatim>\<open>next_job\<close>; \<open>None\<close>: wait for the next wakeup.\<close>

definition next_job_check :: "bool \<Rightarrow> bool \<Rightarrow> nat \<Rightarrow> worker_intake \<Rightarrow> worker_fetch option \<times> worker_intake" where
  "next_job_check stop deadline_elapsed generation i =
     (if stop then (Some Stop, i)
      else case intake_claim i of
        (Some job, i') \<Rightarrow> (Some (Job job), i')
      | (None, i') \<Rightarrow>
          (if deadline_elapsed \<and> demand_is_drained generation i' then (Some Drained, i') else (None, i')))"

text \<open>Burst budget: reserved before a fetch, given back by a processor that leaves without a job.\<close>

definition reserve_budget :: "nat option \<Rightarrow> (nat option) option" where
  "reserve_budget budget =
     (case budget of None \<Rightarrow> Some None | Some n \<Rightarrow> if n = 0 then None else Some (Some (n - 1)))"

definition leave_processor :: "nat option \<Rightarrow> worker_intake \<Rightarrow> nat option \<times> worker_intake" where
  "leave_processor budget i = (map_option (\<lambda>n. n + 1) budget, withdraw_demand i)"

section \<open>Draining on shutdown\<close>

text \<open>
  One buffered job: requeued, or finished as aborted when the requeue is refused. The
  Boolean says whether it is settled; the counters are the worker's.
\<close>

definition drain_one ::
    "(json \<Rightarrow> string list) \<Rightarrow> (nat \<Rightarrow> timestamp) \<Rightarrow> job_row \<Rightarrow> counters \<times> handle \<times> store \<Rightarrow> bool \<times> counters \<times> handle \<times> store" where
  "drain_one chunks clk job st =
     (let (c, h, s) = st in
      case requeue_shutdown chunks (clk 0) job ''cancelled'' h s of
        (Inr True, h', s') \<Rightarrow> (True, c, h', s')
      | (Inr False, h', s') \<Rightarrow>
          (case finish chunks (clk 1) job Aborted None None h' s' of
             (Inr True, h'', s'') \<Rightarrow> (True, c\<lparr> n_aborted := n_aborted c + 1 \<rparr>, h'', s'')
           | (Inr False, h'', s'') \<Rightarrow> (True, c, h'', s'')
           | (Inl e, h'', s'') \<Rightarrow> (False, c, h'', s''))
      | (Inl e, h', s') \<Rightarrow> (False, c, h', s'))"

text \<open>
  The loop. Each round either reaches the database or fails on the way to it; a job
  that is not settled goes back to the front. The list gives the rounds, true for one that
  fails.
\<close>

fun drain_on_shutdown ::
    "(json \<Rightarrow> string list) \<Rightarrow> (nat \<Rightarrow> nat \<Rightarrow> timestamp) \<Rightarrow> bool list \<Rightarrow> job_row list \<Rightarrow> counters \<times> handle \<times> store
     \<Rightarrow> job_row list \<times> counters \<times> handle \<times> store" where
  "drain_on_shutdown chunks clk fails [] st = ([], st)"
| "drain_on_shutdown chunks clk [] (job # buffer) st = (job # buffer, st)"
| "drain_on_shutdown chunks clk (f # fails) (job # buffer) st =
     (if f then drain_on_shutdown chunks clk fails (job # buffer) st
      else case drain_one chunks (clk (length fails)) job st of
        (True, st') \<Rightarrow> drain_on_shutdown chunks clk fails buffer st'
      | (False, st') \<Rightarrow> drain_on_shutdown chunks clk fails (job # buffer) st')"

section \<open>The intake at work\<close>

text \<open>
  The fetcher, the processors and the shutdown around one intake, in any order. The
  history keeps the generations of the waiting processors, every row fetched and
  every row taken out of the buffer, the generations whose fetch proved the
  queue drained (or gave up on it), and those whose processor left as drained.
\<close>

record intake_sys =
  is_intake :: worker_intake
  is_fetcher :: fetch_state
  is_waiting :: "nat list"
  is_fetched :: "job_row list"
  is_out :: "job_row list"
  is_proofs :: "nat list"
  is_left :: "nat list"

definition intake_start :: intake_sys where
  "intake_start = \<lparr> is_intake = intake_new, is_fetcher = fetch_state_new, is_waiting = [], is_fetched = [],
     is_out = [], is_proofs = [], is_left = [] \<rparr>"

definition batch_jobs :: "dequeue_batch result \<Rightarrow> job_row list" where
  "batch_jobs r = (case r of Inr b \<Rightarrow> db_jobs b | Inl _ \<Rightarrow> [])"

text \<open>A snapshot may be old when its dequeue is answered: its generation is one that was reached before.\<close>

inductive intake_step :: "intake_sys \<Rightarrow> intake_sys \<Rightarrow> bool" where
  is_register: "register_demand (is_intake y) = (g, i) \<Longrightarrow>
    intake_step y (y\<lparr> is_intake := i, is_waiting := is_waiting y @ [g] \<rparr>)"
| is_job: "g \<in> set (is_waiting y) \<Longrightarrow> next_job_check stop elapsed g (is_intake y) = (Some (Job j), i) \<Longrightarrow>
    intake_step y (y\<lparr> is_intake := i, is_waiting := remove1 g (is_waiting y), is_out := is_out y @ [j] \<rparr>)"
| is_leave: "g \<in> set (is_waiting y) \<Longrightarrow> next_job_check stop elapsed g (is_intake y) = (Some f, i) \<Longrightarrow> f \<in> {Stop, Drained} \<Longrightarrow>
    intake_step y (y\<lparr> is_intake := snd (leave_processor budget i), is_waiting := remove1 g (is_waiting y),
      is_left := (if f = Drained then is_left y @ [g] else is_left y) \<rparr>)"
| is_fetch: "g \<le> in_demand_generation (is_intake y) \<Longrightarrow>
    fetch_round budget now stopped lease_failing want g r (is_fetcher y) (is_intake y) = (nx, fs, i) \<Longrightarrow>
    intake_step y (y\<lparr> is_intake := i, is_fetcher := fs, is_fetched := is_fetched y @ batch_jobs r,
      is_proofs := (if in_drained_generation i \<noteq> in_drained_generation (is_intake y) then is_proofs y @ [g] else is_proofs y) \<rparr>)"
| is_stop: "intake_step y (y\<lparr> is_intake := begin_shutdown (is_intake y) \<rparr>)"
| is_drain: "in_buffer (is_intake y) = j # rest \<Longrightarrow> in_stopping (is_intake y) \<Longrightarrow>
    intake_step y (y\<lparr> is_intake := (is_intake y)\<lparr> in_buffer := rest \<rparr>, is_out := is_out y @ [j] \<rparr>)"

definition intake_inv :: "intake_sys \<Rightarrow> bool" where
  "intake_inv y \<longleftrightarrow>
     is_fetched y = is_out y @ in_buffer (is_intake y) \<and>
     in_idle (is_intake y) = length (is_waiting y) \<and>
     (\<forall>g\<in>set (is_waiting y). 0 < g \<and> g \<le> in_demand_generation (is_intake y)) \<and>
     in_drained_generation (is_intake y) \<le> in_demand_generation (is_intake y) \<and>
     (in_drained_generation (is_intake y) = 0 \<or> in_drained_generation (is_intake y) \<in> set (is_proofs y)) \<and>
     (\<forall>g\<in>set (is_left y). \<exists>p\<in>set (is_proofs y). g \<le> p)"

lemma fetch_round_intake:
  assumes "fetch_round budget now stopped lease_failing want g r fs i = (nx, fs', i')"
  shows "in_buffer i' = in_buffer i @ batch_jobs r \<and> in_idle i' = in_idle i \<and>
    in_demand_generation i' = in_demand_generation i \<and> in_stopping i' = in_stopping i \<and>
    in_drained_generation i' \<in> {in_drained_generation i, max (in_drained_generation i) g}"
  using assms
  by (auto simp: fetch_round_def Let_def drained_up_to_def batch_jobs_def split: sum.splits if_splits)

lemma next_job_check_cases:
  assumes "next_job_check stop elapsed g i = (f, i')"
  obtains (job) j rest where "f = Some (Job j)" "\<not> stop" "\<not> in_stopping i" "in_buffer i = j # rest"
      "i' = i\<lparr> in_buffer := rest, in_idle := fetch_sub1 (in_idle i) \<rparr>"
  | (stop) "f = Some Stop" "stop" "i' = i"
  | (drained) "f = Some Drained" "elapsed" "g \<le> in_drained_generation i" "i' = i"
  | (wait) "f = None" "i' = i"
proof (cases stop)
  case True
  then show thesis using assms by (intro stop) (simp_all add: next_job_check_def)
next
  case run: False
  show thesis
  proof (cases "in_stopping i \<or> in_buffer i = []")
    case True
    then have "intake_claim i = (None, i)" by (auto simp: intake_claim_def)
    then have "(f = Some Drained \<and> elapsed \<and> g \<le> in_drained_generation i \<or> f = None) \<and> i' = i"
      using assms run by (auto simp: next_job_check_def demand_is_drained_def split: if_splits)
    then show thesis using drained wait by blast
  next
    case False
    then obtain j rest where "in_buffer i = j # rest" "\<not> in_stopping i" by (cases "in_buffer i") auto
    then show thesis using assms run by (intro job [of j rest]) (auto simp: next_job_check_def intake_claim_def)
  qed
qed

lemma intake_inv_start: "intake_inv intake_start"
  by (simp add: intake_inv_def intake_start_def intake_new_def)

lemma intake_inv_step:
  assumes "intake_step y y'" "intake_inv y"
  shows "intake_inv y'"
  using assms
proof (induction rule: intake_step.induct)
  case (is_register y g i)
  then show ?case by (auto simp: intake_inv_def register_demand_def Let_def)
next
  case (is_job g y stop elapsed j i)
  from is_job(2) show ?case
    by (rule next_job_check_cases) (use is_job(1,3) in \<open>auto simp: intake_inv_def fetch_sub1_def length_remove1 dest: notin_set_remove1\<close>)
next
  case (is_leave g y stop elapsed f i budget)
  from is_leave(2) show ?case
    by (rule next_job_check_cases)
      (use is_leave(1,3,4) in \<open>auto simp: intake_inv_def leave_processor_def withdraw_demand_def fetch_sub1_def length_remove1 dest: notin_set_remove1\<close>)
next
  case (is_fetch g y budget now stopped lease_failing want r nx fs i)
  then show ?case using fetch_round_intake [OF is_fetch(2)] by (auto simp: intake_inv_def max_def split: if_splits)
next
  case (is_stop y)
  then show ?case by (simp add: intake_inv_def begin_shutdown_def)
next
  case (is_drain y j rest)
  then show ?case by (auto simp: intake_inv_def)
qed

section \<open>The drain settles every buffered row\<close>

lemma requeue_shutdown_cases:
  assumes H: "holds job j h s" and e: "NUL \<notin> set e"
  shows "(\<exists>h' s'. requeue_shutdown chunks now job e h s = (Inr True, h', s') \<and> status_now j Queued s' \<and>
        only_row j s s' \<and> h_name h' = h_name h) \<or>
    (\<exists>s'. requeue_shutdown chunks now job e h s = (Inr False, h, s') \<and> st_jobs s' = st_jobs s \<and> holds job j h s')"
proof -
  let ?gs = "\<lparr> allow_running = True, allow_swept_abort = True, refund_attempt = True, close_intake = True \<rparr>"
  have q: "j_queue job = h_name h" using H by (simp add: holds_def)
  show ?thesis
  proof (cases "requeue_guard (h_name h) (guard_of_row job) ?gs j")
    case True
    then show ?thesis using requeue_takes [OF H True, of now "Some (truncate_stored_error e)" 0] q e
      by (auto simp: requeue_shutdown_def ensure_owns_def)
  next
    case False
    then show ?thesis using requeue_refused [OF H False, of now "Some (truncate_stored_error e)" 0] q e
      by (auto simp: requeue_shutdown_def ensure_owns_def)
  qed
qed

lemma status_claim_settled:
  "holds job j h s \<Longrightarrow> status_now j st s' \<Longrightarrow> st \<notin> {Running, Aborting} \<Longrightarrow> h_name h' = h_name h \<Longrightarrow> claim_settled job h' s'"
  by (auto simp: claim_settled_def status_now_def holds_def under_claim_def)

lemma drain_one_settles:
  assumes H: "holds job j h s"
  shows "\<exists>c' h' s'. drain_one chunks clk job (c, h, s) = (True, c', h', s') \<and> claim_settled job h' s' \<and>
    only_row j s s' \<and> store_ok s' \<and> h_name h' = h_name h"
proof -
  have ok: "store_ok s" using H by (simp add: holds_def)
  consider (requeued) h' s' where "requeue_shutdown chunks (clk 0) job ''cancelled'' h s = (Inr True, h', s')"
      "status_now j Queued s'" "only_row j s s'" "h_name h' = h_name h"
    | (refused) s' where "requeue_shutdown chunks (clk 0) job ''cancelled'' h s = (Inr False, h, s')"
      "st_jobs s' = st_jobs s" "holds job j h s'"
    using requeue_shutdown_cases [OF H, of "''cancelled''"] by fastforce
  then show ?thesis
  proof cases
    case requeued
    then show ?thesis using status_claim_settled [OF H] store_ok_requeue_shutdown [OF ok requeued(1)]
      by (auto simp: drain_one_def)
  next
    case refused
    obtain h'' s'' where f: "finish chunks (clk 1) job Aborted None None h s' = (Inr True, h'', s'')"
        "status_now j Aborted s''" "only_row j s' s''" "h_name h'' = h_name h"
      using finish_takes [OF refused(3), of Aborted chunks None None "clk 1"] holds_guards(1) [OF refused(3), of Aborted] by auto
    have "store_ok s''" using store_ok_finish [OF _ f(1)] refused(3) by (simp add: holds_def)
    then show ?thesis using f refused status_claim_settled [OF refused(3) f(2)]
      by (auto simp: drain_one_def only_row_def)
  qed
qed

lemma holds_other:
  assumes "holds job j h s" "only_row j0 s s'" "store_ok s'" "h_name h' = h_name h" "j_id job \<noteq> j_id j0"
  shows "holds job j h' s'"
  using assms by (auto simp: holds_def only_row_def under_claim_def)

lemma drain_settles:
  assumes "\<And>job. job \<in> set buffer \<Longrightarrow> \<exists>j. holds job j h s" "distinct (map j_id buffer)"
    "length buffer \<le> length (filter Not fails)"
  shows "\<exists>c' h' s'. drain_on_shutdown chunks clk fails buffer (c, h, s) = ([], c', h', s') \<and>
    (\<forall>job\<in>set buffer. claim_settled job h' s') \<and> h_name h' = h_name h \<and>
    (\<forall>x. j_id x \<notin> j_id ` set buffer \<longrightarrow> (x \<in> set (st_jobs s') \<longleftrightarrow> x \<in> set (st_jobs s)))"
  using assms
proof (induction chunks clk fails buffer "(c, h, s)" arbitrary: c h s rule: drain_on_shutdown.induct)
  case (3 chunks clk f fails job buffer)
  show ?case
  proof (cases f)
    case True
    then show ?thesis using 3 by simp
  next
    case False
    obtain j where H: "holds job j h s" using "3.prems"(1) by auto
    have jid: "j_id j = j_id job" using H by (auto simp: holds_def under_claim_def)
    obtain c1 h1 s1 where d: "drain_one chunks (clk (length fails)) job (c, h, s) = (True, c1, h1, s1)"
        "claim_settled job h1 s1" "only_row j s s1" "store_ok s1" "h_name h1 = h_name h"
      using drain_one_settles [OF H] by blast
    have "\<exists>j. holds job' j h1 s1" if b: "job' \<in> set buffer" for job'
    proof -
      obtain j' where "holds job' j' h s" using "3.prems"(1) [of job'] b by auto
      moreover have "j_id job' \<noteq> j_id j" using "3.prems"(2) b jid by (metis distinct.simps(2) image_eqI list.set_map list.simps(9))
      ultimately show ?thesis using holds_other [OF _ d(3,4,5)] by blast
    qed
    then obtain c' h' s' where r: "drain_on_shutdown chunks clk fails buffer (c1, h1, s1) = ([], c', h', s')"
        "\<forall>job\<in>set buffer. claim_settled job h' s'" "h_name h' = h_name h1"
        "\<forall>x. j_id x \<notin> j_id ` set buffer \<longrightarrow> (x \<in> set (st_jobs s') \<longleftrightarrow> x \<in> set (st_jobs s1))"
      using "3.hyps"(2) [OF _ d(1) [symmetric] refl] "3.prems"(2,3) False by auto
    have "claim_settled job h' s'"
      using d(2) r(3,4) "3.prems"(2) by (auto simp: claim_settled_def under_claim_def)
    then show ?thesis using False d r jid by (auto simp: only_row_def)
  qed
qed auto

section \<open>Properties\<close>



text \<open>
  Shutdown gives every buffered job back. When the rows in the buffer are still held by
  this worker and at least as many rounds reach the database as there are rows, the
  drain empties the buffer however many other rounds fail, and no row it held
  is left running or aborting under its claim. No other job is touched.
\<close>

theorem drain_settles_buffer:
  assumes "\<And>job. job \<in> set buffer \<Longrightarrow> \<exists>j. holds job j h s" "distinct (map j_id buffer)"
    and "length buffer \<le> length (filter Not fails)"
  shows "\<exists>c' h' s'. drain_on_shutdown chunks clk fails buffer (c, h, s) = ([], c', h', s') \<and>
    (\<forall>job\<in>set buffer. \<forall>x\<in>set (st_jobs s'). under_claim (h_name h) (guard_of_row job) x \<longrightarrow> j_status x \<notin> {Running, Aborting}) \<and>
    (\<forall>x. j_id x \<notin> j_id ` set buffer \<longrightarrow> (x \<in> set (st_jobs s') \<longleftrightarrow> x \<in> set (st_jobs s)))"
proof -
  obtain c' h' s' where d: "drain_on_shutdown chunks clk fails buffer (c, h, s) = ([], c', h', s')"
      "\<forall>job\<in>set buffer. claim_settled job h' s'" "h_name h' = h_name h"
      "\<forall>x. j_id x \<notin> j_id ` set buffer \<longrightarrow> (x \<in> set (st_jobs s') \<longleftrightarrow> x \<in> set (st_jobs s))"
    using drain_settles [OF assms] by blast
  show ?thesis using d by (intro exI [of _ c'] exI [of _ h'] exI [of _ s']) (simp add: claim_settled_def)
qed

theorem drain_settles_buffer_witness:
  "\<exists>c' h' s'. drain_on_shutdown (\<lambda>_. []) (\<lambda>_ _. 3000) [True, False] [sample_running]
     (sample_counters, sample_handle, sample_store sample_running) = ([], c', h', s')"
proof -
  have "\<And>job. job \<in> set [sample_running] \<Longrightarrow> \<exists>j. holds job j sample_handle (sample_store sample_running)"
    using sample_holds by auto
  then show ?thesis
    using drain_settles_buffer [of "[sample_running]" sample_handle "sample_store sample_running" "[True, False]" "\<lambda>_. []"
        "\<lambda>_ _. 3000" sample_counters] by auto
qed

end
