(* ===== verification/Worker_Health.thy ===== *)
theory Worker_Health
  imports Worker_Intake
begin

text \<open>
  The health of a worker (\<^verbatim>\<open>worker.rs\<close>): the failures its loops report, the
  snapshot derived from them and published to observers, and what an observer
  sees. Reports run concurrently: the flags of \<^verbatim>\<open>ready\<close> and \<^verbatim>\<open>stopped\<close> are set
  before the lock is taken to publish, so these are two steps; everything else happens
  under the lock and is one step.
\<close>

section \<open>Components\<close>

datatype worker_component =
    CNotification | CDequeue | CDispatch | CFinalize | CAbort | CScheduler | CSweeper | CWorkerInfo

text \<open>The derived order is the order of declaration.\<close>

fun component_index :: "worker_component \<Rightarrow> nat" where
  "component_index CNotification = 0"
| "component_index CDequeue = 1"
| "component_index CDispatch = 2"
| "component_index CFinalize = 3"
| "component_index CAbort = 4"
| "component_index CScheduler = 5"
| "component_index CSweeper = 6"
| "component_index CWorkerInfo = 7"

lemma component_index_inject [simp]: "component_index a = component_index b \<longleftrightarrow> a = b"
  by (cases a; cases b) simp_all

instantiation worker_component :: linorder
begin

definition less_eq_worker_component :: "worker_component \<Rightarrow> worker_component \<Rightarrow> bool" where
  "less_eq_worker_component a b \<longleftrightarrow> component_index a \<le> component_index b"

definition less_worker_component :: "worker_component \<Rightarrow> worker_component \<Rightarrow> bool" where
  "less_worker_component a b \<longleftrightarrow> component_index a < component_index b"

instance
  by standard (auto simp: less_eq_worker_component_def less_worker_component_def intro: component_index_inject [THEN iffD1])

end

definition all_components :: "worker_component list" where
  "all_components = [CNotification, CDequeue, CDispatch, CFinalize, CAbort, CScheduler, CSweeper, CWorkerInfo]"

section \<open>The reporter\<close>

record worker_health_failure =
  hf_component :: worker_component
  hf_message :: string
  hf_since :: timestamp

datatype worker_health_status = Starting | Ready | Degraded | Stopped

record worker_health_snapshot =
  hs_status :: worker_health_status
  hs_failures :: "worker_health_failure list"

text \<open>The watch channel is its current value and the number of values sent.\<close>

record worker_health_reporter =
  hr_current :: worker_health_snapshot
  hr_version :: nat
  hr_failures :: "worker_component \<rightharpoonup> worker_health_failure"
  hr_running :: bool
  hr_stopped :: bool

definition reporter_new :: worker_health_reporter where
  "reporter_new = \<lparr> hr_current = \<lparr> hs_status = Starting, hs_failures = [] \<rparr>, hr_version = 0, hr_failures = Map.empty,
     hr_running = False, hr_stopped = False \<rparr>"

text \<open>The values of the failure map, sorted by component.\<close>

definition sorted_failures :: "(worker_component \<rightharpoonup> worker_health_failure) \<Rightarrow> worker_health_failure list" where
  "sorted_failures failures = sort_key hf_component (List.map_filter failures all_components)"

definition snapshot_of :: "worker_health_reporter \<Rightarrow> worker_health_snapshot" where
  "snapshot_of r =
     (let failures = sorted_failures (hr_failures r)
      in \<lparr> hs_status = (if hr_stopped r then Stopped else if failures \<noteq> [] then Degraded
             else if hr_running r then Ready else Starting),
           hs_failures = failures \<rparr>)"

definition publish :: "worker_health_reporter \<Rightarrow> worker_health_reporter" where
  "publish r =
     (if hr_current r = snapshot_of r then r
      else r\<lparr> hr_current := snapshot_of r, hr_version := hr_version r + 1 \<rparr>)"

definition set_running :: "worker_health_reporter \<Rightarrow> worker_health_reporter" where
  "set_running r = r\<lparr> hr_running := True \<rparr>"

definition set_stopped :: "worker_health_reporter \<Rightarrow> worker_health_reporter" where
  "set_stopped r = r\<lparr> hr_stopped := True \<rparr>"

definition reporter_ready :: "worker_health_reporter \<Rightarrow> worker_health_reporter" where
  "reporter_ready r = publish (set_running r)"

definition reporter_stopped :: "worker_health_reporter \<Rightarrow> worker_health_reporter" where
  "reporter_stopped r = publish (set_stopped r)"

definition reporter_failed :: "timestamp \<Rightarrow> worker_component \<Rightarrow> string \<Rightarrow> worker_health_reporter \<Rightarrow> worker_health_reporter" where
  "reporter_failed now c message r =
     (let f = (case hr_failures r c of
          Some f \<Rightarrow> f\<lparr> hf_message := message \<rparr>
        | None \<Rightarrow> \<lparr> hf_component = c, hf_message = message, hf_since = now \<rparr>)
      in publish (r\<lparr> hr_failures := (hr_failures r)(c \<mapsto> f) \<rparr>))"

definition reporter_recovered :: "worker_component \<Rightarrow> worker_health_reporter \<Rightarrow> worker_health_reporter" where
  "reporter_recovered c r =
     (if hr_failures r c = None then r else publish (r\<lparr> hr_failures := (hr_failures r)(c := None) \<rparr>))"

definition is_failing :: "worker_component \<Rightarrow> worker_health_reporter \<Rightarrow> bool" where
  "is_failing c r \<longleftrightarrow> hr_failures r c \<noteq> None"

section \<open>The observer\<close>

record worker_health =
  wh_seen :: nat
  wh_closed :: bool

definition subscribe :: "worker_health_reporter \<Rightarrow> worker_health" where
  "subscribe r = \<lparr> wh_seen = hr_version r, wh_closed = False \<rparr>"

text \<open>
  \<^verbatim>\<open>changed\<close>: \<open>None\<close> is a call that stays pending. A receiver wakes on a value it has
  not seen, and once more when the sender is gone (\<open>dropped\<close>).
\<close>

definition health_changed :: "bool \<Rightarrow> worker_health_reporter \<Rightarrow> worker_health \<Rightarrow> worker_health_snapshot option \<times> worker_health" where
  "health_changed dropped r o1 =
     (if wh_closed o1 then (None, o1)
      else if wh_seen o1 = hr_version r \<and> \<not> dropped then (None, o1)
      else let o2 = (if wh_seen o1 \<noteq> hr_version r then o1\<lparr> wh_seen := hr_version r \<rparr> else o1\<lparr> wh_closed := True \<rparr>);
               snapshot = hr_current r
           in (Some snapshot, if hs_status snapshot = Stopped then o2\<lparr> wh_closed := True \<rparr> else o2))"

section \<open>Reports in any order\<close>

text \<open>\<open>pending\<close> counts the calls of \<^verbatim>\<open>ready\<close> and \<^verbatim>\<open>stopped\<close> between their two steps.\<close>

inductive health_step :: "worker_health_reporter \<times> nat \<Rightarrow> worker_health_reporter \<times> nat \<Rightarrow> bool" where
  hs_running: "health_step (r, pending) (set_running r, pending + 1)"
| hs_stopping: "health_step (r, pending) (set_stopped r, pending + 1)"
| hs_publish: "health_step (r, Suc pending) (publish r, pending)"
| hs_failed: "health_step (r, pending) (reporter_failed now c message r, pending)"
| hs_recovered: "health_step (r, pending) (reporter_recovered c r, pending)"

lemma publish_current [simp]: "hr_current (publish r) = snapshot_of r" "snapshot_of (publish r) = snapshot_of r"
  "hr_failures (publish r) = hr_failures r" "hr_stopped (publish r) = hr_stopped r" "hr_running (publish r) = hr_running r"
  by (auto simp: publish_def snapshot_of_def)

definition failures_keyed :: "worker_health_reporter \<Rightarrow> bool" where
  "failures_keyed r \<longleftrightarrow> (\<forall>c f. hr_failures r c = Some f \<longrightarrow> hf_component f = c)"

definition health_inv :: "worker_health_reporter \<times> nat \<Rightarrow> bool" where
  "health_inv x \<longleftrightarrow> failures_keyed (fst x) \<and> (snd x = 0 \<longrightarrow> hr_current (fst x) = snapshot_of (fst x))"

lemma health_inv_step: "health_step x y \<Longrightarrow> health_inv x \<Longrightarrow> health_inv y"
  by (induction rule: health_step.induct)
    (auto simp: health_inv_def set_running_def set_stopped_def reporter_failed_def reporter_recovered_def
      failures_keyed_def Let_def split: option.splits if_splits)

lemma all_components_complete [simp]: "set all_components = UNIV"
  using worker_component.exhaust by (auto simp: all_components_def)

lemma set_sorted_failures: "set (sorted_failures m) = ran m"
  by (auto simp: sorted_failures_def List.map_filter_def ran_def image_iff) (metis option.sel)+

lemma sorted_failures_sorted: "sorted (map hf_component (sorted_failures m))"
  by (simp add: sorted_failures_def)

section \<open>Properties\<close>

text \<open>
  Health tells the truth. However the reports of the worker's loops interleave,
  whenever no call is between its two steps the published snapshot is
  the one the failure map implies: exactly the failing components, in
  declaration order; stopped when the run ended, otherwise degraded when
  something is failing, otherwise ready when the worker runs. An observer that
  has seen the stopped state is never woken again.
\<close>

theorem health_snapshot_exact:
  assumes "health_step\<^sup>*\<^sup>* (reporter_new, 0) (r, 0)"
  shows "set (hs_failures (hr_current r)) = ran (hr_failures r) \<and> sorted (map hf_component (hs_failures (hr_current r))) \<and>
    (hs_status (hr_current r) = Stopped \<longleftrightarrow> hr_stopped r) \<and>
    (hs_status (hr_current r) = Degraded \<longleftrightarrow> \<not> hr_stopped r \<and> (\<exists>c. is_failing c r)) \<and>
    (hs_status (hr_current r) = Ready \<longleftrightarrow> \<not> hr_stopped r \<and> (\<forall>c. \<not> is_failing c r) \<and> hr_running r) \<and>
    (hr_stopped r \<longrightarrow> wh_closed (snd (health_changed dropped r o1)) \<or> fst (health_changed dropped r o1) = None)"
proof -
  have "health_inv (reporter_new, 0)"
    by (simp add: health_inv_def failures_keyed_def reporter_new_def snapshot_of_def sorted_failures_def List.map_filter_def)
  with assms have "health_inv (r, 0)" by (induction rule: rtranclp_induct) (auto intro: health_inv_step)
  then have c: "hr_current r = snapshot_of r" by (simp add: health_inv_def)
  have e: "sorted_failures (hr_failures r) = [] \<longleftrightarrow> (\<forall>c. \<not> is_failing c r)"
    using set_sorted_failures [of "hr_failures r"] by (auto simp: is_failing_def ran_def simp flip: set_empty)
  have st: "hs_status (snapshot_of r) = (if hr_stopped r then Stopped else if \<exists>c. is_failing c r then Degraded
      else if hr_running r then Ready else Starting)"
    using e by (auto simp: snapshot_of_def Let_def)
  show ?thesis
    using set_sorted_failures sorted_failures_sorted unfolding c st
    by (auto simp: snapshot_of_def Let_def health_changed_def c)
qed

theorem health_snapshot_exact_witness:
  "hs_status (hr_current (reporter_failed 5 CDequeue ''down'' reporter_new)) = Degraded"
proof -
  let ?r = "reporter_failed 5 CDequeue ''down'' reporter_new"
  have "health_step (reporter_new, 0) (?r, 0)" by (rule hs_failed)
  then have r: "health_step\<^sup>*\<^sup>* (reporter_new, 0) (?r, 0)" by (rule r_into_rtranclp)
  have "is_failing CDequeue ?r" "\<not> hr_stopped ?r"
    by (simp_all add: is_failing_def reporter_failed_def reporter_new_def Let_def)
  then show ?thesis using health_snapshot_exact [OF r] by blast
qed

end
