(* ===== verification/Worker_Schedule.thy ===== *)
theory Worker_Schedule
  imports Worker_Health "HOL-Library.AList" "HOL-Library.Sublist"
begin

text \<open>
  The cron scheduling of a worker (\<^verbatim>\<open>worker.rs\<close>): what it keeps about its crons
  between passes, reconciliation, one scheduling pass, a pass cut by its deadline, the
  scheduling of a burst, and what is reported to health. The database
  calls of a pass are a record of functions, \<open>cron_io\<close>; \<open>database_io\<close> is that
  record on the operations of \<^verbatim>\<open>Cron_Schedule\<close>, with answers that may be lost.
  Log lines are left out.
\<close>

section \<open>State\<close>

definition MAX_CRON_CONTENDED_TICKS :: nat where "MAX_CRON_CONTENDED_TICKS = 3"

record cron_scheduling_state =
  css_disabled :: "string set"
  css_unreconciled :: "string set"
  css_disabled_reasons :: "string list"
  css_rejected :: "string list"
  css_contended :: "(string \<times> nat) list"

definition cron_scheduling_state_default :: cron_scheduling_state where
  "cron_scheduling_state_default = \<lparr> css_disabled = {}, css_unreconciled = {}, css_disabled_reasons = [], css_rejected = [],
     css_contended = [] \<rparr>"

definition cron_failures :: "cron_scheduling_state \<Rightarrow> string list" where
  "cron_failures st = css_disabled_reasons st @ css_rejected st @
     sort (map (\<lambda>(key, ticks). key @ '': cron schedule row remained locked for at least '' @
         decimal MAX_CRON_CONTENDED_TICKS @ '' consecutive passes'')
       (filter (\<lambda>(key, ticks). ticks \<ge> MAX_CRON_CONTENDED_TICKS) (css_contended st)))"

definition report_scheduler :: "timestamp \<Rightarrow> string list \<Rightarrow> worker_health_reporter \<Rightarrow> worker_health_reporter" where
  "report_scheduler now failures r =
     (if failures = [] then reporter_recovered CScheduler r
      else reporter_failed now CScheduler (join_with ''; '' failures) r)"

section \<open>Reconciliation\<close>

record cron_io =
  io_clock :: "cron_entry \<Rightarrow> timestamp result"
  io_reconcile :: "cron_entry \<Rightarrow> timestamp \<Rightarrow> store \<Rightarrow> cron_authority result \<times> store"
  io_due :: "string list \<Rightarrow> timestamp option \<Rightarrow> store \<Rightarrow> string list result"
  io_schedule :: "cron_entry \<Rightarrow> timestamp option \<Rightarrow> store \<Rightarrow> cron_schedule_result result \<times> store"

definition failure_reason :: "(uuid \<Rightarrow> string) \<Rightarrow> string \<Rightarrow> error \<Rightarrow> string" where
  "failure_reason show_uuid key e = key @ '': '' @ error_display show_uuid e"

definition superseded_reason :: "cron_entry \<Rightarrow> int \<Rightarrow> string" where
  "superseded_reason e revision = ce_dedupe_key e @ '': local cron revision '' @ decimal (opt_revision (ce_options e)) @
     '' is superseded by durable revision '' @ int_decimal revision"

definition retry_later :: "string \<Rightarrow> cron_scheduling_state \<Rightarrow> cron_scheduling_state" where
  "retry_later key st = st\<lparr> css_unreconciled := insert key (css_unreconciled st) \<rparr>"

definition disable :: "string \<Rightarrow> string \<Rightarrow> cron_scheduling_state \<Rightarrow> cron_scheduling_state" where
  "disable key reason st = st\<lparr> css_disabled := insert key (css_disabled st),
     css_disabled_reasons := css_disabled_reasons st @ [reason] \<rparr>"

definition reconciled :: "string \<Rightarrow> cron_scheduling_state \<Rightarrow> cron_scheduling_state" where
  "reconciled key st = st\<lparr> css_unreconciled := css_unreconciled st - {key} \<rparr>"

definition reconcile_one ::
    "(uuid \<Rightarrow> string) \<Rightarrow> cron_io \<Rightarrow> cron_entry \<Rightarrow> cron_scheduling_state \<times> store \<Rightarrow> cron_scheduling_state \<times> store" where
  "reconcile_one show_uuid io e x =
     (let (st, s) = x; key = ce_dedupe_key e;
          rejected = (\<lambda>err. retry_later key (st\<lparr> css_rejected := css_rejected st @ [failure_reason show_uuid key err] \<rparr>))
      in case io_clock io e of
           Inl err \<Rightarrow> (rejected err, s)
         | Inr now \<Rightarrow>
             (case io_reconcile io e now s of
                (Inr Active, s') \<Rightarrow> (reconciled key st, s')
              | (Inr (Inactive revision), s') \<Rightarrow> (disable key (superseded_reason e revision) (reconciled key st), s')
              | (Inl (Config m), s') \<Rightarrow> (disable key (failure_reason show_uuid key (Config m)) (reconciled key st), s')
              | (Inl err, s') \<Rightarrow> (rejected err, s')))"

definition selected :: "string set option \<Rightarrow> cron_entry list \<Rightarrow> cron_entry list" where
  "selected retry_keys crons =
     filter (\<lambda>e. case retry_keys of None \<Rightarrow> True | Some keys \<Rightarrow> ce_dedupe_key e \<in> keys) crons"

definition reconcile_crons_into ::
    "(uuid \<Rightarrow> string) \<Rightarrow> cron_io \<Rightarrow> string set option \<Rightarrow> cron_entry list \<Rightarrow> cron_scheduling_state \<times> store
     \<Rightarrow> cron_scheduling_state \<times> store" where
  "reconcile_crons_into show_uuid io retry_keys crons x = fold (reconcile_one show_uuid io) (selected retry_keys crons) x"

definition retry_unreconciled ::
    "(uuid \<Rightarrow> string) \<Rightarrow> cron_io \<Rightarrow> cron_entry list \<Rightarrow> cron_scheduling_state \<times> store \<Rightarrow> cron_scheduling_state \<times> store" where
  "retry_unreconciled show_uuid io crons x =
     (let (st, s) = x in
      if css_unreconciled st = {} then x
      else reconcile_crons_into show_uuid io (Some (css_unreconciled st)) crons (st\<lparr> css_rejected := [] \<rparr>, s))"

section \<open>A scheduling pass\<close>

record cron_pass =
  ps_state :: cron_scheduling_state
  ps_holder_warned :: "string set"
  ps_failures :: "string list"
  ps_advance_again :: bool
  ps_store :: store

definition pass_candidates :: "cron_entry list \<Rightarrow> cron_scheduling_state \<Rightarrow> string list" where
  "pass_candidates crons st =
     map ce_dedupe_key (filter (\<lambda>e. ce_dedupe_key e \<notin> css_disabled st \<and> ce_dedupe_key e \<notin> css_unreconciled st) crons)"

definition pass_due ::
    "cron_io \<Rightarrow> timestamp option \<Rightarrow> cron_entry list \<Rightarrow> cron_scheduling_state \<Rightarrow> store \<Rightarrow> string list" where
  "pass_due io through crons st s =
     (let candidates = pass_candidates crons st in
      if candidates = [] then []
      else case io_due io candidates through s of Inr due \<Rightarrow> due | Inl err \<Rightarrow> candidates)"

text \<open>\<open>ticks\<close> saturates at the end of 32 bits.\<close>

definition count_contended :: "string \<Rightarrow> cron_scheduling_state \<Rightarrow> cron_scheduling_state" where
  "count_contended key st =
     (let ticks = (case map_of (css_contended st) key of Some n \<Rightarrow> n | None \<Rightarrow> 0)
      in st\<lparr> css_contended := AList.update key (min (ticks + 1) 4294967295) (css_contended st) \<rparr>)"

definition conflict_reason :: "cron_entry \<Rightarrow> string" where
  "conflict_reason e =
     ce_dedupe_key e @ '': stored definition conflicts with revision '' @ decimal (opt_revision (ce_options e))"

definition schedule_one ::
    "(uuid \<Rightarrow> string) \<Rightarrow> cron_io \<Rightarrow> timestamp option \<Rightarrow> cron_entry \<Rightarrow> cron_pass \<Rightarrow> cron_pass" where
  "schedule_one show_uuid io through e p =
     (let (scheduled, s') = io_schedule io e through (ps_store p); key = ce_dedupe_key e; st = ps_state p;
          p0 = p\<lparr> ps_store := s',
            ps_state := (if scheduled = Inr Contended then st
                         else st\<lparr> css_contended := AList.delete key (css_contended st) \<rparr>) \<rparr>;
          moved = p0\<lparr> ps_advance_again := ps_advance_again p \<or> through \<noteq> None \<rparr>
      in case scheduled of
           Inr NotDue \<Rightarrow> p0
         | Inr Contended \<Rightarrow> p0\<lparr> ps_state := count_contended key (ps_state p0) \<rparr>
         | Inr (Published i occurrence) \<Rightarrow> moved\<lparr> ps_holder_warned := ps_holder_warned p - {key} \<rparr>
         | Inr (AlreadyPublished occurrence) \<Rightarrow> moved\<lparr> ps_holder_warned := ps_holder_warned p - {key} \<rparr>
         | Inr (SkippedStale occurrence) \<Rightarrow> moved
         | Inr (SkippedHeld occurrence existing) \<Rightarrow> moved\<lparr> ps_holder_warned := insert key (ps_holder_warned p) \<rparr>
         | Inr (Superseded revision) \<Rightarrow> p0\<lparr> ps_state := disable key (superseded_reason e revision) (ps_state p0) \<rparr>
         | Inr (Conflicting revision) \<Rightarrow> p0\<lparr> ps_state := disable key (conflict_reason e) (ps_state p0) \<rparr>
         | Inl err \<Rightarrow> p0\<lparr> ps_state := retry_later key (ps_state p0),
              ps_failures := ps_failures p @ [failure_reason show_uuid (rq_name (ce_template e)) err] \<rparr>)"

definition begin_pass :: "string list \<Rightarrow> string set \<Rightarrow> cron_scheduling_state \<times> store \<Rightarrow> cron_pass" where
  "begin_pass due holder_warned x =
     (let (st, s) = x in
      \<lparr> ps_state = st\<lparr> css_contended := filter (\<lambda>(key, ticks). key \<in> set due) (css_contended st) \<rparr>,
        ps_holder_warned = holder_warned, ps_failures = [], ps_advance_again = False, ps_store = s \<rparr>)"

definition schedule_due ::
    "(uuid \<Rightarrow> string) \<Rightarrow> cron_io \<Rightarrow> timestamp option \<Rightarrow> string list \<Rightarrow> cron_entry list \<Rightarrow> cron_pass \<Rightarrow> cron_pass" where
  "schedule_due show_uuid io through due crons p =
     fold (schedule_one show_uuid io through) (filter (\<lambda>e. ce_dedupe_key e \<in> set due) crons) p"

text \<open>What a worker's scheduler owns and works on.\<close>

record cron_worker =
  cw_state :: cron_scheduling_state
  cw_holder_warned :: "string set"
  cw_store :: store
  cw_health :: worker_health_reporter

definition schedule_crons_once ::
    "(uuid \<Rightarrow> string) \<Rightarrow> cron_io \<Rightarrow> timestamp \<Rightarrow> timestamp option \<Rightarrow> cron_entry list \<Rightarrow> cron_worker \<Rightarrow> bool \<times> cron_worker" where
  "schedule_crons_once show_uuid io now through crons w =
     (let (st, s) = retry_unreconciled show_uuid io crons (cw_state w, cw_store w);
          due = pass_due io through crons st s;
          p = schedule_due show_uuid io through due crons (begin_pass due (cw_holder_warned w) (st, s))
      in (ps_advance_again p,
          \<lparr> cw_state = ps_state p, cw_holder_warned = ps_holder_warned p, cw_store = ps_store p,
            cw_health = report_scheduler now (cron_failures (ps_state p) @ ps_failures p) (cw_health w) \<rparr>))"

definition reconcile_all_crons ::
    "(uuid \<Rightarrow> string) \<Rightarrow> cron_io \<Rightarrow> timestamp \<Rightarrow> cron_entry list \<Rightarrow> cron_worker \<Rightarrow> cron_worker" where
  "reconcile_all_crons show_uuid io now crons w =
     (let (st, s) = reconcile_crons_into show_uuid io None crons (cw_state w, cw_store w)
      in w\<lparr> cw_state := st, cw_store := s, cw_health := report_scheduler now (cron_failures st) (cw_health w) \<rparr>)"

text \<open>
  A pass that reaches its deadline is dropped at the call it waits for: after some entries of
  the reconciliation, at the due check, or after some entries of the scheduling. What
  the call in flight does to the store is \<open>late\<close>.
\<close>

datatype cut_point = CutReconciling nat | CutDue | CutScheduling nat

definition cut_pass ::
    "(uuid \<Rightarrow> string) \<Rightarrow> cron_io \<Rightarrow> cut_point \<Rightarrow> timestamp option \<Rightarrow> cron_entry list \<Rightarrow> cron_worker \<Rightarrow> cron_worker" where
  "cut_pass show_uuid io point through crons w =
     (let st0 = cw_state w; (st, s) = retry_unreconciled show_uuid io crons (st0, cw_store w) in
      case point of
        CutReconciling n \<Rightarrow>
          (let (st', s') = (if css_unreconciled st0 = {} then (st0, cw_store w)
                else fold (reconcile_one show_uuid io) (take n (selected (Some (css_unreconciled st0)) crons))
                       (st0\<lparr> css_rejected := [] \<rparr>, cw_store w))
           in w\<lparr> cw_state := st', cw_store := s' \<rparr>)
      | CutDue \<Rightarrow> w\<lparr> cw_state := st, cw_store := s \<rparr>
      | CutScheduling n \<Rightarrow>
          (let due = pass_due io through crons st s;
               p = schedule_due show_uuid io through due (take n crons) (begin_pass due (cw_holder_warned w) (st, s))
           in w\<lparr> cw_state := ps_state p, cw_holder_warned := ps_holder_warned p, cw_store := ps_store p \<rparr>))"

definition timed_out_pass ::
    "(uuid \<Rightarrow> string) \<Rightarrow> cron_io \<Rightarrow> cut_point \<Rightarrow> (store \<Rightarrow> store) \<Rightarrow> timestamp \<Rightarrow> timestamp option \<Rightarrow> cron_entry list
     \<Rightarrow> cron_worker \<Rightarrow> cron_worker" where
  "timed_out_pass show_uuid io point late now through crons w =
     (let w' = cut_pass show_uuid io point through crons w
      in w'\<lparr> cw_store := late (cw_store w'),
             cw_health := reporter_failed now CScheduler ''cron scheduling pass exceeded its deadline'' (cw_health w') \<rparr>)"

section \<open>A burst\<close>

abbreviation burst_failed :: error where
  "burst_failed \<equiv> WorkerTask ''burst cron scheduling failed for the whole dequeue timeout''"

text \<open>
  The two loops, over their rounds: a reading of the database clock, then passes. \<open>late\<close> says
  that the deadline of the burst has passed when the round is over, and \<open>None\<close> that the rounds
  given did not end the loop. Between two rounds other processes change the store (\<open>env\<close>).
\<close>

fun burst_boundary ::
    "(uuid \<Rightarrow> string) \<Rightarrow> (timestamp result \<times> timestamp \<times> bool) list \<Rightarrow> cron_worker \<Rightarrow> (timestamp result \<times> cron_worker) option" where
  "burst_boundary show_uuid [] w = None"
| "burst_boundary show_uuid ((clock, now, late) # rounds) w =
     (case clock of
        Inr through \<Rightarrow> Some (Inr through, w)
      | Inl err \<Rightarrow>
          (let w' = w\<lparr> cw_health := reporter_failed now CScheduler (join_with ''; '' (cron_failures (cw_state w) @
                 [''could not read burst cron boundary: '' @ error_display show_uuid err])) (cw_health w) \<rparr>
           in if late then Some (Inl burst_failed, w') else burst_boundary show_uuid rounds w'))"

record burst_round =
  br_env :: "store \<Rightarrow> store"
  br_io :: cron_io
  br_cut :: "(cut_point \<times> (store \<Rightarrow> store)) option"
  br_now :: timestamp
  br_late :: bool

fun burst_passes ::
    "(uuid \<Rightarrow> string) \<Rightarrow> timestamp \<Rightarrow> cron_entry list \<Rightarrow> burst_round list \<Rightarrow> cron_worker \<Rightarrow> (unit result \<times> cron_worker) option" where
  "burst_passes show_uuid through crons [] w = None"
| "burst_passes show_uuid through crons (b # rounds) w =
     (let w0 = w\<lparr> cw_store := br_env b (cw_store w) \<rparr> in
      case br_cut b of
        Some (point, late) \<Rightarrow>
          (let w' = timed_out_pass show_uuid (br_io b) point late (br_now b) (Some through) crons w0
           in if br_late b then Some (Inl burst_failed, w') else burst_passes show_uuid through crons rounds w')
      | None \<Rightarrow>
          (case schedule_crons_once show_uuid (br_io b) (br_now b) (Some through) crons w0 of (advanced, w') \<Rightarrow>
             if css_unreconciled (cw_state w') = {}
             then (if advanced then burst_passes show_uuid through crons rounds w' else Some (Inr (), w'))
             else if br_late b then Some (Inl burst_failed, w') else burst_passes show_uuid through crons rounds w'))"

definition schedule_burst_crons ::
    "(uuid \<Rightarrow> string) \<Rightarrow> cron_entry list \<Rightarrow> (timestamp result \<times> timestamp \<times> bool) list \<Rightarrow> burst_round list \<Rightarrow> cron_worker
     \<Rightarrow> (unit result \<times> cron_worker) option" where
  "schedule_burst_crons show_uuid crons clocks rounds w =
     (case burst_boundary show_uuid clocks w of
        None \<Rightarrow> None
      | Some (Inl err, w') \<Rightarrow> Some (Inl err, w')
      | Some (Inr through, w') \<Rightarrow> burst_passes show_uuid through crons rounds w')"

section \<open>The calls of a pass on the database model\<close>

text \<open>
  How a call goes: it is answered, it does not reach the database, or it commits and its
  answer is lost (both also stand for the worker's deadline on database operations).
\<close>

datatype call_fate = Answers | Unreached error | Unheard error

fun call :: "call_fate \<Rightarrow> 'a result \<times> store \<Rightarrow> store \<Rightarrow> 'a result \<times> store" where
  "call Answers r s = r"
| "call (Unreached err) r s = (Inl err, s)"
| "call (Unheard err) r s = (Inl err, snd r)"

record io_round =
  ir_clock :: "cron_entry \<Rightarrow> call_fate"
  ir_reconcile :: "cron_entry \<Rightarrow> call_fate"
  ir_due :: call_fate
  ir_schedule :: "cron_entry \<Rightarrow> call_fate"
  ir_now :: "cron_entry \<Rightarrow> timestamp"
  ir_due_now :: timestamp
  ir_contended :: "cron_entry \<Rightarrow> bool"
  ir_new :: "cron_entry \<Rightarrow> uuid"

definition database_io :: "(json \<Rightarrow> json \<Rightarrow> bool) \<Rightarrow> handle \<Rightarrow> io_round \<Rightarrow> cron_io" where
  "database_io jsonb_eq h i = \<lparr>
     io_clock = (\<lambda>e. case ir_clock i e of Answers \<Rightarrow> Inr (ir_now i e) | Unreached err \<Rightarrow> Inl err | Unheard err \<Rightarrow> Inl err),
     io_reconcile = (\<lambda>e now s. call (ir_reconcile i e) (reconcile_cron jsonb_eq (ir_now i e) e now h s) s),
     io_due = (\<lambda>keys through s. fst (call (ir_due i) (Inr (due_crons (ir_due_now i) keys through h s), s) s)),
     io_schedule = (\<lambda>e through s. call (ir_schedule i e) (schedule_cron jsonb_eq id id id id (ir_contended i e)
        (ir_now i e) (ir_now i e) (ir_now i e) (ir_new i e) e through h s) s) \<rparr>"

section \<open>The scheduler at work\<close>

definition due_within :: "cron_io \<Rightarrow> bool" where
  "due_within io \<longleftrightarrow> (\<forall>keys through s due. io_due io keys through s = Inr due \<longrightarrow> set due \<subseteq> set keys)"

text \<open>
  A worker's scheduler after its start: passes on timer, passes cut by their deadline, the
  other processes' writes, and the reports of the worker's other components.
\<close>

inductive cron_step :: "(uuid \<Rightarrow> string) \<Rightarrow> cron_entry list \<Rightarrow> cron_worker \<Rightarrow> cron_worker \<Rightarrow> bool" for show_uuid crons where
  cs_pass: "due_within io \<Longrightarrow> cron_step show_uuid crons w (snd (schedule_crons_once show_uuid io now through crons w))"
| cs_cut: "due_within io \<Longrightarrow> cron_step show_uuid crons w (timed_out_pass show_uuid io point late now through crons w)"
| cs_foreign: "cron_step show_uuid crons w (w\<lparr> cw_store := s \<rparr>)"
| cs_other_failed: "c \<noteq> CScheduler \<Longrightarrow> cron_step show_uuid crons w (w\<lparr> cw_health := reporter_failed now c m (cw_health w) \<rparr>)"
| cs_other_recovered: "c \<noteq> CScheduler \<Longrightarrow> cron_step show_uuid crons w (w\<lparr> cw_health := reporter_recovered c (cw_health w) \<rparr>)"

inductive cron_reachable :: "(uuid \<Rightarrow> string) \<Rightarrow> cron_entry list \<Rightarrow> cron_worker \<Rightarrow> bool" for show_uuid crons where
  cr_start: "cw_state w = cron_scheduling_state_default \<Longrightarrow>
    cron_reachable show_uuid crons (reconcile_all_crons show_uuid io now crons w)"
| cr_step: "cron_reachable show_uuid crons w \<Longrightarrow> cron_step show_uuid crons w w' \<Longrightarrow> cron_reachable show_uuid crons w'"

text \<open>A disabled cron has its reason and is not waiting for reconciliation.\<close>

definition state_ok :: "cron_scheduling_state \<Rightarrow> bool" where
  "state_ok st \<longleftrightarrow> css_disabled st \<inter> css_unreconciled st = {} \<and>
     (\<forall>k\<in>css_disabled st. \<exists>r\<in>set (css_disabled_reasons st). prefix (k @ '': '') r)"

text \<open>What handling one entry may do: only its own key changes, and a key that becomes disabled has a reason.\<close>

definition touches :: "string \<Rightarrow> cron_scheduling_state \<Rightarrow> cron_scheduling_state \<Rightarrow> bool" where
  "touches k st st' \<longleftrightarrow> css_disabled st \<subseteq> css_disabled st' \<and> css_disabled st' \<subseteq> insert k (css_disabled st) \<and>
     css_unreconciled st' - {k} = css_unreconciled st - {k} \<and>
     set (css_disabled_reasons st) \<subseteq> set (css_disabled_reasons st') \<and>
     (k \<in> css_disabled st' \<longrightarrow> k \<in> css_disabled st \<or>
        ((k \<in> css_unreconciled st' \<longrightarrow> k \<in> css_unreconciled st) \<and> (\<exists>r\<in>set (css_disabled_reasons st'). prefix (k @ '': '') r)))"

lemma touches_reconcile_one: "touches (ce_dedupe_key e) (fst x) (fst (reconcile_one show_uuid io e x))"
  by (cases x) (auto simp: touches_def reconcile_one_def disable_def reconciled_def retry_later_def superseded_reason_def
      failure_reason_def prefix_def Let_def split: sum.split prod.split cron_authority.split error.split)

lemma reconcile_one_unreconciled:
  "ce_dedupe_key e \<in> css_disabled (fst (reconcile_one show_uuid io e x)) \<Longrightarrow> ce_dedupe_key e \<notin> css_disabled (fst x) \<Longrightarrow>
     ce_dedupe_key e \<notin> css_unreconciled (fst (reconcile_one show_uuid io e x))"
  by (cases x) (auto simp: reconcile_one_def disable_def reconciled_def retry_later_def Let_def
      split: sum.splits prod.splits cron_authority.splits error.splits)

lemma touches_schedule_one: "touches (ce_dedupe_key e) (ps_state p) (ps_state (schedule_one show_uuid io through e p))"
  by (auto simp: touches_def schedule_one_def disable_def retry_later_def superseded_reason_def conflict_reason_def
      count_contended_def prefix_def Let_def split: sum.split prod.split cron_schedule_result.split)

lemma schedule_one_unreconciled:
  "ce_dedupe_key e \<in> css_disabled (ps_state (schedule_one show_uuid io through e p)) \<Longrightarrow>
     ce_dedupe_key e \<notin> css_unreconciled (ps_state p) \<Longrightarrow> ce_dedupe_key e \<notin> css_disabled (ps_state p) \<Longrightarrow>
     ce_dedupe_key e \<notin> css_unreconciled (ps_state (schedule_one show_uuid io through e p))"
  by (auto simp: schedule_one_def disable_def retry_later_def count_contended_def Let_def
      split: sum.splits prod.splits cron_schedule_result.splits if_splits)

text \<open>
  A walk over the registered entries, each handled by \<open>f\<close>: the contract that
  reconciliation and scheduling share. \<open>ready\<close> is what an entry needs to be handled.
\<close>

locale entry_walk =
  fixes f :: "cron_entry \<Rightarrow> 'x \<Rightarrow> 'x" and g :: "'x \<Rightarrow> cron_scheduling_state"
    and ready :: "string \<Rightarrow> cron_scheduling_state \<Rightarrow> bool"
  assumes touch: "touches (ce_dedupe_key e) (g x) (g (f e x))"
    and ready_stable: "ready k st \<Longrightarrow> touches k' st st' \<Longrightarrow> k \<noteq> k' \<Longrightarrow> ready k st'"
    and settle: "ready (ce_dedupe_key e) (g x) \<Longrightarrow> ce_dedupe_key e \<notin> css_disabled (g x) \<Longrightarrow>
      ce_dedupe_key e \<in> css_disabled (g (f e x)) \<Longrightarrow> ce_dedupe_key e \<notin> css_unreconciled (g (f e x))"
begin

lemma walk_mono: "css_disabled (g x) \<subseteq> css_disabled (g (fold f es x))"
proof (induction es arbitrary: x)
  case (Cons e es)
  then show ?case using touch [of e x] unfolding touches_def by fastforce
qed simp

lemma handle_ok_state:
  assumes "state_ok (g x)" "ce_dedupe_key e \<notin> css_disabled (g x)" "ready (ce_dedupe_key e) (g x)"
  shows "state_ok (g (f e x))"
proof -
  let ?k = "ce_dedupe_key e" and ?st = "g (f e x)"
  note t = touch [of e x, unfolded touches_def]
  have "k \<notin> css_unreconciled ?st \<and> (\<exists>r\<in>set (css_disabled_reasons ?st). prefix (k @ '': '') r)" if k: "k \<in> css_disabled ?st" for k
  proof (cases "k = ?k")
    case True
    then show ?thesis using k t assms(2) settle [OF assms(3,2)] by blast
  next
    case False
    then have "k \<in> css_disabled (g x)" using k t by blast
    then have "k \<notin> css_unreconciled (g x)" "\<exists>r\<in>set (css_disabled_reasons (g x)). prefix (k @ '': '') r"
      using assms(1) by (auto simp: state_ok_def)
    then show ?thesis using t False by blast
  qed
  then show ?thesis unfolding state_ok_def by blast
qed

lemma walk_ok:
  "state_ok (g x) \<Longrightarrow> distinct (map ce_dedupe_key es) \<Longrightarrow>
     (\<And>e. e \<in> set es \<Longrightarrow> ce_dedupe_key e \<notin> css_disabled (g x) \<and> ready (ce_dedupe_key e) (g x)) \<Longrightarrow>
     state_ok (g (fold f es x))"
proof (induction es arbitrary: x)
  case (Cons e es)
  have "ce_dedupe_key e' \<notin> css_disabled (g (f e x)) \<and> ready (ce_dedupe_key e') (g (f e x))" if e': "e' \<in> set es" for e'
  proof -
    have ne: "ce_dedupe_key e' \<noteq> ce_dedupe_key e" using Cons.prems(2) e' by (metis distinct.simps(2) image_eqI list.set_map list.simps(9))
    have p: "ce_dedupe_key e' \<notin> css_disabled (g x)" "ready (ce_dedupe_key e') (g x)" using Cons.prems(3) [of e'] e' by auto
    then show ?thesis using ready_stable [OF p(2) touch ne] ne touch [of e x] unfolding touches_def by blast
  qed
  then show ?case using Cons handle_ok_state [of x e] by simp
qed simp

end

interpretation reconciling: entry_walk "reconcile_one show_uuid io" fst "\<lambda>k st. True" for show_uuid io
  by unfold_locales (use touches_reconcile_one reconcile_one_unreconciled in auto)

interpretation scheduling: entry_walk "schedule_one show_uuid io through" ps_state "\<lambda>k st. k \<notin> css_unreconciled st"
  for show_uuid io through
  by unfold_locales (use touches_schedule_one schedule_one_unreconciled in \<open>auto simp: touches_def\<close>)

lemma distinct_selected: "distinct (map ce_dedupe_key crons) \<Longrightarrow> distinct (map ce_dedupe_key (selected keys crons))"
  by (simp add: selected_def distinct_map_filter)

lemma state_ok_clear [simp]: "state_ok (st\<lparr> css_rejected := r \<rparr>) = state_ok st" "state_ok (st\<lparr> css_contended := c \<rparr>) = state_ok st"
  by (simp_all add: state_ok_def)

lemma reconcile_ok:
  assumes "distinct (map ce_dedupe_key crons)" "state_ok st"
  shows "state_ok (fst (retry_unreconciled show_uuid io crons (st, s)))"
    and "state_ok (fst (fold (reconcile_one show_uuid io) (take n (selected (Some (css_unreconciled st)) crons))
      (st\<lparr> css_rejected := [] \<rparr>, s)))"
proof -
  let ?es = "selected (Some (css_unreconciled st)) crons" and ?x = "(st\<lparr> css_rejected := [] \<rparr>, s)"
  have d: "distinct (map ce_dedupe_key ?es)" using distinct_selected [OF assms(1)] .
  have f: "ce_dedupe_key e \<notin> css_disabled (fst ?x) \<and> True" if "e \<in> set ?es" for e
    using that assms(2) by (auto simp: selected_def state_ok_def)
  have "state_ok (fst (fold (reconcile_one show_uuid io) ?es ?x))"
    using reconciling.walk_ok [of ?x ?es] d f assms(2) by simp
  then show "state_ok (fst (retry_unreconciled show_uuid io crons (st, s)))"
    using assms(2) by (simp add: retry_unreconciled_def reconcile_crons_into_def)
  show "state_ok (fst (fold (reconcile_one show_uuid io) (take n ?es) ?x))"
  proof (rule reconciling.walk_ok)
    show "distinct (map ce_dedupe_key (take n ?es))" using d by (simp flip: take_map)
    show "ce_dedupe_key e \<notin> css_disabled (fst ?x) \<and> True" if "e \<in> set (take n ?es)" for e
      using f in_set_takeD [OF that] by blast
  qed (use assms(2) in simp)
qed

lemma retry_mono: "css_disabled st \<subseteq> css_disabled (fst (retry_unreconciled show_uuid io crons (st, s)))"
  using reconciling.walk_mono [of "(st\<lparr> css_rejected := [] \<rparr>, s)"]
  by (auto simp: retry_unreconciled_def reconcile_crons_into_def)

lemma due_candidates:
  assumes "due_within io" "k \<in> set (pass_due io through crons st s)"
  shows "k \<notin> css_disabled st" "k \<notin> css_unreconciled st"
proof -
  have "k \<in> set (pass_candidates crons st)"
    using assms unfolding pass_due_def due_within_def Let_def by (fastforce split: if_splits sum.splits)
  then show "k \<notin> css_disabled st" "k \<notin> css_unreconciled st" by (auto simp: pass_candidates_def)
qed

lemma schedule_ok:
  assumes "distinct (map ce_dedupe_key es)" "state_ok st" "due_within io"
  shows "state_ok (ps_state (schedule_due show_uuid io through (pass_due io through crons st s) es
      (begin_pass (pass_due io through crons st s) warned (st, s))))"
  unfolding schedule_due_def
proof (rule scheduling.walk_ok)
  fix e assume "e \<in> set (filter (\<lambda>e. ce_dedupe_key e \<in> set (pass_due io through crons st s)) es)"
  then show "ce_dedupe_key e \<notin> css_disabled (ps_state (begin_pass (pass_due io through crons st s) warned (st, s))) \<and>
    ce_dedupe_key e \<notin> css_unreconciled (ps_state (begin_pass (pass_due io through crons st s) warned (st, s)))"
    using due_candidates [OF assms(3)] unfolding begin_pass_def by fastforce
qed (use assms(1,2) in \<open>simp_all add: begin_pass_def distinct_map_filter\<close>)

lemma schedule_mono: "css_disabled st \<subseteq> css_disabled (ps_state (schedule_due show_uuid io through due es (begin_pass due warned (st, s))))"
  using scheduling.walk_mono [of "begin_pass due warned (st, s)"] by (simp add: schedule_due_def begin_pass_def)

text \<open>What every step keeps, and that a worker with a disabled cron reports its scheduler as failing.\<close>

definition cron_inv :: "cron_worker \<Rightarrow> bool" where
  "cron_inv w \<longleftrightarrow> state_ok (cw_state w) \<and> (css_disabled (cw_state w) \<noteq> {} \<longrightarrow> is_failing CScheduler (cw_health w))"

lemma is_failing_report [simp]:
  "is_failing c (reporter_failed now c m r)" "c \<noteq> c' \<Longrightarrow> is_failing c (reporter_failed now c' m r) = is_failing c r"
  "c \<noteq> c' \<Longrightarrow> is_failing c (reporter_recovered c' r) = is_failing c r" "\<not> is_failing c (reporter_recovered c r)"
  by (auto simp: is_failing_def reporter_failed_def reporter_recovered_def Let_def)

lemma is_failing_scheduler [simp]: "is_failing CScheduler (report_scheduler now failures r) \<longleftrightarrow> failures \<noteq> []"
  by (simp add: report_scheduler_def)

lemma disabled_is_reported: "state_ok st \<Longrightarrow> cron_failures st = [] \<Longrightarrow> css_disabled st = {}"
  by (auto simp: state_ok_def cron_failures_def)

lemma cron_step_inv:
  assumes "cron_step show_uuid crons w w'" "distinct (map ce_dedupe_key crons)" "cron_inv w"
  shows "cron_inv w' \<and> css_disabled (cw_state w) \<subseteq> css_disabled (cw_state w')"
  using assms(1)
proof cases
  case (cs_pass io now through)
  obtain st s where r: "retry_unreconciled show_uuid io crons (cw_state w, cw_store w) = (st, s)" by fastforce
  have st: "state_ok st" "css_disabled (cw_state w) \<subseteq> css_disabled st"
    using reconcile_ok(1) [OF assms(2), of "cw_state w"] retry_mono assms(3) r unfolding cron_inv_def by (metis fst_conv)+
  let ?due = "pass_due io through crons st s"
  let ?p = "schedule_due show_uuid io through ?due crons (begin_pass ?due (cw_holder_warned w) (st, s))"
  have p: "state_ok (ps_state ?p)" "css_disabled st \<subseteq> css_disabled (ps_state ?p)"
    using schedule_ok [OF assms(2) st(1) cs_pass(2)] schedule_mono by blast+
  then show ?thesis using st(2) cs_pass(1) disabled_is_reported by (auto simp: schedule_crons_once_def r Let_def cron_inv_def)
next
  case (cs_cut io point late now through)
  have "state_ok (cw_state (cut_pass show_uuid io point through crons w)) \<and>
    css_disabled (cw_state w) \<subseteq> css_disabled (cw_state (cut_pass show_uuid io point through crons w))"
  proof (cases point)
    case (CutReconciling n)
    obtain st s where r: "fold (reconcile_one show_uuid io) (take n (selected (Some (css_unreconciled (cw_state w))) crons))
        ((cw_state w)\<lparr> css_rejected := [] \<rparr>, cw_store w) = (st, s)" by fastforce
    have "state_ok st"
      using reconcile_ok(2) [OF assms(2), of "cw_state w" show_uuid io n "cw_store w"] assms(3) r by (simp add: cron_inv_def)
    moreover have "css_disabled (cw_state w) \<subseteq> css_disabled st"
      using reconciling.walk_mono [of "((cw_state w)\<lparr> css_rejected := [] \<rparr>, cw_store w)" show_uuid io
          "take n (selected (Some (css_unreconciled (cw_state w))) crons)"] unfolding r by simp
    ultimately show ?thesis using assms(3) CutReconciling by (simp add: cut_pass_def cron_inv_def Let_def r case_prod_beta)
  next
    case CutDue
    then show ?thesis using reconcile_ok(1) [OF assms(2), of "cw_state w"] retry_mono assms(3)
      by (simp add: cut_pass_def cron_inv_def Let_def case_prod_beta)
  next
    case (CutScheduling n)
    obtain st s where r: "retry_unreconciled show_uuid io crons (cw_state w, cw_store w) = (st, s)" by fastforce
    have st: "state_ok st" "css_disabled (cw_state w) \<subseteq> css_disabled st"
      using reconcile_ok(1) [OF assms(2), of "cw_state w"] retry_mono assms(3) r unfolding cron_inv_def by (metis fst_conv)+
    have "distinct (map ce_dedupe_key (take n crons))" using assms(2) by (simp flip: take_map)
    then show ?thesis using schedule_ok [OF _ st(1) cs_cut(2)] schedule_mono st(2) CutScheduling
      by (simp add: cut_pass_def r Let_def) (meson subset_trans)
  qed
  then show ?thesis by (simp add: cs_cut(1) timed_out_pass_def Let_def cron_inv_def)
qed (use assms(3) in \<open>auto simp: cron_inv_def\<close>)

lemma cron_reachable_inv:
  assumes "cron_reachable show_uuid crons w" "distinct (map ce_dedupe_key crons)"
  shows "cron_inv w"
  using assms
proof (induction rule: cron_reachable.induct)
  case (cr_start w io now)
  have "state_ok (fst (fold (reconcile_one show_uuid io) (selected None crons) (cw_state w, cw_store w)))"
    by (rule reconciling.walk_ok)
      (use cr_start distinct_selected in \<open>auto simp: cron_scheduling_state_default_def state_ok_def\<close>)
  then show ?case using disabled_is_reported
    by (auto simp: cron_inv_def reconcile_all_crons_def reconcile_crons_into_def split: prod.splits)
qed (use cron_step_inv in blast)

section \<open>Who is asked in a pass\<close>

text \<open>Two sets of answers that differ only for the cron under key \<open>k\<close>.\<close>

definition agree_but :: "string \<Rightarrow> cron_io \<Rightarrow> cron_io \<Rightarrow> bool" where
  "agree_but k io io' \<longleftrightarrow> io_due io = io_due io' \<and>
     (\<forall>e. ce_dedupe_key e \<noteq> k \<longrightarrow> io_clock io e = io_clock io' e \<and> io_reconcile io e = io_reconcile io' e \<and>
        io_schedule io e = io_schedule io' e)"

lemma agree_one:
  assumes "agree_but k io io'" "ce_dedupe_key e \<noteq> k"
  shows "reconcile_one show_uuid io e = reconcile_one show_uuid io' e"
    "schedule_one show_uuid io through e = schedule_one show_uuid io' through e"
proof -
  have a: "io_clock io e = io_clock io' e" "io_reconcile io e = io_reconcile io' e" "io_schedule io e = io_schedule io' e"
    using assms by (simp_all add: agree_but_def)
  show "reconcile_one show_uuid io e = reconcile_one show_uuid io' e"
    "schedule_one show_uuid io through e = schedule_one show_uuid io' through e"
    unfolding fun_eq_iff reconcile_one_def schedule_one_def a by blast+
qed

lemma pass_ignores:
  assumes "agree_but k io io'" "due_within io" "k \<in> css_disabled (cw_state w)" "state_ok (cw_state w)"
  shows "schedule_crons_once show_uuid io now through crons w = schedule_crons_once show_uuid io' now through crons w"
proof -
  have "fold (reconcile_one show_uuid io) (selected (Some (css_unreconciled (cw_state w))) crons) x =
      fold (reconcile_one show_uuid io') (selected (Some (css_unreconciled (cw_state w))) crons) x" for x
    by (rule fold_cong) (use assms(3,4) in \<open>auto simp: selected_def state_ok_def intro!: agree_one(1) [OF assms(1)]\<close>)
  then have r: "retry_unreconciled show_uuid io crons (cw_state w, cw_store w) =
      retry_unreconciled show_uuid io' crons (cw_state w, cw_store w)"
    by (simp add: retry_unreconciled_def reconcile_crons_into_def)
  obtain st s where x: "retry_unreconciled show_uuid io' crons (cw_state w, cw_store w) = (st, s)" by fastforce
  have k: "k \<in> css_disabled st" using retry_mono [of "cw_state w" show_uuid io' crons "cw_store w"] assms(3) x by auto
  have d: "pass_due io' through crons st s = pass_due io through crons st s"
    using assms(1) unfolding pass_due_def agree_but_def by metis
  have "schedule_due show_uuid io through (pass_due io through crons st s) crons p =
      schedule_due show_uuid io' through (pass_due io through crons st s) crons p" for p
    unfolding schedule_due_def
    by (rule fold_cong) (use due_candidates(1) [OF assms(2)] k in \<open>auto intro!: agree_one(2) [OF assms(1)]\<close>)
  then show ?thesis by (simp add: schedule_crons_once_def r x d)
qed

section \<open>A burst leaves nothing due\<close>

text \<open>
  What a burst relies on: the calls of one pass up to the boundary \<open>t\<close>. \<open>past\<close> says that the
  schedule under a key has its cursor after \<open>t\<close>.
\<close>

locale cron_database =
  fixes io :: cron_io and past :: "string \<Rightarrow> timestamp \<Rightarrow> store \<Rightarrow> bool"
  assumes not_listed: "io_due io keys (Some t) s = Inr due \<Longrightarrow> k \<in> set keys \<Longrightarrow> k \<notin> set due \<Longrightarrow> past k t s"
    and not_due: "io_schedule io e (Some t) s = (Inr NotDue, s') \<Longrightarrow> s' = s \<and> past (ce_dedupe_key e) t s"
    and waits: "io_schedule io e (Some t) s \<noteq> (Inr Contended, s')"
    and stands_down: "io_schedule io e (Some t) s = (Inr r, s') \<Longrightarrow> r = Superseded n \<or> r = Conflicting n \<Longrightarrow> s' = s"
begin

lemma quiet_call:
  assumes "\<not> ps_advance_again (schedule_one show_uuid io (Some t) e p)"
    and "css_unreconciled (ps_state (schedule_one show_uuid io (Some t) e p)) = {}"
  shows "ps_store (schedule_one show_uuid io (Some t) e p) = ps_store p \<and> \<not> ps_advance_again p \<and>
    css_unreconciled (ps_state p) = {} \<and>
    (ce_dedupe_key e \<in> css_disabled (ps_state (schedule_one show_uuid io (Some t) e p)) \<or> past (ce_dedupe_key e) t (ps_store p))"
proof -
  obtain r s' where r: "io_schedule io e (Some t) (ps_store p) = (r, s')" by fastforce
  note d = schedule_one_def r Let_def
  show ?thesis
  proof (cases r)
    case (Inl err)
    then show ?thesis using assms by (simp add: d retry_later_def)
  next
    case (Inr x)
    note f = not_due [of e t "ps_store p" s'] waits [of e t "ps_store p" s'] stands_down [of e t "ps_store p" x s']
    show ?thesis using assms f Inr by (cases x) (auto simp: d disable_def)
  qed
qed

lemma schedule_grows:
  "ps_advance_again p \<Longrightarrow> ps_advance_again (schedule_one show_uuid io through e p)"
  "k \<in> css_unreconciled (ps_state p) \<Longrightarrow> k \<in> css_unreconciled (ps_state (schedule_one show_uuid io through e p))"
  by (auto simp: schedule_one_def disable_def retry_later_def count_contended_def Let_def
      split: sum.splits prod.splits cron_schedule_result.splits)

lemma quiet_walk:
  assumes "\<not> ps_advance_again (fold (schedule_one show_uuid io (Some t)) es p)"
    and "css_unreconciled (ps_state (fold (schedule_one show_uuid io (Some t)) es p)) = {}"
  shows "ps_store (fold (schedule_one show_uuid io (Some t)) es p) = ps_store p \<and> \<not> ps_advance_again p \<and>
    css_unreconciled (ps_state p) = {} \<and>
    (\<forall>e\<in>set es. ce_dedupe_key e \<in> css_disabled (ps_state (fold (schedule_one show_uuid io (Some t)) es p)) \<or>
       past (ce_dedupe_key e) t (ps_store p))"
  using assms
proof (induction es arbitrary: p)
  case (Cons e es)
  let ?p = "schedule_one show_uuid io (Some t) e p"
  have i: "ps_store (fold (schedule_one show_uuid io (Some t)) es ?p) = ps_store ?p \<and> \<not> ps_advance_again ?p \<and>
    css_unreconciled (ps_state ?p) = {} \<and>
    (\<forall>e\<in>set es. ce_dedupe_key e \<in> css_disabled (ps_state (fold (schedule_one show_uuid io (Some t)) es ?p)) \<or>
       past (ce_dedupe_key e) t (ps_store ?p))"
    using Cons by simp
  have q: "ps_store ?p = ps_store p \<and> \<not> ps_advance_again p \<and> css_unreconciled (ps_state p) = {} \<and>
      (ce_dedupe_key e \<in> css_disabled (ps_state ?p) \<or> past (ce_dedupe_key e) t (ps_store p))"
    using quiet_call i by blast
  then show ?case using i scheduling.walk_mono [of ?p show_uuid io "Some t" es] by auto
qed simp

lemma quiet_pass:
  assumes "schedule_crons_once show_uuid io now (Some t) crons w = (False, w')"
    and "css_unreconciled (cw_state w') = {}" and "e \<in> set crons"
  shows "ce_dedupe_key e \<in> css_disabled (cw_state w') \<or> past (ce_dedupe_key e) t (cw_store w')"
proof -
  obtain st s where x: "retry_unreconciled show_uuid io crons (cw_state w, cw_store w) = (st, s)" by fastforce
  let ?due = "pass_due io (Some t) crons st s" and ?init = "begin_pass (pass_due io (Some t) crons st s) (cw_holder_warned w) (st, s)"
  let ?es = "filter (\<lambda>e. ce_dedupe_key e \<in> set ?due) crons"
  let ?p = "fold (schedule_one show_uuid io (Some t)) ?es ?init"
  have w': "\<not> ps_advance_again ?p" "cw_state w' = ps_state ?p" "cw_store w' = ps_store ?p"
    using assms(1) by (auto simp: schedule_crons_once_def x Let_def schedule_due_def)
  note q = quiet_walk [OF w'(1) assms(2) [unfolded w'(2)]]
  have p0: "css_disabled (ps_state ?init) = css_disabled st" "css_unreconciled (ps_state ?init) = css_unreconciled st"
    "ps_store ?init = s" by (simp_all add: begin_pass_def)
  show ?thesis
  proof (cases "ce_dedupe_key e \<in> set ?due")
    case True
    then show ?thesis using q assms(3) by (simp add: w')
  next
    case False
    show ?thesis
    proof (cases "ce_dedupe_key e \<in> css_disabled st")
      case True
      then show ?thesis using scheduling.walk_mono [of ?init show_uuid io "Some t" ?es] p0(1) by (auto simp: w')
    next
      case enabled: False
      have c: "ce_dedupe_key e \<in> set (pass_candidates crons st)"
        using enabled q p0(2) assms(3) by (simp add: pass_candidates_def)
      then obtain due where "io_due io (pass_candidates crons st) (Some t) s = Inr due" "ce_dedupe_key e \<notin> set due"
        using False by (auto simp: pass_due_def Let_def split: if_splits sum.splits)
      then show ?thesis using not_listed c q p0(3) by (simp add: w')
    qed
  qed
qed

end

definition cursor_past :: "handle \<Rightarrow> string \<Rightarrow> timestamp \<Rightarrow> store \<Rightarrow> bool" where
  "cursor_past h key t s \<longleftrightarrow> (case schedule_row (h_name h) key s of Some c \<Rightarrow> cs_next_run_at c > t | None \<Rightarrow> False)"

lemma call_Inr: "call fate r s = (Inr x, s') \<Longrightarrow> r = (Inr x, s')"
  by (cases fate) auto

lemma schedule_cron_quiet:
  assumes "schedule_cron jsonb_eq id id id id contended now current wall i e (Some t) h s = (Inr r, s')"
  shows "r = NotDue \<Longrightarrow> s' = s \<and> cursor_past h (ce_dedupe_key e) t s" "r \<noteq> Contended"
    "r = Superseded n \<or> r = Conflicting n \<Longrightarrow> s' = s"
proof -
  have p: "publish_occurrence id id wall i e occ pub ex h x \<noteq> (Inr NotDue, y)"
    "publish_occurrence id id wall i e occ pub ex h x \<noteq> (Inr Contended, y)"
    "publish_occurrence id id wall i e occ pub ex h x \<noteq> (Inr (Superseded n), y)"
    "publish_occurrence id id wall i e occ pub ex h x \<noteq> (Inr (Conflicting n), y)" for occ pub ex x y
    by (auto simp: publish_occurrence_def Let_def split: prod.splits option.splits sum.splits if_splits)
  show "r = NotDue \<Longrightarrow> s' = s \<and> cursor_past h (ce_dedupe_key e) t s" "r \<noteq> Contended"
    "r = Superseded n \<or> r = Conflicting n \<Longrightarrow> s' = s"
    using assms p by (auto simp: schedule_cron_def cursor_past_def same_definition_def Let_def
        split: option.splits sum.splits if_splits prod.splits)
qed

interpretation database: cron_database "database_io jsonb_eq h i" "cursor_past h" for jsonb_eq h i
proof
  fix keys t s due k
  assume "io_due (database_io jsonb_eq h i) keys (Some t) s = Inr due" "k \<in> set keys" "k \<notin> set due"
  then show "cursor_past h k t s"
    by (cases "ir_due i") (auto simp: database_io_def due_crons_def cursor_past_def split: option.splits)
qed (use schedule_cron_quiet in \<open>auto simp: database_io_def dest!: call_Inr, fastforce+\<close>)

lemma due_within_database: "due_within (database_io jsonb_eq h i)"
  by (cases "ir_due i") (auto simp: due_within_def database_io_def due_crons_def)

lemma burst_passes_ok:
  assumes "burst_passes show_uuid t crons rounds w = Some (Inr (), w')"
    and "\<And>b. b \<in> set rounds \<Longrightarrow> \<exists>i. br_io b = database_io jsonb_eq h i" and "e \<in> set crons"
  shows "ce_dedupe_key e \<in> css_disabled (cw_state w') \<or> cursor_past h (ce_dedupe_key e) t (cw_store w')"
  using assms
proof (induction rounds arbitrary: w)
  case (Cons b rounds)
  let ?w = "w\<lparr> cw_store := br_env b (cw_store w) \<rparr>"
  obtain a w1 where o: "schedule_crons_once show_uuid (br_io b) (br_now b) (Some t) crons ?w = (a, w1)" by fastforce
  show ?case
  proof (cases "br_cut b")
    case None
    show ?thesis
    proof (cases "css_unreconciled (cw_state w1) = {} \<and> \<not> a")
      case True
      obtain i where "br_io b = database_io jsonb_eq h i" using Cons.prems(2) [of b] by auto
      moreover have "w' = w1" using Cons.prems(1) None True o by simp
      ultimately show ?thesis using database.quiet_pass [of show_uuid jsonb_eq h i] o True Cons.prems(3) by auto
    next
      case False
      then have "burst_passes show_uuid t crons rounds w1 = Some (Inr (), w')"
        using Cons.prems(1) None o by (auto split: if_splits)
      then show ?thesis using Cons by simp
    qed
  next
    case (Some c)
    then show ?thesis using Cons by (auto simp: Let_def split: if_splits prod.splits)
  qed
qed simp

lemma burst_boundary_clock: "burst_boundary show_uuid clocks w = Some (Inr t, w') \<Longrightarrow> \<exists>now late. (Inr t, now, late) \<in> set clocks"
  by (induction show_uuid clocks w rule: burst_boundary.induct) (auto split: sum.splits if_splits simp: Let_def)

lemma burst_boundary_fails:
  "burst_boundary show_uuid clocks w = Some (Inl err, w') \<Longrightarrow> err = burst_failed \<and> (\<exists>c now. (c, now, True) \<in> set clocks)"
  by (induction show_uuid clocks w rule: burst_boundary.induct) (auto split: sum.splits if_splits simp: Let_def)

lemma burst_passes_fail:
  "burst_passes show_uuid t crons rounds w = Some (Inl err, w') \<Longrightarrow> err = burst_failed \<and> (\<exists>b\<in>set rounds. br_late b)"
  by (induction rounds arbitrary: w) (auto split: option.splits prod.splits if_splits simp: Let_def)

section \<open>Properties\<close>

text \<open>
  C18: a disabled cron stands down and stays visible. Once a worker disabled a cron (a higher
  revision superseded it, its definition was rejected or conflicts), whatever passes, deadlines,
  foreign writes and reports of other components follow: it stays disabled, its reason
  stays among the failures, the scheduler is reported as failing, and no later pass
  depends on what the database would answer for it.
\<close>

theorem disabled_cron_stands_down:
  assumes "distinct (map ce_dedupe_key crons)" and w: "cron_reachable show_uuid crons w" and "k \<in> css_disabled (cw_state w)"
    and "(cron_step show_uuid crons)\<^sup>*\<^sup>* w w'"
  shows "k \<in> css_disabled (cw_state w') \<and>
    (\<exists>r\<in>set (cron_failures (cw_state w')). prefix (k @ '': '') r) \<and> is_failing CScheduler (cw_health w') \<and>
    (\<forall>io io' now through. agree_but k io io' \<and> due_within io \<longrightarrow>
       schedule_crons_once show_uuid io now through crons w' = schedule_crons_once show_uuid io' now through crons w')"
proof -
  have "cron_reachable show_uuid crons w' \<and> k \<in> css_disabled (cw_state w')"
    using assms(4,3)
  proof (induction rule: rtranclp_induct)
    case (step y z)
    then show ?case using cron_step_inv [OF step(2) assms(1)] cron_reachable_inv [OF _ assms(1)] cr_step by blast
  qed (use w in simp)
  then have i: "cron_inv w'" and k: "k \<in> css_disabled (cw_state w')" using cron_reachable_inv [OF _ assms(1)] by auto
  then have ok: "state_ok (cw_state w')" "is_failing CScheduler (cw_health w')" by (auto simp: cron_inv_def)
  then have "\<exists>r\<in>set (cron_failures (cw_state w')). prefix (k @ '': '') r"
    using k by (auto simp: state_ok_def cron_failures_def)
  then show ?thesis using k ok pass_ignores by blast
qed

theorem disabled_cron_stands_down_witness:
  "\<exists>w :: cron_worker. ''cron:tick'' \<in> css_disabled (cw_state w) \<and> is_failing CScheduler (cw_health w)"
proof -
  define io where "io = \<lparr> io_clock = (\<lambda>_. Inr 0), io_reconcile = (\<lambda>_ _ s. (Inr (Inactive 5), s)),
    io_due = (\<lambda>keys _ _. Inr keys), io_schedule = (\<lambda>_ _ s. (Inr NotDue, s)) \<rparr>"
  define w where "w = reconcile_all_crons (\<lambda>_. []) io 0 [sample_cron]
    \<lparr> cw_state = cron_scheduling_state_default, cw_holder_warned = {}, cw_store = empty_store, cw_health = reporter_new \<rparr>"
  have r: "cron_reachable (\<lambda>_. []) [sample_cron] w" unfolding w_def by (rule cr_start) simp
  have k: "''cron:tick'' \<in> css_disabled (cw_state w)"
    by (simp add: w_def io_def reconcile_all_crons_def reconcile_crons_into_def selected_def reconcile_one_def disable_def
        sample_cron_def Let_def)
  have "distinct (map ce_dedupe_key [sample_cron])" by simp
  from disabled_cron_stands_down [OF this r k rtranclp.rtrancl_refl] show ?thesis by blast
qed

text \<open>
  C19: a burst that succeeds left nothing due. When the cron scheduling of a burst returns
  successfully, every registered cron is disabled on this worker or has its cursor after the boundary
  read when the burst began, whatever answers were lost and passes cut on the way and whatever
  other processes wrote between the passes. It fails only with the error of the burst and only
  when its deadline passed.
\<close>

theorem burst_leaves_nothing_due:
  assumes "schedule_burst_crons show_uuid crons clocks rounds w = Some (r, w')"
    and "\<And>b. b \<in> set rounds \<Longrightarrow> \<exists>i. br_io b = database_io jsonb_eq h i"
  shows "(r = Inr () \<longrightarrow> (\<exists>t now late. (Inr t, now, late) \<in> set clocks \<and>
      (\<forall>e\<in>set crons. ce_dedupe_key e \<in> css_disabled (cw_state w') \<or>
         (\<exists>c. schedule_row (h_name h) (ce_dedupe_key e) (cw_store w') = Some c \<and> cs_next_run_at c > t)))) \<and>
    (\<forall>err. r = Inl err \<longrightarrow> err = burst_failed \<and> ((\<exists>c now. (c, now, True) \<in> set clocks) \<or> (\<exists>b\<in>set rounds. br_late b)))"
proof -
  obtain x w1 where b: "burst_boundary show_uuid clocks w = Some (x, w1)"
    using assms(1) by (auto simp: schedule_burst_crons_def split: option.splits)
  show ?thesis
  proof (cases x)
    case (Inl err)
    then show ?thesis using assms(1) b burst_boundary_fails by (fastforce simp: schedule_burst_crons_def)
  next
    case (Inr t)
    then have p: "burst_passes show_uuid t crons rounds w1 = Some (r, w')"
      using assms(1) b by (simp add: schedule_burst_crons_def)
    show ?thesis
    proof (cases r)
      case (Inl err)
      then show ?thesis using p burst_passes_fail by fastforce
    next
      case r: (Inr u)
      have "ce_dedupe_key e \<in> css_disabled (cw_state w') \<or>
          (\<exists>c. schedule_row (h_name h) (ce_dedupe_key e) (cw_store w') = Some c \<and> cs_next_run_at c > t)" if "e \<in> set crons" for e
        using burst_passes_ok [of show_uuid t crons rounds w1 w' jsonb_eq h e] p r assms(2) that
        by (auto simp: cursor_past_def split: option.splits)
      then show ?thesis using burst_boundary_clock b Inr r by (metis Inr_not_Inl)
    qed
  qed
qed

definition sample_round :: io_round where
  "sample_round = \<lparr> ir_clock = (\<lambda>_. Answers), ir_reconcile = (\<lambda>_. Answers), ir_due = Answers, ir_schedule = (\<lambda>_. Answers),
     ir_now = (\<lambda>_. 0), ir_due_now = 0, ir_contended = (\<lambda>_. False), ir_new = (\<lambda>_. 9) \<rparr>"

theorem burst_leaves_nothing_due_witness:
  "\<exists>w'. schedule_burst_crons (\<lambda>_. []) [sample_cron] [(Inl (Db ''down''), 0, False), (Inr 0, 0, False)]
     [\<lparr> br_env = id, br_io = database_io (=) sample_handle sample_round, br_cut = None, br_now = 0, br_late = False \<rparr>]
     \<lparr> cw_state = cron_scheduling_state_default, cw_holder_warned = {},
       cw_store = empty_store\<lparr> st_schedules := [sample_schedule] \<rparr>, cw_health = reporter_new \<rparr> = Some (Inr (), w') \<and>
     (''cron:tick'' \<in> css_disabled (cw_state w') \<or>
        (\<exists>c. schedule_row ''default'' ''cron:tick'' (cw_store w') = Some c \<and> cs_next_run_at c > 0))"
proof -
  let ?b = "\<lparr> br_env = id, br_io = database_io (=) sample_handle sample_round, br_cut = None, br_now = 0, br_late = False \<rparr>"
  let ?clocks = "[(Inl (Db ''down''), 0, False), (Inr 0, 0, False)]"
  let ?w = "\<lparr> cw_state = cron_scheduling_state_default, cw_holder_warned = {},
       cw_store = empty_store\<lparr> st_schedules := [sample_schedule] \<rparr>, cw_health = reporter_new \<rparr>"
  have row: "schedule_row ''default'' ''cron:tick'' (empty_store\<lparr> st_schedules := [sample_schedule] \<rparr>) = Some sample_schedule"
      "cs_next_run_at sample_schedule = 60 * SECOND"
    by (simp_all add: schedule_row_def lookup_row_def schedule_key_def sample_schedule_def fresh_schedule_def sample_cron_def)
  have key: "ce_dedupe_key sample_cron = ''cron:tick''" "h_name sample_handle = ''default''"
    by (simp_all add: sample_cron_def sample_handle_def)
  have run: "\<exists>w'. schedule_burst_crons (\<lambda>_. []) [sample_cron] ?clocks [?b] ?w = Some (Inr (), w')"
    using row key
    by (simp add: schedule_burst_crons_def schedule_crons_once_def retry_unreconciled_def cron_scheduling_state_default_def
        pass_due_def pass_candidates_def database_io_def sample_round_def due_crons_def schedule_due_def begin_pass_def
        Let_def SECOND_def)
  then obtain w' where w': "schedule_burst_crons (\<lambda>_. []) [sample_cron] ?clocks [?b] ?w = Some (Inr (), w')" by blast
  have io: "\<And>b. b \<in> set [?b] \<Longrightarrow> \<exists>i. br_io b = database_io (=) sample_handle i" by auto
  show ?thesis using burst_leaves_nothing_due [OF w' io] w' key by fastforce
qed

end
