(* ===== verification/Worker_Loops.thy ===== *)
theory Worker_Loops
  imports Worker_Schedule
begin

text \<open>
  The other timer loops of a worker (\<^verbatim>\<open>worker.rs\<close>), one tick each: the abort poll
  and what it does to the attempts in flight, the sweeper's drain with its budgets, the
  heartbeat, and what each reports to health. A tick's waits and cancellations are inputs.
\<close>

section \<open>The abort poll\<close>

text \<open>\<open>claims\<close> are the keys of the in-flight registry in its iteration order.\<close>

definition abort_tick ::
    "(uuid \<Rightarrow> string) \<Rightarrow> duration \<Rightarrow> timestamp \<Rightarrow> abort_claim list \<Rightarrow> abort_poll result \<Rightarrow> inflight \<times> worker_health_reporter
     \<Rightarrow> inflight \<times> worker_health_reporter" where
  "abort_tick show_uuid grace now claims poll x =
     (let (m, r) = x in
      if claims = [] then (m, reporter_recovered CAbort r)
      else case poll of
             Inr p \<Rightarrow> (apply_poll grace p m, reporter_recovered CAbort r)
           | Inl err \<Rightarrow> (m, reporter_failed now CAbort (error_display show_uuid err) r))"

section \<open>The sweeper's drain\<close>

definition MAX_SWEEP_DRAIN_TIME :: duration where "MAX_SWEEP_DRAIN_TIME = from_secs 1"
definition MAX_SWEEP_DRAIN_PASSES :: nat where "MAX_SWEEP_DRAIN_PASSES = 256"
definition MAX_SWEEP_BEHIND_TICKS :: nat where "MAX_SWEEP_BEHIND_TICKS = 3"

type_synonym sweep_state = "sweeper \<times> handle \<times> store"

text \<open>
  One pass of a drain: the shutdown token during the pass, what the pass does, the clock
  when it is over, and the token while the task yields.
\<close>

record drain_round =
  dr_cancelled :: bool
  dr_sweep :: "sweep_operations \<Rightarrow> sweep_state \<Rightarrow> sweeper_report result \<times> sweep_state"
  dr_ended_at :: nat
  dr_cancelled_after :: bool

datatype drain_budget = PassBudget | TimeBudget

datatype drain_end = DrainDone | Exhausted drain_budget | DrainFailed error | Cancelled_run

definition release_sweeper :: "sweep_state \<Rightarrow> sweep_state" where
  "release_sweeper x = (sweeper_release (fst x), snd x)"

text \<open>The loop, with the passes left; pass \<open>n\<close> is the round \<open>rounds n\<close>.\<close>

fun drain_loop ::
    "nat \<Rightarrow> (nat \<Rightarrow> drain_round) \<Rightarrow> nat \<Rightarrow> sweep_operations \<Rightarrow> sweep_state \<Rightarrow> drain_end \<times> sweep_state" where
  "drain_loop drain_until rounds 0 operations x = (DrainDone, x)"
| "drain_loop drain_until rounds (Suc left) operations x =
     (let pass = MAX_SWEEP_DRAIN_PASSES - left; d = rounds pass in
      if dr_cancelled d then (Cancelled_run, release_sweeper x)
      else case dr_sweep d operations x of
        (Inr report, x') \<Rightarrow>
          (if has_more_work report then
             (if pass = MAX_SWEEP_DRAIN_PASSES then (Exhausted PassBudget, x')
              else if dr_ended_at d \<ge> drain_until then (Exhausted TimeBudget, x')
              else if dr_cancelled_after d then (Cancelled_run, release_sweeper x')
              else drain_loop drain_until rounds left (sr_unfinished report) x')
           else (DrainDone, x'))
      | (Inl err, x') \<Rightarrow> (DrainFailed err, x'))"

definition sweep_drain :: "nat \<Rightarrow> duration \<Rightarrow> (nat \<Rightarrow> drain_round) \<Rightarrow> sweep_state \<Rightarrow> drain_end \<times> sweep_state" where
  "sweep_drain started sweep_timer rounds x =
     drain_loop (started + min sweep_timer MAX_SWEEP_DRAIN_TIME) rounds MAX_SWEEP_DRAIN_PASSES SWEEP_ALL x"

fun budget_name :: "drain_budget \<Rightarrow> string" where
  "budget_name PassBudget = ''passes''"
| "budget_name TimeBudget = ''time''"

definition falling_behind :: "nat \<Rightarrow> drain_budget \<Rightarrow> string" where
  "falling_behind behind_ticks budget = ''sweeper is falling behind: '' @ decimal behind_ticks @
     '' consecutive drains exhausted their '' @ budget_name budget @
     '' budget with work still pending. Raise `sweep_batch_size` or shorten the `sweep` timer.''"

text \<open>How a tick settles health; \<open>behind_ticks\<close> saturates at the end of 32 bits.\<close>

fun settle_tick ::
    "(uuid \<Rightarrow> string) \<Rightarrow> timestamp \<Rightarrow> drain_end \<Rightarrow> nat \<times> worker_health_reporter \<Rightarrow> nat \<times> worker_health_reporter" where
  "settle_tick show_uuid now (DrainFailed err) (behind, r) = (0, reporter_failed now CSweeper (error_display show_uuid err) r)"
| "settle_tick show_uuid now (Exhausted budget) (behind, r) =
     (let behind' = min (behind + 1) 4294967295
      in (behind', if behind' \<ge> MAX_SWEEP_BEHIND_TICKS then reporter_failed now CSweeper (falling_behind behind' budget) r
                   else reporter_recovered CSweeper r))"
| "settle_tick show_uuid now DrainDone (behind, r) = (0, reporter_recovered CSweeper r)"
| "settle_tick show_uuid now Cancelled_run (behind, r) = (behind, r)"

text \<open>A tick: the drain, then health. A cancelled drain ends the loop.\<close>

definition sweep_tick ::
    "(uuid \<Rightarrow> string) \<Rightarrow> duration \<Rightarrow> timestamp \<Rightarrow> nat \<Rightarrow> (nat \<Rightarrow> drain_round) \<Rightarrow> sweep_state \<times> nat \<times> worker_health_reporter
     \<Rightarrow> bool \<times> sweep_state \<times> nat \<times> worker_health_reporter" where
  "sweep_tick show_uuid sweep_timer now started rounds y =
     (let (x, behind, r) = y; (d, x') = sweep_drain started sweep_timer rounds x
      in (d \<noteq> Cancelled_run, x', settle_tick show_uuid now d (behind, r)))"

section \<open>The heartbeat\<close>

definition WORKER_INFO_TTL_MULTIPLIER :: nat where "WORKER_INFO_TTL_MULTIPLIER = 3"

definition worker_info_ttl :: "duration \<Rightarrow> duration" where
  "worker_info_ttl timer = min (timer * WORKER_INFO_TTL_MULTIPLIER) rust_duration_max"

text \<open>The counters as an object with its keys in order; \<open>elapsed\<close> is the uptime in nanoseconds once started.\<close>

definition stats_json :: "duration option \<Rightarrow> counters \<Rightarrow> json" where
  "stats_json elapsed c = JObject [
     (''aborted'', JNumber (PosInt (n_aborted c))), (''complete'', JNumber (PosInt (n_complete c))),
     (''failed'', JNumber (PosInt (n_failed c))), (''retried'', JNumber (PosInt (n_retried c))),
     (''uptime_ms'', JNumber (PosInt (case elapsed of Some d \<Rightarrow> (d div 1000000) mod 2 ^ 64 | None \<Rightarrow> 0)))]"

definition heartbeat ::
    "(json \<Rightarrow> string list) \<Rightarrow> (uuid \<Rightarrow> string) \<Rightarrow> call_fate \<Rightarrow> timestamp \<Rightarrow> uuid \<Rightarrow> duration option \<Rightarrow> counters \<Rightarrow> json option
     \<Rightarrow> duration \<Rightarrow> bool \<Rightarrow> handle \<Rightarrow> store \<times> worker_health_reporter \<Rightarrow> store \<times> worker_health_reporter" where
  "heartbeat chunks show_uuid fate now w elapsed c metadata ttl accepting h x =
     (let (s, r) = x; intake = (if accepting then Open else Closed) in
      case call fate (write_worker_info chunks now w (stats_json elapsed c) metadata ttl intake h s) s of
        (Inl err, s') \<Rightarrow> (s', reporter_failed now CWorkerInfo (error_display show_uuid err) r)
      | (Inr _, s') \<Rightarrow> (s', reporter_recovered CWorkerInfo r))"

section \<open>What a poll does to the registry\<close>

definition claim_key :: "abort_claim \<Rightarrow> uuid \<times> int" where "claim_key c = (ac_id c, ac_attempts c)"

definition aborting_key :: "aborting_attempt \<Rightarrow> uuid \<times> int" where "aborting_key a = (aa_id a, aa_attempts a)"

lemma request_in_other: "k \<noteq> key \<Longrightarrow> request_in key reason grace m k = m k"
  by (simp add: request_in_def split: option.split)

lemma request_in_same: "request_in key reason grace m key = map_option (\<lambda>e. fst (request_abort reason grace e)) (m key)"
  by (simp add: request_in_def split: option.split)

lemma fold_request_other:
  "k \<notin> key ` set cs \<Longrightarrow> fold (\<lambda>c. request_in (key c) (reason c) grace) cs m k = m k"
  by (induction cs arbitrary: m) (auto simp: request_in_other)

lemma fold_request_hit:
  assumes "distinct (map key cs)" "c \<in> set cs"
  shows "fold (\<lambda>c. request_in (key c) (reason c) grace) cs m (key c) =
    map_option (\<lambda>e. fst (request_abort (reason c) grace e)) (m (key c))"
  using assms
proof (induction cs arbitrary: m)
  case (Cons d cs)
  show ?case
  proof (cases "c = d")
    case True
    then show ?thesis using Cons.prems fold_request_other [of "key c" key cs] by (auto simp: request_in_same)
  next
    case False
    then have "key c \<noteq> key d" using Cons.prems by (auto simp: image_iff)
    then show ?thesis using Cons False by (auto simp: request_in_other)
  qed
qed simp

lemma poll_subseq:
  "subseq (ap_missing (aborting_of_loop present w claims)) claims"
  "subseq (ap_superseded (aborting_of_loop present w claims)) claims"
  "subseq (map aborting_key (ap_aborting (aborting_of_loop present w claims))) (map claim_key claims)"
  by (induction present w claims rule: aborting_of_loop.induct)
    (auto simp: Let_def aborting_key_def claim_key_def aborting_attempt_of_def dest!: lookup_row_Some split: option.split)

lemma subseq_distinct: "subseq xs ys \<Longrightarrow> distinct ys \<Longrightarrow> distinct xs"
  by (auto simp: subseq_conv_nths intro: distinct_nthsI)

lemma subseq_map_distinct: "subseq xs ys \<Longrightarrow> distinct (map f ys) \<Longrightarrow> distinct (map f xs)"
  by (meson subseq_distinct subseq_map)

lemma aborting_member:
  assumes "store_ok s" "k \<in> aborting_key ` set (ap_aborting (aborting_of claims w h s))"
  shows "\<exists>j\<in>set (st_jobs s). k = (j_id j, j_attempts j) \<and> j_queue j = h_name h \<and> j_worker_id j = Some w \<and>
    j_status j \<in> {Aborting, Aborted}"
proof -
  from assms(2) obtain a where a: "a \<in> set (ap_aborting (aborting_of claims w h s))" and k: "k = aborting_key a" by blast
  have "a \<in> {aborting_attempt_of j | c j. c \<in> set claims \<and> j \<in> set (st_jobs s) \<and>
      under_claim (h_name h) \<lparr> ag_id = ac_id c, ag_attempts = ac_attempts c, ag_worker_id = Some w \<rparr> j \<and> j_status j \<in> {Aborting, Aborted}}"
    using a aborting_of_classifies [OF assms(1), of claims w h] by simp
  then obtain c :: abort_claim and j where "j \<in> set (st_jobs s)" "a = aborting_attempt_of j" "j_status j \<in> {Aborting, Aborted}"
      "under_claim (h_name h) \<lparr> ag_id = ac_id c, ag_attempts = ac_attempts c, ag_worker_id = Some w \<rparr> j"
    by blast
  then show ?thesis using k by (intro bexI [of _ j]) (auto simp: aborting_key_def aborting_attempt_of_def under_claim_def)
qed

text \<open>A claim is in at most one of the three lists, and its entry gets the request of that list.\<close>

lemma apply_poll_entry:
  assumes "distinct (map claim_key claims)" "store_ok s" "c \<in> set claims" and poll: "poll = aborting_of claims w h s"
  shows "c \<in> set (ap_missing poll) \<Longrightarrow>
      apply_poll grace poll m (claim_key c) = map_option (\<lambda>e. fst (request_abort Missing grace e)) (m (claim_key c))"
    and "c \<in> set (ap_superseded poll) \<Longrightarrow>
      apply_poll grace poll m (claim_key c) = map_option (\<lambda>e. fst (request_abort RowSuperseded grace e)) (m (claim_key c))"
    and "a \<in> set (ap_aborting poll) \<Longrightarrow> aborting_key a = claim_key c \<Longrightarrow>
      apply_poll grace poll m (claim_key c) = map_option (\<lambda>e. fst (request_abort (abort_reason_of a) grace e)) (m (claim_key c))"
    and "c \<notin> set (ap_missing poll) \<Longrightarrow> c \<notin> set (ap_superseded poll) \<Longrightarrow> claim_key c \<notin> aborting_key ` set (ap_aborting poll) \<Longrightarrow>
      apply_poll grace poll m (claim_key c) = m (claim_key c)"
proof -
  note cl = aborting_of_classifies [OF assms(2), of claims w h, folded poll]
  note missing = cl [THEN conjunct1] and superseded = cl [THEN conjunct2, THEN conjunct1]
  have d: "distinct (map claim_key (ap_missing poll))" "distinct (map claim_key (ap_superseded poll))"
    "distinct (map aborting_key (ap_aborting poll))"
    unfolding poll aborting_of_def
    using poll_subseq subseq_map_distinct [OF _ assms(1)] subseq_distinct [OF _ assms(1)] by blast+
  have inj: "c' = c" if "claim_key c' = claim_key c" for c' using that by (cases c', cases c) (simp add: claim_key_def)
  have mem: "claim_key c \<in> claim_key ` X \<longleftrightarrow> c \<in> X" for X using inj by (auto simp: image_iff)
  have uniq: "j = j'" if "j \<in> set (st_jobs s)" "j' \<in> set (st_jobs s)" "j_id j = j_id j'" for j j'
    using that store_ok_jobs [OF assms(2)] by (auto simp: jobs_ok_def distinct_map inj_on_def)
  have excl: "c \<in> set (ap_missing poll) \<Longrightarrow> c \<notin> set (ap_superseded poll)" unfolding missing superseded by blast
  have excl': "claim_key c \<notin> aborting_key ` set (ap_aborting poll)" if "c \<in> set (ap_missing poll) \<or> c \<in> set (ap_superseded poll)"
  proof
    assume "claim_key c \<in> aborting_key ` set (ap_aborting poll)"
    then obtain j where "j \<in> set (st_jobs s)" "claim_key c = (j_id j, j_attempts j)" "j_queue j = h_name h" "j_worker_id j = Some w"
      using aborting_member [OF assms(2), of "claim_key c" claims w h] unfolding poll by blast
    then have j: "j \<in> set (st_jobs s)" "j_id j = ac_id c" "j_queue j = h_name h" "j_attempts j = ac_attempts c"
      "j_worker_id j = Some w" by (simp_all add: claim_key_def)
    then have "c \<notin> set (ap_missing poll)" unfolding missing by blast
    with that have "c \<in> set (ap_superseded poll)" by blast
    then obtain j' where "j' \<in> set (st_jobs s)" "j_id j' = ac_id c" "j_attempts j' \<noteq> ac_attempts c \<or> j_worker_id j' \<noteq> Some w"
      unfolding superseded by blast
    then show False using uniq [of j j'] j by auto
  qed
  let ?a = "fold (\<lambda>a. request_in (aborting_key a) (abort_reason_of a) grace) (ap_aborting poll)"
  let ?m = "fold (\<lambda>c. request_in (claim_key c) Missing grace) (ap_missing poll)"
  let ?s = "fold (\<lambda>c. request_in (claim_key c) RowSuperseded grace) (ap_superseded poll)"
  have ap: "apply_poll grace poll m = ?s (?m (?a m))" by (simp add: apply_poll_def claim_key_def aborting_key_def)
  have other: "claim_key c \<notin> aborting_key ` set (ap_aborting poll) \<Longrightarrow> ?a x (claim_key c) = x (claim_key c)"
    "c \<notin> set (ap_missing poll) \<Longrightarrow> ?m x (claim_key c) = x (claim_key c)"
    "c \<notin> set (ap_superseded poll) \<Longrightarrow> ?s x (claim_key c) = x (claim_key c)" for x
    by (rule fold_request_other, simp add: mem)+
  show "apply_poll grace poll m (claim_key c) = map_option (\<lambda>e. fst (request_abort Missing grace e)) (m (claim_key c))"
    if "c \<in> set (ap_missing poll)"
    using that excl excl' other fold_request_hit [OF d(1) that, of "\<lambda>_. Missing"] by (simp add: ap)
  show "apply_poll grace poll m (claim_key c) = map_option (\<lambda>e. fst (request_abort RowSuperseded grace e)) (m (claim_key c))"
    if "c \<in> set (ap_superseded poll)"
  proof -
    have "c \<notin> set (ap_missing poll)" "claim_key c \<notin> aborting_key ` set (ap_aborting poll)" using that excl excl' by blast+
    then show ?thesis using other fold_request_hit [OF d(2) that, of "\<lambda>_. RowSuperseded"] by (simp add: ap)
  qed
  show "apply_poll grace poll m (claim_key c) = map_option (\<lambda>e. fst (request_abort (abort_reason_of a) grace e)) (m (claim_key c))"
    if "a \<in> set (ap_aborting poll)" "aborting_key a = claim_key c"
  proof -
    have "claim_key c \<in> aborting_key ` set (ap_aborting poll)" using that by force
    then have "c \<notin> set (ap_missing poll)" "c \<notin> set (ap_superseded poll)" using excl' by blast+
    then show ?thesis using other fold_request_hit [OF d(3) that(1), of abort_reason_of grace m] that(2) by (simp add: ap)
  qed
  show "apply_poll grace poll m (claim_key c) = m (claim_key c)"
    if "c \<notin> set (ap_missing poll)" "c \<notin> set (ap_superseded poll)" "claim_key c \<notin> aborting_key ` set (ap_aborting poll)"
    using that other by (simp add: ap)
qed

text \<open>What a request does to an entry; an entry with a reason has its cooperative token cancelled.\<close>

lemma request_abort_entry:
  assumes "if_abort_reason e \<noteq> None \<longrightarrow> if_cooperative e"
  shows "if_cooperative (fst (request_abort reason grace e))" "if_abort_reason (fst (request_abort reason grace e)) \<noteq> None"
    "if_abort_reason e = None \<Longrightarrow> if_abort_reason (fst (request_abort reason grace e)) = Some reason"
    "abort_immediate reason \<Longrightarrow> if_force (fst (request_abort reason grace e))"
  using assms by (auto simp: request_abort_def Let_def split: option.split)

section \<open>Properties\<close>

text \<open>
  C20: an attempt that lost its row is stopped, and no other. After one abort poll every
  in-flight attempt whose row is gone, was requeued, or runs as another attempt is told to stop at
  once, with the reason recorded; one whose row is being aborted is cancelled, at once when the sweeper
  does it; and one whose row still runs under its claim is left alone.
\<close>

theorem lost_claims_are_stopped:
  assumes "store_ok s" "distinct claims" and c: "c \<in> set claims"
    and m: "m (ac_id c, ac_attempts c) = Some e" "if_abort_reason e \<noteq> None \<longrightarrow> if_cooperative e"
    and tick: "abort_tick show_uuid grace now claims (Inr (aborting_of claims w h s)) (m, r) = (m', r')"
    and mine: "mine = {j \<in> set (st_jobs s). under_claim (h_name h) \<lparr> ag_id = ac_id c, ag_attempts = ac_attempts c, ag_worker_id = Some w \<rparr> j}"
  shows "\<exists>e'. m' (ac_id c, ac_attempts c) = Some e' \<and>
    (mine = {} \<longrightarrow> if_force e' \<and> if_cooperative e' \<and> (if_abort_reason e = None \<longrightarrow> if_abort_reason e' =
       Some (if \<exists>j\<in>set (st_jobs s). j_id j = ac_id c \<and> j_queue j = h_name h then RowSuperseded else Missing))) \<and>
    (\<forall>j\<in>mine. j_status j \<in> {Aborting, Aborted} \<longrightarrow> if_cooperative e' \<and>
       (row_swept j \<longrightarrow> if_force e') \<and>
       (if_abort_reason e = None \<longrightarrow> if_abort_reason e' = Some (abort_reason_of (aborting_attempt_of j)))) \<and>
    (\<forall>j\<in>mine. j_status j \<notin> {Aborting, Aborted} \<longrightarrow> e' = e) \<and> \<not> is_failing CAbort r'"
proof -
  let ?poll = "aborting_of claims w h s" and ?k = "(ac_id c, ac_attempts c)"
  have dk: "distinct (map claim_key claims)"
    using assms(2) by (auto simp: distinct_map inj_on_def claim_key_def)
  note entry = apply_poll_entry [OF dk assms(1) c refl, where grace = grace and m = m and w = w and h = h,
      unfolded claim_key_def [of c] m(1) option.map]
  note cl = aborting_of_classifies [OF assms(1), of claims w h] and ra = request_abort_entry [OF m(2)]
  have "claims \<noteq> []" using c by auto
  then have m': "m' = apply_poll grace ?poll m" "\<not> is_failing CAbort r'" using tick by (auto simp: abort_tick_def)
  have uniq: "j = j'" if "j \<in> set (st_jobs s)" "j' \<in> set (st_jobs s)" "j_id j = j_id j'" for j j'
    using that store_ok_jobs [OF assms(1)] by (auto simp: jobs_ok_def distinct_map inj_on_def)
  show ?thesis
  proof (cases "mine = {}")
    case True
    then have none: "\<not> under_claim (h_name h) \<lparr> ag_id = ac_id c, ag_attempts = ac_attempts c, ag_worker_id = Some w \<rparr> j"
      if "j \<in> set (st_jobs s)" for j using that mine by auto
    show ?thesis
    proof (cases "\<exists>j\<in>set (st_jobs s). j_id j = ac_id c \<and> j_queue j = h_name h")
      case there: True
      then have "c \<in> set (ap_superseded ?poll)" using cl c none unfolding under_claim_def by auto
      then show ?thesis using entry(2) ra [of RowSuperseded grace] True there m' by (simp add: abort_immediate_def)
    next
      case gone: False
      then have "c \<in> set (ap_missing ?poll)" using cl c by blast
      then show ?thesis using entry(1) ra [of Missing grace] True gone m' by (auto simp: abort_immediate_def)
    qed
  next
    case False
    then obtain j where j: "j \<in> set (st_jobs s)"
      "under_claim (h_name h) \<lparr> ag_id = ac_id c, ag_attempts = ac_attempts c, ag_worker_id = Some w \<rparr> j" and mj: "mine = {j}"
      using mine uniq unfolding under_claim_def by fastforce
    show ?thesis
    proof (cases "j_status j \<in> {Aborting, Aborted}")
      case True
      then have a: "aborting_attempt_of j \<in> set (ap_aborting ?poll)" using cl c j by blast
      have "aborting_key (aborting_attempt_of j) = ?k" using j by (simp add: aborting_key_def aborting_attempt_of_def under_claim_def)
      with a have "m' ?k = Some (fst (request_abort (abort_reason_of (aborting_attempt_of j)) grace e))" using entry(3) m' by simp
      moreover have "row_swept j \<Longrightarrow> abort_immediate (abort_reason_of (aborting_attempt_of j))"
        by (simp add: abort_immediate_def abort_reason_of_def row_swept_def aborting_attempt_of_def)
      ultimately show ?thesis using ra [of "abort_reason_of (aborting_attempt_of j)" grace] mj True m'(2) by simp
    next
      case runs: False
      have only: "j' \<in> set (st_jobs s) \<Longrightarrow> j_id j' = ac_id c \<Longrightarrow> j' = j" for j'
        using uniq [of j' j] j by (simp add: under_claim_def)
      have "c \<notin> set (ap_missing ?poll)" using cl j unfolding under_claim_def by fastforce
      moreover have "c \<notin> set (ap_superseded ?poll)"
      proof
        assume "c \<in> set (ap_superseded ?poll)"
        then obtain j' where "j' \<in> set (st_jobs s)" "j_id j' = ac_id c" "j_attempts j' \<noteq> ac_attempts c \<or> j_worker_id j' \<noteq> Some w"
          using cl by blast
        then show False using only [of j'] j by (auto simp: under_claim_def)
      qed
      moreover have "?k \<notin> aborting_key ` set (ap_aborting ?poll)"
      proof
        assume "?k \<in> aborting_key ` set (ap_aborting ?poll)"
        then obtain j' where "j' \<in> set (st_jobs s)" "j_id j' = ac_id c" "j_status j' \<in> {Aborting, Aborted}"
          using aborting_member [OF assms(1), of ?k claims w h] by auto
        then show False using only [of j'] runs by simp
      qed
      ultimately have "m' ?k = Some e" using entry(4) m m' by simp
      then show ?thesis using mj runs m'(2) by simp
    qed
  qed
qed

theorem lost_claims_are_stopped_witness:
  "\<exists>e'. fst (abort_tick (\<lambda>_. []) 5 0 [\<lparr> ac_id = 7, ac_attempts = 0 \<rparr>]
      (Inr (aborting_of [\<lparr> ac_id = 7, ac_attempts = 0 \<rparr>] 3 sample_handle (sample_store sample_running)))
      ([(7, 0) \<mapsto> \<lparr> if_cooperative = False, if_force = False, if_abort_reason = None \<rparr>], reporter_new)) (7, 0) = Some e' \<and>
    if_force e' \<and> if_abort_reason e' = Some RowSuperseded"
proof -
  let ?c = "\<lparr> ac_id = 7, ac_attempts = 0 \<rparr>" and ?e = "\<lparr> if_cooperative = False, if_force = False, if_abort_reason = None \<rparr>"
  let ?s = "sample_store sample_running" and ?r = "abort_tick (\<lambda>_. []) 5 0"
  obtain m' r' where t: "abort_tick (\<lambda>_. []) 5 0 [?c] (Inr (aborting_of [?c] 3 sample_handle ?s)) ([(7, 0) \<mapsto> ?e], reporter_new) = (m', r')"
    by fastforce
  have row: "set (st_jobs ?s) = {sample_running}" "j_id sample_running = 7" "j_queue sample_running = h_name sample_handle"
    "j_attempts sample_running \<noteq> 0"
    by (simp_all add: sample_store_def sample_running_def claim_row_def sample_row_def sample_handle_def)
  show ?thesis
    using lost_claims_are_stopped [OF sample_store_ok [OF sample_row_ok(2)] _ _ _ _ t refl, of ?c ?e] t row
    by (auto simp: under_claim_def)
qed

definition behind :: "drain_end \<Rightarrow> bool" where
  "behind d \<longleftrightarrow> (\<exists>b. d = Exhausted b)"

definition settle_ticks ::
    "(uuid \<Rightarrow> string) \<Rightarrow> (timestamp \<times> drain_end) list \<Rightarrow> nat \<times> worker_health_reporter \<Rightarrow> nat \<times> worker_health_reporter" where
  "settle_ticks show_uuid ticks x = fold (\<lambda>(now, d). settle_tick show_uuid now d) ticks x"

lemma behind_count:
  assumes "Cancelled_run \<notin> snd ` set ticks"
  shows "fst (settle_ticks show_uuid ticks (0, r)) = min (length (takeWhile (\<lambda>t. behind (snd t)) (rev ticks))) 4294967295"
  using assms
proof (induction ticks rule: rev_induct)
  case (snoc t ticks)
  obtain now d where t: "t = (now, d)" by fastforce
  obtain n r1 where x: "settle_ticks show_uuid ticks (0, r) = (n, r1)" by fastforce
  then have n: "n = min (length (takeWhile (\<lambda>t. behind (snd t)) (rev ticks))) 4294967295" using snoc by auto
  have "settle_ticks show_uuid (ticks @ [t]) (0, r) = settle_tick show_uuid now d (n, r1)"
    using x by (simp add: settle_ticks_def t)
  then show ?case using n snoc.prems by (cases d) (auto simp: t behind_def)
qed (simp add: settle_ticks_def)

lemma three_behind:
  "length (takeWhile P (rev xs)) \<ge> 3 \<longleftrightarrow> (\<exists>ys a b c. xs = ys @ [a, b, c] \<and> P a \<and> P b \<and> P c)"
proof -
  have *: "length (takeWhile P zs) \<ge> 3 \<longleftrightarrow> (\<exists>ys a b c. zs = c # b # a # ys \<and> P a \<and> P b \<and> P c)" for zs
    by (cases zs; cases "tl zs"; cases "tl (tl zs)") auto
  show ?thesis unfolding * by (metis (no_types, opaque_lifting) append_Cons append_Nil append_assoc rev.simps(2) rev_append rev_rev_ident)
qed

text \<open>
  The sweeper's health is exact. Over any sequence of ticks of a worker that is not
  shutting down, the sweeper is reported as failing exactly when its latest drain failed, or its
  latest three drains all ended with work still pending.
\<close>

theorem sweeper_health_exact:
  assumes "Cancelled_run \<notin> snd ` set (ticks @ [(now, d)])"
  shows "is_failing CSweeper (snd (settle_ticks show_uuid (ticks @ [(now, d)]) (0, r))) \<longleftrightarrow>
    (\<exists>err. d = DrainFailed err) \<or> (\<exists>ys a b. ticks = ys @ [a, b] \<and> behind (snd a) \<and> behind (snd b) \<and> behind d)"
proof -
  obtain n r1 where x: "settle_ticks show_uuid ticks (0, r) = (n, r1)" by fastforce
  have s: "settle_ticks show_uuid (ticks @ [(now, d)]) (0, r) = settle_tick show_uuid now d (n, r1)"
    using x by (simp add: settle_ticks_def)
  have c: "fst (settle_tick show_uuid now d (n, r1)) \<ge> 3 \<longleftrightarrow>
      (\<exists>ys a b c. ticks @ [(now, d)] = ys @ [a, b, c] \<and> behind (snd a) \<and> behind (snd b) \<and> behind (snd c))"
    using behind_count [OF assms, of show_uuid r] three_behind [of "\<lambda>t. behind (snd t)" "ticks @ [(now, d)]"] s by simp
  have e: "(\<exists>ys a b c. ticks @ [(now, d)] = ys @ [a, b, c] \<and> behind (snd a) \<and> behind (snd b) \<and> behind (snd c)) \<longleftrightarrow>
      (\<exists>ys a b. ticks = ys @ [a, b] \<and> behind (snd a) \<and> behind (snd b) \<and> behind d)"
    by (metis (no_types, lifting) append_Cons append_Nil append_assoc append1_eq_conv snd_conv)
  show ?thesis
    unfolding s using c [unfolded e] assms by (cases d) (auto simp: behind_def MAX_SWEEP_BEHIND_TICKS_def Let_def)
qed

theorem sweeper_health_exact_witness:
  "is_failing CSweeper (snd (settle_ticks (\<lambda>_. []) ([(0, Exhausted TimeBudget), (1, Exhausted PassBudget)] @ [(2, Exhausted TimeBudget)])
     (0, reporter_new)))"
proof -
  have "\<exists>ys a b. [(0, Exhausted TimeBudget), (1, Exhausted PassBudget)] = ys @ [a, b] \<and> behind (snd a) \<and> behind (snd b) \<and>
      behind (Exhausted TimeBudget)" by (intro exI [of _ "[]"]) (simp add: behind_def)
  then show ?thesis by (subst sweeper_health_exact) auto
qed

text \<open>The passes of a drain: pass \<open>n\<close> is about to run for the operations \<open>ops\<close> in the state \<open>x\<close>.\<close>

inductive drain_pass :: "(nat \<Rightarrow> drain_round) \<Rightarrow> sweep_state \<Rightarrow> nat \<Rightarrow> sweep_operations \<Rightarrow> sweep_state \<Rightarrow> bool" for rounds x0 where
  first_pass: "drain_pass rounds x0 1 SWEEP_ALL x0"
| later_pass: "drain_pass rounds x0 n ops x \<Longrightarrow> dr_sweep (rounds n) ops x = (Inr report, x') \<Longrightarrow> has_more_work report \<Longrightarrow>
    n < MAX_SWEEP_DRAIN_PASSES \<Longrightarrow> drain_pass rounds x0 (n + 1) (sr_unfinished report) x'"

definition ends_with :: "nat \<Rightarrow> (nat \<Rightarrow> drain_round) \<Rightarrow> drain_end \<Rightarrow> nat \<Rightarrow> sweep_operations \<Rightarrow> sweep_state \<Rightarrow> sweep_state \<Rightarrow> bool" where
  "ends_with drain_until rounds d n ops x x' \<longleftrightarrow> (case d of
       DrainDone \<Rightarrow> \<exists>report. dr_sweep (rounds n) ops x = (Inr report, x') \<and> \<not> has_more_work report
     | Exhausted b \<Rightarrow> (\<exists>report. dr_sweep (rounds n) ops x = (Inr report, x') \<and> has_more_work report) \<and>
         (case b of PassBudget \<Rightarrow> n = MAX_SWEEP_DRAIN_PASSES | TimeBudget \<Rightarrow> dr_ended_at (rounds n) \<ge> drain_until)
     | DrainFailed err \<Rightarrow> dr_sweep (rounds n) ops x = (Inl err, x')
     | Cancelled_run \<Rightarrow> \<not> sp_leader (fst x'))"

lemma drain_pass_bound: "drain_pass rounds x0 n ops x \<Longrightarrow> 1 \<le> n \<and> n \<le> MAX_SWEEP_DRAIN_PASSES"
  by (induction rule: drain_pass.induct) (auto simp: MAX_SWEEP_DRAIN_PASSES_def)

lemma drain_loop_ends:
  "drain_loop drain_until rounds (Suc left) ops x = (d, x') \<Longrightarrow> drain_pass rounds x0 (MAX_SWEEP_DRAIN_PASSES - left) ops x \<Longrightarrow>
     left < MAX_SWEEP_DRAIN_PASSES \<Longrightarrow>
     \<exists>n ops' y. drain_pass rounds x0 n ops' y \<and> ends_with drain_until rounds d n ops' y x'"
proof (induction left arbitrary: ops x)
  case 0
  then show ?case
    by (intro exI [of _ MAX_SWEEP_DRAIN_PASSES] exI [of _ ops] exI [of _ x])
      (auto simp: ends_with_def Let_def release_sweeper_def sweeper_release_def split: if_splits sum.splits prod.splits)
next
  case (Suc left)
  let ?n = "MAX_SWEEP_DRAIN_PASSES - Suc left"
  obtain res y where p: "dr_sweep (rounds ?n) ops x = (res, y)" using surj_pair by metis
  consider (again) report where "res = Inr report" "has_more_work report"
      "drain_loop drain_until rounds (Suc left) (sr_unfinished report) y = (d, x')"
    | (over) "ends_with drain_until rounds d ?n ops x x'"
    using Suc.prems(1) p
    by (auto simp: ends_with_def Let_def release_sweeper_def sweeper_release_def simp del: drain_loop.simps(2)
        simp: drain_loop.simps(2) [of _ _ "Suc left"] split: if_splits sum.splits)
  then show ?case
  proof cases
    case again
    have "drain_pass rounds x0 (?n + 1) (sr_unfinished report) y"
      using later_pass [OF Suc.prems(2) _ again(2)] p again(1) Suc.prems(3) by simp
    moreover have "?n + 1 = MAX_SWEEP_DRAIN_PASSES - left" using Suc.prems(3) by simp
    ultimately show ?thesis using Suc.IH [OF again(3)] Suc.prems(3) by simp
  next
    case over
    then show ?thesis using Suc.prems(2) by blast
  qed
qed

text \<open>
  A drain is bounded. It runs at most 256 passes, every pass after the first
  only for operations the pass before filled; it ends clean only after a pass that reported
  no more work, out of its budget of passes only after the 256th, out of its budget of time only after a
  pass that ended a second (or one sweep interval) after the drain began, and a
  cancelled worker no longer leads.
\<close>

theorem sweep_drain_bounded:
  assumes "sweep_drain started sweep_timer rounds x = (d, x')"
  shows "\<exists>n ops y. drain_pass rounds x n ops y \<and> n \<le> 256 \<and>
    ends_with (started + min sweep_timer MAX_SWEEP_DRAIN_TIME) rounds d n ops y x'"
proof -
  have "drain_loop (started + min sweep_timer MAX_SWEEP_DRAIN_TIME) rounds (Suc 255) SWEEP_ALL x = (d, x')"
    using assms by (simp add: sweep_drain_def MAX_SWEEP_DRAIN_PASSES_def numeral_eq_Suc del: drain_loop.simps)
  moreover have "drain_pass rounds x (MAX_SWEEP_DRAIN_PASSES - 255) SWEEP_ALL x"
    using first_pass [of rounds x] by (simp add: MAX_SWEEP_DRAIN_PASSES_def)
  ultimately obtain n ops y where
    "drain_pass rounds x n ops y" "ends_with (started + min sweep_timer MAX_SWEEP_DRAIN_TIME) rounds d n ops y x'"
    using drain_loop_ends [of _ rounds 255 SWEEP_ALL x d x' x] by (force simp: MAX_SWEEP_DRAIN_PASSES_def)
  then show ?thesis using drain_pass_bound [unfolded MAX_SWEEP_DRAIN_PASSES_def] by blast
qed

theorem sweep_drain_bounded_witness:
  "\<exists>n ops y. drain_pass (\<lambda>_. \<lparr> dr_cancelled = False, dr_sweep = (\<lambda>ops x. (Inr report_default, x)), dr_ended_at = 0,
       dr_cancelled_after = False \<rparr>) (\<lparr> sp_leader = True, sp_failed_passes = 0 \<rparr>, sample_handle, empty_store) n ops y \<and> n \<le> 256"
  (is "\<exists>n ops y. drain_pass ?rounds ?x n ops y \<and> n \<le> 256")
proof -
  obtain d x' where "sweep_drain 0 1 ?rounds ?x = (d, x')" using surj_pair by metis
  from sweep_drain_bounded [OF this] show ?thesis by blast
qed

end
