(* ===== verification/Worker_Build.thy ===== *)
theory Worker_Build
  imports Worker_Loops
begin

text \<open>
  Configuring a worker (\<^verbatim>\<open>worker.rs\<close>): the builder, the registration of handlers and crons, and the
  checks of \<^verbatim>\<open>build\<close>. A generated job type is its registry entry: its name, its Rust type and
  its configuration; the shared state and the handler functions are opaque to the
  builder. \<open>clock_fits\<close> says that the monotonic clock can be moved on by a duration;
  \<open>server_config\<close> is the check of the dashboard server.
\<close>

section \<open>The builder\<close>

record erased_handler =
  th_name :: string
  th_type_id :: nat
  th_config :: job_config

record worker_timers =
  wt_abort :: duration
  wt_schedule :: duration
  wt_sweep :: duration
  wt_worker_info :: duration

definition worker_timers_default :: worker_timers where
  "worker_timers_default = \<lparr> wt_abort = from_secs 1, wt_schedule = from_secs 1, wt_sweep = from_secs 60,
     wt_worker_info = from_secs 10 \<rparr>"

record 'd worker_builder =
  wb_handlers :: "(string \<times> erased_handler) list"
  wb_concurrency :: nat
  wb_timers :: worker_timers
  wb_crons :: "(string \<times> job_request \<times> cron_options) list"
  wb_burst :: bool
  wb_max_burst_jobs :: "nat option"
  wb_dequeue_timeout :: "duration option"
  wb_poll_interval :: duration
  wb_abort_grace :: duration
  wb_shutdown_grace :: duration
  wb_metadata :: "json option"
  wb_dashboard :: "'d option"
  wb_error :: "error option"

definition DEFAULT_ABORT_GRACE :: duration where "DEFAULT_ABORT_GRACE = from_secs 1"
definition MAX_WORKER_CONCURRENCY :: nat where "MAX_WORKER_CONCURRENCY = 65536"

definition worker_builder_new :: "'d worker_builder" where
  "worker_builder_new = \<lparr> wb_handlers = [], wb_concurrency = 10, wb_timers = worker_timers_default, wb_crons = [], wb_burst = False,
     wb_max_burst_jobs = None, wb_dequeue_timeout = None, wb_poll_interval = from_secs 1, wb_abort_grace = DEFAULT_ABORT_GRACE,
     wb_shutdown_grace = from_secs 30, wb_metadata = None, wb_dashboard = None, wb_error = None \<rparr>"

text \<open>The first error is the one \<^verbatim>\<open>build\<close> reports.\<close>

definition first_error :: "error \<Rightarrow> 'd worker_builder \<Rightarrow> 'd worker_builder" where
  "first_error e b = (if wb_error b = None then b\<lparr> wb_error := Some e \<rparr> else b)"

definition ensure_handler :: "erased_handler \<Rightarrow> 'd worker_builder \<Rightarrow> 'd worker_builder" where
  "ensure_handler handler b =
     (let name = th_name handler in
      case map_of (wb_handlers b) name of
        Some existing \<Rightarrow>
          (if th_type_id existing = th_type_id handler then b
           else first_error (Config (''job name '' @ debug_str name @ '' is used by multiple job types'')) b)
      | None \<Rightarrow> b\<lparr> wb_handlers := wb_handlers b @ [(name, handler)] \<rparr>)"

definition register_job :: "erased_handler \<Rightarrow> 'd worker_builder \<Rightarrow> 'd worker_builder" where
  "register_job handler b = ensure_handler handler b"

text \<open>A compile-time cron: its schedule and revision come with the job type.\<close>

definition register_cron :: "erased_handler \<Rightarrow> string \<Rightarrow> nat \<Rightarrow> 'd worker_builder \<Rightarrow> 'd worker_builder" where
  "register_cron handler schedule revision b =
     (let b' = ensure_handler handler b;
          template = (job_request_new (th_name handler) JNull)\<lparr> rq_config := th_config handler \<rparr>
      in b'\<lparr> wb_crons := wb_crons b' @ [(schedule, template, \<lparr> opt_revision = revision, opt_misfire = Skip None \<rparr>)] \<rparr>)"

definition schedule_cron_with_options ::
    "(json \<Rightarrow> string list) \<Rightarrow> timestamp \<Rightarrow> erased_handler \<Rightarrow> string \<Rightarrow> job_builder \<Rightarrow> cron_options \<Rightarrow> 'd worker_builder
     \<Rightarrow> 'd worker_builder" where
  "schedule_cron_with_options chunks now handler expr job options b =
     (let b' = ensure_handler handler b in
      case builder_into_cron_template chunks now job of
        Inr template \<Rightarrow> b'\<lparr> wb_crons := wb_crons b' @ [(expr, template, options)] \<rparr>
      | Inl e \<Rightarrow> first_error e b')"

definition schedule_cron_default ::
    "(json \<Rightarrow> string list) \<Rightarrow> timestamp \<Rightarrow> erased_handler \<Rightarrow> string \<Rightarrow> job_builder \<Rightarrow> 'd worker_builder \<Rightarrow> 'd worker_builder" where
  "schedule_cron_default chunks now handler expr job b =
     schedule_cron_with_options chunks now handler expr job \<lparr> opt_revision = 0, opt_misfire = Skip None \<rparr> b"

section \<open>Validation\<close>

definition validate_runtime_duration :: "(duration \<Rightarrow> bool) \<Rightarrow> string \<Rightarrow> duration \<Rightarrow> bool \<Rightarrow> unit result" where
  "validate_runtime_duration clock_fits name d require_nonzero =
     and_then (if require_nonzero then validate_nonzero_duration name d else validate_duration name d) (\<lambda>_.
       if \<not> clock_fits d then Inl (Config (name @ '' is too large for the runtime clock'')) else Inr ())"

fun validate_all :: "(duration \<Rightarrow> bool) \<Rightarrow> (string \<times> duration) list \<Rightarrow> unit result" where
  "validate_all clock_fits [] = Inr ()"
| "validate_all clock_fits ((name, d) # rest) =
     and_then (validate_runtime_duration clock_fits name d True) (\<lambda>_. validate_all clock_fits rest)"

text \<open>The loop over the registered crons. \<open>entry\<close> is the entry's constructor; \<open>None\<close> is its panic.\<close>

fun build_crons ::
    "(string \<Rightarrow> job_request \<Rightarrow> cron_options \<Rightarrow> (cron_entry result) option) \<Rightarrow> (string \<times> erased_handler) list \<Rightarrow> int \<times> int
     \<Rightarrow> string list \<Rightarrow> (string \<times> job_request \<times> cron_options) list \<Rightarrow> (cron_entry list result) option" where
  "build_crons entry handlers priorities keys [] = Some (Inr [])"
| "build_crons entry handlers priorities keys ((expr, template, options) # crons) =
     (if map_of handlers (rq_name template) = None
      then Some (Inl (Config (''cron job '' @ debug_str (rq_name template) @ '' is not registered on this worker'')))
      else case entry expr template options of
        None \<Rightarrow> None
      | Some (Inl e) \<Rightarrow> Some (Inl e)
      | Some (Inr e) \<Rightarrow>
          (if ce_dedupe_key e \<in> set keys
           then Some (Inl (Config (''cron dedupe key '' @ debug_str (ce_dedupe_key e) @ '' registered more than once'')))
           else let (low, high) = priorities; priority = cfg_priority (rq_config (ce_template e)) in
             if priority < low \<or> priority > high
             then Some (Inl (Config (''cron '' @ debug_str (rq_name (ce_template e)) @ '' has priority '' @ int_decimal priority @
               '', outside this queue's dequeue range '' @ int_decimal low @ ''..='' @ int_decimal high @
               ''; its occurrences could never be claimed'')))
             else map_option (\<lambda>r. and_then r (\<lambda>es. Inr (e # es)))
               (build_crons entry handlers priorities (ce_dedupe_key e # keys) crons)))"

record 'c worker_config =
  wc_queue :: handle
  wc_handlers :: "(string \<times> erased_handler) list"
  wc_concurrency :: nat
  wc_timers :: worker_timers
  wc_crons :: "cron_entry list"
  wc_burst :: bool
  wc_dequeue_timeout :: "duration option"
  wc_poll_interval :: duration
  wc_abort_grace :: duration
  wc_shutdown_grace :: duration
  wc_metadata :: "json option"
  wc_dashboard :: "'c option"
  wc_id :: uuid
  wc_burst_budget :: "nat option"
  wc_intake_open :: bool
  wc_health :: worker_health_reporter

text \<open>The checks before the crons, in the order of the code.\<close>

definition validate_builder :: "(duration \<Rightarrow> bool) \<Rightarrow> (json \<Rightarrow> string list) \<Rightarrow> 'd worker_builder \<Rightarrow> unit result" where
  "validate_builder clock_fits chunks b =
     and_then (case wb_error b of Some e \<Rightarrow> Inl e | None \<Rightarrow> Inr ()) (\<lambda>_.
     and_then (if wb_handlers b = [] then Inl (Config ''no jobs registered on this worker'') else Inr ()) (\<lambda>_.
     and_then (if wb_burst b \<and> wb_dequeue_timeout b = None
               then Inl (Config ''burst mode requires WorkerBuilder::dequeue_timeout'') else Inr ()) (\<lambda>_.
     and_then (if wb_max_burst_jobs b \<noteq> None \<and> \<not> wb_burst b
               then Inl (Config ''max_burst_jobs requires WorkerBuilder::burst(true)'') else Inr ()) (\<lambda>_.
     and_then (if wb_concurrency b = 0 then Inl (Config ''worker concurrency must be greater than zero'') else Inr ()) (\<lambda>_.
     and_then (if wb_concurrency b > MAX_WORKER_CONCURRENCY
               then Inl (Config (''worker concurrency must not exceed '' @ decimal MAX_WORKER_CONCURRENCY)) else Inr ()) (\<lambda>_.
     and_then (case wb_metadata b of
                 Some m \<Rightarrow> (case validate_json_document chunks ''worker metadata'' m of Inl t \<Rightarrow> Inl (Config t) | Inr _ \<Rightarrow> Inr ())
               | None \<Rightarrow> Inr ()) (\<lambda>_.
     and_then (validate_all clock_fits [(''abort timer'', wt_abort (wb_timers b)), (''schedule timer'', wt_schedule (wb_timers b)),
                 (''sweep timer'', wt_sweep (wb_timers b)), (''worker info timer'', wt_worker_info (wb_timers b)),
                 (''poll interval'', wb_poll_interval b)]) (\<lambda>_.
     and_then (validate_duration ''worker info TTL'' (worker_info_ttl (wt_worker_info (wb_timers b)))) (\<lambda>_.
     and_then (validate_runtime_duration clock_fits ''abort grace'' (wb_abort_grace b) False) (\<lambda>_.
     and_then (validate_runtime_duration clock_fits ''shutdown grace'' (wb_shutdown_grace b) False) (\<lambda>_.
       case wb_dequeue_timeout b of
         Some t \<Rightarrow> validate_runtime_duration clock_fits ''dequeue timeout'' t True
       | None \<Rightarrow> Inr ())))))))))))"

definition build ::
    "(duration \<Rightarrow> bool) \<Rightarrow> (json \<Rightarrow> string list) \<Rightarrow> (string \<Rightarrow> job_request \<Rightarrow> cron_options \<Rightarrow> (cron_entry result) option)
     \<Rightarrow> ('d \<Rightarrow> 'c result) \<Rightarrow> uuid \<Rightarrow> handle \<Rightarrow> 'd worker_builder \<Rightarrow> ('c worker_config result) option" where
  "build clock_fits chunks entry server_config new_id queue b =
     (case validate_builder clock_fits chunks b of
        Inl e \<Rightarrow> Some (Inl e)
      | Inr _ \<Rightarrow>
          map_option (\<lambda>r. and_then r (\<lambda>crons.
            and_then (case wb_dashboard b of None \<Rightarrow> Inr None | Some d \<Rightarrow> and_then (server_config d) (\<lambda>c. Inr (Some c))) (\<lambda>dashboard.
              Inr \<lparr> wc_queue = queue, wc_handlers = wb_handlers b, wc_concurrency = wb_concurrency b, wc_timers = wb_timers b,
                wc_crons = crons, wc_burst = wb_burst b, wc_dequeue_timeout = wb_dequeue_timeout b,
                wc_poll_interval = wb_poll_interval b, wc_abort_grace = wb_abort_grace b, wc_shutdown_grace = wb_shutdown_grace b,
                wc_metadata = wb_metadata b, wc_dashboard = dashboard, wc_id = new_id, wc_burst_budget = wb_max_burst_jobs b,
                wc_intake_open = True, wc_health = reporter_new \<rparr>)))
            (build_crons entry (wb_handlers b) (h_priorities queue) [] (wb_crons b)))"

section \<open>What the registrations leave in the builder\<close>

text \<open>
  The builders a program can make, with the job types registered so far. The plain setters change
  neither handlers, crons nor the error.
\<close>

inductive configured :: "erased_handler list \<Rightarrow> 'd worker_builder \<Rightarrow> bool" where
  cf_new: "configured [] worker_builder_new"
| cf_job: "configured hs b \<Longrightarrow> configured (h # hs) (register_job h b)"
| cf_cron: "configured hs b \<Longrightarrow> configured (h # hs) (register_cron h schedule revision b)"
| cf_schedule: "configured hs b \<Longrightarrow> configured (h # hs) (schedule_cron_with_options chunks now h expr job options b)"
| cf_setter: "configured hs b \<Longrightarrow> wb_handlers b' = wb_handlers b \<Longrightarrow> wb_crons b' = wb_crons b \<Longrightarrow> wb_error b' = wb_error b \<Longrightarrow>
    configured hs b'"

text \<open>A builder without an error has every registered type under its own name.\<close>

definition registered :: "(string \<times> erased_handler) list \<Rightarrow> erased_handler \<Rightarrow> bool" where
  "registered handlers h \<longleftrightarrow> (\<exists>h'. map_of handlers (th_name h) = Some h' \<and> th_type_id h' = th_type_id h)"

lemma first_error_simps [simp]: "wb_error (first_error e b) \<noteq> None" "wb_handlers (first_error e b) = wb_handlers b"
  by (auto simp: first_error_def)

lemma ensure_handler_registers:
  assumes "wb_error (ensure_handler h b) = None"
  shows "wb_error b = None" "registered (wb_handlers (ensure_handler h b)) h"
    "registered (wb_handlers b) h' \<Longrightarrow> registered (wb_handlers (ensure_handler h b)) h'"
  using assms by (auto simp: ensure_handler_def registered_def Let_def map_add_def split: option.splits if_splits)

lemma configured_registers: "configured hs b \<Longrightarrow> wb_error b = None \<Longrightarrow> \<forall>h\<in>set hs. registered (wb_handlers b) h"
proof (induction rule: configured.induct)
  case (cf_job hs b h)
  then show ?case using ensure_handler_registers [of h b] by (auto simp: register_job_def)
next
  case (cf_cron hs b h schedule revision)
  then show ?case using ensure_handler_registers [of h b] by (auto simp: register_cron_def Let_def)
next
  case (cf_schedule hs b h chunks now expr job options)
  then show ?case using ensure_handler_registers [of h b]
    by (auto simp: schedule_cron_with_options_def Let_def split: sum.splits)
qed auto

section \<open>What validation establishes\<close>

definition runtime_ok :: "duration \<Rightarrow> bool" where
  "runtime_ok d \<longleftrightarrow> 0 < d \<and> d \<le> MAX_DURATION"

lemma validate_runtime_duration_ok:
  "validate_runtime_duration clock_fits name d nonzero = Inr () \<Longrightarrow> d \<le> MAX_DURATION \<and> clock_fits d \<and> (nonzero \<longrightarrow> 0 < d)"
  by (auto simp: validate_runtime_duration_def validate_nonzero_duration_def validate_duration_def split: if_splits)

lemma build_crons_ok:
  assumes "build_crons entry handlers (low, high) keys crons = Some (Inr es)"
    and "\<And>expr t opts e. entry expr t opts = Some (Inr e) \<Longrightarrow> good e \<and> rq_name (ce_template e) = rq_name t"
  shows "distinct (map ce_dedupe_key es) \<and> set (map ce_dedupe_key es) \<inter> set keys = {} \<and>
    (\<forall>e\<in>set es. good e \<and> map_of handlers (rq_name (ce_template e)) \<noteq> None \<and>
       low \<le> cfg_priority (rq_config (ce_template e)) \<and> cfg_priority (rq_config (ce_template e)) \<le> high)"
  using assms(1)
proof (induction crons arbitrary: keys es)
  case (Cons c crons)
  obtain expr t opts where c: "c = (expr, t, opts)" by (cases c)
  from Cons.prems obtain e rest where e: "entry expr t opts = Some (Inr e)" "map_of handlers (rq_name t) \<noteq> None"
      "ce_dedupe_key e \<notin> set keys" "low \<le> cfg_priority (rq_config (ce_template e))" "cfg_priority (rq_config (ce_template e)) \<le> high"
    and r: "build_crons entry handlers (low, high) (ce_dedupe_key e # keys) crons = Some (Inr rest)" "es = e # rest"
    by (auto simp: c Let_def split: if_splits option.splits sum.splits)
  show ?case using Cons.IH [OF r(1)] e r(2) assms(2) [OF e(1)] by auto
qed simp

lemma cron_entry_name:
  "cron_entry_with_options parse nf chunks now expr t opts = Some (Inr e) \<Longrightarrow> entry_ok e \<and> rq_name (ce_template e) = rq_name t"
  using cron_entry_with_options_ok
  by (auto simp: cron_entry_with_options_def Let_def split: sum.splits prod.splits option.splits)

section \<open>Properties\<close>

text \<open>
  C31: every worker that builds is well formed. Its crons have distinct dedupe keys, are valid
  entries, name a registered job and have a priority its queue dequeues; every registered job
  type is dispatched under its own name; it runs between 1 and 65536 jobs at once; its timers, lease and
  timeouts are positive and within the bounds the schema stores; a burst has a dequeue timeout, and only
  a burst a budget.
\<close>

theorem built_worker_well_formed:
  assumes "configured hs b"
    and "build clock_fits chunks (cron_entry_with_options parse nf chunks now) server_config new_id queue b = Some (Inr w)"
  shows "distinct (map ce_dedupe_key (wc_crons w)) \<and>
    (\<forall>e\<in>set (wc_crons w). entry_ok e \<and> map_of (wc_handlers w) (rq_name (ce_template e)) \<noteq> None \<and>
       fst (h_priorities (wc_queue w)) \<le> cfg_priority (rq_config (ce_template e)) \<and>
       cfg_priority (rq_config (ce_template e)) \<le> snd (h_priorities (wc_queue w))) \<and>
    wc_handlers w \<noteq> [] \<and> (\<forall>h\<in>set hs. registered (wc_handlers w) h) \<and>
    1 \<le> wc_concurrency w \<and> wc_concurrency w \<le> 65536 \<and>
    list_all runtime_ok [wt_abort (wc_timers w), wt_schedule (wc_timers w), wt_sweep (wc_timers w), wt_worker_info (wc_timers w),
      wc_poll_interval w, worker_info_ttl (wt_worker_info (wc_timers w))] \<and>
    wc_abort_grace w \<le> MAX_DURATION \<and> wc_shutdown_grace w \<le> MAX_DURATION \<and>
    (wc_burst w \<longrightarrow> wc_dequeue_timeout w \<noteq> None) \<and> (\<forall>t. wc_dequeue_timeout w = Some t \<longrightarrow> runtime_ok t) \<and>
    (wc_burst_budget w \<noteq> None \<longrightarrow> wc_burst w) \<and>
    (\<forall>m. wc_metadata w = Some m \<longrightarrow> validate_json_document chunks ''worker metadata'' m = Inr ())"
proof -
  let ?entry = "cron_entry_with_options parse nf chunks now"
  obtain low high where pr: "h_priorities queue = (low, high)" by fastforce
  have v: "validate_builder clock_fits chunks b = Inr ()"
    using assms(2) by (auto simp: build_def split: sum.splits)
  have "\<exists>es. build_crons ?entry (wb_handlers b) (low, high) [] (wb_crons b) = Some (Inr es) \<and> wc_crons w = es"
    using assms(2) v by (auto simp: build_def pr)
  then have crons: "distinct (map ce_dedupe_key (wc_crons w))" "\<forall>e\<in>set (wc_crons w). entry_ok e \<and>
      map_of (wb_handlers b) (rq_name (ce_template e)) \<noteq> None \<and>
      low \<le> cfg_priority (rq_config (ce_template e)) \<and> cfg_priority (rq_config (ce_template e)) \<le> high"
    using build_crons_ok [of ?entry "wb_handlers b" low high "[]" "wb_crons b" _ entry_ok] cron_entry_name by blast+
  have w: "wc_queue w = queue" "wc_handlers w = wb_handlers b" "wc_concurrency w = wb_concurrency b" "wc_timers w = wb_timers b"
    "wc_burst w = wb_burst b" "wc_dequeue_timeout w = wb_dequeue_timeout b" "wc_poll_interval w = wb_poll_interval b"
    "wc_abort_grace w = wb_abort_grace b" "wc_shutdown_grace w = wb_shutdown_grace b" "wc_metadata w = wb_metadata b"
    "wc_burst_budget w = wb_max_burst_jobs b"
    using assms(2) v by (auto simp: build_def)
  have reg: "\<forall>h\<in>set hs. registered (wb_handlers b) h"
    using configured_registers [OF assms(1)] v by (auto simp: validate_builder_def split: option.splits)
  have t: "list_all runtime_ok [wt_abort (wb_timers b), wt_schedule (wb_timers b), wt_sweep (wb_timers b), wt_worker_info (wb_timers b),
      wb_poll_interval b, worker_info_ttl (wt_worker_info (wb_timers b))]" "wb_abort_grace b \<le> MAX_DURATION"
      "wb_shutdown_grace b \<le> MAX_DURATION" "\<forall>t. wb_dequeue_timeout b = Some t \<longrightarrow> runtime_ok t"
    using v by (auto simp: validate_builder_def runtime_ok_def worker_info_ttl_def WORKER_INFO_TTL_MULTIPLIER_def
        validate_duration_def dest!: validate_runtime_duration_ok split: if_splits)
  show ?thesis
    using crons reg t v by (auto simp: w pr validate_builder_def MAX_WORKER_CONCURRENCY_def split: if_splits sum.splits)
qed

theorem built_worker_well_formed_witness:
  "\<exists>w. build (\<lambda>_. True) (\<lambda>_. []) (cron_entry_with_options (\<lambda>_. Inr minutely) id (\<lambda>_. []) 0) (\<lambda>d :: unit. Inr d) 9 sample_handle
      (register_cron \<lparr> th_name = ''tick'', th_type_id = 1, th_config = job_config_default \<rparr> ''* * * * *'' 0 worker_builder_new) =
      Some (Inr w) \<and> distinct (map ce_dedupe_key (wc_crons w)) \<and> wc_crons w \<noteq> []"
proof -
  let ?h = "\<lparr> th_name = ''tick'', th_type_id = 1, th_config = job_config_default \<rparr>"
  let ?b = "register_cron ?h ''* * * * *'' 0 worker_builder_new :: unit worker_builder"
  let ?entry = "cron_entry_with_options (\<lambda>_. Inr minutely) id (\<lambda>_. []) 0"
  let ?t = "(job_request_new ''tick'' JNull)\<lparr> rq_config := job_config_default \<rparr>" and ?o = "\<lparr> opt_revision = 0, opt_misfire = Skip None \<rparr>"
  have b: "wb_handlers ?b = [(''tick'', ?h)]" "wb_crons ?b = [(''* * * * *'', ?t, ?o)]"
    by (simp_all add: register_cron_def ensure_handler_def worker_builder_new_def Let_def)
  have v: "validate_builder (\<lambda>_. True) (\<lambda>_. []) ?b = Inr ()"
    by (simp add: validate_builder_def register_cron_def ensure_handler_def worker_builder_new_def Let_def MAX_WORKER_CONCURRENCY_def
        worker_timers_default_def validate_runtime_duration_def validate_nonzero_duration_def validate_duration_def duration_consts
        worker_info_ttl_def WORKER_INFO_TTL_MULTIPLIER_def DEFAULT_ABORT_GRACE_def)
  have "job_request_validate (\<lambda>_. []) 0 (?t\<lparr> rq_dedupe_key := Some ''cron:tick'' \<rparr>) = Inr ()"
    by (simp add: valid_elims job_request_new_def job_config_default_def duration_consts)
  then obtain e where e: "?entry ''* * * * *'' ?t ?o = Some (Inr e)" "cfg_priority (rq_config (ce_template e)) = 0"
    by (auto simp: cron_entry_with_options_def parse_cron_def count_fields.simps ascii_whitespace_def misfire_validate_def
        cron_definition_def job_request_new_def job_config_default_def Let_def)
  have "\<exists>w. build (\<lambda>_. True) (\<lambda>_. []) ?entry (\<lambda>d :: unit. Inr d) 9 sample_handle ?b = Some (Inr w) \<and> wc_crons w \<noteq> []"
    using v e b by (simp add: build_def sample_handle_def job_request_new_def register_cron_def ensure_handler_def worker_builder_new_def Let_def)
  then obtain w where w: "build (\<lambda>_. True) (\<lambda>_. []) ?entry (\<lambda>d :: unit. Inr d) 9 sample_handle ?b = Some (Inr w)" "wc_crons w \<noteq> []"
    by blast
  have "configured [?h] ?b" by (intro configured.intros)
  from built_worker_well_formed [OF this w(1)] w show ?thesis by blast
qed

end
