(* ===== verification/Worker_Run.thy ===== *)
theory Worker_Run
  imports Worker_Build
begin

text \<open>
  A worker from start to return (\<^verbatim>\<open>worker.rs\<close>): \<^verbatim>\<open>run_until_inner\<close> with its startup steps, the
  race that ends serving, and the phases of \<^verbatim>\<open>WorkerShutdown\<close>. What tasks and timeouts do is an
  input: which step a stop request came before, how each task ended and how many did so before
  a deadline, and the statements that ran while a phase waited. The lease is the row in the
  store. A write that is dropped in flight has landed by then or never does.
\<close>

section \<open>Tasks\<close>

datatype task_end = Finished | Crashed string | Aborted_Task

text \<open>The outcome of a \<^verbatim>\<open>JoinHandle\<close>.\<close>

fun join_error :: "task_end \<Rightarrow> error option" where
  "join_error Finished = None"
| "join_error (Crashed message) = Some (Task message)"
| "join_error Aborted_Task = Some (Task ''task was cancelled'')"

definition or_error :: "error option \<Rightarrow> error option \<Rightarrow> error option" where
  "or_error run_error e = (case run_error of Some e' \<Rightarrow> Some e' | None \<Rightarrow> e)"

fun join_all :: "task_end list \<Rightarrow> bool \<Rightarrow> error option \<Rightarrow> error option" where
  "join_all [] ignore_cancellation run_error = run_error"
| "join_all (t # ts) ignore_cancellation run_error =
     (case join_error t of
        None \<Rightarrow> join_all ts ignore_cancellation run_error
      | Some e \<Rightarrow>
          if ignore_cancellation \<and> t = Aborted_Task then join_all ts ignore_cancellation run_error
          else join_all ts ignore_cancellation (or_error run_error (Some e)))"

text \<open>\<^verbatim>\<open>join_all\<close> under a deadline that so many tasks meet: whether all did, and the others.\<close>

definition join_within :: "nat \<Rightarrow> task_end list \<Rightarrow> error option \<Rightarrow> bool \<times> task_end list \<times> error option" where
  "join_within n set_of run_error =
     (drop n set_of = [], drop n set_of, join_all (take n set_of) False run_error)"

fun wait_for_processors :: "bool \<Rightarrow> task_end list \<Rightarrow> unit result" where
  "wait_for_processors burst [] = Inr ()"
| "wait_for_processors burst (t # ts) =
     (case join_error t of
        Some e \<Rightarrow> Inl e
      | None \<Rightarrow> if burst then wait_for_processors burst ts else Inl (WorkerTask ''processor loop''))"

definition unexpected_task_exit :: "string \<Rightarrow> task_end \<Rightarrow> error" where
  "unexpected_task_exit name t = (case join_error t of None \<Rightarrow> WorkerTask name | Some e \<Rightarrow> e)"

definition wait_for_background_exit :: "(string \<times> task_end) option \<Rightarrow> error" where
  "wait_for_background_exit joined =
     (case joined of
        Some (name, t) \<Rightarrow> unexpected_task_exit name t
      | None \<Rightarrow> WorkerTask ''background loops'')"

text \<open>\<open>asked\<close>: a shutdown or a drop came before the step was over.\<close>

definition before_shutdown :: "bool \<Rightarrow> 'a \<Rightarrow> 'a option" where
  "before_shutdown asked x = (if asked then None else Some x)"

section \<open>The lease\<close>

record run_state =
  rn_store :: store
  rn_health :: worker_health_reporter
  rn_intake_open :: bool

datatype lease_try = Settled call_fate | Abandoned bool

record lease_beat =
  lb_try :: lease_try
  lb_now :: timestamp
  lb_elapsed :: "duration option"
  lb_counters :: counters

text \<open>What the code outside the model fixes of a worker: serializers and the text of errors.\<close>

record run_env =
  rv_chunks :: "json \<Rightarrow> string list"
  rv_show_uuid :: "uuid \<Rightarrow> string"

definition write_lease :: "run_env \<Rightarrow> 'c worker_config \<Rightarrow> duration \<Rightarrow> lease_beat \<Rightarrow> run_state \<Rightarrow> run_state" where
  "write_lease env c ttl b x =
     (case lb_try b of
        Settled fate \<Rightarrow>
          (case heartbeat (rv_chunks env) (rv_show_uuid env) fate (lb_now b) (wc_id c) (lb_elapsed b) (lb_counters b)
                  (wc_metadata c) ttl (rn_intake_open x) (wc_queue c) (rn_store x, rn_health x) of
             (s, r) \<Rightarrow> x\<lparr> rn_store := s, rn_health := r \<rparr>)
      | Abandoned landed \<Rightarrow>
          (if landed then
             x\<lparr> rn_store := snd (write_worker_info (rv_chunks env) (lb_now b) (wc_id c)
                  (stats_json (lb_elapsed b) (lb_counters b)) (wc_metadata c) ttl
                  (if rn_intake_open x then Open else Closed) (wc_queue c) (rn_store x)) \<rparr>
           else x))"

definition live_ttl :: "'c worker_config \<Rightarrow> duration" where
  "live_ttl c = worker_info_ttl (wt_worker_info (wc_timers c))"

definition close_lease :: "'c worker_config \<Rightarrow> call_fate \<Rightarrow> timestamp \<Rightarrow> run_state \<Rightarrow> run_state" where
  "close_lease c fate now x =
     x\<lparr> rn_store := snd (call fate (Inr (), stop_worker_intake now (wc_id c) (wc_queue c) (rn_store x)) (rn_store x)) \<rparr>"

text \<open>
  What goes on while the worker waits: heartbeats of its own, statements of other processes,
  and reports of its other tasks.
\<close>

datatype meanwhile =
    Heartbeat lease_beat
  | Elsewhere "store \<Rightarrow> store"
  | Reported "worker_health_reporter \<Rightarrow> worker_health_reporter"

fun during :: "run_env \<Rightarrow> 'c worker_config \<Rightarrow> meanwhile list \<Rightarrow> run_state \<Rightarrow> run_state" where
  "during env c [] x = x"
| "during env c (Heartbeat b # ms) x = during env c ms (write_lease env c (live_ttl c) b x)"
| "during env c (Elsewhere f # ms) x = during env c ms (x\<lparr> rn_store := f (rn_store x) \<rparr>)"
| "during env c (Reported f # ms) x = during env c ms (x\<lparr> rn_health := f (rn_health x) \<rparr>)"

section \<open>Shutdown\<close>

definition retire_startup_lease ::
    "run_env \<Rightarrow> 'c worker_config \<Rightarrow> call_fate \<Rightarrow> timestamp \<Rightarrow> lease_beat \<Rightarrow> run_state \<Rightarrow> run_state" where
  "retire_startup_lease env c fate now b x =
     write_lease env c 0 b (close_lease c fate now (x\<lparr> rn_intake_open := False \<rparr>))"

definition close_intake :: "'c worker_config \<Rightarrow> call_fate \<Rightarrow> timestamp \<Rightarrow> run_state \<Rightarrow> run_state" where
  "close_intake c fate now x = close_lease c fate now (x\<lparr> rn_intake_open := False \<rparr>)"

text \<open>The remaining processors in the order in which they end; an abort comes before the last ones.\<close>

definition drain_processors :: "nat \<Rightarrow> nat \<Rightarrow> task_end list \<Rightarrow> error option \<Rightarrow> error option" where
  "drain_processors in_grace in_hard processors run_error =
     (case join_within in_grace processors run_error of
        (True, _, run_error) \<Rightarrow> run_error
      | (False, left, run_error) \<Rightarrow>
          (case join_within in_hard left run_error of
             (True, _, run_error) \<Rightarrow> run_error
           | (False, left, run_error) \<Rightarrow>
               or_error (join_all left True run_error) (Some (WorkerTask ''processor shutdown timed out''))))"

definition stop_timers :: "nat \<Rightarrow> task_end list \<Rightarrow> error option \<Rightarrow> error option" where
  "stop_timers in_time timers run_error =
     (case join_within in_time timers run_error of
        (True, _, run_error) \<Rightarrow> run_error
      | (False, left, run_error) \<Rightarrow>
          or_error (join_all left True run_error) (Some (WorkerTask ''timer shutdown timed out'')))"

text \<open>
  The caretaker: heartbeats until the fetcher is done and the lease may go, then the expiry. The
  heartbeats are among those of the phases it runs beside.
\<close>

definition finish_fetcher_shutdown ::
    "run_env \<Rightarrow> 'c worker_config \<Rightarrow> task_end option \<Rightarrow> lease_beat \<Rightarrow> run_state \<Rightarrow> unit result \<times> run_state" where
  "finish_fetcher_shutdown env c fetcher b x =
     (case Option.bind fetcher join_error of
        Some e \<Rightarrow> (Inl e, write_lease env c 0 b x)
      | None \<Rightarrow> (Inr (), write_lease env c 0 b x))"

datatype caretaker_end =
    Caretaker_Done task_end lease_beat
  | Caretaker_Crashed string
  | Caretaker_Late

text \<open>A fetcher that ended before the shutdown is not the caretaker's any more.\<close>

definition retire_fetcher ::
    "run_env \<Rightarrow> 'c worker_config \<Rightarrow> bool \<Rightarrow> caretaker_end \<Rightarrow> error option \<Rightarrow> run_state \<Rightarrow> error option \<times> run_state" where
  "retire_fetcher env c fetcher_stopped caretaker run_error x =
     (case caretaker of
        Caretaker_Done fetcher b \<Rightarrow>
          (case finish_fetcher_shutdown env c (if fetcher_stopped then None else Some fetcher) b x of
             (Inr _, x') \<Rightarrow> (run_error, x')
           | (Inl e, x') \<Rightarrow> (or_error run_error (Some e), x'))
      | Caretaker_Crashed message \<Rightarrow> (or_error run_error (Some (Task message)), x)
      | Caretaker_Late \<Rightarrow> (or_error run_error (Some (WorkerTask ''fetcher shutdown timed out'')), x))"

record shutdown_run =
  sh_close :: call_fate
  sh_close_now :: timestamp
  sh_draining :: "meanwhile list"
  sh_processors :: "task_end list"
  sh_in_grace :: nat
  sh_in_hard :: nat
  sh_stopping :: "meanwhile list"
  sh_timers :: "task_end list"
  sh_timers_in_time :: nat
  sh_releasing :: "meanwhile list"
  sh_caretaker :: caretaker_end

definition shutdown_run_of ::
    "run_env \<Rightarrow> 'c worker_config \<Rightarrow> bool \<Rightarrow> shutdown_run \<Rightarrow> error option \<Rightarrow> run_state \<Rightarrow> error option \<times> run_state" where
  "shutdown_run_of env c fetcher_stopped d run_error x =
     (let x1 = during env c (sh_draining d) (close_intake c (sh_close d) (sh_close_now d) x);
          e1 = drain_processors (sh_in_grace d) (sh_in_hard d) (sh_processors d) run_error;
          x2 = during env c (sh_stopping d) x1;
          e2 = stop_timers (sh_timers_in_time d) (sh_timers d) e1
      in retire_fetcher env c fetcher_stopped (sh_caretaker d) e2 (during env c (sh_releasing d) x2))"

section \<open>The whole run\<close>

text \<open>
  What ended serving: the processors with the results joined by then, the fetcher with the reason it
  sent and how its task ended.
\<close>

datatype run_end =
    Shutdown_Asked
  | Processors_Ended "task_end list"
  | Fetcher_Exited "error option" task_end
  | Background_Exited "(string \<times> task_end) option"
  | Dashboard_Exited error

definition serve_error :: "bool \<Rightarrow> run_end \<Rightarrow> error option" where
  "serve_error burst e =
     (case e of
        Shutdown_Asked \<Rightarrow> None
      | Processors_Ended ts \<Rightarrow> (case wait_for_processors burst ts of Inr _ \<Rightarrow> None | Inl e \<Rightarrow> Some e)
      | Fetcher_Exited reason t \<Rightarrow> or_error reason (Some (unexpected_task_exit ''fetch loop'' t))
      | Background_Exited joined \<Rightarrow> Some (wait_for_background_exit joined)
      | Dashboard_Exited e \<Rightarrow> Some e)"

definition fetcher_stopped :: "run_end \<Rightarrow> bool" where
  "fetcher_stopped e = (case e of Fetcher_Exited _ _ \<Rightarrow> True | _ \<Rightarrow> False)"

text \<open>
  A run: at each startup step whether it was asked to stop first, what the step came to and what
  went on meanwhile (the statements of the cron steps among it).
\<close>

record run_script =
  ru_bind_asked :: bool
  ru_bind :: "unit result"
  ru_reconcile_asked :: bool
  ru_reconciling :: "meanwhile list"
  ru_burst_asked :: bool
  ru_bursting :: "meanwhile list"
  ru_burst :: "unit result"
  ru_write_asked :: bool
  ru_write_landed :: bool
  ru_write :: lease_beat
  ru_asked_before_tasks :: bool
  ru_retire_close :: call_fate
  ru_retire_now :: timestamp
  ru_retire_expire :: lease_beat
  ru_serving :: "meanwhile list"
  ru_end :: run_end
  ru_shutdown :: shutdown_run
  ru_dashboard_end :: "unit result"

definition serve :: "run_env \<Rightarrow> 'c worker_config \<Rightarrow> run_script \<Rightarrow> run_state \<Rightarrow> unit result \<times> run_state" where
  "serve env c r x =
     (let x1 = during env c (ru_serving r) (x\<lparr> rn_health := reporter_ready (rn_health x) \<rparr>);
          (run_error, x2) = shutdown_run_of env c (fetcher_stopped (ru_end r)) (ru_shutdown r)
            (serve_error (wc_burst c) (ru_end r)) x1;
          run_error = (if wc_dashboard c = None then run_error
            else case ru_dashboard_end r of Inl e \<Rightarrow> or_error run_error (Some e) | Inr _ \<Rightarrow> run_error)
      in (case run_error of Some e \<Rightarrow> Inl e | None \<Rightarrow> Inr (), x2))"

definition take_lease :: "run_env \<Rightarrow> 'c worker_config \<Rightarrow> run_script \<Rightarrow> run_state \<Rightarrow> unit result \<times> run_state" where
  "take_lease env c r x =
     (let retire = retire_startup_lease env c (ru_retire_close r) (ru_retire_now r) (ru_retire_expire r)
      in case before_shutdown (ru_write_asked r) (write_lease env c (live_ttl c) (ru_write r) x) of
           None \<Rightarrow> (Inr (), retire (write_lease env c (live_ttl c)
                     ((ru_write r)\<lparr> lb_try := Abandoned (ru_write_landed r) \<rparr>) x))
         | Some x' \<Rightarrow> if ru_asked_before_tasks r then (Inr (), retire x') else serve env c r x')"

definition start_worker :: "run_env \<Rightarrow> 'c worker_config \<Rightarrow> run_script \<Rightarrow> run_state \<Rightarrow> unit result \<times> run_state" where
  "start_worker env c r x =
     (case before_shutdown (ru_bind_asked r) (ru_bind r) of
        None \<Rightarrow> (Inr (), x)
      | Some (Inl e) \<Rightarrow> (Inl e, x)
      | Some (Inr _) \<Rightarrow>
          (if wc_crons c = [] then take_lease env c r x
           else
             (let x1 = during env c (ru_reconciling r) x in
              case before_shutdown (ru_reconcile_asked r) () of
                None \<Rightarrow> (Inr (), x1)
              | Some _ \<Rightarrow>
                  (if \<not> wc_burst c then take_lease env c r x1
                   else
                     (let x2 = during env c (ru_bursting r) x1 in
                      case before_shutdown (ru_burst_asked r) (ru_burst r) of
                        None \<Rightarrow> (Inr (), x2)
                      | Some (Inl e) \<Rightarrow> (Inl e, x2)
                      | Some (Inr _) \<Rightarrow> take_lease env c r x2)))))"

text \<open>The guard that reports the stop runs on every way out.\<close>

definition run_until_inner :: "run_env \<Rightarrow> 'c worker_config \<Rightarrow> run_script \<Rightarrow> run_state \<Rightarrow> unit result \<times> run_state" where
  "run_until_inner env c r x =
     (case start_worker env c r x of
        (res, x') \<Rightarrow> (res, x'\<lparr> rn_health := reporter_stopped (rn_health x') \<rparr>))"

section \<open>The exit status\<close>

text \<open>Everything that went wrong in a run, in the order in which the worker learns of it.\<close>

definition crashes :: "task_end list \<Rightarrow> error list" where
  "crashes ts = List.map_filter join_error ts"

definition after_abort :: "task_end list \<Rightarrow> error list" where
  "after_abort ts = crashes (filter (\<lambda>t. t \<noteq> Aborted_Task) ts)"

definition drain_failures :: "nat \<Rightarrow> nat \<Rightarrow> task_end list \<Rightarrow> error list" where
  "drain_failures in_grace in_hard processors =
     crashes (take (in_grace + in_hard) processors) @
     (if length processors \<le> in_grace + in_hard then []
      else after_abort (drop (in_grace + in_hard) processors) @ [WorkerTask ''processor shutdown timed out''])"

definition timer_failures :: "nat \<Rightarrow> task_end list \<Rightarrow> error list" where
  "timer_failures in_time timers =
     crashes (take in_time timers) @
     (if length timers \<le> in_time then []
      else after_abort (drop in_time timers) @ [WorkerTask ''timer shutdown timed out''])"

fun caretaker_failures :: "bool \<Rightarrow> caretaker_end \<Rightarrow> error list" where
  "caretaker_failures stopped (Caretaker_Done fetcher b) = (if stopped then [] else crashes [fetcher])"
| "caretaker_failures stopped (Caretaker_Crashed message) = [Task message]"
| "caretaker_failures stopped Caretaker_Late = [WorkerTask ''fetcher shutdown timed out'']"

definition serve_failures :: "'c worker_config \<Rightarrow> run_script \<Rightarrow> error list" where
  "serve_failures c r =
     (let d = ru_shutdown r in
      (case ru_end r of
         Shutdown_Asked \<Rightarrow> []
       | Processors_Ended ts \<Rightarrow> if wc_burst c then crashes ts else
           (case ts of [] \<Rightarrow> [] | t # _ \<Rightarrow> crashes [t] @ [WorkerTask ''processor loop''])
       | Fetcher_Exited reason t \<Rightarrow> (case reason of Some e \<Rightarrow> [e] | None \<Rightarrow> []) @ crashes [t] @ [WorkerTask ''fetch loop'']
       | Background_Exited joined \<Rightarrow>
           (case joined of Some (name, t) \<Rightarrow> crashes [t] @ [WorkerTask name] | None \<Rightarrow> [WorkerTask ''background loops''])
       | Dashboard_Exited e \<Rightarrow> [e]) @
      drain_failures (sh_in_grace d) (sh_in_hard d) (sh_processors d) @
      timer_failures (sh_timers_in_time d) (sh_timers d) @
      caretaker_failures (fetcher_stopped (ru_end r)) (sh_caretaker d) @
      (if wc_dashboard c = None then [] else case ru_dashboard_end r of Inl e \<Rightarrow> [e] | Inr _ \<Rightarrow> []))"

definition startup_steps :: "'c worker_config \<Rightarrow> run_script \<Rightarrow> (bool \<times> unit result) list" where
  "startup_steps c r =
     (ru_bind_asked r, ru_bind r) #
     (if wc_crons c = [] then []
      else (ru_reconcile_asked r, Inr ()) # (if wc_burst c then [(ru_burst_asked r, ru_burst r)] else [])) @
     [(ru_write_asked r, Inr ()), (ru_asked_before_tasks r, Inr ())]"

text \<open>The first step that was cut short or failed decides; none did if the worker served.\<close>

fun startup_outcome :: "(bool \<times> unit result) list \<Rightarrow> unit result option" where
  "startup_outcome [] = None"
| "startup_outcome ((asked, res) # steps) =
     (if asked then Some (Inr ()) else case res of Inl e \<Rightarrow> Some (Inl e) | Inr _ \<Rightarrow> startup_outcome steps)"

definition first_failure :: "error list \<Rightarrow> unit result" where
  "first_failure es = (case es of [] \<Rightarrow> Inr () | e # _ \<Rightarrow> Inl e)"

definition first_of :: "error list \<Rightarrow> error option" where
  "first_of es = (case es of [] \<Rightarrow> None | e # _ \<Rightarrow> Some e)"

lemma or_error_first: "or_error (first_of es) (first_of fs) = first_of (es @ fs)"
  by (cases es) (auto simp: or_error_def first_of_def)

lemma or_error_Some: "or_error (first_of es) (Some e) = first_of (es @ [e])"
  using or_error_first [of es "[e]"] by (simp add: first_of_def)

lemma crashes_simps [simp]:
  "crashes [] = []"
  "crashes (t # ts) = (case join_error t of Some e \<Rightarrow> e # crashes ts | None \<Rightarrow> crashes ts)"
  by (simp_all add: crashes_def List.map_filter_simps split: option.split)

lemma crashes_append: "crashes (ts @ us) = crashes ts @ crashes us"
  by (induction ts) (auto split: option.split)

lemma join_all_first: "join_all ts False (first_of es) = first_of (es @ crashes ts)"
proof (induction ts arbitrary: es)
  case (Cons t ts)
  show ?case
  proof (cases "join_error t")
    case (Some e)
    then show ?thesis using Cons.IH [of "es @ [e]"] by (simp add: or_error_Some)
  qed (simp add: Cons.IH)
qed simp

lemma join_all_ignoring: "join_all ts True (first_of es) = first_of (es @ after_abort ts)"
proof (induction ts arbitrary: es)
  case (Cons t ts)
  show ?case
  proof (cases "join_error t")
    case (Some e)
    then show ?thesis
      using Cons.IH [of "es @ [e]"] Cons.IH [of es] by (simp add: or_error_Some after_abort_def)
  next
    case None
    then show ?thesis using Cons.IH [of es] by (cases "t = Aborted_Task") (simp_all add: after_abort_def)
  qed
qed (simp add: after_abort_def)

lemma drain_processors_first:
  "drain_processors in_grace in_hard ps (first_of es) = first_of (es @ drain_failures in_grace in_hard ps)"
proof -
  consider "length ps \<le> in_grace" | "in_grace < length ps" "length ps \<le> in_grace + in_hard"
    | "in_grace + in_hard < length ps" by linarith
  then show ?thesis
  proof cases
    case 1
    then show ?thesis by (simp add: drain_processors_def join_within_def join_all_first drain_failures_def)
  next
    case 2
    have "crashes ps = crashes (take in_grace ps) @ crashes (drop in_grace ps)"
      by (metis append_take_drop_id crashes_append)
    moreover have "length ps - in_grace \<le> in_hard" using 2 by linarith
    ultimately show ?thesis
      using 2 by (simp add: drain_processors_def join_within_def join_all_first drain_failures_def)
  next
    case 3
    have "drop in_hard (drop in_grace ps) = drop (in_grace + in_hard) ps" by (simp add: add.commute)
    moreover have "\<not> length ps - in_grace \<le> in_hard" using 3 by linarith
    ultimately show ?thesis
      using 3 by (simp add: drain_processors_def join_within_def join_all_first join_all_ignoring drain_failures_def
          or_error_Some take_add crashes_append)
  qed
qed

lemma stop_timers_first:
  "stop_timers in_time ts (first_of es) = first_of (es @ timer_failures in_time ts)"
  by (simp add: stop_timers_def join_within_def join_all_first join_all_ignoring timer_failures_def or_error_Some)

lemma retire_fetcher_first:
  "fst (retire_fetcher env c stopped caretaker (first_of es) x) = first_of (es @ caretaker_failures stopped caretaker)"
  by (cases caretaker)
     (auto simp: retire_fetcher_def finish_fetcher_shutdown_def or_error_Some split: option.split)

lemma wait_for_processors_burst: "(case wait_for_processors True ts of Inr _ \<Rightarrow> None | Inl e \<Rightarrow> Some e) = first_of (crashes ts)"
  by (induction ts) (auto simp: first_of_def split: option.split)

text \<open>The first failure of serving itself.\<close>

definition end_failures :: "bool \<Rightarrow> run_end \<Rightarrow> error list" where
  "end_failures burst e =
     (case e of
        Shutdown_Asked \<Rightarrow> []
      | Processors_Ended ts \<Rightarrow> if burst then crashes ts else
          (case ts of [] \<Rightarrow> [] | t # _ \<Rightarrow> crashes [t] @ [WorkerTask ''processor loop''])
      | Fetcher_Exited reason t \<Rightarrow> (case reason of Some e \<Rightarrow> [e] | None \<Rightarrow> []) @ crashes [t] @ [WorkerTask ''fetch loop'']
      | Background_Exited joined \<Rightarrow>
          (case joined of Some (name, t) \<Rightarrow> crashes [t] @ [WorkerTask name] | None \<Rightarrow> [WorkerTask ''background loops''])
      | Dashboard_Exited e \<Rightarrow> [e])"

lemma serve_error_first: "serve_error burst e = first_of (end_failures burst e)"
proof (cases e)
  case (Processors_Ended ts)
  then show ?thesis
    using wait_for_processors_burst [of ts]
    by (cases burst; cases ts) (auto simp: serve_error_def end_failures_def first_of_def split: option.split)
qed (auto simp: serve_error_def end_failures_def first_of_def or_error_def unexpected_task_exit_def
    wait_for_background_exit_def split: option.split)

lemma serve_failures_split:
  "serve_failures c r = end_failures (wc_burst c) (ru_end r) @
     drain_failures (sh_in_grace (ru_shutdown r)) (sh_in_hard (ru_shutdown r)) (sh_processors (ru_shutdown r)) @
     timer_failures (sh_timers_in_time (ru_shutdown r)) (sh_timers (ru_shutdown r)) @
     caretaker_failures (fetcher_stopped (ru_end r)) (sh_caretaker (ru_shutdown r)) @
     (if wc_dashboard c = None then [] else case ru_dashboard_end r of Inl e \<Rightarrow> [e] | Inr _ \<Rightarrow> [])"
  by (simp add: serve_failures_def end_failures_def Let_def)

lemma shutdown_first:
  "fst (shutdown_run_of env c stopped d (first_of es) x) =
   first_of (es @ drain_failures (sh_in_grace d) (sh_in_hard d) (sh_processors d) @
     timer_failures (sh_timers_in_time d) (sh_timers d) @ caretaker_failures stopped (sh_caretaker d))"
  by (simp add: shutdown_run_of_def Let_def drain_processors_first stop_timers_first retire_fetcher_first)

lemma serve_first: "fst (serve env c r x) = first_failure (serve_failures c r)"
proof -
  let ?es = "end_failures (wc_burst c) (ru_end r) @
     drain_failures (sh_in_grace (ru_shutdown r)) (sh_in_hard (ru_shutdown r)) (sh_processors (ru_shutdown r)) @
     timer_failures (sh_timers_in_time (ru_shutdown r)) (sh_timers (ru_shutdown r)) @
     caretaker_failures (fetcher_stopped (ru_end r)) (sh_caretaker (ru_shutdown r))"
  let ?run = "shutdown_run_of env c (fetcher_stopped (ru_end r)) (ru_shutdown r) (serve_error (wc_burst c) (ru_end r))
      (during env c (ru_serving r) (x\<lparr> rn_health := reporter_ready (rn_health x) \<rparr>))"
  have e: "fst ?run = first_of ?es" by (simp add: serve_error_first shutdown_first)
  obtain x2 where run: "?run = (first_of ?es, x2)" using e by (metis prod.collapse)
  have f: "serve_failures c r = ?es @ (if wc_dashboard c = None then [] else case ru_dashboard_end r of Inl e \<Rightarrow> [e] | Inr _ \<Rightarrow> [])"
    by (simp add: serve_failures_split)
  have dash: "(if wc_dashboard c = None then first_of ?es
       else case ru_dashboard_end r of Inl e \<Rightarrow> or_error (first_of ?es) (Some e) | Inr _ \<Rightarrow> first_of ?es) =
      first_of (serve_failures c r)"
    unfolding f or_error_Some by (auto split: sum.split)
  have "fst (serve env c r x) = (case first_of (serve_failures c r) of Some e \<Rightarrow> Inl e | None \<Rightarrow> Inr ())"
    unfolding serve_def Let_def run using dash by simp
  then show ?thesis by (simp add: first_failure_def first_of_def split: list.split)
qed

lemma take_lease_first:
  "fst (take_lease env c r x) =
   (if ru_write_asked r \<or> ru_asked_before_tasks r then Inr () else first_failure (serve_failures c r))"
  by (simp add: take_lease_def before_shutdown_def Let_def serve_first)

lemma start_worker_first:
  "fst (start_worker env c r x) =
     (case startup_outcome (startup_steps c r) of
        Some res \<Rightarrow> res
      | None \<Rightarrow> first_failure (serve_failures c r))"
  by (cases "ru_bind r"; cases "ru_burst r")
     (simp_all add: start_worker_def startup_steps_def before_shutdown_def Let_def take_lease_first)

text \<open>
  C24: the exit status is the first thing that went wrong. A run returns an error exactly when a startup
  step failed before a stop was asked for, or a task crashed, ended on its own or outlived its
  deadline, or the dashboard failed; and of several such errors the worker returns the one it learned of
  first. A stop asked for during startup is a clean exit.
\<close>

theorem exit_status_is_first_failure:
  "fst (run_until_inner env c r x) =
     (case startup_outcome (startup_steps c r) of
        Some res \<Rightarrow> res
      | None \<Rightarrow> first_failure (serve_failures c r))"
  by (simp add: run_until_inner_def start_worker_first case_prod_unfold)

section \<open>Nothing is left of a worker that returned\<close>

text \<open>
  Other processes can delete this worker's lease, when it expires, and do not write to it; the
  worker's identifier is new.
\<close>

definition leaves_lease :: "uuid \<Rightarrow> (store \<Rightarrow> store) \<Rightarrow> bool" where
  "leaves_lease w f \<longleftrightarrow> (\<forall>s. \<forall>r\<in>set (st_workers (f s)). w_id r = w \<longrightarrow> r \<in> set (st_workers s))"

fun gentle :: "uuid \<Rightarrow> meanwhile \<Rightarrow> bool" where
  "gentle w (Elsewhere f) = leaves_lease w f"
| "gentle w _ = True"

fun no_heartbeat :: "meanwhile \<Rightarrow> bool" where
  "no_heartbeat (Heartbeat b) = False"
| "no_heartbeat _ = True"

definition no_lease :: "uuid \<Rightarrow> store \<Rightarrow> bool" where
  "no_lease w s \<longleftrightarrow> (\<forall>r\<in>set (st_workers s). w_id r \<noteq> w)"

definition own_lease :: "'c worker_config \<Rightarrow> store \<Rightarrow> bool" where
  "own_lease c s \<longleftrightarrow> (\<forall>r\<in>set (st_workers s). w_id r = wc_id c \<longrightarrow> w_queue r = h_name (wc_queue c))"

definition closed_lease :: "'c worker_config \<Rightarrow> run_state \<Rightarrow> bool" where
  "closed_lease c x \<longleftrightarrow> \<not> rn_intake_open x \<and> (\<forall>r\<in>set (st_workers (rn_store x)). w_id r = wc_id c \<longrightarrow> \<not> w_accepting r)"

definition expired_lease :: "'c worker_config \<Rightarrow> timestamp \<Rightarrow> run_state \<Rightarrow> bool" where
  "expired_lease c now x \<longleftrightarrow> (\<forall>r\<in>set (st_workers (rn_store x)). w_id r = wc_id c \<longrightarrow> w_expires_at r \<le> now)"

fun landed :: "call_fate \<Rightarrow> bool" where
  "landed (Unreached e) = False"
| "landed _ = True"

text \<open>A beat that reaches the database with documents it takes.\<close>

definition beat_lands :: "run_env \<Rightarrow> 'c worker_config \<Rightarrow> duration \<Rightarrow> lease_beat \<Rightarrow> bool" where
  "beat_lands env c ttl b \<longleftrightarrow>
     (case lb_try b of Settled fate \<Rightarrow> landed fate | Abandoned l \<Rightarrow> l) \<and>
     validate_worker_info (rv_chunks env) (stats_json (lb_elapsed b) (lb_counters b)) (wc_metadata c) ttl = Inr ()"

text \<open>What a lease write does to the store, whether it settled or was dropped.\<close>

lemma write_lease_store:
  "rn_store (write_lease env c ttl b x) =
     (if (case lb_try b of Settled fate \<Rightarrow> landed fate | Abandoned l \<Rightarrow> l)
      then snd (write_worker_info (rv_chunks env) (lb_now b) (wc_id c) (stats_json (lb_elapsed b) (lb_counters b))
             (wc_metadata c) ttl (if rn_intake_open x then Open else Closed) (wc_queue c) (rn_store x))
      else rn_store x)"
proof (cases "lb_try b")
  case (Settled fate)
  then show ?thesis
    by (cases fate)
       (auto simp: write_lease_def heartbeat_def Let_def split: prod.splits sum.splits)
qed (simp add: write_lease_def)

lemma write_lease_open [simp]: "rn_intake_open (write_lease env c ttl b x) = rn_intake_open x"
  by (auto simp: write_lease_def split: lease_try.split prod.split)

text \<open>A row under the worker's id after a write was created or refreshed by it, unless the write was refused.\<close>

lemma written_row:
  fixes h :: handle and ttl :: duration
  assumes r: "r \<in> set (st_workers (snd (write_worker_info chunks now w stats metadata ttl intake h s)))" "w_id r = w"
    and own: "\<forall>r\<in>set (st_workers s). w_id r = w \<longrightarrow> w_queue r = h_name h"
  obtains (refused) "validate_worker_info chunks stats metadata ttl \<noteq> Inr ()" "r \<in> set (st_workers s)"
  | (created) "w_queue r = h_name h" "w_accepting r = accepts_when_created intake"
      "w_expires_at r = now + interval_ms (duration_to_ms ttl)"
  | (refreshed) y where "y \<in> set (st_workers s)" "w_id y = w" "w_queue r = h_name h"
      "w_accepting r = (reopens intake \<or> w_accepting y)" "w_expires_at r = now + interval_ms (duration_to_ms ttl)"
proof (cases "validate_worker_info chunks stats metadata ttl")
  case (Inl e)
  then show ?thesis using refused r by (simp add: write_worker_info_def)
next
  case (Inr u)
  show ?thesis
  proof (cases "lookup_row w_id w (st_workers s)")
    case None
    then have "\<forall>y\<in>set (st_workers s). w_id y \<noteq> w" by (simp add: lookup_row_None)
    then have "r \<notin> set (st_workers s)" using r(2) by blast
    then show ?thesis using created r(1) Inr None by (simp add: write_worker_info_def)
  next
    case (Some y)
    then have y: "y \<in> set (st_workers s)" "w_id y = w" by (auto dest: lookup_row_Some)
    then have "w_queue y = h_name h" using own by blast
    moreover define f :: "worker_row \<Rightarrow> worker_row" where "f = (\<lambda>x. x\<lparr> w_stats := stats, w_metadata := metadata, w_heartbeat_at := now,
        w_expires_at := now + interval_ms (duration_to_ms ttl),
        w_accepting := (if reopens intake then True else w_accepting x) \<rparr>)"
    ultimately have "r \<in> set (update_rows (\<lambda>x. w_id x = w) f (st_workers s))"
      using r(1) Inr Some by (simp add: write_worker_info_def)
    then obtain z where z: "z \<in> set (st_workers s)" "r = (if w_id z = w then f z else z)"
      unfolding in_update_rows by blast
    have "w_id z = w" using z(2) r(2) by (cases "w_id z = w") auto
    moreover from this have "w_queue z = h_name h" using own z(1) by blast
    ultimately show ?thesis using refreshed [OF z(1)] z(2) by (simp add: f_def)
  qed
qed

lemma write_lease_keeps:
  assumes own: "own_lease c (rn_store x)"
  shows "own_lease c (rn_store (write_lease env c ttl b x))"
    and "closed_lease c x \<Longrightarrow> closed_lease c (write_lease env c ttl b x)"
    and "beat_lands env c 0 b \<Longrightarrow> expired_lease c (lb_now b) (write_lease env c 0 b x)"
proof -
  have own': "\<forall>r\<in>set (st_workers (rn_store x)). w_id r = wc_id c \<longrightarrow> w_queue r = h_name (wc_queue c)"
    using own by (simp add: own_lease_def)
  show "own_lease c (rn_store (write_lease env c ttl b x))"
    unfolding own_lease_def write_lease_store using own' by (auto elim!: written_row [OF _ _ own'])
  show "closed_lease c x \<Longrightarrow> closed_lease c (write_lease env c ttl b x)"
    unfolding closed_lease_def write_lease_store by (auto elim!: written_row [OF _ _ own'])
  show "beat_lands env c 0 b \<Longrightarrow> expired_lease c (lb_now b) (write_lease env c 0 b x)"
    unfolding expired_lease_def write_lease_store beat_lands_def
    by (auto elim!: written_row [OF _ _ own'])
qed

lemma close_lease_keeps:
  assumes own: "own_lease c (rn_store x)"
  shows "own_lease c (rn_store (close_lease c fate now x))"
    and "\<not> rn_intake_open x \<Longrightarrow> landed fate \<Longrightarrow> closed_lease c (close_lease c fate now x)"
proof -
  show "own_lease c (rn_store (close_lease c fate now x))"
    using own by (cases fate) (auto simp: own_lease_def close_lease_def stop_worker_intake_def close_worker_def in_update_rows)
  show "\<not> rn_intake_open x \<Longrightarrow> landed fate \<Longrightarrow> closed_lease c (close_lease c fate now x)"
    using own by (cases fate) (auto simp: own_lease_def closed_lease_def close_lease_def stop_worker_intake_def
        close_worker_def update_rows_def)
qed

lemma during_keeps:
  "\<lbrakk>\<forall>m\<in>set ms. gentle (wc_id c) m; own_lease c (rn_store x)\<rbrakk>
   \<Longrightarrow> own_lease c (rn_store (during env c ms x)) \<and> (closed_lease c x \<longrightarrow> closed_lease c (during env c ms x))"
proof (induction ms arbitrary: x)
  case (Cons m ms)
  show ?case
  proof (cases m)
    case (Heartbeat b)
    then show ?thesis using Cons write_lease_keeps(1,2) [OF Cons.prems(2)] by simp
  next
    case (Elsewhere f)
    then have "\<forall>r\<in>set (st_workers (f (rn_store x))). w_id r = wc_id c \<longrightarrow> r \<in> set (st_workers (rn_store x))"
      using Cons.prems(1) by (simp add: leaves_lease_def)
    then have "own_lease c (f (rn_store x))"
      and "closed_lease c x \<Longrightarrow> closed_lease c (x\<lparr> rn_store := f (rn_store x) \<rparr>)"
      using Cons.prems(2) by (auto simp: own_lease_def closed_lease_def)
    then show ?thesis using Cons Elsewhere by simp
  next
    case (Reported f)
    then have "closed_lease c x \<Longrightarrow> closed_lease c (x\<lparr> rn_health := f (rn_health x) \<rparr>)" by (simp add: closed_lease_def)
    then show ?thesis using Cons Reported by simp
  qed
qed simp

lemma during_no_lease:
  "\<lbrakk>\<forall>m\<in>set ms. gentle (wc_id c) m \<and> no_heartbeat m; no_lease (wc_id c) (rn_store x)\<rbrakk>
   \<Longrightarrow> no_lease (wc_id c) (rn_store (during env c ms x))"
proof (induction ms arbitrary: x)
  case (Cons m ms)
  have "no_lease (wc_id c) (f (rn_store x))" if "leaves_lease (wc_id c) f" for f
    using that Cons.prems(2) by (auto simp: leaves_lease_def no_lease_def)
  then show ?case using Cons by (cases m) simp_all
qed simp

text \<open>How the lease ends: who closed it, and whose write, if any, expired it.\<close>

definition served :: "'c worker_config \<Rightarrow> run_script \<Rightarrow> bool" where
  "served c r \<longleftrightarrow> startup_outcome (startup_steps c r) = None"

definition closing :: "'c worker_config \<Rightarrow> run_script \<Rightarrow> call_fate" where
  "closing c r = (if served c r then sh_close (ru_shutdown r) else ru_retire_close r)"

definition expiring :: "'c worker_config \<Rightarrow> run_script \<Rightarrow> lease_beat option" where
  "expiring c r =
     (if served c r then (case sh_caretaker (ru_shutdown r) of Caretaker_Done fetcher b \<Rightarrow> Some b | _ \<Rightarrow> None)
      else Some (ru_retire_expire r))"

definition retired :: "run_env \<Rightarrow> 'c worker_config \<Rightarrow> run_script \<Rightarrow> run_state \<Rightarrow> bool" where
  "retired env c r x \<longleftrightarrow>
     (landed (closing c r) \<longrightarrow> (\<forall>w\<in>set (st_workers (rn_store x)). w_id w = wc_id c \<longrightarrow> \<not> w_accepting w)) \<and>
     (\<forall>b. expiring c r = Some b \<longrightarrow> beat_lands env c 0 b \<longrightarrow> expired_lease c (lb_now b) x)"

lemma no_lease_retired: "no_lease (wc_id c) (rn_store x) \<Longrightarrow> retired env c r x"
  by (auto simp: retired_def no_lease_def expired_lease_def)

lemma no_lease_own: "no_lease (wc_id c) s \<Longrightarrow> own_lease c s"
  by (auto simp: no_lease_def own_lease_def)

lemma retire_startup_retired:
  assumes "own_lease c (rn_store x)" "\<not> served c r"
  shows "retired env c r (retire_startup_lease env c (ru_retire_close r) (ru_retire_now r) (ru_retire_expire r) x)"
proof -
  let ?x = "close_lease c (ru_retire_close r) (ru_retire_now r) (x\<lparr> rn_intake_open := False \<rparr>)"
  have own0: "own_lease c (rn_store (x\<lparr> rn_intake_open := False \<rparr>))" using assms(1) by simp
  have own: "own_lease c (rn_store ?x)" by (rule close_lease_keeps(1) [OF own0])
  have "landed (ru_retire_close r) \<Longrightarrow> closed_lease c ?x" by (rule close_lease_keeps(2) [OF own0]) simp_all
  then show ?thesis
    using write_lease_keeps(2,3) [OF own] assms(2)
    by (simp add: retired_def closing_def expiring_def retire_startup_lease_def closed_lease_def)
qed

lemma serve_retired:
  assumes own: "own_lease c (rn_store x)" and served: "served c r"
    and gentle: "\<forall>m\<in>set (ru_serving r @ sh_draining (ru_shutdown r) @ sh_stopping (ru_shutdown r) @
        sh_releasing (ru_shutdown r)). gentle (wc_id c) m"
  shows "retired env c r (snd (serve env c r x))"
proof -
  let ?d = "ru_shutdown r"
  define x1 where "x1 = during env c (ru_serving r) (x\<lparr> rn_health := reporter_ready (rn_health x) \<rparr>)"
  define x2 where "x2 = close_intake c (sh_close ?d) (sh_close_now ?d) x1"
  define x3 where "x3 = during env c (sh_releasing ?d) (during env c (sh_stopping ?d) (during env c (sh_draining ?d) x2))"
  have gs: "\<forall>m\<in>set (ru_serving r). gentle (wc_id c) m" "\<forall>m\<in>set (sh_draining ?d). gentle (wc_id c) m"
      "\<forall>m\<in>set (sh_stopping ?d). gentle (wc_id c) m" "\<forall>m\<in>set (sh_releasing ?d). gentle (wc_id c) m"
    using gentle by auto
  have "own_lease c (rn_store (x\<lparr> rn_health := reporter_ready (rn_health x) \<rparr>))" using own by simp
  then have "own_lease c (rn_store x1)" using during_keeps [OF gs(1)] unfolding x1_def by blast
  then have o1: "own_lease c (rn_store (x1\<lparr> rn_intake_open := False \<rparr>))" by simp
  have o2: "own_lease c (rn_store x2)"
    unfolding x2_def close_intake_def by (rule close_lease_keeps(1) [OF o1])
  have c2: "closed_lease c x2" if "landed (sh_close ?d)"
    unfolding x2_def close_intake_def by (rule close_lease_keeps(2) [OF o1]) (simp_all add: that)
  note d1 = during_keeps [OF gs(2) o2, of env]
  note d2 = during_keeps [OF gs(3) d1 [THEN conjunct1], of env]
  note d3 = during_keeps [OF gs(4) d2 [THEN conjunct1], of env]
  have o3: "own_lease c (rn_store x3)" using d3 unfolding x3_def by blast
  have c3: "landed (sh_close ?d) \<Longrightarrow> closed_lease c x3" using d1 d2 d3 c2 unfolding x3_def by blast
  obtain e where "snd (serve env c r x) = snd (retire_fetcher env c (fetcher_stopped (ru_end r)) (sh_caretaker ?d) e x3)"
    by (simp add: serve_def shutdown_run_of_def Let_def case_prod_unfold x1_def x2_def x3_def)
  then show ?thesis
    using c3 write_lease_keeps(2,3) [OF o3] served
    by (cases "sh_caretaker ?d")
       (auto simp: retired_def closing_def expiring_def retire_fetcher_def finish_fetcher_shutdown_def closed_lease_def
         split: option.splits)
qed

lemma take_lease_retired:
  assumes "own_lease c (rn_store x)" "served c r \<longleftrightarrow> \<not> ru_write_asked r \<and> \<not> ru_asked_before_tasks r"
    "\<forall>m\<in>set (ru_serving r @ sh_draining (ru_shutdown r) @ sh_stopping (ru_shutdown r) @ sh_releasing (ru_shutdown r)).
       gentle (wc_id c) m"
  shows "retired env c r (snd (take_lease env c r x))"
proof -
  have own: "own_lease c (rn_store (write_lease env c (live_ttl c) b x))" for b
    by (rule write_lease_keeps(1) [OF assms(1)])
  show ?thesis
  proof (cases "served c r")
    case True
    then show ?thesis
      using assms(2) serve_retired [OF own True assms(3)] by (simp add: take_lease_def before_shutdown_def Let_def)
  next
    case False
    then show ?thesis
      using assms(2) retire_startup_retired [OF own False]
      by (auto simp: take_lease_def before_shutdown_def Let_def)
  qed
qed


definition sample_config :: "unit worker_config" where
  "sample_config = \<lparr> wc_queue = sample_handle, wc_handlers = [], wc_concurrency = 1, wc_timers = worker_timers_default,
     wc_crons = [], wc_burst = False, wc_dequeue_timeout = None, wc_poll_interval = from_secs 1,
     wc_abort_grace = from_secs 1, wc_shutdown_grace = from_secs 30, wc_metadata = None, wc_dashboard = None,
     wc_id = 3, wc_burst_budget = None, wc_intake_open = True, wc_health = reporter_new \<rparr>"

definition sample_beat :: "timestamp \<Rightarrow> lease_beat" where
  "sample_beat now = \<lparr> lb_try = Settled Answers, lb_now = now, lb_elapsed = Some 0, lb_counters = sample_counters \<rparr>"

text \<open>A run that is asked to stop; a heartbeat lands while its processors drain.\<close>

definition sample_run :: run_script where
  "sample_run = \<lparr> ru_bind_asked = False, ru_bind = Inr (), ru_reconcile_asked = False, ru_reconciling = [],
     ru_burst_asked = False, ru_bursting = [], ru_burst = Inr (), ru_write_asked = False, ru_write_landed = False,
     ru_write = sample_beat 1000, ru_asked_before_tasks = False, ru_retire_close = Answers, ru_retire_now = 0,
     ru_retire_expire = sample_beat 0, ru_serving = [Heartbeat (sample_beat 2000)], ru_end = Shutdown_Asked,
     ru_shutdown = \<lparr> sh_close = Answers, sh_close_now = 3000, sh_draining = [Heartbeat (sample_beat 4000)],
       sh_processors = [Finished], sh_in_grace = 1, sh_in_hard = 0, sh_stopping = [],
       sh_timers = [Finished, Finished], sh_timers_in_time = 2, sh_releasing = [],
       sh_caretaker = Caretaker_Done Finished (sample_beat 5000) \<rparr>,
     ru_dashboard_end = Inr () \<rparr>"


section \<open>One claimed job\<close>

definition UNHANDLED_JOB_WARNING_INTERVAL :: duration where "UNHANDLED_JOB_WARNING_INTERVAL = from_secs 60"
definition WARNED_NAMES_CAP :: nat where "WARNED_NAMES_CAP = 1024"

text \<open>
  The warning about a job without a handler: whether it is due, and the times of the last ones by
  name. \<open>show_name\<close> is the debug form of a string.
\<close>

definition warn_unhandled_bounce ::
    "(string \<Rightarrow> string) \<Rightarrow> timestamp \<Rightarrow> nat \<Rightarrow> string \<Rightarrow> (string \<times> nat) list \<times> worker_health_reporter
     \<Rightarrow> bool \<times> (string \<times> nat) list \<times> worker_health_reporter" where
  "warn_unhandled_bounce show_name now instant name x =
     (let (warned_at, health) = x;
          health = reporter_failed now CDispatch (''no handler registered for claimed job '' @ show_name name) health;
          warned_at = (if WARNED_NAMES_CAP \<le> length warned_at \<and> map_of warned_at name = None then [] else warned_at);
          due = (case map_of warned_at name of
                   None \<Rightarrow> True
                 | Some warned_last \<Rightarrow> UNHANDLED_JOB_WARNING_INTERVAL \<le> instant - warned_last)
      in (due, if due then AList.update name instant warned_at else warned_at, health))"

record process_state =
  px_handle :: handle
  px_store :: store
  px_inflight :: inflight
  px_counters :: counters
  px_warned :: "(string \<times> nat) list"
  px_health :: worker_health_reporter

definition registered_attempt :: worker_inflight_job where
  "registered_attempt = \<lparr> if_cooperative = False, if_force = False, if_abort_reason = None \<rparr>"

text \<open>
  \<^verbatim>\<open>process\<close>: the attempt is in the registry while the handler runs and its end is written, and
  out of it on every way out. \<open>beside\<close> is what polls and attempts of other claims do to the registry in
  that time. \<open>None\<close> is a finalization still being retried.
\<close>

definition process ::
    "(duration \<Rightarrow> string) \<Rightarrow> (json \<Rightarrow> string list) \<Rightarrow> (duration \<Rightarrow> duration) \<Rightarrow> (nat \<Rightarrow> nat \<Rightarrow> timestamp) \<Rightarrow> (string \<Rightarrow> string)
     \<Rightarrow> (string \<Rightarrow> bool) \<Rightarrow> attempt_event \<Rightarrow> finalize_try list \<Rightarrow> (inflight \<Rightarrow> inflight) \<Rightarrow> timestamp \<Rightarrow> nat \<Rightarrow> job_row
     \<Rightarrow> process_state \<Rightarrow> process_state option" where
  "process show_duration chunks jitter clk show_name handlers ev tries beside now instant job x =
     (let key = (j_id job, j_attempts job);
          registry = beside ((px_inflight x)(key \<mapsto> registered_attempt));
          ended = run_attempt show_duration chunks handlers ev job
      in case finalize chunks jitter clk job ended tries (px_handle x) (px_store x) of
           None \<Rightarrow> None
         | Some (p, h, s) \<Rightarrow>
             (let (_, warned, health) =
                    (if p = Bounced then warn_unhandled_bounce show_name now instant (j_name job) (px_warned x, px_health x)
                     else (False, px_warned x, px_health x))
              in Some \<lparr> px_handle = h, px_store = s, px_inflight = registry(key := None),
                        px_counters = count_result p (px_counters x), px_warned = warned, px_health = health \<rparr>))"

text \<open>The loop that mirrors the listener's health, over the states it sees; \<open>closed\<close> is the end of the sender.\<close>

fun notification_health_loop :: "timestamp \<Rightarrow> string option list \<Rightarrow> bool \<Rightarrow> worker_health_reporter \<Rightarrow> worker_health_reporter" where
  "notification_health_loop now [] closed r =
     (if closed then reporter_failed now CNotification ''notification listener stopped'' r else r)"
| "notification_health_loop now (seen # more_seen) closed r =
     notification_health_loop now more_seen closed
       (case seen of Some err \<Rightarrow> reporter_failed now CNotification err r | None \<Rightarrow> reporter_recovered CNotification r)"

text \<open>A name is warned about at most once per interval, until as many other names push it out.\<close>

lemma warning_spaced:
  assumes "warn_unhandled_bounce show_name now instant name (warned, r) = (True, warned', r')"
    "map_of warned name = Some t"
  shows "UNHANDLED_JOB_WARNING_INTERVAL \<le> instant - t"
  using assms by (auto simp: warn_unhandled_bounce_def Let_def split: if_splits)

lemma update_length: "length (AList.update k v xs) \<le> Suc (length xs)"
  by (induction xs) auto

lemma warned_names_bounded:
  assumes "warn_unhandled_bounce show_name now instant name (warned, r) = (due, warned', r')"
    "length warned \<le> WARNED_NAMES_CAP"
  shows "length warned' \<le> WARNED_NAMES_CAP"
proof -
  have "length (AList.update k v xs) = length xs" if "map_of xs k \<noteq> None" for k v and xs :: "(string \<times> nat) list"
    using that by (induction xs) auto
  moreover have "length (AList.update name instant warned) \<le> WARNED_NAMES_CAP" if "length warned < WARNED_NAMES_CAP"
    using that update_length [of name instant warned] by linarith
  ultimately show ?thesis
    using assms by (cases "map_of warned name")
      (auto simp: warn_unhandled_bounce_def Let_def not_le WARNED_NAMES_CAP_def split: if_splits)
qed

text \<open>A processed claim is out of the registry and counted once, under what became of it.\<close>

lemma process_deregisters:
  assumes "process show_duration chunks jitter clk show_name handlers ev tries beside now instant job x = Some x'"
  shows "px_inflight x' (j_id job, j_attempts job) = None \<and>
    (\<exists>p. px_counters x' = count_result p (px_counters x))"
  using assms by (auto simp: process_def Let_def split: option.splits prod.splits)

end
