(* ===== verification/Job_Codec.thy ===== *)
theory Job_Codec
  imports Job_Error "HOL-Library.Word"
begin

text \<open>
  The boundary between handlers and stored JSON (\<^verbatim>\<open>job.rs\<close>, \<^verbatim>\<open>lib.rs\<close>): the checked encoding of
  typed values, the normalization of a handler's return value, and what a handler extracts from
  its context. A \<^verbatim>\<open>Serialize\<close> value is the tree of the serializer calls it makes; the serializer of
  \<^verbatim>\<open>serde_json\<close> is a parameter that sees the result of every nested value.
\<close>

section \<open>Values\<close>

datatype scalar =
    SBool bool | SI8 int | SI16 int | SI32 int | SI64 int | SI128 int
  | SU8 nat | SU16 nat | SU32 nat | SU64 nat | SU128 nat | SChar nat

datatype compound =
    Seq "nat option" | Tuple nat | TupleStruct string nat | TupleVariant string nat string nat
  | MapOf "nat option" | Struct string nat | StructVariant string nat string nat

datatype part = Element | MapKey | MapValue | Field string

text \<open>\<open>Checked\<close> is \<^verbatim>\<open>CheckedJson\<close>. Floats are their bits, strings UTF-8; what \<^verbatim>\<open>is_human_readable\<close>
  makes a value choose is in the tree. \<open>Element\<close> is also the field of a tuple.\<close>

datatype sval =
    Scalar scalar
  | F32 "32 word"
  | F64 "64 word"
  | Str string
  | Bytes string
  | NoneVal
  | SomeVal sval
  | UnitVal
  | UnitStruct string
  | UnitVariant string nat string
  | NewtypeStruct string sval
  | NewtypeVariant string nat string sval
  | CollectStr string
  | Compound compound "(part \<times> sval) list"
  | Checked sval

text \<open>An exponent of ones is an infinity or a NaN.\<close>

definition is_finite_f32 :: "32 word \<Rightarrow> bool" where
  "is_finite_f32 x \<longleftrightarrow> (unat x div 2 ^ 23) mod 2 ^ 8 \<noteq> 255"

definition is_finite_f64 :: "64 word \<Rightarrow> bool" where
  "is_finite_f64 x \<longleftrightarrow> (unat x div 2 ^ 52) mod 2 ^ 11 \<noteq> 2047"

section \<open>Serializers\<close>

text \<open>
  A serializer in a state \<open>'k\<close> (a value position, a map key), with an open compound \<open>'c\<close>. The methods
  that take a nested value get what its own serialization came to, in the state \<open>se_inner\<close> gives it.
\<close>

datatype slot = InSome | InNewtypeStruct | InNewtypeVariant | InPart compound part

record ('k, 'c, 'o) serializer =
  se_scalar :: "'k \<Rightarrow> scalar \<Rightarrow> string + 'o"
  se_f32 :: "'k \<Rightarrow> 32 word \<Rightarrow> string + 'o"
  se_f64 :: "'k \<Rightarrow> 64 word \<Rightarrow> string + 'o"
  se_str :: "'k \<Rightarrow> string \<Rightarrow> string + 'o"
  se_bytes :: "'k \<Rightarrow> string \<Rightarrow> string + 'o"
  se_none :: "'k \<Rightarrow> string + 'o"
  se_some :: "'k \<Rightarrow> string + 'o \<Rightarrow> string + 'o"
  se_unit :: "'k \<Rightarrow> string + 'o"
  se_unit_struct :: "'k \<Rightarrow> string \<Rightarrow> string + 'o"
  se_unit_variant :: "'k \<Rightarrow> string \<Rightarrow> nat \<Rightarrow> string \<Rightarrow> string + 'o"
  se_newtype_struct :: "'k \<Rightarrow> string \<Rightarrow> string + 'o \<Rightarrow> string + 'o"
  se_newtype_variant :: "'k \<Rightarrow> string \<Rightarrow> nat \<Rightarrow> string \<Rightarrow> string + 'o \<Rightarrow> string + 'o"
  se_collect_str :: "'k \<Rightarrow> string \<Rightarrow> string + 'o"
  se_open :: "'k \<Rightarrow> compound \<Rightarrow> string + 'c"
  se_part :: "'c \<Rightarrow> part \<Rightarrow> string + 'o \<Rightarrow> string + 'c"
  se_end :: "'c \<Rightarrow> string + 'o"
  se_inner :: "'k \<Rightarrow> slot \<Rightarrow> 'k"

definition NON_FINITE :: string where
  "NON_FINITE = ''non-finite floats (NaN, infinity) have no JSON representation''"

fun weight :: "sval \<Rightarrow> nat" where
  "weight (SomeVal v) = weight v + 2"
| "weight (NewtypeStruct name v) = weight v + 2"
| "weight (NewtypeVariant name i variant v) = weight v + 2"
| "weight (Compound c ps) = sum_list (map (\<lambda>p. weight (snd p) + 2) ps) + 1"
| "weight (Checked v) = weight v + 1"
| "weight _ = 1"

definition parts_weight :: "(part \<times> sval) list \<Rightarrow> nat" where
  "parts_weight ps = sum_list (map (\<lambda>p. 2 * weight (snd p) + 1) ps)"

definition wrap_parts :: "(part \<times> sval) list \<Rightarrow> (part \<times> sval) list" where
  "wrap_parts ps = map (\<lambda>(t, v). (t, Checked v)) ps"

lemma parts_weight_simps [simp]:
  "parts_weight [] = 0"
  "parts_weight ((t, v) # ps) = 2 * weight v + 1 + parts_weight ps"
  by (simp_all add: parts_weight_def)

lemma parts_weight_compound: "parts_weight ps < 2 * weight (Compound c ps)"
  by (induction ps) (auto simp: parts_weight_def)

lemma parts_weight_wrapped: "parts_weight (wrap_parts ps) < 2 * weight (Compound c ps) + 1"
  by (induction ps) (auto simp: parts_weight_def wrap_parts_def)

text \<open>
  \<open>serialize\<close>: a value makes its calls on a serializer. \<open>reject\<close>: it makes them on
  \<^verbatim>\<open>RejectNonFinite\<close> around it, which forwards each with the nested values wrapped again.
  \<open>serialize_parts\<close>: the fields of a compound, up to its end.
\<close>

function (sequential) serialize :: "('k, 'c, 'o) serializer \<Rightarrow> 'k \<Rightarrow> sval \<Rightarrow> string + 'o"
  and reject :: "('k, 'c, 'o) serializer \<Rightarrow> 'k \<Rightarrow> sval \<Rightarrow> string + 'o"
  and serialize_parts :: "('k, 'c, 'o) serializer \<Rightarrow> 'k \<Rightarrow> compound \<Rightarrow> 'c \<Rightarrow> (part \<times> sval) list \<Rightarrow> string + 'o" where
  "serialize S k (Scalar x) = se_scalar S k x"
| "serialize S k (F32 x) = se_f32 S k x"
| "serialize S k (F64 x) = se_f64 S k x"
| "serialize S k (Str x) = se_str S k x"
| "serialize S k (Bytes x) = se_bytes S k x"
| "serialize S k NoneVal = se_none S k"
| "serialize S k (SomeVal v) = se_some S k (serialize S (se_inner S k InSome) v)"
| "serialize S k UnitVal = se_unit S k"
| "serialize S k (UnitStruct name) = se_unit_struct S k name"
| "serialize S k (UnitVariant name i variant) = se_unit_variant S k name i variant"
| "serialize S k (NewtypeStruct name v) = se_newtype_struct S k name (serialize S (se_inner S k InNewtypeStruct) v)"
| "serialize S k (NewtypeVariant name i variant v) =
     se_newtype_variant S k name i variant (serialize S (se_inner S k InNewtypeVariant) v)"
| "serialize S k (CollectStr x) = se_collect_str S k x"
| "serialize S k (Compound c ps) = and_then (se_open S k c) (\<lambda>oc. serialize_parts S k c oc ps)"
| "serialize S k (Checked v) = reject S k v"
| "reject S k (Scalar x) = se_scalar S k x"
| "reject S k (F32 x) = (if \<not> is_finite_f32 x then Inl NON_FINITE else se_f32 S k x)"
| "reject S k (F64 x) = (if \<not> is_finite_f64 x then Inl NON_FINITE else se_f64 S k x)"
| "reject S k (Str x) = se_str S k x"
| "reject S k (Bytes x) = se_bytes S k x"
| "reject S k NoneVal = se_none S k"
| "reject S k (SomeVal v) = se_some S k (serialize S (se_inner S k InSome) (Checked v))"
| "reject S k UnitVal = se_unit S k"
| "reject S k (UnitStruct name) = se_unit_struct S k name"
| "reject S k (UnitVariant name i variant) = se_unit_variant S k name i variant"
| "reject S k (NewtypeStruct name v) =
     se_newtype_struct S k name (serialize S (se_inner S k InNewtypeStruct) (Checked v))"
| "reject S k (NewtypeVariant name i variant v) =
     se_newtype_variant S k name i variant (serialize S (se_inner S k InNewtypeVariant) (Checked v))"
| "reject S k (CollectStr x) = se_collect_str S k x"
| "reject S k (Compound c ps) = and_then (se_open S k c) (\<lambda>oc. serialize_parts S k c oc (wrap_parts ps))"
| "reject S k (Checked v) = reject S k v"
| "serialize_parts S k c oc [] = se_end S oc"
| "serialize_parts S k c oc ((t, v) # ps) =
     and_then (se_part S oc t (serialize S (se_inner S k (InPart c t)) v)) (\<lambda>oc'. serialize_parts S k c oc' ps)"
  by pat_completeness auto

termination
proof (relation "measure (\<lambda>x. case x of
    Inl (S, k, v) \<Rightarrow> 2 * weight v
  | Inr (Inl (S, k, v)) \<Rightarrow> 2 * weight v + 1
  | Inr (Inr (S, k, c, oc, ps)) \<Rightarrow> parts_weight ps)", goal_cases)
  case 1
  then show ?case by (rule wf_measure)
qed (use parts_weight_compound parts_weight_wrapped in auto)

text \<open>\<open>root\<close> is the state of \<^verbatim>\<open>serde_json\<close>'s value serializer at the root.\<close>

definition encode_json :: "('k, 'c, 'o) serializer \<Rightarrow> 'k \<Rightarrow> sval \<Rightarrow> string + 'o" where
  "encode_json S root v = serialize S root (Checked v)"

section \<open>Handlers' results\<close>

text \<open>
  A handler's own error as \<open>into_job_result\<close> downcasts it: a \<^verbatim>\<open>JobError\<close>, an \<^verbatim>\<open>anyhow::Error\<close> with its
  chain (outermost first, \<open>None\<close> a cause that is no \<^verbatim>\<open>JobError\<close>) and its \<^verbatim>\<open>{:#}\<close> text, or anything
  that displays itself.
\<close>

datatype handler_error =
    Own job_error
  | Anyhow "job_error option list" string
  | Other string

fun first_cause :: "job_error option list \<Rightarrow> job_error option" where
  "first_cause [] = None"
| "first_cause (None # causes) = first_cause causes"
| "first_cause (Some e # causes) = Some e"

fun job_error_of :: "handler_error \<Rightarrow> job_error" where
  "job_error_of (Own e) = job_error_new (je_kind e) (je_message e)"
| "job_error_of (Anyhow causes shown) =
     (case first_cause causes of
        Some e \<Rightarrow> job_error_new (je_kind e) (je_message e)
      | None \<Rightarrow> job_error_failed shown)"
| "job_error_of (Other shown) = job_error_failed shown"

text \<open>\<open>Unit\<close> is the \<^verbatim>\<open>()\<close> of a handler that cannot fail.\<close>

datatype handler_return = Returned "handler_error + sval" | Unit

fun into_job_result :: "handler_return \<Rightarrow> job_error + sval" where
  "into_job_result (Returned (Inl error)) = Inl (job_error_of error)"
| "into_job_result (Returned (Inr v)) = Inr v"
| "into_job_result Unit = Inr UnitVal"

definition encode_result :: "('k, 'c, 'o) serializer \<Rightarrow> 'k \<Rightarrow> handler_return \<Rightarrow> job_error + 'o" where
  "encode_result S root result =
     and_then (into_job_result result) (\<lambda>output.
       case encode_json S root output of
         Inl e \<Rightarrow> Inl (job_error_new KDecode (''result encode: '' @ e))
       | Inr x \<Rightarrow> Inr x)"

text \<open>\<open>deserialize\<close> is the handler argument's own decoder.\<close>

definition decode_payload :: "('j \<Rightarrow> string + 'a) \<Rightarrow> 'j \<Rightarrow> job_error + 'a" where
  "decode_payload deserialize payload =
     (case deserialize payload of
        Inl e \<Rightarrow> Inl (job_error_new KDecode (''payload decode: '' @ e))
      | Inr x \<Rightarrow> Inr x)"

section \<open>Shared state\<close>

text \<open>
  \<^verbatim>\<open>JobStateMap\<close>: one value of each type \<open>'t\<close>, the last one registered. \<open>type_name\<close> is
  \<^verbatim>\<open>std::any::type_name\<close>.
\<close>

type_synonym ('t, 'v) job_state_map = "'t \<rightharpoonup> 'v"

definition state_insert :: "'t \<Rightarrow> 'v \<Rightarrow> ('t, 'v) job_state_map \<Rightarrow> ('t, 'v) job_state_map" where
  "state_insert t v m = m(t \<mapsto> v)"

definition state_get :: "'t \<Rightarrow> ('t, 'v) job_state_map \<Rightarrow> 'v option" where
  "state_get t m = m t"

definition job_state_from_context :: "('t \<Rightarrow> string) \<Rightarrow> ('t, 'v) job_state_map \<Rightarrow> 't \<Rightarrow> job_error + 'v" where
  "job_state_from_context type_name m t =
     (case state_get t m of
        Some v \<Rightarrow> Inr v
      | None \<Rightarrow> Inl (job_error_new KExtract
          (''no state of type `'' @ type_name t @ ''` registered on this worker (WorkerBuilder::state)'')))"

section \<open>What the adapter changes\<close>

text \<open>The wrapper is private to the crate: values of users do not contain it.\<close>

fun plain :: "sval \<Rightarrow> bool" where
  "plain (SomeVal v) = plain v"
| "plain (NewtypeStruct name v) = plain v"
| "plain (NewtypeVariant name i variant v) = plain v"
| "plain (Compound c ps) = (\<forall>p\<in>set ps. plain (snd p))"
| "plain (Checked v) = False"
| "plain _ = True"

fun all_finite :: "sval \<Rightarrow> bool" where
  "all_finite (F32 x) = is_finite_f32 x"
| "all_finite (F64 x) = is_finite_f64 x"
| "all_finite (SomeVal v) = all_finite v"
| "all_finite (NewtypeStruct name v) = all_finite v"
| "all_finite (NewtypeVariant name i variant v) = all_finite v"
| "all_finite (Compound c ps) = (\<forall>p\<in>set ps. all_finite (snd p))"
| "all_finite (Checked v) = all_finite v"
| "all_finite _ = True"

text \<open>A serializer that hands on the error of a nested value.\<close>

definition strict :: "('k, 'c, 'o) serializer \<Rightarrow> bool" where
  "strict S \<longleftrightarrow>
     (\<forall>k e. \<exists>e'. se_some S k (Inl e) = Inl e') \<and>
     (\<forall>k name e. \<exists>e'. se_newtype_struct S k name (Inl e) = Inl e') \<and>
     (\<forall>k name i variant e. \<exists>e'. se_newtype_variant S k name i variant (Inl e) = Inl e') \<and>
     (\<forall>oc t e. \<exists>e'. se_part S oc t (Inl e) = Inl e')"

lemma strictD:
  assumes "strict S"
  shows "\<exists>e'. se_some S k (Inl e) = Inl e'"
    and "\<exists>e'. se_newtype_struct S k name (Inl e) = Inl e'"
    and "\<exists>e'. se_newtype_variant S k name i variant (Inl e) = Inl e'"
    and "\<exists>e'. se_part S oc t (Inl e) = Inl e'"
  using assms unfolding strict_def by blast+

lemma serialize_parts_cong:
  "(\<And>t v k'. (t, v) \<in> set ps \<Longrightarrow> serialize S k' (f v) = serialize S k' v) \<Longrightarrow>
   serialize_parts S k c oc (map (\<lambda>(t, v). (t, f v)) ps) = serialize_parts S k c oc ps"
proof (induction ps arbitrary: oc)
  case (Cons p ps)
  obtain t v where p: "p = (t, v)" by fastforce
  have "serialize S k' (f v) = serialize S k' v" for k' using Cons.prems [of t v] p by simp
  moreover have "serialize_parts S k c oc' (map (\<lambda>(t, v). (t, f v)) ps) = serialize_parts S k c oc' ps" for oc'
  proof (rule Cons.IH)
    fix t v k'
    assume "(t, v) \<in> set ps"
    then show "serialize S k' (f v) = serialize S k' v" using Cons.prems [of t v k'] by simp
  qed
  ultimately show ?case by (simp add: p)
qed simp

lemma reject_finite: "plain v \<Longrightarrow> all_finite v \<Longrightarrow> reject S k v = serialize S k v"
proof (induction v arbitrary: k)
  case (Compound c ps)
  have "serialize_parts S k c oc (wrap_parts ps) = serialize_parts S k c oc ps" for oc
    unfolding wrap_parts_def
  proof (rule serialize_parts_cong)
    fix t v k'
    assume "(t, v) \<in> set ps"
    then show "serialize S k' (Checked v) = serialize S k' v"
      using Compound by (force simp: Basic_BNFs.snds.simps)
  qed
  then show ?case by simp
qed simp_all

lemma parts_refused:
  assumes strict: "strict S" and t: "(t, v) \<in> set ps" and v: "\<And>k. \<exists>e. serialize S k v = Inl e"
  shows "\<exists>e. serialize_parts S k c oc ps = Inl e"
  using t
proof (induction ps arbitrary: oc)
  case (Cons p ps)
  obtain t' v' where p: "p = (t', v')" by fastforce
  show ?case
  proof (cases "se_part S oc t' (serialize S (se_inner S k (InPart c t')) v')")
    case (Inr oc')
    obtain e where "serialize S (se_inner S k (InPart c t')) v = Inl e" using v by blast
    then have "p \<noteq> (t, v)" using Inr p strictD(4) [OF strict, of oc t e] by auto
    then show ?thesis using Cons Inr p by auto
  qed (simp add: p)
qed simp

lemma reject_refuses: "strict S \<Longrightarrow> plain v \<Longrightarrow> \<not> all_finite v \<Longrightarrow> \<exists>e. reject S k v = Inl e"
proof (induction v arbitrary: k)
  case (SomeVal v)
  then obtain e where "reject S (se_inner S k InSome) v = Inl e" by auto
  then show ?case by (simp add: strictD [OF SomeVal.prems(1)])
next
  case (NewtypeStruct name v)
  then obtain e where "reject S (se_inner S k InNewtypeStruct) v = Inl e" by auto
  then show ?case by (simp add: strictD [OF NewtypeStruct.prems(1)])
next
  case (NewtypeVariant name i variant v)
  then obtain e where "reject S (se_inner S k InNewtypeVariant) v = Inl e" by auto
  then show ?case by (simp add: strictD [OF NewtypeVariant.prems(1)])
next
  case (Compound c ps)
  then obtain t v where tv: "(t, v) \<in> set ps" "\<not> all_finite v" "plain v" by auto
  have "\<exists>e. serialize S k' (Checked v) = Inl e" for k'
    using Compound.IH [of "(t, v)" v k'] Compound.prems(1) tv by (simp add: Basic_BNFs.snds.simps)
  moreover have "(t, Checked v) \<in> set (wrap_parts ps)" using tv(1) by (force simp: wrap_parts_def)
  ultimately have "\<exists>e. serialize_parts S k c oc (wrap_parts ps) = Inl e" for oc
    using parts_refused [OF Compound.prems(1)] by blast
  then show ?case by (cases "se_open S k c") auto
qed auto

text \<open>
  C37: encoding refuses exactly what JSON cannot say. A value without an infinity or a NaN anywhere is
  encoded as \<^verbatim>\<open>serde_json\<close> encodes it, call for call; one that holds such a float at any depth, in a field, a
  key, an option or a variant, is refused and never becomes a null.
\<close>

theorem encode_json_exact:
  assumes "plain v" "strict S"
  shows "if all_finite v then encode_json S root v = serialize S root v else \<exists>e. encode_json S root v = Inl e"
  using reject_finite [OF assms(1), of S root] reject_refuses [OF assms(2,1), of root] by (auto simp: encode_json_def)

definition strict_json :: "(unit, unit, unit) serializer" where
  "strict_json =
     \<lparr> se_scalar = \<lambda>k x. Inr (), se_f32 = \<lambda>k x. Inr (), se_f64 = \<lambda>k x. Inr (), se_str = \<lambda>k x. Inr (),
       se_bytes = \<lambda>k x. Inr (), se_none = \<lambda>k. Inr (), se_some = \<lambda>k r. r, se_unit = \<lambda>k. Inr (),
       se_unit_struct = \<lambda>k name. Inr (), se_unit_variant = \<lambda>k name i variant. Inr (),
       se_newtype_struct = \<lambda>k name r. r, se_newtype_variant = \<lambda>k name i variant r. r,
       se_collect_str = \<lambda>k x. Inr (), se_open = \<lambda>k c. Inr (), se_part = \<lambda>oc t r. r,
       se_end = \<lambda>oc. Inr (), se_inner = \<lambda>k s. () \<rparr>"

lemma encode_json_exact_witness:
  "(\<exists>e. encode_json strict_json () (Compound (Seq (Some 2)) [(Element, F64 0), (Element, SomeVal (F64 0x7FF8000000000000))]) = Inl e) \<and>
   encode_json strict_json () (Compound (Seq (Some 1)) [(Element, F64 0)]) = Inr ()"
proof -
  have strict: "strict strict_json" by (simp add: strict_def strict_json_def)
  have "\<exists>e. encode_json strict_json () (Compound (Seq (Some 2)) [(Element, F64 0), (Element, SomeVal (F64 0x7FF8000000000000))]) = Inl e"
    using encode_json_exact [OF _ strict, of "Compound (Seq (Some 2)) [(Element, F64 0), (Element, SomeVal (F64 0x7FF8000000000000))]" "()"]
    by (simp add: is_finite_f64_def)
  moreover have "encode_json strict_json () (Compound (Seq (Some 1)) [(Element, F64 0)]) = Inr ()"
    using encode_json_exact [OF _ strict, of "Compound (Seq (Some 1)) [(Element, F64 0)]" "()"]
    by (simp add: is_finite_f64_def strict_json_def)
  ultimately show ?thesis by blast
qed

lemma refused_result_is_final:
  assumes "strict S" "plain v" "\<not> all_finite v"
  shows "\<exists>e. encode_result S root (Returned (Inr v)) = Inl e \<and> \<not> kind_is_retryable (je_kind e)"
  using reject_refuses [OF assms, of root]
  by (auto simp: encode_result_def encode_json_def job_error_new_def Let_def)

lemma handler_keeps_kind:
  "first_cause causes = Some e \<Longrightarrow>
   \<exists>e'. encode_result S root (Returned (Inl (Anyhow causes shown))) = Inl e' \<and> je_kind e' = je_kind e"
  by (simp add: encode_result_def job_error_new_def Let_def)

lemma state_last_registered:
  "job_state_from_context type_name (state_insert t v m) t = Inr v"
  "t \<noteq> t' \<Longrightarrow>
   job_state_from_context type_name (state_insert t' v m) t = job_state_from_context type_name m t"
  by (simp_all add: job_state_from_context_def state_get_def state_insert_def)

end
