(* ===== verification/Db_Resolver.thy ===== *)
theory Db_Resolver
  imports Db_Recovery
begin

text \<open>
  The background tasks behind \<open>Db_Recovery\<close> (\<^verbatim>\<open>database.rs\<close>): the guard that hands the claims of a
  dequeue to a resolver when its outcome is lost, and the retry loop of that resolver and of the one
  for dropped attempts. How a pass goes, and what other sessions did before it, are inputs.
\<close>

section \<open>The retry loop\<close>

definition INITIAL_RETRY_DELAY :: duration where "INITIAL_RETRY_DELAY = from_millis 100"
definition MAX_RETRY_DELAY :: duration where "MAX_RETRY_DELAY = from_secs 5"

text \<open>A pass is a transaction: one that fails has committed all the same, or has done nothing.\<close>

datatype pass_fate = Pass_Answered | Pass_Failed bool | Pool_Closed

record resolver_try =
  rt_beside :: "store \<Rightarrow> store"
  rt_now :: timestamp
  rt_fate :: pass_fate

datatype resolver_end = Resolved | Left_To_Lease | Still_Retrying

fun retry_loop ::
    "(timestamp \<Rightarrow> store \<Rightarrow> handle \<times> store) \<Rightarrow> duration \<Rightarrow> resolver_try list \<Rightarrow> handle \<Rightarrow> store
     \<Rightarrow> resolver_end \<times> duration list \<times> handle \<times> store" where
  "retry_loop pass delay [] h s = (Still_Retrying, [], h, s)"
| "retry_loop pass delay (t # ts) h s =
     (let s1 = rt_beside t s in
      case rt_fate t of
        Pass_Answered \<Rightarrow> (case pass (rt_now t) s1 of (h', s') \<Rightarrow> (Resolved, [], h', s'))
      | Pool_Closed \<Rightarrow> (Left_To_Lease, [], h, s1)
      | Pass_Failed committed \<Rightarrow>
          (case retry_loop pass (min (delay * 2) MAX_RETRY_DELAY) ts h
                  (if committed then snd (pass (rt_now t) s1) else s1) of
             (e, slept, h', s') \<Rightarrow> (e, delay # slept, h', s')))"

section \<open>Lost claims\<close>

text \<open>\<open>runtime\<close>: there is one to spawn on, as there is until the process tears down.\<close>

definition spawn_unacknowledged_claim_resolver ::
    "bool \<Rightarrow> uuid \<Rightarrow> unacknowledged_claim list \<Rightarrow> resolver_try list \<Rightarrow> handle \<Rightarrow> store
     \<Rightarrow> resolver_end \<times> duration list \<times> handle \<times> store" where
  "spawn_unacknowledged_claim_resolver runtime w claims tries h s =
     (if claims = [] then (Resolved, [], h, s)
      else if \<not> runtime then (Left_To_Lease, [], h, s)
      else retry_loop (\<lambda>now s. snd (requeue_unacknowledged_claims now w claims h s)) INITIAL_RETRY_DELAY tries h s)"

text \<open>
  A dequeue that is dropped, or fails, with its guard armed: its commit has landed or has not, and the
  first pass waits on the advisory lock until that is decided.
\<close>

definition claim_of :: "job_row \<Rightarrow> unacknowledged_claim" where
  "claim_of j = \<lparr> uc_id = j_id j, uc_attempts = j_attempts j \<rparr>"

definition dequeue_lost ::
    "(uuid \<Rightarrow> bool) \<Rightarrow> timestamp \<Rightarrow> nat \<Rightarrow> uuid \<Rightarrow> bool \<Rightarrow> bool \<Rightarrow> bool \<Rightarrow> resolver_try list \<Rightarrow> handle \<Rightarrow> store
     \<Rightarrow> resolver_end \<times> duration list \<times> handle \<times> store" where
  "dequeue_lost locked now limit w require_open_intake landed runtime tries h s =
     (case dequeue_claim locked h now limit w require_open_intake s of
        (jobs, s') \<Rightarrow>
          spawn_unacknowledged_claim_resolver runtime w (map claim_of jobs) tries h (if landed then s' else s))"

text \<open>The delay before the retry is drawn once, when the attempt is dropped.\<close>

definition spawn_dropped_attempt_resolver ::
    "(duration \<Rightarrow> duration) \<Rightarrow> bool \<Rightarrow> job_row \<Rightarrow> resolver_try list \<Rightarrow> handle \<Rightarrow> store
     \<Rightarrow> resolver_end \<times> duration list \<times> handle \<times> store" where
  "spawn_dropped_attempt_resolver jitter runtime row tries h s =
     (if \<not> runtime then (Left_To_Lease, [], h, s)
      else retry_loop (\<lambda>now s. snd (recover_dropped_attempt jitter now row h s)) INITIAL_RETRY_DELAY tries h s)"

section \<open>What every resolver does\<close>

definition pass_failed :: "resolver_try \<Rightarrow> bool" where
  "pass_failed t \<longleftrightarrow> (case rt_fate t of Pass_Failed committed \<Rightarrow> True | _ \<Rightarrow> False)"

text \<open>The first pass that is answered, or finds the pool closed, decides.\<close>

definition loop_outcome :: "resolver_try list \<Rightarrow> resolver_end" where
  "loop_outcome ts =
     (case dropWhile pass_failed ts of
        [] \<Rightarrow> Still_Retrying
      | t # _ \<Rightarrow> if rt_fate t = Pass_Answered then Resolved else Left_To_Lease)"

definition backoff_delays :: "duration \<Rightarrow> nat \<Rightarrow> duration list" where
  "backoff_delays d n = map (\<lambda>k. min (d * 2 ^ k) MAX_RETRY_DELAY) [0..<n]"

lemma backoff_delays_Suc:
  assumes "d \<le> MAX_RETRY_DELAY"
  shows "backoff_delays d (Suc n) = d # backoff_delays (min (d * 2) MAX_RETRY_DELAY) n"
proof -
  have "min (d * 2 ^ Suc k) MAX_RETRY_DELAY = min (min (d * 2) MAX_RETRY_DELAY * 2 ^ k) MAX_RETRY_DELAY" for k
  proof (cases "d * 2 \<le> MAX_RETRY_DELAY")
    case False
    then have "MAX_RETRY_DELAY \<le> d * 2 * 2 ^ k" "MAX_RETRY_DELAY \<le> MAX_RETRY_DELAY * 2 ^ k"
      by (metis le_trans linear mult.right_neutral mult_le_mono2 one_le_numeral one_le_power, simp)
    then show ?thesis using False by (simp add: mult.assoc)
  qed (simp add: mult.assoc)
  then have "map (\<lambda>k. min (d * 2 ^ Suc k) MAX_RETRY_DELAY) [0..<n] = backoff_delays (min (d * 2) MAX_RETRY_DELAY) n"
    by (simp add: backoff_delays_def)
  moreover have "[0..<Suc n] = 0 # map Suc [0..<n]" by (simp add: map_Suc_upt upt_conv_Cons)
  ultimately show ?thesis using assms by (simp add: backoff_delays_def o_def)
qed

lemma retry_loop_end:
  assumes "retry_loop pass d ts h s = (e, slept, h', s')" "d \<le> MAX_RETRY_DELAY"
  shows "e = loop_outcome ts" "slept = backoff_delays d (length (takeWhile pass_failed ts))"
proof -
  have "fst (retry_loop pass d ts h s) = loop_outcome ts \<and>
      fst (snd (retry_loop pass d ts h s)) = backoff_delays d (length (takeWhile pass_failed ts))"
    using assms(2)
  proof (induction ts arbitrary: d s)
    case (Cons t ts)
    show ?case
    proof (cases "rt_fate t")
      case (Pass_Failed committed)
      then show ?thesis
        using Cons.IH [of "min (d * 2) MAX_RETRY_DELAY"] backoff_delays_Suc [OF Cons.prems]
        by (simp add: loop_outcome_def pass_failed_def Let_def case_prod_unfold)
    qed (simp_all add: loop_outcome_def pass_failed_def Let_def case_prod_unfold backoff_delays_def)
  qed (simp add: loop_outcome_def backoff_delays_def)
  then show "e = loop_outcome ts" "slept = backoff_delays d (length (takeWhile pass_failed ts))"
    using assms(1) by simp_all
qed

definition others_keep_schema :: "resolver_try list \<Rightarrow> bool" where
  "others_keep_schema ts \<longleftrightarrow> (\<forall>t\<in>set ts. \<forall>s. store_ok s \<longrightarrow> store_ok (rt_beside t s))"

definition undisturbed :: "resolver_try list \<Rightarrow> bool" where
  "undisturbed ts \<longleftrightarrow> (\<forall>t\<in>set ts. rt_beside t = id)"

locale background_resolver =
  fixes pass :: "timestamp \<Rightarrow> store \<Rightarrow> handle \<times> store"
    and lost :: "job_row \<Rightarrow> bool"
  assumes pass_ok: "store_ok s \<Longrightarrow> store_ok (snd (pass now s))"
    and pass_active: "store_ok s \<Longrightarrow> active_preserved s (snd (pass now s))"
    and pass_settles: "store_ok s \<Longrightarrow> j \<in> set (st_jobs (snd (pass now s))) \<Longrightarrow> active j \<Longrightarrow> \<not> lost j"
begin

lemma loop_ok: "store_ok s \<Longrightarrow> others_keep_schema ts \<Longrightarrow> store_ok (snd (snd (snd (retry_loop pass d ts h s))))"
proof (induction ts arbitrary: d s)
  case (Cons t ts)
  have "store_ok (rt_beside t s)" "others_keep_schema ts"
    using Cons.prems by (simp_all add: others_keep_schema_def)
  then show ?case
    using Cons.IH pass_ok by (cases "rt_fate t") (auto simp: Let_def case_prod_unfold)
qed simp

lemma loop_settles:
  "store_ok s \<Longrightarrow> others_keep_schema ts \<Longrightarrow> retry_loop pass d ts h s = (Resolved, slept, h', s') \<Longrightarrow>
   j \<in> set (st_jobs s') \<Longrightarrow> active j \<Longrightarrow> \<not> lost j"
proof (induction ts arbitrary: d s slept)
  case (Cons t ts)
  have ok: "store_ok (rt_beside t s)" "others_keep_schema ts"
    using Cons.prems by (simp_all add: others_keep_schema_def)
  show ?case
  proof (cases "rt_fate t")
    case Pass_Answered
    then show ?thesis
      using pass_settles [OF ok(1), of j "rt_now t"] Cons.prems(3-5) by (auto simp: Let_def case_prod_unfold)
  next
    case (Pass_Failed committed)
    let ?s = "if committed then snd (pass (rt_now t) (rt_beside t s)) else rt_beside t s"
    have "store_ok ?s" using pass_ok [OF ok(1)] ok(1) by simp
    moreover obtain slept' where "retry_loop pass (min (d * 2) MAX_RETRY_DELAY) ts h ?s = (Resolved, slept', h', s')"
      using Cons.prems(3) Pass_Failed by (auto simp: Let_def split: prod.splits)
    ultimately show ?thesis using Cons.IH ok(2) Cons.prems(4,5) by blast
  qed (use Cons.prems(3) in simp)
qed simp

lemma loop_active:
  "store_ok s \<Longrightarrow> undisturbed ts \<Longrightarrow> active_preserved s (snd (snd (snd (retry_loop pass d ts h s))))"
proof (induction ts arbitrary: d s)
  case (Cons t ts)
  have id: "rt_beside t = id" "undisturbed ts" using Cons.prems(2) by (simp_all add: undisturbed_def)
  have step: "store_ok (if committed then snd (pass (rt_now t) s) else s)"
      "active_preserved s (if committed then snd (pass (rt_now t) s) else s)" for committed
    using pass_ok [OF Cons.prems(1)] pass_active [OF Cons.prems(1)] Cons.prems(1) by simp_all
  show ?case
  proof (cases "rt_fate t")
    case (Pass_Failed committed)
    then show ?thesis
      using active_preserved_trans [OF step(2) Cons.IH [OF step(1) id(2)]] id(1)
      by (simp add: Let_def case_prod_unfold)
  qed (use pass_active [OF Cons.prems(1)] id(1) in \<open>simp_all add: Let_def case_prod_unfold\<close>)
qed simp

end

lemma resolve_unacknowledged_laws:
  assumes "store_ok s" "snd (requeue_unacknowledged_claims now w claims h s) = (h', s')"
  shows "store_ok s' \<and> active_preserved s s' \<and>
    (\<forall>j\<in>set (st_jobs s'). active j \<longrightarrow> \<not> (\<exists>c\<in>set claims. under_claim (h_name h) (claim_guard_of (Some w) c) j))"
proof (cases "claims = []")
  case False
  then obtain a b where r: "resolve_claims now (h_name h) w claims (0, 0, s) = (a, b, s')"
    using assms(2) by (auto simp: requeue_unacknowledged_claims_def split: prod.splits)
  show ?thesis using resolve_claims_ok [OF assms(1) r] resolve_claims_settles [OF assms(1) r] by auto
qed (use assms in \<open>simp add: requeue_unacknowledged_claims_def\<close>)

interpretation unacknowledged: background_resolver
  "\<lambda>now s. snd (requeue_unacknowledged_claims now w claims h s)"
  "\<lambda>j. \<exists>c\<in>set claims. under_claim (h_name h) (claim_guard_of (Some w) c) j"
  for w claims h
  using resolve_unacknowledged_laws by unfold_locales (metis prod.collapse)+

lemma recover_dropped_laws:
  assumes "store_ok s" "snd (recover_dropped_attempt jitter now row h s) = (h', s')"
  shows "store_ok s' \<and> active_preserved s s' \<and>
    (\<forall>j\<in>set (st_jobs s'). active j \<longrightarrow> \<not> under_claim (h_name h) (claim_guard_of (j_worker_id row) (claim_of row)) j)"
  using assms(2) resolve_dropped_attempt_ok [OF assms(1)]
  by (auto simp: recover_dropped_attempt_def claim_of_def split: prod.splits)

interpretation dropped: background_resolver
  "\<lambda>now s. snd (recover_dropped_attempt jitter now row h s)"
  "under_claim (h_name h) (claim_guard_of (j_worker_id row) (claim_of row))"
  for jitter row h
  using recover_dropped_laws by unfold_locales (metis prod.collapse)+

section \<open>Nothing stays behind\<close>

lemma dequeue_lost_cases:
  assumes claim: "dequeue_claim locked h now limit w req s = (jobs, s1)"
    and run: "dequeue_lost locked now limit w req landed True tries h s = (e, slept, h', s')"
  shows "(if jobs = [] then e = Resolved \<and> s' = (if landed then s1 else s)
    else retry_loop (\<lambda>now s. snd (requeue_unacknowledged_claims now w (map claim_of jobs) h s))
      INITIAL_RETRY_DELAY tries h (if landed then s1 else s) = (e, slept, h', s'))"
  using run by (auto simp: dequeue_lost_def spawn_unacknowledged_claim_resolver_def claim split: if_splits)

lemma dequeue_claim_new_rows:
  assumes "dequeue_claim locked h now limit w req s = (jobs, s1)" "j \<in> set (st_jobs s1)" "j \<notin> set (st_jobs s)"
  shows "j \<in> set jobs" "j_queue j = h_name h" "j_worker_id j = Some w"
  using assms by (auto simp: dequeue_claim_def Let_def mem_update_rows claim_guard_def claimable_def claim_row_def)


lemma sample_claim:
  "dequeue_claim (\<lambda>_. False) sample_handle 2000 10 3 True (sample_store sample_row) =
     ([sample_running], sample_store sample_running)"
  by (simp add: dequeue_claim_def dequeue_candidates_def select_rows_def claim_guard_def claimable_def intake_open_def
      sample_defs)


text \<open>The same loop ends the recovery of a dropped attempt.\<close>

theorem dropped_attempt_is_resolved:
  assumes "store_ok s" "others_keep_schema tries"
    and run: "spawn_dropped_attempt_resolver jitter True row tries h s = (e, slept, h', s')"
  shows "store_ok s' \<and> e = loop_outcome tries \<and>
    slept = backoff_delays (from_millis 100) (length (takeWhile pass_failed tries)) \<and>
    (e = Resolved \<longrightarrow> (\<forall>j\<in>set (st_jobs s'). active j \<longrightarrow>
       \<not> under_claim (h_name h) (claim_guard_of (j_worker_id row) (claim_of row)) j))"
proof -
  have loop: "retry_loop (\<lambda>now s. snd (recover_dropped_attempt jitter now row h s)) INITIAL_RETRY_DELAY tries h s = (e, slept, h', s')"
    using run by (simp add: spawn_dropped_attempt_resolver_def)
  show ?thesis
    using retry_loop_end [OF loop] dropped.loop_ok [OF assms(1,2), of jitter row h INITIAL_RETRY_DELAY h]
      dropped.loop_settles [OF assms(1,2)] loop
    by (auto simp: INITIAL_RETRY_DELAY_def MAX_RETRY_DELAY_def)
qed

end
