(* ===== verification/Queue_Api.thy ===== *)
theory Queue_Api
  imports Db_Resolver Cron_Schedule Worker_Build
begin

text \<open>
  What callers see (\<^verbatim>\<open>queue.rs\<close>, \<^verbatim>\<open>job.rs\<close>, \<^verbatim>\<open>worker.rs\<close>): the setters of the job and worker
  builders, the results of an enqueue, the filters of the listings, the checked entry points of
  \<^verbatim>\<open>Queue\<close> over the database layer, and an attempt that is dropped.
\<close>

section \<open>Job builder\<close>

definition builder_priority :: "int \<Rightarrow> job_builder \<Rightarrow> job_builder" where
  "builder_priority p b = b\<lparr> b_config := (b_config b)\<lparr> cfg_priority := p \<rparr> \<rparr>"

definition builder_max_attempts :: "nat \<Rightarrow> job_builder \<Rightarrow> job_builder" where
  "builder_max_attempts n b = b\<lparr> b_config := (b_config b)\<lparr> cfg_max_attempts := n \<rparr> \<rparr>"

definition builder_retention :: "job_retention \<Rightarrow> job_builder \<Rightarrow> job_builder" where
  "builder_retention r b = b\<lparr> b_config := (b_config b)\<lparr> cfg_retention := r \<rparr> \<rparr>"

definition builder_failed_retention :: "job_retention \<Rightarrow> job_builder \<Rightarrow> job_builder" where
  "builder_failed_retention r b = b\<lparr> b_config := (b_config b)\<lparr> cfg_failed_retention := r \<rparr> \<rparr>"

definition builder_retry_delay :: "duration \<Rightarrow> job_builder \<Rightarrow> job_builder" where
  "builder_retry_delay d b = b\<lparr> b_config := (b_config b)\<lparr> cfg_retry_delay := d \<rparr> \<rparr>"

definition builder_backoff :: "job_retry_backoff \<Rightarrow> job_builder \<Rightarrow> job_builder" where
  "builder_backoff k b = b\<lparr> b_config := (b_config b)\<lparr> cfg_backoff := k \<rparr> \<rparr>"

definition builder_meta :: "json \<Rightarrow> job_builder \<Rightarrow> job_builder" where
  "builder_meta v b = b\<lparr> b_meta := v \<rparr>"

section \<open>Worker builder\<close>

definition set_concurrency :: "nat \<Rightarrow> 'd worker_builder \<Rightarrow> 'd worker_builder" where
  "set_concurrency n b = b\<lparr> wb_concurrency := n \<rparr>"

definition set_timers :: "worker_timers \<Rightarrow> 'd worker_builder \<Rightarrow> 'd worker_builder" where
  "set_timers t b = b\<lparr> wb_timers := t \<rparr>"

definition set_burst :: "bool \<Rightarrow> 'd worker_builder \<Rightarrow> 'd worker_builder" where
  "set_burst x b = b\<lparr> wb_burst := x \<rparr>"

definition set_max_burst_jobs :: "nat \<Rightarrow> 'd worker_builder \<Rightarrow> 'd worker_builder" where
  "set_max_burst_jobs n b = b\<lparr> wb_max_burst_jobs := Some n \<rparr>"

definition set_dequeue_timeout :: "duration \<Rightarrow> 'd worker_builder \<Rightarrow> 'd worker_builder" where
  "set_dequeue_timeout d b = b\<lparr> wb_dequeue_timeout := Some d \<rparr>"

definition set_poll_interval :: "duration \<Rightarrow> 'd worker_builder \<Rightarrow> 'd worker_builder" where
  "set_poll_interval d b = b\<lparr> wb_poll_interval := d \<rparr>"

definition set_abort_grace :: "duration \<Rightarrow> 'd worker_builder \<Rightarrow> 'd worker_builder" where
  "set_abort_grace d b = b\<lparr> wb_abort_grace := d \<rparr>"

definition set_shutdown_grace :: "duration \<Rightarrow> 'd worker_builder \<Rightarrow> 'd worker_builder" where
  "set_shutdown_grace d b = b\<lparr> wb_shutdown_grace := d \<rparr>"

definition set_metadata :: "json \<Rightarrow> 'd worker_builder \<Rightarrow> 'd worker_builder" where
  "set_metadata v b = b\<lparr> wb_metadata := Some v \<rparr>"

definition set_dashboard :: "'d \<Rightarrow> 'd worker_builder \<Rightarrow> 'd worker_builder" where
  "set_dashboard d b = b\<lparr> wb_dashboard := Some d \<rparr>"

section \<open>Results of an enqueue\<close>

fun is_enqueued :: "enqueue_result \<Rightarrow> bool" where
  "is_enqueued (Enqueued x) = True"
| "is_enqueued (EDeduplicated x) = False"

fun is_deduplicated :: "enqueue_result \<Rightarrow> bool" where
  "is_deduplicated (Enqueued x) = False"
| "is_deduplicated (EDeduplicated x) = True"

fun enqueue_value :: "enqueue_result \<Rightarrow> job_handle" where
  "enqueue_value (Enqueued x) = x"
| "enqueue_value (EDeduplicated x) = x"

section \<open>Listings\<close>

record job_filter =
  jf_status :: "job_status option"
  jf_name :: "string option"
  jf_limit :: "int option"
  jf_before :: "(timestamp \<times> uuid) option"

definition job_filter_limit :: "job_filter \<Rightarrow> int result" where
  "job_filter_limit f =
     (let limit = (case jf_limit f of Some n \<Rightarrow> n | None \<Rightarrow> 50) in
      if limit < 1 \<or> 1000 < limit then Inl (Config ''job page limit must be between 1 and 1000'') else Inr limit)"

definition job_cursor_of :: "job_row \<Rightarrow> timestamp \<times> uuid" where
  "job_cursor_of j = (j_enqueued_at j, j_id j)"

definition queue_jobs_page :: "job_filter \<Rightarrow> handle \<Rightarrow> store \<Rightarrow> job_row list result" where
  "queue_jobs_page f h s =
     and_then (job_filter_limit f) (\<lambda>limit.
       if (case jf_name f of Some n \<Rightarrow> NUL \<in> set n | None \<Rightarrow> False)
       then Inl (Config ''job name filter must not contain NUL'')
       else if (case jf_before f of Some c \<Rightarrow> fst c < MIN_TIMESTAMPTZ | None \<Rightarrow> False)
       then Inl (Config ''job page cursor is below PostgreSQL's supported timestamp range'')
       else Inr (jobs_page (jf_status f) (jf_name f) (nat limit) (jf_before f) h s))"

record worker_filter =
  wf_limit :: "int option"
  wf_after :: "worker_cursor option"

definition worker_filter_limit :: "worker_filter \<Rightarrow> int result" where
  "worker_filter_limit f =
     (let limit = (case wf_limit f of Some n \<Rightarrow> n | None \<Rightarrow> 25) in
      if limit < 1 \<or> 100 < limit then Inl (Config ''worker page limit must be between 1 and 100'') else Inr limit)"

definition queue_workers_page :: "timestamp \<Rightarrow> worker_filter \<Rightarrow> handle \<Rightarrow> store \<Rightarrow> worker_row list result" where
  "queue_workers_page now f h s =
     and_then (worker_filter_limit f) (\<lambda>limit.
       if (case wf_after f of Some c \<Rightarrow> wc_started_at c < MIN_TIMESTAMPTZ | None \<Rightarrow> False)
       then Inl (Config ''worker page cursor is below PostgreSQL's supported timestamp range'')
       else Inr (workers_page now (nat limit) (wf_after f) h s))"

section \<open>Administration\<close>

definition queue_retry_job ::
    "(json \<Rightarrow> string list) \<Rightarrow> timestamp \<Rightarrow> timestamp \<Rightarrow> uuid \<Rightarrow> uuid \<Rightarrow> string \<Rightarrow> handle \<Rightarrow> store
     \<Rightarrow> bool result \<times> handle \<times> store" where
  "queue_retry_job chunks now clock new_id i reason h s =
     (case retry_job_occurrence chunks now clock new_id i reason h s of
        (r, h', s') \<Rightarrow> (and_then r (\<lambda>fresh. Inr (fresh \<noteq> None)), h', s'))"

definition queue_remove_cron_schedule :: "string \<Rightarrow> handle \<Rightarrow> store \<Rightarrow> bool result \<times> store" where
  "queue_remove_cron_schedule key h s =
     (case validate_dedupe_key key of
        Inl e \<Rightarrow> (Inl e, s)
      | Inr _ \<Rightarrow> (case remove_cron_schedule key h s of (removed, s') \<Rightarrow> (Inr removed, s')))"

text \<open>A capability that goes away: settled ones do nothing, the others start their resolver.\<close>

definition attempt_dropped ::
    "(duration \<Rightarrow> duration) \<Rightarrow> bool \<Rightarrow> attempt \<Rightarrow> resolver_try list \<Rightarrow> handle \<Rightarrow> store
     \<Rightarrow> resolver_end \<times> duration list \<times> handle \<times> store" where
  "attempt_dropped jitter runtime a tries h s =
     (if at_settled a then (Resolved, [], h, s)
      else spawn_dropped_attempt_resolver jitter runtime (at_row a) tries h s)"

section \<open>Lemmas\<close>

text \<open>A page the caller may ask for is the page, and the cursor of any row on it may be asked for next.\<close>

lemma queue_jobs_page_accepts:
  assumes "jf_name f = None \<or> (\<exists>n. jf_name f = Some n \<and> NUL \<notin> set n)"
    "jf_limit f = None \<or> (\<exists>n. jf_limit f = Some n \<and> 1 \<le> n \<and> n \<le> 1000)"
    "jf_before f = None \<or> (\<exists>c. jf_before f = Some c \<and> MIN_TIMESTAMPTZ \<le> fst c)"
  shows "\<exists>limit. 0 < limit \<and> limit \<le> 1000 \<and>
    queue_jobs_page f h s = Inr (jobs_page (jf_status f) (jf_name f) limit (jf_before f) h s)"
proof -
  obtain n where n: "job_filter_limit f = Inr n" "1 \<le> n" "n \<le> 1000"
    using assms(2) by (auto simp: job_filter_limit_def)
  then have "queue_jobs_page f h s = Inr (jobs_page (jf_status f) (jf_name f) (nat n) (jf_before f) h s)"
    using assms(1,3) by (auto simp: queue_jobs_page_def)
  then show ?thesis using n by (intro exI [of _ "nat n"]) auto
qed

lemma queue_jobs_page_resumes:
  assumes page: "queue_jobs_page f h s = Inr js" "j \<in> set js" and times: "\<forall>r\<in>set (st_jobs s). MIN_TIMESTAMPTZ \<le> j_enqueued_at r"
  shows "\<exists>js'. queue_jobs_page (f\<lparr> jf_before := Some (job_cursor_of j) \<rparr>) h s' = Inr js' \<and>
    (\<forall>r\<in>set js'. job_cursor_of r < job_cursor_of j)"
proof -
  obtain n where n: "job_filter_limit f = Inr n" and js: "js = jobs_page (jf_status f) (jf_name f) (nat n) (jf_before f) h s"
    and name: "\<not> (case jf_name f of Some n \<Rightarrow> NUL \<in> set n | None \<Rightarrow> False)"
    using page(1) by (auto simp: queue_jobs_page_def split: if_splits)
  have "j \<in> set (st_jobs s)" using page(2) js by (auto simp: jobs_page_def dest: in_select_rows)
  then have "MIN_TIMESTAMPTZ \<le> fst (job_cursor_of j)" using times by (simp add: job_cursor_of_def)
  moreover have "job_filter_limit (f\<lparr> jf_before := Some (job_cursor_of j) \<rparr>) = Inr n"
    using n by (simp add: job_filter_limit_def)
  ultimately have "queue_jobs_page (f\<lparr> jf_before := Some (job_cursor_of j) \<rparr>) h s' =
      Inr (jobs_page (jf_status f) (jf_name f) (nat n) (Some (job_cursor_of j)) h s')"
    using name by (simp add: queue_jobs_page_def)
  then show ?thesis by (auto simp: jobs_page_def job_cursor_of_def dest!: in_select_rows)
qed

lemma attempt_dropped_settles:
  assumes "store_ok s" "others_keep_schema tries" "attempt_dropped jitter True a tries h s = (Resolved, slept, h', s')"
    "\<not> at_settled a" "j \<in> set (st_jobs s')" "active j"
  shows "\<not> under_claim (h_name h) (claim_guard_of (j_worker_id (at_row a)) (claim_of (at_row a))) j"
  using dropped_attempt_is_resolved [OF assms(1,2)] assms(3-6) by (auto simp: attempt_dropped_def)

end
