(* ===== verification/Queue_Connect.thy ===== *)
theory Queue_Connect
  imports Db_Recovery "HOL-Library.Word"
begin

unbundle bit_operations_syntax

text \<open>
  Opening a queue (\<^verbatim>\<open>queue.rs\<close>, \<^verbatim>\<open>database.rs\<close>): the checks of the builder's options,
  the names and advisory lock keys derived from queue and database, the state of the
  migration history, and the migration runner on one pooled connection. What the
  server answers is an argument; the migrations embedded in the binary and the texts of
  the migration library's errors are parameters.
\<close>

section \<open>Names and lock keys\<close>

text \<open>FNV-1a on 64 bits.\<close>

definition stable_hash :: "string \<Rightarrow> 64 word" where
  "stable_hash bytes = fold (\<lambda>byte hash. (hash XOR of_nat (of_char byte)) * 0x100000001b3) bytes 0xcbf29ce484222325"

definition hex_digit :: "nat \<Rightarrow> char" where
  "hex_digit n = char_of (if n < 10 then 48 + n else 87 + n)"

fun hex_digits :: "nat \<Rightarrow> nat \<Rightarrow> string" where
  "hex_digits 0 n = []"
| "hex_digits (Suc k) n = hex_digits k (n div 16) @ [hex_digit (n mod 16)]"

definition channel_cut :: "string \<Rightarrow> nat" where
  "channel_cut full =
     (case find (\<lambda>i. i \<le> length full \<and> is_char_boundary full i) (rev [0..<47]) of Some i \<Rightarrow> i | None \<Rightarrow> 0)"

definition channel_name :: "string \<Rightarrow> string \<Rightarrow> string" where
  "channel_name queue suffix =
     (let full = ''ironqueue_'' @ queue @ suffix; hash = stable_hash (queue @ [NUL] @ suffix)
      in take (channel_cut full) full @ ''_'' @ hex_digits 16 (unat hash))"

definition done_channel :: "string \<Rightarrow> string" where
  "done_channel queue = channel_name queue ''_done''"

definition DEDUPE_ENQUEUE_LOCK_MASK :: "32 word" where "DEDUPE_ENQUEUE_LOCK_MASK = push_bit 29 1"
definition CLAIM_RESOLUTION_LOCK_MASK :: "32 word" where "CLAIM_RESOLUTION_LOCK_MASK = push_bit 28 1"

text \<open>\<^verbatim>\<open>as i32\<close> keeps the low 32 bits; the keys are read as signed numbers.\<close>

definition dedupe_enqueue_lock_key :: "string \<Rightarrow> 32 word" where
  "dedupe_enqueue_lock_key database = ucast (stable_hash database) XOR DEDUPE_ENQUEUE_LOCK_MASK"

definition claim_resolution_lock_key :: "string \<Rightarrow> 32 word" where
  "claim_resolution_lock_key database = ucast (stable_hash database) XOR CLAIM_RESOLUTION_LOCK_MASK"

definition sweep_lock_key :: "string \<Rightarrow> string \<Rightarrow> 64 word" where
  "sweep_lock_key database queue = stable_hash (database @ '':sweep:'' @ queue)"

text \<open>
  \<^verbatim>\<open>char::is_control\<close> on the UTF-8 bytes: U+0000 to U+001F, U+007F, and U+0080 to U+009F, which are
  encoded as a byte \<^verbatim>\<open>C2\<close> before a byte \<^verbatim>\<open>80\<close> to \<^verbatim>\<open>9F\<close>.
\<close>

fun has_control :: "string \<Rightarrow> bool" where
  "has_control [] = False"
| "has_control [c] = ((of_char c :: nat) < 32 \<or> (of_char c :: nat) = 127)"
| "has_control (c # d # cs) =
     ((of_char c :: nat) < 32 \<or> (of_char c :: nat) = 127 \<or>
      ((of_char c :: nat) = 194 \<and> (128 :: nat) \<le> of_char d \<and> (of_char d :: nat) < 160) \<or> has_control (d # cs))"

definition validate_queue_name :: "string \<Rightarrow> unit result" where
  "validate_queue_name queue =
     (if queue = [] then Inl (Config ''queue name must not be empty'')
      else if queue = ''.'' \<or> queue = ''..'' then Inl (Config ''queue name must not be a dot segment (`.` or `..`)'')
      else if length queue > 255 then Inl (Config ''queue name must not be longer than 255 bytes'')
      else if has_control queue then Inl (Config ''queue name must not contain control characters'')
      else Inr ())"

section \<open>Migrations\<close>

record applied_migration =
  am_version :: int
  am_checksum :: string
  am_success :: bool

record embedded_migration =
  em_version :: int
  em_checksum :: string

datatype migration_status = Current | Pending

datatype migrate_error = Dirty int | VersionMissing int | VersionMismatch int | OtherMigrateError string

text \<open>Reading the history: the rows, a missing table (\<^verbatim>\<open>42P01\<close>), or another database error.\<close>

datatype history = Rows "applied_migration list" | UndefinedTable | HistoryError string

text \<open>The loop over the applied rows; \<open>index\<close> rows are checked.\<close>

fun check_applied ::
    "(migrate_error \<Rightarrow> string) \<Rightarrow> embedded_migration list \<Rightarrow> nat \<Rightarrow> applied_migration list \<Rightarrow> unit result" where
  "check_applied show_migrate expected index [] = Inr ()"
| "check_applied show_migrate expected index (row # rows) =
     (if index \<ge> length expected then Inl (Migration (show_migrate (VersionMissing (am_version row))))
      else let m = expected ! index in
        if em_version m \<noteq> am_version row then
          (if \<not> list_ex (\<lambda>m. em_version m = am_version row) expected
           then Inl (Migration (show_migrate (VersionMissing (am_version row))))
           else Inl (Config (''ironqueue migration history is not an applied prefix: expected version '' @
             int_decimal (em_version m) @ '', found '' @ int_decimal (am_version row))))
        else if em_checksum m \<noteq> am_checksum row then Inl (Migration (show_migrate (VersionMismatch (am_version row))))
        else check_applied show_migrate expected (index + 1) rows)"

definition find_migration_status ::
    "(migrate_error \<Rightarrow> string) \<Rightarrow> embedded_migration list \<Rightarrow> history \<Rightarrow> migration_status result" where
  "find_migration_status show_migrate expected history =
     (case history of
        UndefinedTable \<Rightarrow> Inr Pending
      | HistoryError e \<Rightarrow> Inl (Db e)
      | Rows applied \<Rightarrow>
          (case find (\<lambda>row. \<not> am_success row) applied of
             Some row \<Rightarrow> Inl (Migration (show_migrate (Dirty (am_version row))))
           | None \<Rightarrow>
               and_then (check_applied show_migrate expected 0 applied) (\<lambda>_.
                 Inr (if length applied = length expected then Current else Pending))))"

text \<open>
  The pooled connection of the runner: the session's \<^verbatim>\<open>lock_timeout\<close>, whether it holds the migration
  lock, and whether dropping it closes it instead of returning it to the pool.
\<close>

record session =
  se_lock_timeout :: string
  se_locked :: bool
  se_close_on_drop :: bool

text \<open>
  What the server does in one run: the error of a call that fails. The calls of \<^verbatim>\<open>set_lock_timeout\<close> are
  numbered, and the history is read twice.
\<close>

record migration_io =
  mi_acquire :: "error option"
  mi_current_setting :: "error option"
  mi_set :: "nat \<Rightarrow> error option"
  mi_history :: "nat \<Rightarrow> history"
  mi_lock :: "migrate_error option"
  mi_unlock :: "migrate_error option"
  mi_run :: "migrate_error option"

definition set_lock_timeout :: "error option \<Rightarrow> string \<Rightarrow> session \<Rightarrow> unit result \<times> session" where
  "set_lock_timeout failure v se = (case failure of Some e \<Rightarrow> (Inl e, se) | None \<Rightarrow> (Inr (), se\<lparr> se_lock_timeout := v \<rparr>))"

definition unlock :: "(migrate_error \<Rightarrow> string) \<Rightarrow> migrate_error option \<Rightarrow> session \<Rightarrow> unit result \<times> session" where
  "unlock show_migrate failure se =
     (case failure of Some e \<Rightarrow> (Inl (Migration (show_migrate e)), se) | None \<Rightarrow> (Inr (), se\<lparr> se_locked := False \<rparr>))"

definition disarm :: "session \<Rightarrow> session" where
  "disarm se = se\<lparr> se_close_on_drop := False \<rparr>"

text \<open>Leaving with an error: unlock if the lock is held, restore the setting, and keep the connection if that worked.\<close>

definition fail_unlocked :: "migration_io \<Rightarrow> string \<Rightarrow> error \<Rightarrow> session \<Rightarrow> unit result \<times> session" where
  "fail_unlocked io previous e se =
     (let (r, se1) = set_lock_timeout (mi_set io 1) previous se in (Inl e, if isl r then se1 else disarm se1))"

definition fail_locked :: "(migrate_error \<Rightarrow> string) \<Rightarrow> migration_io \<Rightarrow> string \<Rightarrow> error \<Rightarrow> session \<Rightarrow> unit result \<times> session" where
  "fail_locked show_migrate io previous e se =
     (let (unlocked, se1) = unlock show_migrate (mi_unlock io) se;
          (restored, se2) = set_lock_timeout (mi_set io 1) previous se1
      in (Inl e, if \<not> isl unlocked \<and> \<not> isl restored then disarm se2 else se2))"

definition leave_locked :: "(migrate_error \<Rightarrow> string) \<Rightarrow> migration_io \<Rightarrow> string \<Rightarrow> session \<Rightarrow> unit result \<times> session" where
  "leave_locked show_migrate io previous se =
     (case unlock show_migrate (mi_unlock io) se of
        (Inl e, se1) \<Rightarrow> (Inl e, se1)
      | (Inr _, se1) \<Rightarrow>
          (case set_lock_timeout (mi_set io 1) previous se1 of
             (Inl e, se2) \<Rightarrow> (Inl e, se2)
           | (Inr _, se2) \<Rightarrow> (Inr (), disarm se2)))"

text \<open>Under the lock: the history is read again, since another process may have migrated meanwhile.\<close>

definition migrate_locked ::
    "(migrate_error \<Rightarrow> string) \<Rightarrow> embedded_migration list \<Rightarrow> migration_io \<Rightarrow> string \<Rightarrow> session \<Rightarrow> unit result \<times> session" where
  "migrate_locked show_migrate expected io previous se =
     (case find_migration_status show_migrate expected (mi_history io 1) of
        Inr Current \<Rightarrow> leave_locked show_migrate io previous se
      | Inl e \<Rightarrow> fail_locked show_migrate io previous e se
      | Inr Pending \<Rightarrow>
          (case mi_run io of
             Some e \<Rightarrow> fail_locked show_migrate io previous (Migration (show_migrate e)) se
           | None \<Rightarrow> leave_locked show_migrate io previous se))"

definition migrate_session ::
    "(migrate_error \<Rightarrow> string) \<Rightarrow> embedded_migration list \<Rightarrow> migration_io \<Rightarrow> string \<Rightarrow> session \<Rightarrow> unit result \<times> session" where
  "migrate_session show_migrate expected io previous se =
     (case find_migration_status show_migrate expected (mi_history io 0) of
        Inr Current \<Rightarrow>
          (case set_lock_timeout (mi_set io 1) previous se of
             (Inl e, se') \<Rightarrow> (Inl e, se')
           | (Inr _, se') \<Rightarrow> (Inr (), disarm se'))
      | Inl e \<Rightarrow> fail_unlocked io previous e se
      | Inr Pending \<Rightarrow>
          (case mi_lock io of
             Some e \<Rightarrow> fail_unlocked io previous (Migration (show_migrate e)) se
           | None \<Rightarrow> migrate_locked show_migrate expected io previous (se\<lparr> se_locked := True \<rparr>)))"

abbreviation timeout_too_long :: error where
  "timeout_too_long \<equiv> Config ''migration lock timeout must fit PostgreSQL's integer milliseconds''"

definition ensure_migrations ::
    "(migrate_error \<Rightarrow> string) \<Rightarrow> embedded_migration list \<Rightarrow> migration_io \<Rightarrow> string \<Rightarrow> duration \<Rightarrow> unit result \<times> session option" where
  "ensure_migrations show_migrate expected io previous lock_timeout =
     (case mi_acquire io of
        Some e \<Rightarrow> (Inl e, None)
      | None \<Rightarrow>
          (let se = \<lparr> se_lock_timeout = previous, se_locked = False, se_close_on_drop = True \<rparr>
           in apsnd Some
             (case mi_current_setting io of
                Some e \<Rightarrow> (Inl e, se)
              | None \<Rightarrow>
                  (case duration_to_ms_checked lock_timeout of
                     None \<Rightarrow> (Inl timeout_too_long, se)
                   | Some ms \<Rightarrow>
                       if ms > i32_max then (Inl timeout_too_long, se)
                       else case set_lock_timeout (mi_set io 0) (int_decimal ms @ ''ms'') se of
                         (Inl e, se') \<Rightarrow> (Inl e, se')
                       | (Inr _, se') \<Rightarrow> migrate_session show_migrate expected io previous se'))))"

section \<open>Connecting\<close>

record connect_options =
  co_pool :: bool
  co_name :: string
  co_max_connections :: nat
  co_min_connections :: nat
  co_priorities :: "int \<times> int"
  co_sweep_grace :: duration
  co_sweep_batch_size :: nat
  co_migration_lock_timeout :: duration
  co_notify_throttle :: "duration option"

definition builder_default :: connect_options where
  "builder_default = \<lparr> co_pool = False, co_name = ''default'', co_max_connections = 10, co_min_connections = 2,
     co_priorities = (-32768, 32767), co_sweep_grace = from_secs 5, co_sweep_batch_size = 500,
     co_migration_lock_timeout = from_secs 30, co_notify_throttle = None \<rparr>"

record database_server =
  dv_version :: int
  dv_database :: string
  dv_isolation :: string

definition to_lower :: "char \<Rightarrow> char" where
  "to_lower c = (if (65 :: nat) \<le> of_char c \<and> (of_char c :: nat) \<le> 90 then char_of ((of_char c :: nat) + 32) else c)"

definition eq_ignore_ascii_case :: "string \<Rightarrow> string \<Rightarrow> bool" where
  "eq_ignore_ascii_case a b \<longleftrightarrow> map to_lower a = map to_lower b"

definition validate_options :: "connect_options \<Rightarrow> (duration option) result" where
  "validate_options o1 =
     and_then (validate_queue_name (co_name o1)) (\<lambda>_.
     and_then (if fst (co_priorities o1) > snd (co_priorities o1)
               then Inl (Config ''queue priority range must have low <= high'') else Inr ()) (\<lambda>_.
     and_then (validate_nonzero_duration ''sweep grace'' (co_sweep_grace o1)) (\<lambda>_.
     and_then (validate_nonzero_duration ''migration lock timeout'' (co_migration_lock_timeout o1)) (\<lambda>_.
     let throttle = (case co_notify_throttle o1 of Some w \<Rightarrow> if w = 0 then None else Some w | None \<Rightarrow> None) in
     and_then (case throttle of Some w \<Rightarrow> validate_duration ''notify throttle'' w | None \<Rightarrow> Inr ()) (\<lambda>_.
     and_then (case duration_to_ms_checked (co_migration_lock_timeout o1) of
                 Some ms \<Rightarrow> if ms \<le> i32_max then Inr ()
                   else Inl timeout_too_long
               | None \<Rightarrow> Inl timeout_too_long) (\<lambda>_.
     and_then (if co_sweep_batch_size o1 = 0 then Inl (Config ''sweep batch size must be greater than zero'') else Inr ()) (\<lambda>_.
     and_then (if \<not> co_pool o1 then
                 (if co_max_connections o1 = 0 then Inl (Config ''queue max_connections must be greater than zero'')
                  else if co_min_connections o1 > co_max_connections o1
                    then Inl (Config ''queue min_connections must not exceed max_connections'')
                  else Inr ())
               else Inr ()) (\<lambda>_. Inr throttle))))))))"

definition check_server :: "database_server \<Rightarrow> unit result" where
  "check_server v =
     (if dv_version v < 180000
        then Inl (Config (''ironqueue requires PostgreSQL 18+; server_version_num = '' @ int_decimal (dv_version v)))
      else if \<not> eq_ignore_ascii_case (dv_isolation v) ''read committed''
        then Inl (Config (''ironqueue requires a `read committed` default_transaction_isolation for its own transactions; this server reports ''
          @ debug_str (dv_isolation v) @ ''. Set it back on the database or role ironqueue connects as (ALTER DATABASE ... SET default_transaction_isolation = 'read committed')''))
      else Inr ())"

record database =
  dh_handle :: handle
  dh_notify_channel :: string
  dh_done_channel :: string
  dh_dedupe_enqueue_lock_key :: "32 word"
  dh_claim_resolution_lock_key :: "32 word"
  dh_sweep_lock_key :: "64 word"

abbreviation never_notified :: nat where "never_notified \<equiv> u64_max"

text \<open>\<open>pool\<close> and \<open>server\<close>: how opening a pool and asking the server for its settings go.\<close>

definition connect ::
    "(migrate_error \<Rightarrow> string) \<Rightarrow> embedded_migration list \<Rightarrow> unit result \<Rightarrow> database_server result \<Rightarrow> migration_io \<Rightarrow> string
     \<Rightarrow> connect_options \<Rightarrow> database result" where
  "connect show_migrate expected pool server io previous o1 =
     and_then (validate_options o1) (\<lambda>throttle.
     and_then (if co_pool o1 then Inr () else pool) (\<lambda>_.
     and_then server (\<lambda>v.
     and_then (check_server v) (\<lambda>_.
     and_then (fst (ensure_migrations show_migrate expected io previous (co_migration_lock_timeout o1))) (\<lambda>_.
       Inr \<lparr> dh_handle = \<lparr> h_name = co_name o1, h_priorities = co_priorities o1, h_sweep_grace = co_sweep_grace o1,
               h_sweep_batch_size = int (co_sweep_batch_size o1), h_notify_throttle = throttle, h_last_notify_ms = never_notified,
               h_counters = \<lparr> n_complete = 0, n_failed = 0, n_retried = 0, n_aborted = 0 \<rparr> \<rparr>,
             dh_notify_channel = channel_name (co_name o1) [], dh_done_channel = done_channel (co_name o1),
             dh_dedupe_enqueue_lock_key = dedupe_enqueue_lock_key (dv_database v),
             dh_claim_resolution_lock_key = claim_resolution_lock_key (dv_database v),
             dh_sweep_lock_key = sweep_lock_key (dv_database v) (co_name o1) \<rparr>)))))"

section \<open>Lemmas\<close>

lemma channel_cut_le: "channel_cut full \<le> 46"
proof -
  have "i \<le> 46" if "find P (rev [0..<47]) = Some i" for P i
  proof -
    have "i \<in> set (rev [0..<47])" using that by (metis find_Some_iff nth_mem)
    then show ?thesis by simp
  qed
  then show ?thesis unfolding channel_cut_def by (simp split: option.split)
qed

lemma channel_cut_boundary: "is_char_boundary full (channel_cut full)"
  by (auto simp: channel_cut_def is_char_boundary_def find_None_iff dest!: find_Some_iff [THEN iffD1] split: option.splits)

lemma length_hex_digits [simp]: "length (hex_digits k n) = k"
  by (induction k n rule: hex_digits.induct) auto

lemma channel_name_length: "length (channel_name queue suffix) \<le> 63"
  using channel_cut_le [of "''ironqueue_'' @ queue @ suffix"] by (simp add: channel_name_def Let_def)

lemma lock_keys_differ: "dedupe_enqueue_lock_key database \<noteq> claim_resolution_lock_key database"
proof
  assume "dedupe_enqueue_lock_key database = claim_resolution_lock_key database"
  then have "ucast (stable_hash database) XOR (ucast (stable_hash database) XOR DEDUPE_ENQUEUE_LOCK_MASK) =
      ucast (stable_hash database) XOR (ucast (stable_hash database) XOR CLAIM_RESOLUTION_LOCK_MASK)"
    by (simp add: dedupe_enqueue_lock_key_def claim_resolution_lock_key_def)
  then have "DEDUPE_ENQUEUE_LOCK_MASK = CLAIM_RESOLUTION_LOCK_MASK" by (simp flip: xor.assoc)
  then show False by (simp add: DEDUPE_ENQUEUE_LOCK_MASK_def CLAIM_RESOLUTION_LOCK_MASK_def)
qed

text \<open>A history is good when it is a prefix of the embedded migrations, applied in order and unmodified.\<close>

definition matches :: "embedded_migration \<Rightarrow> applied_migration \<Rightarrow> bool" where
  "matches m row \<longleftrightarrow> am_success row \<and> am_version row = em_version m \<and> am_checksum row = em_checksum m"

definition applied_prefix :: "embedded_migration list \<Rightarrow> applied_migration list \<Rightarrow> bool" where
  "applied_prefix expected applied \<longleftrightarrow> list_all2 matches (take (length applied) expected) applied"

definition up_to_date :: "embedded_migration list \<Rightarrow> history \<Rightarrow> bool" where
  "up_to_date expected history \<longleftrightarrow> (\<exists>applied. history = Rows applied \<and> list_all2 matches expected applied)"

lemma check_applied_prefix:
  "list_all am_success rows \<Longrightarrow>
     check_applied show_migrate expected index rows = Inr () \<longleftrightarrow>
     list_all2 matches (take (length rows) (drop index expected)) rows"
proof (induction show_migrate expected index rows rule: check_applied.induct)
  case (2 show_migrate expected index row rows)
  show ?case
  proof (cases "index < length expected")
    case True
    then have d: "drop index expected = expected ! index # drop (Suc index) expected" by (simp add: Cons_nth_drop_Suc)
    show ?thesis using 2 True by (auto simp: d matches_def Let_def)
  next
    case False
    then show ?thesis by simp
  qed
qed simp

lemma migration_status_exact:
  "find_migration_status show_migrate expected history = Inr Current \<longleftrightarrow> up_to_date expected history"
  "find_migration_status show_migrate expected history = Inr Pending \<longleftrightarrow> history = UndefinedTable \<or>
     (\<exists>applied. history = Rows applied \<and> applied_prefix expected applied \<and> length applied < length expected)"
proof -
  have s: "find (\<lambda>row. \<not> am_success row) applied = None \<longleftrightarrow> list_all am_success applied" for applied
    by (auto simp: find_None_iff list_all_iff)
  have m: "list_all am_success applied" if "list_all2 matches ms applied" for ms applied
    using that by (auto simp: list_all2_conv_all_nth list_all_length matches_def)
  have c: "find_migration_status show_migrate expected (Rows applied) = Inr st \<longleftrightarrow>
      list_all am_success applied \<and> list_all2 matches (take (length applied) expected) applied \<and>
      st = (if length applied = length expected then Current else Pending)" for applied st
    using check_applied_prefix [of applied show_migrate expected 0] s [of applied]
    by (auto simp: find_migration_status_def split: option.splits)
  show "find_migration_status show_migrate expected history = Inr Current \<longleftrightarrow> up_to_date expected history"
  proof (cases history)
    case (Rows applied)
    have "list_all2 matches (take (length applied) expected) applied \<and> length applied = length expected \<longleftrightarrow>
        list_all2 matches expected applied" by (metis list_all2_lengthD order_refl take_all)
    then show ?thesis using c m Rows by (auto simp: up_to_date_def)
  qed (auto simp: find_migration_status_def up_to_date_def)
  show "find_migration_status show_migrate expected history = Inr Pending \<longleftrightarrow> history = UndefinedTable \<or>
     (\<exists>applied. history = Rows applied \<and> applied_prefix expected applied \<and> length applied < length expected)"
  proof (cases history)
    case (Rows applied)
    have "list_all2 matches (take (length applied) expected) applied \<and> length applied \<noteq> length expected \<longleftrightarrow>
        applied_prefix expected applied \<and> length applied < length expected"
      by (auto simp: applied_prefix_def dest: list_all2_lengthD)
    then show ?thesis using c [of applied Pending] m [of _ applied] Rows by (auto simp: applied_prefix_def)
  qed (auto simp: find_migration_status_def)
qed

text \<open>What a connection that goes back to the pool looks like.\<close>

definition clean :: "string \<Rightarrow> session \<Rightarrow> bool" where
  "clean previous se \<longleftrightarrow> (se_close_on_drop se \<or> (se_lock_timeout se = previous \<and> \<not> se_locked se))"

lemma leaving_clean:
  "fail_unlocked io previous e se = (r, se') \<Longrightarrow> se_close_on_drop se \<Longrightarrow> \<not> se_locked se \<Longrightarrow> clean previous se' \<and> r = Inl e"
  "fail_locked show_migrate io previous e se = (r, se') \<Longrightarrow> se_close_on_drop se \<Longrightarrow> clean previous se' \<and> r = Inl e"
  "leave_locked show_migrate io previous se = (r, se') \<Longrightarrow> se_close_on_drop se \<Longrightarrow>
     clean previous se' \<and> (r = Inr () \<longrightarrow> \<not> se_close_on_drop se')"
  by (auto simp: fail_unlocked_def fail_locked_def leave_locked_def set_lock_timeout_def unlock_def disarm_def clean_def
      split: option.splits prod.splits)

definition migrated :: "(migrate_error \<Rightarrow> string) \<Rightarrow> embedded_migration list \<Rightarrow> migration_io \<Rightarrow> bool" where
  "migrated show_migrate expected io \<longleftrightarrow> (let st = \<lambda>n. find_migration_status show_migrate expected (mi_history io n) in
     st 0 = Inr Current \<or> st 1 = Inr Current \<or> (mi_run io = None \<and> st 1 = Inr Pending))"

lemma migrate_locked_clean:
  assumes "migrate_locked show_migrate expected io previous se = (r, se')" "se_close_on_drop se"
  shows "clean previous se' \<and> (r = Inr () \<longrightarrow> \<not> se_close_on_drop se' \<and> migrated show_migrate expected io)"
  using assms
  by (auto simp: migrate_locked_def migrated_def Let_def split: sum.splits migration_status.splits option.splits
      dest: leaving_clean(2,3))

lemma migrate_session_clean:
  assumes "migrate_session show_migrate expected io previous se = (r, se')" "se_close_on_drop se" "\<not> se_locked se"
  shows "clean previous se' \<and> (r = Inr () \<longrightarrow> \<not> se_close_on_drop se' \<and> migrated show_migrate expected io)"
proof (cases "find_migration_status show_migrate expected (mi_history io 0)")
  case (Inl e)
  then show ?thesis using assms by (auto simp: migrate_session_def dest: leaving_clean(1))
next
  case (Inr st)
  show ?thesis
  proof (cases st)
    case Current
    then show ?thesis using Inr assms
      by (auto simp: migrate_session_def migrated_def set_lock_timeout_def disarm_def clean_def split: option.splits)
  next
    case Pending
    then show ?thesis using Inr assms migrate_locked_clean [of show_migrate expected io previous "se\<lparr> se_locked := True \<rparr>"]
      by (auto simp: migrate_session_def split: option.splits dest: leaving_clean(1))
  qed
qed

lemma thirty_seconds: "duration_to_ms_checked 30000000000 = Some 30000"
  by (simp add: duration_to_ms_checked_def div_ceil_def)

section \<open>Properties\<close>

text \<open>
  Opening a queue migrates it or leaves no trace. Whatever calls fail on the way, a connection the
  migration runner gives back to the pool has the \<^verbatim>\<open>lock_timeout\<close> it came with and does not
  hold the migration lock; and the runner succeeds only with the connection given back, and
  only when the history it read is exactly the embedded migrations, or the migrator ran to its end under the lock
  on a history that is a prefix of them.
\<close>

theorem migrations_leave_clean_connection:
  assumes "ensure_migrations show_migrate expected io previous lock_timeout = (r, Some se)"
  shows "(\<not> se_close_on_drop se \<longrightarrow> se_lock_timeout se = previous \<and> \<not> se_locked se) \<and>
    (r = Inr () \<longrightarrow> \<not> se_close_on_drop se \<and>
       (up_to_date expected (mi_history io 0) \<or> up_to_date expected (mi_history io 1) \<or>
        (mi_run io = None \<and> (mi_history io 1 = UndefinedTable \<or>
           (\<exists>applied. mi_history io 1 = Rows applied \<and> applied_prefix expected applied)))))"
proof -
  let ?se = "\<lparr> se_lock_timeout = previous, se_locked = False, se_close_on_drop = True \<rparr>"
  have "(se_close_on_drop se \<and> isl r) \<or>
      (\<exists>v. migrate_session show_migrate expected io previous (?se\<lparr> se_lock_timeout := v \<rparr>) = (r, se))"
  proof (cases "mi_acquire io = None \<and> mi_current_setting io = None \<and>
      (\<exists>ms. duration_to_ms_checked lock_timeout = Some ms \<and> ms \<le> i32_max) \<and> mi_set io 0 = None")
    case True
    then obtain ms where ms: "duration_to_ms_checked lock_timeout = Some ms" "ms \<le> i32_max" by blast
    have "apsnd Some (migrate_session show_migrate expected io previous (?se\<lparr> se_lock_timeout := int_decimal ms @ ''ms'' \<rparr>)) = (r, Some se)"
      using assms True ms by (simp add: ensure_migrations_def set_lock_timeout_def)
    then have "migrate_session show_migrate expected io previous (?se\<lparr> se_lock_timeout := int_decimal ms @ ''ms'' \<rparr>) = (r, se)"
      by (metis apsnd_conv option.inject prod.collapse prod.inject)
    then show ?thesis by blast
  next
    case False
    then show ?thesis using assms
      by (auto simp: ensure_migrations_def set_lock_timeout_def Let_def split: option.splits if_splits)
  qed
  then consider (early) "se_close_on_drop se" "isl r"
    | (ran) v where "migrate_session show_migrate expected io previous (?se\<lparr> se_lock_timeout := v \<rparr>) = (r, se)"
    by blast
  then have "clean previous se \<and> (r = Inr () \<longrightarrow> \<not> se_close_on_drop se \<and> migrated show_migrate expected io)"
  proof cases
    case early
    then show ?thesis by (auto simp: clean_def)
  next
    case ran
    then show ?thesis using migrate_session_clean by fastforce
  qed
  then show ?thesis unfolding clean_def migrated_def Let_def migration_status_exact by blast
qed

theorem migrations_leave_clean_connection_witness:
  "\<exists>se. ensure_migrations (\<lambda>_. []) [\<lparr> em_version = 1, em_checksum = ''c'' \<rparr>] \<lparr> mi_acquire = None, mi_current_setting = None,
      mi_set = (\<lambda>_. None), mi_history = (\<lambda>_. UndefinedTable), mi_lock = None, mi_unlock = None, mi_run = None \<rparr> ''0''
      (from_secs 30) = (Inr (), Some se) \<and> se_lock_timeout se = ''0'' \<and> \<not> se_locked se"
proof -
  let ?io = "\<lparr> mi_acquire = None, mi_current_setting = None, mi_set = (\<lambda>_. None), mi_history = (\<lambda>_. UndefinedTable),
      mi_lock = None, mi_unlock = None, mi_run = None \<rparr>"
  have e: "\<exists>se. ensure_migrations (\<lambda>_. []) [\<lparr> em_version = 1, em_checksum = ''c'' \<rparr>] ?io ''0'' (from_secs 30) = (Inr (), Some se)"
    by (simp add: ensure_migrations_def set_lock_timeout_def find_migration_status_def leave_locked_def unlock_def
        thirty_seconds migrate_session_def migrate_locked_def disarm_def)
  then obtain se where se: "ensure_migrations (\<lambda>_. []) [\<lparr> em_version = 1, em_checksum = ''c'' \<rparr>] ?io ''0'' (from_secs 30) =
    (Inr (), Some se)" by blast
  from migrations_leave_clean_connection [OF se] show ?thesis using se by blast
qed

text \<open>
  Every connected queue is well formed: a name of 1 to 255 bytes without control characters, an
  ordered priority range, a positive sweep grace and batch within the bounds the schema stores, a positive throttle
  window or none, notification channels within PostgreSQL's 63 bytes, distinct advisory namespaces
  for enqueueing and claim resolution, on a server of version 18 or later that reads committed rows.
\<close>

theorem connected_queue_well_formed:
  assumes "connect show_migrate expected pool server io previous o1 = Inr d"
  shows "handle_ok (dh_handle d) \<and> \<not> has_control (h_name (dh_handle d)) \<and>
    fst (h_priorities (dh_handle d)) \<le> snd (h_priorities (dh_handle d)) \<and>
    0 < h_sweep_grace (dh_handle d) \<and> h_sweep_grace (dh_handle d) \<le> MAX_DURATION \<and> 1 \<le> h_sweep_batch_size (dh_handle d) \<and>
    (\<forall>w. h_notify_throttle (dh_handle d) = Some w \<longrightarrow> 0 < w \<and> w \<le> MAX_DURATION) \<and>
    length (dh_notify_channel d) \<le> 63 \<and> length (dh_done_channel d) \<le> 63 \<and>
    dh_dedupe_enqueue_lock_key d \<noteq> dh_claim_resolution_lock_key d \<and>
    (\<exists>v. server = Inr v \<and> 180000 \<le> dv_version v \<and> eq_ignore_ascii_case (dv_isolation v) ''read committed'')"
  using assms channel_name_length lock_keys_differ
  by (auto simp: connect_def validate_options_def validate_queue_name_def validate_nonzero_duration_def validate_duration_def
      check_server_def handle_ok_def done_channel_def Let_def Suc_le_eq split: if_splits option.splits)

theorem connected_queue_well_formed_witness:
  "\<exists>d. connect (\<lambda>_. []) [] (Inr ()) (Inr \<lparr> dv_version = 180001, dv_database = ''app'', dv_isolation = ''read committed'' \<rparr>)
     \<lparr> mi_acquire = None, mi_current_setting = None, mi_set = (\<lambda>_. None), mi_history = (\<lambda>_. UndefinedTable),
       mi_lock = None, mi_unlock = None, mi_run = None \<rparr> ''0'' builder_default = Inr d \<and> handle_ok (dh_handle d)"
proof -
  let ?io = "\<lparr> mi_acquire = None, mi_current_setting = None, mi_set = (\<lambda>_. None), mi_history = (\<lambda>_. UndefinedTable),
      mi_lock = None, mi_unlock = None, mi_run = None \<rparr>"
  let ?v = "\<lparr> dv_version = 180001, dv_database = ''app'', dv_isolation = ''read committed'' \<rparr>"
  have "fst (ensure_migrations (\<lambda>_. []) [] ?io ''0'' (from_secs 30)) = Inr ()"
    by (simp add: ensure_migrations_def set_lock_timeout_def find_migration_status_def leave_locked_def unlock_def
        thirty_seconds migrate_session_def migrate_locked_def disarm_def)
  moreover have "check_server ?v = Inr ()" by (simp add: check_server_def eq_ignore_ascii_case_def)
  moreover have "validate_options builder_default = Inr None"
    by (simp add: validate_options_def builder_default_def validate_queue_name_def validate_nonzero_duration_def
        validate_duration_def duration_consts thirty_seconds)
  ultimately have "\<exists>d. connect (\<lambda>_. []) [] (Inr ()) (Inr ?v) ?io ''0'' builder_default = Inr d"
    by (simp add: connect_def builder_default_def)
  then obtain d where "connect (\<lambda>_. []) [] (Inr ()) (Inr ?v) ?io ''0'' builder_default = Inr d" by blast
  from connected_queue_well_formed [OF this] this show ?thesis by blast
qed

end
