(* ===== verification/Result_Wait.thy ===== *)
theory Result_Wait
  imports Queue_System
begin

text \<open>
  Waiting for a job: the registry of completion waiters and the notification
  listener that feeds it (\<^verbatim>\<open>queue.rs\<close>), and the polling wait of a \<^verbatim>\<open>JobHandle\<close>
  (\<^verbatim>\<open>job.rs\<close>). The answers of the database and of the listening connection are
  arguments: a listener round is what the connection did next, a round of a wait
  is the answer to its poll and what its subscription received before the poll
  deadline.
\<close>

section \<open>Completion waiters\<close>

record done_event =
  ev_id :: uuid
  ev_status :: job_status

text \<open>
  \<^verbatim>\<open>QueueDoneWaiters\<close>: the registrations of each job identifier, in the order they were
  made. The channel of a registration holds at most one event and is found under the
  registration's key for as long as its receiver lives. Keys are an \<^verbatim>\<open>AtomicU64\<close>.
\<close>

record waiters =
  wt_map :: "uuid \<rightharpoonup> nat list"
  wt_inbox :: "nat \<rightharpoonup> done_event option"
  wt_next :: nat

definition no_waiters :: waiters where
  "no_waiters = \<lparr> wt_map = Map.empty, wt_inbox = Map.empty, wt_next = 0 \<rparr>"

definition subscribe_done :: "uuid \<Rightarrow> waiters \<Rightarrow> nat \<times> waiters" where
  "subscribe_done i w =
     (let key = wt_next w;
          registrations = (case wt_map w i of Some ks \<Rightarrow> ks | None \<Rightarrow> [])
      in (key, \<lparr> wt_map = (wt_map w)(i \<mapsto> registrations @ [key]),
                 wt_inbox = (wt_inbox w)(key \<mapsto> None),
                 wt_next = (wt_next w + 1) mod 2 ^ 64 \<rparr>))"

definition drop_subscription :: "uuid \<Rightarrow> nat \<Rightarrow> waiters \<Rightarrow> waiters" where
  "drop_subscription i key w =
     (let closed = w\<lparr> wt_inbox := (wt_inbox w)(key := None) \<rparr>
      in case wt_map w i of
           None \<Rightarrow> closed
         | Some ks \<Rightarrow>
             (let ks' = filter (\<lambda>k. k \<noteq> key) ks
              in closed\<lparr> wt_map := (wt_map w)(i := if ks' = [] then None else Some ks') \<rparr>))"

text \<open>\<^verbatim>\<open>try_send\<close> on a channel of capacity one: a full or a closed channel refuses the event.\<close>

definition send_event :: "done_event \<Rightarrow> nat \<Rightarrow> waiters \<Rightarrow> waiters" where
  "send_event event key w =
     (case wt_inbox w key of
        Some None \<Rightarrow> w\<lparr> wt_inbox := (wt_inbox w)(key \<mapsto> Some event) \<rparr>
      | _ \<Rightarrow> w)"

definition deliver_event :: "done_event \<Rightarrow> waiters \<Rightarrow> waiters" where
  "deliver_event event w =
     fold (send_event event) (case wt_map w (ev_id event) of Some ks \<Rightarrow> ks | None \<Rightarrow> []) w"

text \<open>\<^verbatim>\<open>recv\<close> takes the event that is there, if one is.\<close>

definition receive_event :: "nat \<Rightarrow> waiters \<Rightarrow> done_event option \<times> waiters" where
  "receive_event key w =
     (case wt_inbox w key of
        Some (Some event) \<Rightarrow> (Some event, w\<lparr> wt_inbox := (wt_inbox w)(key \<mapsto> None) \<rparr>)
      | _ \<Rightarrow> (None, w))"

section \<open>The notification listener\<close>

definition LISTENER_RECONNECT_INITIAL_DELAY :: nat where "LISTENER_RECONNECT_INITIAL_DELAY = 500"

definition LISTENER_RECONNECT_MAX_DELAY :: nat where "LISTENER_RECONNECT_MAX_DELAY = 5000"

text \<open>The outcomes of opening the connection and of \<^verbatim>\<open>LISTEN\<close> on it.\<close>

definition connect_notify_listener :: "string + unit \<Rightarrow> string + unit \<Rightarrow> string + unit" where
  "connect_notify_listener connected listening =
     (case connected of Inl e \<Rightarrow> Inl e | Inr _ \<Rightarrow> listening)"

text \<open>\<open>ls_wakeups\<close> counts the sends on the wakeup broadcast; delays are in milliseconds.\<close>

record listener =
  ls_connected :: bool
  ls_delay :: nat
  ls_health :: "string option"
  ls_wakeups :: nat
  ls_waiters :: waiters

definition listener_start :: "string + unit \<Rightarrow> listener" where
  "listener_start attempt =
     \<lparr> ls_connected = (attempt = Inr ()), ls_delay = LISTENER_RECONNECT_INITIAL_DELAY,
       ls_health = (case attempt of Inl e \<Rightarrow> Some e | Inr _ \<Rightarrow> None),
       ls_wakeups = 0, ls_waiters = no_waiters \<rparr>"

fun listener_reconnect :: "string + unit \<Rightarrow> listener \<Rightarrow> listener" where
  "listener_reconnect (Inr _) l =
     l\<lparr> ls_connected := True, ls_delay := LISTENER_RECONNECT_INITIAL_DELAY, ls_health := None,
        ls_wakeups := ls_wakeups l + 1 \<rparr>"
| "listener_reconnect (Inl e) l =
     l\<lparr> ls_delay := min (ls_delay l * 2) LISTENER_RECONNECT_MAX_DELAY, ls_health := Some e \<rparr>"

text \<open>
  \<open>parse\<close> is the \<^verbatim>\<open>serde_json\<close> decoding of a completion payload; a notification is its
  channel and its payload.
\<close>

fun listener_receive ::
    "(string \<Rightarrow> done_event option) \<Rightarrow> string \<Rightarrow> string + (string \<times> string) option \<Rightarrow> listener \<Rightarrow> listener" where
  "listener_receive parse done_channel (Inr (Some (channel, payload))) l =
     (let l1 = l\<lparr> ls_health := None \<rparr>;
          l2 = (if channel = done_channel
                then (case parse payload of
                        Some event \<Rightarrow> l1\<lparr> ls_waiters := deliver_event event (ls_waiters l1) \<rparr>
                      | None \<Rightarrow> l1)
                else l1)
      in l2\<lparr> ls_wakeups := ls_wakeups l2 + 1 \<rparr>)"
| "listener_receive parse done_channel (Inr None) l =
     l\<lparr> ls_connected := False, ls_health := Some ''notification listener disconnected'' \<rparr>"
| "listener_receive parse done_channel (Inl e) l =
     l\<lparr> ls_connected := False, ls_health := Some e \<rparr>"

text \<open>
  One turn of the loop: a lost listener sleeps and connects again, an active one waits
  for the next notification. The environment supplies both answers, the loop asks
  for one.
\<close>

type_synonym listener_input = "(string + unit) \<times> (string + (string \<times> string) option)"

definition listener_round ::
    "(string \<Rightarrow> done_event option) \<Rightarrow> string \<Rightarrow> listener_input \<Rightarrow> listener \<Rightarrow> listener" where
  "listener_round parse done_channel input l =
     (if ls_connected l then listener_receive parse done_channel (snd input) l
      else listener_reconnect (fst input) l)"

section \<open>Resolving a wait\<close>

type_synonym job_result = "job_status \<times> json option \<times> string option"

fun resolve :: "job_result \<Rightarrow> json result" where
  "resolve (Complete, res, err) = Inr (case res of Some v \<Rightarrow> v | None \<Rightarrow> JNull)"
| "resolve (Aborted, res, err) =
     Inl (Job (job_error_new KAborted (case err of Some e \<Rightarrow> e | None \<Rightarrow> ''aborted'')))"
| "resolve (st, res, err) =
     Inl (Job (case err of
        Some e \<Rightarrow> job_error_from_stored e
      | None \<Rightarrow> job_error_failed (''job '' @ status_as_str st)))"

definition resolve_deleted :: "done_event \<Rightarrow> json result" where
  "resolve_deleted event =
     (case ev_status event of
        Complete \<Rightarrow> Inl (ResultExpired (ev_id event))
      | Failed \<Rightarrow> Inl (Job (job_error_new KFailed ''job failed and was deleted''))
      | Aborted \<Rightarrow> Inl (Job (job_error_new KAborted ''job was aborted and deleted''))
      | Aborting \<Rightarrow> Inl (Job (job_error_new KAborted ''job was aborted and deleted''))
      | st \<Rightarrow> Inl (Config (''job emitted a non-terminal '' @ status_as_str st @ '' completion event'')))"

definition vanished :: "uuid \<Rightarrow> bool \<Rightarrow> error" where
  "vanished i seen_alive = (if seen_alive then ResultExpired i else JobNotFound i)"

section \<open>The wait\<close>

text \<open>
  What a statement sent over the query pool comes back with. A closed pool never opens
  again; any other error (its value kept) leaves the question open.
\<close>

datatype 'a answer = Answered 'a | PoolClosed string | Unanswered error

datatype wake = Notified done_event "job_result option answer" | ListenerGone

type_synonym wait_round = "job_result option answer \<times> wake list"

definition INITIAL_POLL_INTERVAL :: nat where "INITIAL_POLL_INTERVAL = 250"

definition MAX_POLL_INTERVAL :: nat where "MAX_POLL_INTERVAL = 2000"

record waiting =
  wa_poll :: nat
  wa_seen :: bool
  wa_pending :: "done_event option"

definition wait_start :: waiting where
  "wait_start = \<lparr> wa_poll = INITIAL_POLL_INTERVAL, wa_seen = False, wa_pending = None \<rparr>"

datatype wait_step = Resolved "json result" | Waiting waiting

definition back_off :: "waiting \<Rightarrow> waiting" where
  "back_off w = w\<lparr> wa_poll := min (wa_poll w * 2) MAX_POLL_INTERVAL \<rparr>"

definition poll_deadline :: "uuid \<Rightarrow> bool \<Rightarrow> waiting \<Rightarrow> wait_step" where
  "poll_deadline i missing w =
     (if missing
      then Resolved (case wa_pending w of
             Some event \<Rightarrow> resolve_deleted event
           | None \<Rightarrow> Inl (vanished i (wa_seen w)))
      else Waiting w)"

text \<open>
  The inner \<^verbatim>\<open>select!\<close> loop of a round: each event comes with the answer to the read it
  triggers. The list ends where the deadline fires; a gone listener leaves only
  the deadline to wait for.
\<close>

fun wait_wakes :: "uuid \<Rightarrow> bool \<Rightarrow> wake list \<Rightarrow> waiting \<Rightarrow> wait_step" where
  "wait_wakes i missing [] w = poll_deadline i missing w"
| "wait_wakes i missing (ListenerGone # wakes) w = poll_deadline i missing w"
| "wait_wakes i missing (Notified event read # wakes) w =
     (case read of
        Answered (Some found) \<Rightarrow>
          (if is_terminal (fst found) then Resolved (resolve found) else wait_wakes i missing wakes w)
      | Answered None \<Rightarrow> Resolved (resolve_deleted event)
      | PoolClosed _ \<Rightarrow> wait_wakes i missing wakes (w\<lparr> wa_pending := Some event \<rparr>)
      | Unanswered _ \<Rightarrow> wait_wakes i missing wakes (w\<lparr> wa_pending := Some event \<rparr>))"

definition wait_round :: "uuid \<Rightarrow> wait_round \<Rightarrow> waiting \<Rightarrow> wait_step" where
  "wait_round i rd w =
     (case fst rd of
        PoolClosed e \<Rightarrow> Resolved (Inl (Db e))
      | Unanswered _ \<Rightarrow> Waiting (back_off w)
      | Answered (Some found) \<Rightarrow>
          (if is_terminal (fst found) then Resolved (resolve found)
           else wait_wakes i False (snd rd) (back_off (w\<lparr> wa_pending := None, wa_seen := True \<rparr>)))
      | Answered None \<Rightarrow>
          (case wa_pending w of
             Some event \<Rightarrow> Resolved (resolve_deleted event)
           | None \<Rightarrow> wait_wakes i True (snd rd) (back_off w)))"

fun wait_loop :: "uuid \<Rightarrow> wait_round list \<Rightarrow> waiting \<Rightarrow> wait_step" where
  "wait_loop i [] w = Waiting w"
| "wait_loop i (rd # rounds) w =
     (case wait_round i rd w of
        Resolved r \<Rightarrow> Resolved r
      | Waiting w' \<Rightarrow> wait_loop i rounds w')"

text \<open>\<open>marked\<close> answers the write that registers interest, \<open>read\<close> the single read of a job without a durable row.\<close>

definition wait_inner :: "job_handle \<Rightarrow> unit answer \<Rightarrow> wait_round list \<Rightarrow> wait_step" where
  "wait_inner jh marked rounds =
     (case (if jh_awaited jh then Answered () else marked) of
        PoolClosed e \<Rightarrow> Resolved (Inl (Db e))
      | _ \<Rightarrow> wait_loop (jh_id jh) rounds wait_start)"

definition wait_value_inner ::
    "job_handle \<Rightarrow> job_result option answer \<Rightarrow> unit answer \<Rightarrow> wait_round list \<Rightarrow> wait_step" where
  "wait_value_inner jh read marked rounds =
     (if deletes_immediately (jh_retentions jh)
      then Resolved (case read of
             PoolClosed e \<Rightarrow> Inl (Db e)
           | Unanswered e \<Rightarrow> Inl e
           | Answered answer \<Rightarrow>
               (case answer of
                  Some found \<Rightarrow>
                    if is_terminal (fst found) then resolve found
                    else Inl (Config ''wait requires retention for both outcomes; a DeleteImmediately job has no durable row to read'')
                | None \<Rightarrow> Inl (Config ''wait requires retention for both outcomes; a DeleteImmediately job has no durable row to read'')))
      else wait_inner jh marked rounds)"

text \<open>
  With a timeout, the rounds are those before it fires and a wait still going then
  has timed out; without one, such a wait has no value yet.
\<close>

definition wait_value ::
    "duration option \<Rightarrow> job_handle \<Rightarrow> job_result option answer \<Rightarrow> unit answer \<Rightarrow> wait_round list
     \<Rightarrow> json result option" where
  "wait_value timeout jh read marked rounds =
     (case wait_value_inner jh read marked rounds of
        Resolved r \<Rightarrow> Some r
      | Waiting _ \<Rightarrow> (case timeout of Some _ \<Rightarrow> Some (Inl WaitTimeout) | None \<Rightarrow> None))"

text \<open>\<open>decode\<close> is the \<^verbatim>\<open>Deserialize\<close> implementation of the job's output type.\<close>

definition wait_job ::
    "(json \<Rightarrow> string + 'o) \<Rightarrow> duration option \<Rightarrow> job_handle \<Rightarrow> job_result option answer \<Rightarrow> unit answer
     \<Rightarrow> wait_round list \<Rightarrow> 'o result option" where
  "wait_job decode timeout jh read marked rounds =
     map_option (\<lambda>r. and_then r (\<lambda>v. case decode v of Inl e \<Rightarrow> Inl (Serde e) | Inr x \<Rightarrow> Inr x))
       (wait_value timeout jh read marked rounds)"

definition handle_fetch_job :: "handle \<Rightarrow> store \<Rightarrow> job_handle \<Rightarrow> job_row result" where
  "handle_fetch_job h s jh =
     (case db_job h (jh_id jh) s of Some j \<Rightarrow> Inr j | None \<Rightarrow> Inl (JobNotFound (jh_id jh)))"

section \<open>The registry\<close>

definition registrations :: "waiters \<Rightarrow> (uuid \<times> nat) set" where
  "registrations w = {(i, k). \<exists>ks. wt_map w i = Some ks \<and> k \<in> set ks}"

text \<open>
  No identifier is kept without a registration, keys are told apart, every registered
  channel is alive, and what it holds is about the job it is registered for.
\<close>

definition waiters_ok :: "waiters \<Rightarrow> bool" where
  "waiters_ok w \<longleftrightarrow>
     (\<forall>i ks. wt_map w i = Some ks \<longrightarrow> ks \<noteq> [] \<and> distinct ks) \<and>
     (\<forall>i j k. (i, k) \<in> registrations w \<and> (j, k) \<in> registrations w \<longrightarrow> i = j) \<and>
     (\<forall>i k. (i, k) \<in> registrations w \<longrightarrow>
        (\<exists>b. wt_inbox w k = Some b \<and> (\<forall>e. b = Some e \<longrightarrow> ev_id e = i))) \<and>
     (\<forall>k\<in>dom (wt_inbox w). k < wt_next w)"

text \<open>
  The contract of a completion channel, as a wait relies on it: an event posted fills
  the empty inboxes registered for its job and nothing else.
\<close>

locale completion_channel =
  fixes ok :: "'w \<Rightarrow> bool"
    and held :: "'w \<Rightarrow> (uuid \<times> nat) set"
    and inbox :: "'w \<Rightarrow> nat \<Rightarrow> done_event option option"
    and post :: "done_event \<Rightarrow> 'w \<Rightarrow> 'w"
  assumes post_ok: "ok w \<Longrightarrow> ok (post e w)"
    and post_held: "held (post e w) = held w"
    and post_inbox: "ok w \<Longrightarrow> (i, k) \<in> held w \<Longrightarrow>
      inbox (post e w) k = (if ev_id e = i \<and> inbox w k = Some None then Some (Some e) else inbox w k)"
begin

lemma posts_ok: "ok w \<Longrightarrow> ok (fold post es w)"
  by (induction es arbitrary: w) (auto intro: post_ok)

lemma posts_held: "held (fold post es w) = held w"
  by (induction es arbitrary: w) (auto simp: post_held)

lemma full_inbox_stays:
  "ok w \<Longrightarrow> (i, k) \<in> held w \<Longrightarrow> inbox w k = Some (Some e) \<Longrightarrow> inbox (fold post es w) k = Some (Some e)"
  by (induction es arbitrary: w) (simp_all add: post_ok post_held post_inbox)

lemma first_event_caught:
  "ok w \<Longrightarrow> (i, k) \<in> held w \<Longrightarrow> inbox w k = Some None \<Longrightarrow>
     inbox (fold post es w) k = Some (find (\<lambda>e. ev_id e = i) es)"
  by (induction es arbitrary: w) (simp_all add: post_ok post_held post_inbox full_inbox_stays)

end

lemma send_event_simps [simp]:
  "wt_map (send_event e k w) = wt_map w" "wt_next (send_event e k w) = wt_next w"
  "wt_inbox (send_event e k w) k' = (if k' = k \<and> wt_inbox w k = Some None then Some (Some e) else wt_inbox w k')"
  by (auto simp: send_event_def split: option.splits)

lemma send_events_simps [simp]:
  "wt_map (fold (send_event e) ks w) = wt_map w" "wt_next (fold (send_event e) ks w) = wt_next w"
  "wt_inbox (fold (send_event e) ks w) k' =
     (if k' \<in> set ks \<and> wt_inbox w k' = Some None then Some (Some e) else wt_inbox w k')"
  by (induction ks arbitrary: w) auto

lemma deliver_event_simps [simp]:
  "wt_map (deliver_event e w) = wt_map w" "wt_next (deliver_event e w) = wt_next w"
  "wt_inbox (deliver_event e w) k =
     (if (ev_id e, k) \<in> registrations w \<and> wt_inbox w k = Some None then Some (Some e) else wt_inbox w k)"
  by (cases "wt_map w (ev_id e)"; simp add: deliver_event_def registrations_def)+

lemma registrations_deliver [simp]: "registrations (deliver_event e w) = registrations w"
  by (simp add: registrations_def)

lemma waiters_ok_deliver: "waiters_ok w \<Longrightarrow> waiters_ok (deliver_event e w)"
  by (auto simp: waiters_ok_def split: if_splits) (metis domI option.distinct(1))+

lemma registration_unique: "waiters_ok w \<Longrightarrow> (i, k) \<in> registrations w \<Longrightarrow> (j, k) \<in> registrations w \<longleftrightarrow> j = i"
  unfolding waiters_ok_def by metis

interpretation done_channel: completion_channel waiters_ok registrations wt_inbox deliver_event
  by unfold_locales (auto simp: waiters_ok_deliver registration_unique)

lemma registration_alive: "waiters_ok w \<Longrightarrow> (i, k) \<in> registrations w \<Longrightarrow> k < wt_next w"
  unfolding waiters_ok_def by (metis domI)

lemma registrations_of:
  "waiters_ok w \<Longrightarrow> k \<in> set (case wt_map w i of Some ks \<Rightarrow> ks | None \<Rightarrow> []) \<longleftrightarrow> (i, k) \<in> registrations w"
  by (cases "wt_map w i") (auto simp: registrations_def)

text \<open>What a subscription does to the registry, while keys have not run through 64 bits.\<close>

lemma subscribe_done_effect:
  assumes "waiters_ok w" "wt_next w + 1 < 2 ^ 64" "subscribe_done i w = (k, w1)"
  shows "k = wt_next w" "wt_next w1 = wt_next w + 1" "wt_inbox w1 = (wt_inbox w)(k \<mapsto> None)"
    "registrations w1 = insert (i, k) (registrations w)" "(j, k) \<notin> registrations w"
  using assms registration_alive [OF assms(1), of j k]
  by (auto simp: subscribe_done_def Let_def registrations_def split: option.splits if_splits)

lemma waiters_ok_subscribe:
  assumes "waiters_ok w" "wt_next w + 1 < 2 ^ 64" "subscribe_done i w = (k, w1)"
  shows "waiters_ok w1"
proof -
  note sub = subscribe_done_effect [OF assms]
  have fresh: "k \<notin> dom (wt_inbox w)" using assms(1) sub(1) unfolding waiters_ok_def by blast
  have old: "ks \<noteq> [] \<and> distinct ks" if "wt_map w j = Some ks" for j ks
    using that assms(1) unfolding waiters_ok_def by blast
  have map: "wt_map w1 = (wt_map w)(i \<mapsto> (case wt_map w i of Some ks \<Rightarrow> ks | None \<Rightarrow> []) @ [k])"
    using assms(3) by (auto simp: subscribe_done_def Let_def)
  have "distinct (case wt_map w i of Some ks \<Rightarrow> ks | None \<Rightarrow> [])"
    using old [of i] by (cases "wt_map w i") auto
  then have keys: "ks \<noteq> [] \<and> distinct ks" if "wt_map w1 j = Some ks" for j ks
    using that old [of j ks] sub(5) [of i] registrations_of [OF assms(1), of k i] unfolding map
    by (cases "j = i") auto
  have unique: "j = j'" if "(j, k') \<in> registrations w1" "(j', k') \<in> registrations w1" for j j' k'
    using that registration_unique [OF assms(1), of j k' j'] sub(4,5) by auto
  have alive: "\<exists>b. wt_inbox w1 k' = Some b \<and> (\<forall>e. b = Some e \<longrightarrow> ev_id e = j)" if "(j, k') \<in> registrations w1" for j k'
    using that assms(1) sub(3,4,5) unfolding waiters_ok_def by (cases "k' = k") auto
  have below: "k' < wt_next w1" if "k' \<in> dom (wt_inbox w1)" for k'
    using that assms(1) sub unfolding waiters_ok_def by (cases "k' = k") (auto dest: bspec)
  show ?thesis using keys unique alive below unfolding waiters_ok_def by blast
qed

lemma drop_subscription_registrations:
  "registrations (drop_subscription i k w) = registrations w - {(i, k)}"
  by (auto simp: drop_subscription_def registrations_def Let_def filter_empty_conv split: option.splits if_splits)

lemma waiters_ok_drop:
  assumes "waiters_ok w" "(i, k) \<in> registrations w"
  shows "waiters_ok (drop_subscription i k w)"
proof -
  let ?w = "drop_subscription i k w"
  have sub: "registrations ?w \<subseteq> registrations w" by (auto simp: drop_subscription_registrations)
  have other: "k' \<noteq> k" if "(j, k') \<in> registrations ?w" for j k'
    using that registration_unique [OF assms, of j] by (auto simp: drop_subscription_registrations)
  have same: "wt_inbox ?w = (wt_inbox w)(k := None)" "wt_next ?w = wt_next w"
    by (auto simp: drop_subscription_def Let_def split: option.splits)
  have keys: "ks \<noteq> [] \<and> distinct ks" if "wt_map ?w j = Some ks" for j ks
    using that assms(1) by (auto simp: drop_subscription_def Let_def waiters_ok_def split: if_splits option.splits)
  show ?thesis using keys sub other assms(1) unfolding waiters_ok_def same by (auto simp: subset_iff) blast
qed

lemma drop_subscription_undoes:
  assumes "waiters_ok w" "wt_next w + 1 < 2 ^ 64" "subscribe_done i w = (k, w1)" "wt_map w2 = wt_map w1"
  shows "wt_map (drop_subscription i k w2) = wt_map w"
proof -
  have "\<forall>ks. wt_map w i = Some ks \<longrightarrow> ks \<noteq> [] \<and> filter (\<lambda>k'. k' \<noteq> k) ks = ks"
    using assms(1) subscribe_done_effect(5) [OF assms(1-3), of i]
    by (auto simp: waiters_ok_def registrations_def filter_id_conv)
  then show ?thesis using assms(2-4)
    by (auto simp: subscribe_done_def drop_subscription_def Let_def fun_upd_idem split: option.splits)
qed

section \<open>The listener\<close>

lemma listener_receive_connected:
  "ls_connected l \<Longrightarrow> ls_health l = None \<Longrightarrow>
     ls_connected (listener_receive parse ch r l) = (ls_health (listener_receive parse ch r l) = None)"
  by (cases "(parse, ch, r, l)" rule: listener_receive.cases) (auto simp: Let_def split: option.splits)

lemma listener_receive_keeps:
  "ls_delay (listener_receive parse ch r l) = ls_delay l"
  "wt_map (ls_waiters (listener_receive parse ch r l)) = wt_map (ls_waiters l)"
  "waiters_ok (ls_waiters l) \<Longrightarrow> waiters_ok (ls_waiters (listener_receive parse ch r l))"
  by (cases "(parse, ch, r, l)" rule: listener_receive.cases;
      auto simp: Let_def waiters_ok_deliver split: option.splits)+

definition listener_ok :: "listener \<Rightarrow> bool" where
  "listener_ok l \<longleftrightarrow> ls_connected l = (ls_health l = None) \<and> 500 \<le> ls_delay l \<and> ls_delay l \<le> 5000 \<and>
     (ls_connected l \<longrightarrow> ls_delay l = 500) \<and> waiters_ok (ls_waiters l)"

lemma listener_ok_start: "listener_ok (listener_start attempt)"
  by (cases attempt) (auto simp: listener_ok_def listener_start_def LISTENER_RECONNECT_INITIAL_DELAY_def
      waiters_ok_def no_waiters_def registrations_def)

lemma listener_ok_round:
  assumes "listener_ok l"
  shows "listener_ok (listener_round parse ch input l)"
proof (cases "ls_connected l")
  case True
  then show ?thesis using assms listener_receive_connected [of l parse ch "snd input"] listener_receive_keeps
    by (simp add: listener_round_def listener_ok_def)
next
  case False
  then show ?thesis using assms
    by (cases "fst input")
      (auto simp: listener_round_def listener_ok_def LISTENER_RECONNECT_INITIAL_DELAY_def LISTENER_RECONNECT_MAX_DELAY_def)
qed

lemma listener_ok_run: "listener_ok l \<Longrightarrow> listener_ok (fold (listener_round parse ch) inputs l)"
  by (induction inputs arbitrary: l) (simp_all add: listener_ok_round)

lemma capped_product:
  assumes "1 \<le> p"
  shows "min (min a c * p) c = min (a * p) (c :: nat)"
proof (cases "a \<le> c")
  case False
  have "c * 1 \<le> c * p" "c * 1 \<le> a * p" using assms False by (intro mult_le_mono; simp)+
  then show ?thesis using False by simp
qed simp

text \<open>Failed attempts to reconnect: still disconnected, the delay doubled each time up to its cap.\<close>

lemma listener_failing_run:
  assumes "\<not> ls_connected l" "list_all (\<lambda>input. isl (fst input)) inputs" "ls_delay l \<le> 5000"
  shows "\<not> ls_connected (fold (listener_round parse ch) inputs l) \<and>
    ls_delay (fold (listener_round parse ch) inputs l) = min (ls_delay l * 2 ^ length inputs) 5000 \<and>
    ls_wakeups (fold (listener_round parse ch) inputs l) = ls_wakeups l"
  using assms(2)
proof (induction inputs rule: rev_induct)
  case Nil then show ?case using assms by simp
next
  case (snoc input inputs)
  then show ?case using capped_product [of 2 "ls_delay l * 2 ^ length inputs" 5000]
    by (cases "fst input") (auto simp: listener_round_def LISTENER_RECONNECT_MAX_DELAY_def mult.commute mult.left_commute)
qed

section \<open>Polling intervals and the end of a wait\<close>

fun wake_reads :: "wake list \<Rightarrow> job_result option answer list" where
  "wake_reads (Notified event read # wakes) = read # wake_reads wakes"
| "wake_reads _ = []"

fun wake_events :: "wake list \<Rightarrow> done_event list" where
  "wake_events (Notified event read # wakes) = event # wake_events wakes"
| "wake_events _ = []"

text \<open>A read that tells a wait nothing final: the row is alive, or there was no answer.\<close>

fun read_open :: "job_result option answer \<Rightarrow> bool" where
  "read_open (Answered (Some found)) = (\<not> is_terminal (fst found))"
| "read_open (Answered None) = False"
| "read_open _ = True"

definition round_open :: "wait_round \<Rightarrow> bool" where
  "round_open rd =
     (case fst rd of
        Unanswered _ \<Rightarrow> True
      | PoolClosed _ \<Rightarrow> False
      | Answered _ \<Rightarrow> read_open (fst rd) \<and> list_all read_open (wake_reads (snd rd)))"

lemma poll_deadline_simps [simp]:
  "poll_deadline i False w = Waiting w" "poll_deadline i True w \<noteq> Waiting w'"
  by (auto simp: poll_deadline_def)

lemma wait_wakes_missing: "wait_wakes i True wakes w \<noteq> Waiting w'"
  by (induction i True wakes w rule: wait_wakes.induct)
    (auto split: answer.splits option.splits)

lemma wait_wakes_alive:
  "(\<exists>w'. wait_wakes i False wakes w = Waiting w') \<longleftrightarrow> list_all read_open (wake_reads wakes)"
  by (induction i False wakes w rule: wait_wakes.induct)
    (auto split: answer.splits option.splits)

lemma wait_wakes_keeps:
  "wait_wakes i missing wakes w = Waiting w' \<Longrightarrow> wa_poll w' = wa_poll w \<and> wa_seen w' = wa_seen w"
  by (induction i missing wakes w rule: wait_wakes.induct)
    (auto simp: poll_deadline_def split: answer.splits option.splits if_splits)

lemma wait_round_open: "(\<exists>w'. wait_round i rd w = Waiting w') \<longleftrightarrow> round_open rd"
  using wait_wakes_missing wait_wakes_alive
  by (auto simp: wait_round_def round_open_def split: answer.splits option.splits)

lemma wait_round_poll:
  "wait_round i rd w = Waiting w' \<Longrightarrow> wa_poll w' = min (wa_poll w * 2) MAX_POLL_INTERVAL"
  by (auto simp: wait_round_def back_off_def split: answer.splits option.splits if_splits dest: wait_wakes_keeps)

lemma wait_loop_open: "(\<exists>w'. wait_loop i rounds w = Waiting w') \<longleftrightarrow> list_all round_open rounds"
proof (induction rounds arbitrary: w)
  case (Cons rd rounds)
  then show ?case using wait_round_open [of i rd w] by (cases "wait_round i rd w") auto
qed simp

lemma wait_loop_poll:
  assumes "wait_loop i rounds w = Waiting w'" "wa_poll w \<le> MAX_POLL_INTERVAL"
  shows "wa_poll w' = min (wa_poll w * 2 ^ length rounds) MAX_POLL_INTERVAL"
  using assms
proof (induction rounds arbitrary: w)
  case (Cons rd rounds)
  then obtain w1 where w1: "wait_round i rd w = Waiting w1" "wait_loop i rounds w1 = Waiting w'"
    by (cases "wait_round i rd w") auto
  have "wa_poll w1 = min (wa_poll w * 2) MAX_POLL_INTERVAL" using wait_round_poll [OF w1(1)] .
  then show ?case using Cons.IH [OF w1(2)] capped_product [of "2 ^ length rounds" "wa_poll w * 2" MAX_POLL_INTERVAL]
    by (simp add: mult.assoc)
qed simp

section \<open>Where an answer comes from\<close>

text \<open>The reads of a round, in order: an unanswered poll sleeps and reads nothing more.\<close>

definition round_reads :: "wait_round \<Rightarrow> job_result option answer list" where
  "round_reads rd = fst rd # (case fst rd of Answered _ \<Rightarrow> wake_reads (snd rd) | _ \<Rightarrow> [])"

definition wait_reads :: "wait_round list \<Rightarrow> job_result option answer list" where
  "wait_reads rounds = concat (map round_reads rounds)"

definition wait_events :: "wait_round list \<Rightarrow> done_event list" where
  "wait_events rounds = concat (map (\<lambda>rd. wake_events (snd rd)) rounds)"

lemma wait_reads_simps [simp]:
  "wait_reads [] = []" "wait_reads (rd # rounds) = round_reads rd @ wait_reads rounds"
  "wait_events [] = []" "wait_events (rd # rounds) = wake_events (snd rd) @ wait_events rounds"
  by (simp_all add: wait_reads_def wait_events_def)

text \<open>
  The justification of an answer by the reads and events of a wait: a terminal row, an
  event whose row is gone, a closed pool, or a row that is gone, known from
  before or never known.
\<close>

definition justified ::
    "uuid \<Rightarrow> job_result option answer set \<Rightarrow> done_event set \<Rightarrow> bool \<Rightarrow> json result \<Rightarrow> bool" where
  "justified i reads events seen r \<longleftrightarrow>
     (\<exists>found. Answered (Some found) \<in> reads \<and> is_terminal (fst found) \<and> r = resolve found) \<or>
     (\<exists>event\<in>events. Answered None \<in> reads \<and> r = resolve_deleted event) \<or>
     (\<exists>e. PoolClosed e \<in> reads \<and> r = Inl (Db e)) \<or>
     (Answered None \<in> reads \<and> seen \<and> r = Inl (ResultExpired i)) \<or>
     (Answered None \<in> reads \<and> \<not> seen \<and> r = Inl (JobNotFound i))"

lemma justified_mono:
  "justified i reads events seen r \<Longrightarrow> reads \<subseteq> reads' \<Longrightarrow> events \<subseteq> events' \<Longrightarrow> justified i reads' events' seen r"
  unfolding justified_def by blast

lemma justifiedI:
  "Answered (Some found) \<in> reads \<Longrightarrow> is_terminal (fst found) \<Longrightarrow> justified i reads events seen (resolve found)"
  "Answered None \<in> reads \<Longrightarrow> event \<in> events \<Longrightarrow> justified i reads events seen (resolve_deleted event)"
  "PoolClosed e \<in> reads \<Longrightarrow> justified i reads events seen (Inl (Db e))"
  "Answered None \<in> reads \<Longrightarrow> justified i reads events seen (Inl (vanished i seen))"
  unfolding justified_def vanished_def by (blast | (cases seen; simp))+

definition pending_events :: "waiting \<Rightarrow> done_event set" where
  "pending_events w = set_option (wa_pending w)"

lemma poll_deadline_justified:
  "poll_deadline i missing w = Resolved r \<Longrightarrow> (missing \<Longrightarrow> Answered None \<in> reads) \<Longrightarrow>
     justified i reads (pending_events w) (wa_seen w) r"
  by (cases "wa_pending w") (auto simp: poll_deadline_def pending_events_def intro: justifiedI split: if_splits)

lemma wait_wakes_justified:
  "wait_wakes i missing wakes w = Resolved r \<Longrightarrow> (missing \<Longrightarrow> Answered None \<in> reads) \<Longrightarrow>
     justified i (reads \<union> set (wake_reads wakes)) (pending_events w \<union> set (wake_events wakes)) (wa_seen w) r"
proof (induction i missing wakes w rule: wait_wakes.induct)
  case (3 i missing event read wakes w)
  let ?goal = "justified i (reads \<union> set (wake_reads (Notified event read # wakes)))
     (pending_events w \<union> set (wake_events (Notified event read # wakes))) (wa_seen w) r"
  have later: ?goal if "justified i (reads \<union> set (wake_reads wakes)) (pending_events w' \<union> set (wake_events wakes)) (wa_seen w) r"
    "pending_events w' \<subseteq> insert event (pending_events w)" for w'
    using justified_mono [OF that(1)] that(2) by (auto intro!: justified_mono [OF that(1)])
  show ?case
  proof (cases read)
    case (Answered answer)
    then show ?thesis using 3 later [of w]
      by (cases answer) (auto intro: justifiedI split: if_splits)
  qed (use 3 later [of "w\<lparr> wa_pending := Some event \<rparr>"] in \<open>auto simp: pending_events_def\<close>)
qed (auto intro: justified_mono [OF poll_deadline_justified])

lemma wait_wakes_pending:
  "wait_wakes i missing wakes w = Waiting w' \<Longrightarrow>
     pending_events w' \<subseteq> pending_events w \<union> set (wake_events wakes)"
proof (induction i missing wakes w rule: wait_wakes.induct)
  case (3 i missing event read wakes w)
  show ?case
  proof (cases read)
    case (Answered answer)
    then show ?thesis using 3 by (cases answer) (auto split: if_splits)
  qed (use 3 in \<open>auto simp: pending_events_def\<close>)
qed (auto simp: poll_deadline_def split: if_splits)

definition seen_alive :: "job_result option answer \<Rightarrow> bool" where
  "seen_alive read \<longleftrightarrow> (\<exists>found. read = Answered (Some found) \<and> \<not> is_terminal (fst found))"

lemma wait_round_justified:
  assumes "wait_round i rd w = Resolved r"
  shows "justified i (set (round_reads rd)) (pending_events w \<union> set (wake_events (snd rd)))
    (wa_seen w \<or> seen_alive (fst rd)) r"
proof (cases "fst rd")
  case (Answered answer)
  show ?thesis
  proof (cases answer)
    case None
    note n = Answered None
    show ?thesis
    proof (cases "wa_pending w")
      case None
      then have "wait_wakes i True (snd rd) (back_off w) = Resolved r" using assms n by (simp add: wait_round_def)
      then show ?thesis using n wait_wakes_justified [of i True "snd rd" "back_off w" r "{Answered None}"]
        by (simp add: round_reads_def seen_alive_def back_off_def pending_events_def)
    qed (use assms n in \<open>auto simp: wait_round_def round_reads_def pending_events_def intro: justifiedI\<close>)
  next
    case (Some found)
    note f = Answered Some
    let ?w = "back_off (w\<lparr> wa_pending := None, wa_seen := True \<rparr>)"
    show ?thesis
    proof (cases "is_terminal (fst found)")
      case False
      then have "wait_wakes i False (snd rd) ?w = Resolved r" using assms f by (simp add: wait_round_def)
      then have "justified i ({Answered (Some found)} \<union> set (wake_reads (snd rd))) (pending_events ?w \<union> set (wake_events (snd rd))) True r"
        using wait_wakes_justified [of i False "snd rd" ?w r "{Answered (Some found)}"] by (simp add: back_off_def)
      then show ?thesis using f False
        by (auto simp: round_reads_def seen_alive_def back_off_def pending_events_def elim: justified_mono)
    qed (use assms f in \<open>auto simp: wait_round_def round_reads_def intro: justifiedI\<close>)
  qed
qed (use assms in \<open>auto simp: wait_round_def round_reads_def intro: justifiedI\<close>)

lemma wait_round_waiting:
  assumes "wait_round i rd w = Waiting w'"
  shows "wa_seen w' = (wa_seen w \<or> seen_alive (fst rd))"
    "pending_events w' \<subseteq> pending_events w \<union> set (wake_events (snd rd))"
proof -
  consider e where "fst rd = Unanswered e" "w' = back_off w"
    | found where "fst rd = Answered (Some found)" "\<not> is_terminal (fst found)"
        "wait_wakes i False (snd rd) (back_off (w\<lparr> wa_pending := None, wa_seen := True \<rparr>)) = Waiting w'"
    using assms wait_wakes_missing by (auto simp: wait_round_def split: answer.splits option.splits if_splits)
  then have "wa_seen w' = (wa_seen w \<or> seen_alive (fst rd)) \<and>
    pending_events w' \<subseteq> pending_events w \<union> set (wake_events (snd rd))"
  proof cases
    case 1
    then show ?thesis by (simp add: back_off_def seen_alive_def pending_events_def)
  next
    case 2
    then show ?thesis using wait_wakes_keeps [OF 2(3)] wait_wakes_pending [OF 2(3)]
      by (auto simp: back_off_def seen_alive_def pending_events_def)
  qed
  then show "wa_seen w' = (wa_seen w \<or> seen_alive (fst rd))"
    "pending_events w' \<subseteq> pending_events w \<union> set (wake_events (snd rd))" by blast+
qed

lemma wait_loop_justified:
  assumes "wait_loop i rounds w = Resolved r"
  shows "\<exists>pre rd post w'. rounds = pre @ rd # post \<and> list_all round_open pre \<and> wait_round i rd w' = Resolved r \<and>
    justified i (set (wait_reads (pre @ [rd]))) (pending_events w \<union> set (wait_events (pre @ [rd])))
      (wa_seen w \<or> list_ex (\<lambda>x. seen_alive (fst x)) (pre @ [rd])) r"
  using assms
proof (induction rounds arbitrary: w)
  case (Cons rd rounds)
  show ?case
  proof (cases "wait_round i rd w")
    case (Resolved r')
    then have "wait_round i rd w = Resolved r" using Cons.prems by simp
    then show ?thesis using wait_round_justified [of i rd w r] by (intro exI [of _ "[]"]) auto
  next
    case (Waiting w1)
    then have "wait_loop i rounds w1 = Resolved r" using Cons.prems by simp
    then obtain pre rd' post w' where IH: "rounds = pre @ rd' # post" "list_all round_open pre" "wait_round i rd' w' = Resolved r"
      "justified i (set (wait_reads (pre @ [rd']))) (pending_events w1 \<union> set (wait_events (pre @ [rd'])))
         (wa_seen w1 \<or> list_ex (\<lambda>x. seen_alive (fst x)) (pre @ [rd'])) r"
      using Cons.IH by blast
    have seen: "(wa_seen w \<or> list_ex (\<lambda>x. seen_alive (fst x)) (rd # pre @ [rd'])) =
        (wa_seen w1 \<or> list_ex (\<lambda>x. seen_alive (fst x)) (pre @ [rd']))"
      using wait_round_waiting(1) [OF Waiting] by simp
    have "justified i (set (wait_reads (rd # pre @ [rd']))) (pending_events w \<union> set (wait_events (rd # pre @ [rd'])))
        (wa_seen w \<or> list_ex (\<lambda>x. seen_alive (fst x)) (rd # pre @ [rd'])) r"
      unfolding seen using IH(4) by (rule justified_mono) (use wait_round_waiting(2) [OF Waiting] in auto)
    moreover have "round_open rd" using Waiting wait_round_open by blast
    ultimately show ?thesis using IH(1-3) by (intro exI [of _ "rd # pre"]) auto
  qed
qed simp

lemma resolve_simps [simp]:
  "resolve found = Inr v \<longleftrightarrow> (\<exists>res err. found = (Complete, res, err) \<and> v = (case res of Some x \<Rightarrow> x | None \<Rightarrow> JNull))"
  "resolve found \<noteq> Inl (JobNotFound i)" "resolve found \<noteq> Inl (ResultExpired i)"
  "resolve found \<noteq> Inl WaitTimeout" "resolve found \<noteq> Inl (Db e)"
  by (cases found rule: resolve.cases; auto)+

lemma resolve_deleted_simps [simp]:
  "resolve_deleted event \<noteq> Inr v" "resolve_deleted event \<noteq> Inl (JobNotFound i)"
  "resolve_deleted event = Inl (ResultExpired i) \<longleftrightarrow> ev_status event = Complete \<and> ev_id event = i"
  "resolve_deleted event \<noteq> Inl WaitTimeout" "resolve_deleted event \<noteq> Inl (Db e)"
  by (auto simp: resolve_deleted_def split: job_status.splits)

lemma is_terminal_Complete [simp]: "is_terminal Complete" by simp

lemma justified_cases:
  "justified i reads events seen (Inr v) \<longleftrightarrow>
     (\<exists>res err. Answered (Some (Complete, res, err)) \<in> reads \<and> v = (case res of Some x \<Rightarrow> x | None \<Rightarrow> JNull))"
  "justified i reads events seen (Inl (JobNotFound j)) \<longleftrightarrow> Answered None \<in> reads \<and> \<not> seen \<and> j = i"
  "justified i reads events seen (Inl (ResultExpired j)) \<longleftrightarrow>
     Answered None \<in> reads \<and> (seen \<and> j = i \<or> (\<exists>event\<in>events. ev_status event = Complete \<and> ev_id event = j))"
  "\<not> justified i reads events seen (Inl WaitTimeout)"
  by (auto simp: justified_def eq_commute [of "Inl e" "resolve x" for e x] eq_commute [of "Inl e" "resolve_deleted x" for e x]
      eq_commute [of "Inr v" "resolve x" for v x] eq_commute [of "Inr v" "resolve_deleted x" for v x])

text \<open>A wait that ends with a missing job: the first poll that was answered found no row.\<close>

lemma wait_loop_not_found:
  assumes "wait_loop i rounds wait_start = Resolved (Inl (JobNotFound j))"
  shows "j = i \<and> (\<exists>pre rd post. rounds = pre @ rd # post \<and> (\<forall>x\<in>set pre. \<exists>e. fst x = Unanswered e) \<and> fst rd = Answered None)"
proof -
  obtain pre rd post w' where w: "rounds = pre @ rd # post" "list_all round_open pre" "wait_round i rd w' = Resolved (Inl (JobNotFound j))"
    and just: "justified i (set (wait_reads (pre @ [rd]))) (pending_events wait_start \<union> set (wait_events (pre @ [rd])))
      (wa_seen wait_start \<or> list_ex (\<lambda>x. seen_alive (fst x)) (pre @ [rd])) (Inl (JobNotFound j))"
    using wait_loop_justified [OF assms] by blast
  have j: "j = i" and none: "Answered None \<in> set (wait_reads (pre @ [rd]))"
    and unseen: "\<forall>x\<in>set (pre @ [rd]). \<not> seen_alive (fst x)"
    using just unfolding justified_cases by (auto simp: list_ex_iff)
  have pre: "\<exists>e. fst x = Unanswered e" if "x \<in> set pre" for x
    using that w(2) unseen
    by (cases "fst x") (auto simp: list_all_iff round_open_def seen_alive_def dest!: bspec elim!: read_open.elims)
  have "Answered None \<notin> set (round_reads x)" if "x \<in> set pre" for x
    using pre [OF that] by (auto simp: round_reads_def)
  then have "Answered None \<in> set (round_reads rd)" using none by (auto simp: wait_reads_def)
  then obtain answer where a: "fst rd = Answered answer" by (cases "fst rd") (auto simp: round_reads_def)
  have "answer = None"
    using a w(3) unseen by (cases answer) (auto simp: wait_round_def seen_alive_def split: if_splits)
  then show ?thesis using w(1) pre j a by blast
qed

section \<open>Waits along a run\<close>

text \<open>
  Reads of one job made one after the other while the system runs: every answered
  one returns the row as it is then.
\<close>

definition read_along :: "handle \<Rightarrow> uuid \<Rightarrow> sys list \<Rightarrow> job_result option answer list \<Rightarrow> bool" where
  "read_along h i ys reads \<longleftrightarrow> sorted_wrt queue_step\<^sup>*\<^sup>* ys \<and>
     list_all2 (\<lambda>y read. case read of Answered found \<Rightarrow> found = job_outcome h i (sy_store y) | _ \<Rightarrow> True) ys reads"

lemma job_outcome_life:
  assumes "store_ok s"
  shows "job_outcome h i s = (case abs_jobs s i of
      Some x \<Rightarrow> if fst (lf_request x) = h_name h then Some (lf_status x, fst (lf_outcome x), fst (snd (lf_outcome x))) else None
    | None \<Rightarrow> None)"
proof -
  have unique: "j = j'" if "j \<in> set (st_jobs s)" "j' \<in> set (st_jobs s)" "j_id j = j_id j'" for j j'
    using that jobs_ok_lookup [OF store_ok_jobs [OF assms]] by (metis option.inject)
  show ?thesis
  proof (cases "lookup_row j_id i (st_jobs s)")
    case None
    then have "\<forall>j\<in>set (st_jobs s). j_id j \<noteq> i" by (auto simp: lookup_row_def find_None_iff)
    then show ?thesis using None by (auto simp: abs_jobs_def job_outcome_def find_None_iff)
  next
    case (Some j)
    then have j: "j \<in> set (st_jobs s)" "j_id j = i" using lookup_row_Some by fast+
    have "find (\<lambda>j. j_id j = i \<and> j_queue j = h_name h) (st_jobs s) = (if j_queue j = h_name h then Some j else None)"
    proof (cases "find (\<lambda>j. j_id j = i \<and> j_queue j = h_name h) (st_jobs s)")
      case None
      then show ?thesis using j by (auto simp: find_None_iff)
    next
      case (Some j')
      then have "j' \<in> set (st_jobs s)" "j_id j' = i" "j_queue j' = h_name h" by (auto simp: find_Some_iff)
      then show ?thesis using Some unique [of j j'] j by auto
    qed
    then show ?thesis using Some by (simp add: abs_jobs_def job_outcome_def life_of_def)
  qed
qed

lemma job_outcome_run:
  assumes "sys_ok y" "queue_step\<^sup>*\<^sup>* y y'" "i \<in> sy_used y"
  shows "job_outcome h i (sy_store y) = None \<Longrightarrow> job_outcome h i (sy_store y') = None"
    and "job_outcome h i (sy_store y) = Some found \<Longrightarrow> is_terminal (fst found) \<Longrightarrow>
      job_outcome h i (sy_store y') \<in> {None, Some found}"
proof -
  have ok: "store_ok (sy_store y)" "store_ok (sy_store y')"
    using assms(1) queue.run_good [OF assms(2,1)] by (auto simp: sys_ok_def)
  have f: "spec_follows (abs_sys y) (abs_sys y')" using queue_spec.run_follows assms(1,2) by blast
  have earlier: "\<exists>x. abs_jobs (sy_store y) i = Some x \<and> lf_request x' = lf_request x \<and> (is_terminal (lf_status x) \<longrightarrow> x' = x)"
    if "abs_jobs (sy_store y') i = Some x'" for x'
    using f assms(3) that unfolding spec_follows_def abs_sys_def spec.simps by blast
  show "job_outcome h i (sy_store y) = None \<Longrightarrow> job_outcome h i (sy_store y') = None"
    unfolding job_outcome_life [OF ok(1)] job_outcome_life [OF ok(2)]
    by (auto split: option.splits if_splits dest!: earlier)
  show "job_outcome h i (sy_store y) = Some found \<Longrightarrow> is_terminal (fst found) \<Longrightarrow>
      job_outcome h i (sy_store y') \<in> {None, Some found}"
    unfolding job_outcome_life [OF ok(1)] job_outcome_life [OF ok(2)]
    by (auto split: option.splits if_splits dest!: earlier)
qed

lemma run_used: "queue_step\<^sup>*\<^sup>* y y' \<Longrightarrow> sy_used y \<subseteq> sy_used y'"
  by (induction rule: rtranclp_induct) (auto elim!: queue_step.cases)

lemma read_along_answer:
  assumes "read_along h i ys reads" "Answered found \<in> set reads"
  shows "\<exists>y\<in>set ys. job_outcome h i (sy_store y) = found"
  using assms by (fastforce simp: read_along_def list_all2_conv_all_nth in_set_conv_nth)

text \<open>Once a read found no row, neither does any later one.\<close>

lemma read_along_gone:
  assumes "read_along h i ys (reads @ Answered None # reads')" "\<And>y. y \<in> set ys \<Longrightarrow> sys_ok y \<and> i \<in> sy_used y"
    "Answered found \<in> set reads'"
  shows "found = None"
proof -
  obtain ys1 y ys2 where ys: "ys = ys1 @ y # ys2" and y: "job_outcome h i (sy_store y) = None"
    and later: "list_all2 (\<lambda>y read. case read of Answered found \<Rightarrow> found = job_outcome h i (sy_store y) | _ \<Rightarrow> True) ys2 reads'"
    using assms(1) by (auto simp: read_along_def list_all2_append2 list_all2_Cons2)
  obtain y' where y': "y' \<in> set ys2" "job_outcome h i (sy_store y') = found"
    using later assms(3) by (fastforce simp: list_all2_conv_all_nth in_set_conv_nth)
  then have "queue_step\<^sup>*\<^sup>* y y'" using assms(1) ys by (auto simp: read_along_def sorted_wrt_append)
  then show ?thesis using job_outcome_run(1) [of y y' i h] assms(2) [of y] y y' ys by simp
qed

lemma justified_job:
  assumes "justified i reads events seen (Inl (Job e))"
  shows "(\<exists>found. Answered (Some found) \<in> reads \<and> fst found \<in> {Failed, Aborted} \<and> resolve found = Inl (Job e)) \<or>
    (Answered None \<in> reads \<and> (\<exists>event\<in>events. ev_status event \<in> {Failed, Aborted, Aborting} \<and> resolve_deleted event = Inl (Job e)))"
proof -
  have row: "fst found \<in> {Failed, Aborted}" if "is_terminal (fst found)" "resolve found = Inl (Job e)" for found
    using that by (cases found rule: resolve.cases) auto
  have event: "ev_status event \<in> {Failed, Aborted, Aborting}" if "resolve_deleted event = Inl (Job e)" for event
    using that by (auto simp: resolve_deleted_def split: job_status.splits)
  consider (row) found where "Answered (Some found) \<in> reads" "is_terminal (fst found)" "resolve found = Inl (Job e)"
    | (event) ev where "ev \<in> events" "Answered None \<in> reads" "resolve_deleted ev = Inl (Job e)"
    using assms unfolding justified_def by (auto simp del: split_paired_Ex)
  then show ?thesis by cases (use row event in blast)+
qed

lemma wait_loop_justified_reads:
  assumes "wait_loop i rounds w = Resolved r"
  shows "\<exists>seen. justified i (set (wait_reads rounds)) (pending_events w \<union> set (wait_events rounds)) seen r \<and>
    (seen \<longrightarrow> wa_seen w \<or> (\<exists>found. Answered (Some found) \<in> set (wait_reads rounds) \<and> \<not> is_terminal (fst found)))"
proof -
  obtain pre rd post where r: "rounds = pre @ rd # post"
    and j: "justified i (set (wait_reads (pre @ [rd]))) (pending_events w \<union> set (wait_events (pre @ [rd])))
      (wa_seen w \<or> list_ex (\<lambda>x. seen_alive (fst x)) (pre @ [rd])) r"
    using wait_loop_justified [OF assms] by blast
  let ?seen = "wa_seen w \<or> list_ex (\<lambda>x. seen_alive (fst x)) (pre @ [rd])"
  have polls: "fst x \<in> set (wait_reads rounds)" if "x \<in> set (pre @ [rd])" for x
    using that unfolding r by (auto simp: wait_reads_def round_reads_def)
  have alive: "\<exists>found. Answered (Some found) \<in> set (wait_reads rounds) \<and> \<not> is_terminal (fst found)"
    if "?seen" "\<not> wa_seen w"
    using that polls unfolding list_ex_iff seen_alive_def by metis
  have "set (wait_reads (pre @ [rd])) \<subseteq> set (wait_reads rounds)" "set (wait_events (pre @ [rd])) \<subseteq> set (wait_events rounds)"
    unfolding r by (auto simp: wait_reads_def wait_events_def)
  then have "justified i (set (wait_reads rounds)) (pending_events w \<union> set (wait_events rounds)) ?seen r"
    using justified_mono [OF j] by (meson Un_mono subset_refl)
  then show ?thesis using alive by (intro exI [of _ ?seen]) blast
qed

lemma read_along_final:
  assumes "read_along h i ys reads" "\<And>y. y \<in> set ys \<Longrightarrow> sys_ok y \<and> i \<in> sy_used y"
    "Answered (Some found) \<in> set reads" "is_terminal (fst found)"
  shows "\<exists>y\<in>set ys. job_outcome h i (sy_store y) = Some found \<and>
    (\<forall>y'. queue_step\<^sup>*\<^sup>* y y' \<longrightarrow> job_outcome h i (sy_store y') \<in> {None, Some found})"
proof -
  obtain y where y: "y \<in> set ys" "job_outcome h i (sy_store y) = Some found"
    using read_along_answer [OF assms(1,3)] by blast
  then show ?thesis using job_outcome_run(2) [of y _ i h found] assms(2,4) by blast
qed

section \<open>Properties\<close>

text \<open>
  A completion is not missed once a wait has subscribed. Whatever events the
  listener delivers afterwards, the subscription holds the first one about its job and
  nothing about another, and when it is dropped the registry is what it was:
  nothing is left behind and no other waiter is affected.
\<close>

theorem subscription_catches_completion:
  assumes "waiters_ok w" "wt_next w + 1 < 2 ^ 64" "subscribe_done i w = (k, w1)"
  shows "wt_inbox (fold deliver_event es w1) k = Some (find (\<lambda>e. ev_id e = i) es) \<and>
    wt_map (drop_subscription i k (fold deliver_event es w1)) = wt_map w \<and>
    waiters_ok (drop_subscription i k (fold deliver_event es w1)) \<and>
    (\<forall>j k'. (j, k') \<in> registrations w \<longrightarrow>
       wt_inbox (drop_subscription i k (fold deliver_event es w1)) k' = wt_inbox (fold deliver_event es w) k')"
proof -
  note sub = subscribe_done_effect [OF assms] and ok1 = waiters_ok_subscribe [OF assms]
  have map: "wt_map (fold deliver_event es v) = wt_map v" for v by (induction es arbitrary: v) simp_all
  have caught: "wt_inbox (fold deliver_event es v) k' = (if wt_inbox v k' = Some None
      then Some (find (\<lambda>e. ev_id e = j) es) else wt_inbox v k')"
    if "waiters_ok v" "(j, k') \<in> registrations v" for v j k'
  proof -
    note reg = that
    obtain b where b: "wt_inbox v k' = Some b" using reg unfolding waiters_ok_def by blast
    then show ?thesis using done_channel.first_event_caught [OF reg] done_channel.full_inbox_stays [OF reg]
      by (cases b) auto
  qed
  have others: "wt_inbox (drop_subscription i k (fold deliver_event es w1)) k' = wt_inbox (fold deliver_event es w) k'"
    if "(j, k') \<in> registrations w" for j k'
  proof -
    have "k' \<noteq> k" using that sub(5) by blast
    then have "wt_inbox (drop_subscription i k (fold deliver_event es w1)) k' = wt_inbox (fold deliver_event es w1) k'"
      by (auto simp: drop_subscription_def Let_def split: option.splits)
    then show ?thesis using caught [OF assms(1) that] caught [OF ok1, of j k'] that sub(3,4) \<open>k' \<noteq> k\<close> by simp
  qed
  have "wt_inbox (fold deliver_event es w1) k = Some (find (\<lambda>e. ev_id e = i) es)"
    using caught [OF ok1, of i k] sub(3,4) by simp
  moreover have "waiters_ok (drop_subscription i k (fold deliver_event es w1))"
    using waiters_ok_drop [OF done_channel.posts_ok [OF ok1], of i k es] sub(4) by (simp add: done_channel.posts_held)
  ultimately show ?thesis using others drop_subscription_undoes [OF assms map] by blast
qed

theorem subscription_catches_completion_witness:
  "wt_inbox (fold deliver_event [\<lparr> ev_id = 8, ev_status = Failed \<rparr>, \<lparr> ev_id = 7, ev_status = Complete \<rparr>]
     (snd (subscribe_done 7 no_waiters))) 0 = Some (Some \<lparr> ev_id = 7, ev_status = Complete \<rparr>)"
proof -
  have "waiters_ok no_waiters" by (simp add: waiters_ok_def no_waiters_def registrations_def)
  moreover have "subscribe_done 7 no_waiters = (0, snd (subscribe_done 7 no_waiters))" "wt_next no_waiters + 1 < 2 ^ 64"
    by (simp_all add: subscribe_done_def no_waiters_def Let_def)
  ultimately have "wt_inbox (fold deliver_event es (snd (subscribe_done 7 no_waiters))) 0 = Some (find (\<lambda>e. ev_id e = 7) es)" for es
    using subscription_catches_completion by blast
  from this [of "[\<lparr> ev_id = 8, ev_status = Failed \<rparr>, \<lparr> ev_id = 7, ev_status = Complete \<rparr>]"] show ?thesis
    by (simp only: find.simps done_event.simps) simp
qed

text \<open>
  The health a listener reports is its connection. However connection attempts,
  notifications, malformed payloads and losses follow each other, the health is
  clear exactly while the listener is connected, and a connected listener starts its
  next outage with the initial delay. From the loss of a
  connection, failed attempts space out by doubling from 500 ms to 5 s, and the first one that
  succeeds clears the health, resets the delay and wakes the workers once.
\<close>

theorem listener_health_exact:
  assumes "l = fold (listener_round parse ch) inputs (listener_start attempt)" "ls_connected l"
    "\<not> ls_connected (listener_round parse ch lost l)" "list_all (\<lambda>input. isl (fst input)) fails"
    "l1 = fold (listener_round parse ch) fails (listener_round parse ch lost l)"
    "l2 = listener_round parse ch (Inr (), rest) l1"
  shows "listener_ok l \<and> listener_ok l1 \<and> listener_ok l2 \<and> ls_health l = None \<and>
    ls_health l1 \<noteq> None \<and> ls_delay l1 = min (500 * 2 ^ length fails) 5000 \<and> ls_wakeups l1 = ls_wakeups l \<and>
    ls_connected l2 \<and> ls_health l2 = None \<and> ls_delay l2 = 500 \<and> ls_wakeups l2 = ls_wakeups l + 1"
proof -
  let ?l0 = "listener_round parse ch lost l"
  have ok: "listener_ok l" using listener_ok_run [OF listener_ok_start] assms(1) by blast
  have lost: "listener_receive parse ch (snd lost) l = ?l0" using assms(2) by (simp add: listener_round_def)
  have l0: "ls_delay ?l0 = 500" "ls_wakeups ?l0 = ls_wakeups l"
    using ok assms(2,3) unfolding lost [symmetric]
    by (cases "(parse, ch, snd lost, l)" rule: listener_receive.cases;
        auto simp: listener_ok_def Let_def split: option.splits if_splits)+
  have ok1: "listener_ok l1" using listener_ok_run [OF listener_ok_round [OF ok]] assms(5) by blast
  have ok2: "listener_ok l2" using listener_ok_round [OF ok1] assms(6) by blast
  have l1: "\<not> ls_connected l1 \<and> ls_delay l1 = min (500 * 2 ^ length fails) 5000 \<and> ls_wakeups l1 = ls_wakeups l"
    using listener_failing_run [OF assms(3,4), of parse ch] l0 assms(5) by simp
  then have "l2 = listener_reconnect (Inr ()) l1" using assms(6) by (simp add: listener_round_def)
  then show ?thesis using ok ok1 ok2 l1 assms(2)
    by (auto simp: listener_ok_def LISTENER_RECONNECT_INITIAL_DELAY_def)
qed

theorem listener_health_exact_witness:
  "ls_delay (fold (listener_round (\<lambda>_. None) ''done'') (replicate 4 (Inl ''refused'', Inr None))
     (listener_round (\<lambda>_. None) ''done'' (Inr (), Inr None) (listener_start (Inr ())))) = 5000"
proof -
  have "ls_connected (listener_start (Inr ()))"
    "\<not> ls_connected (listener_round (\<lambda>_. None) ''done'' (Inr (), Inr None) (listener_start (Inr ())))"
    by (simp_all add: listener_start_def listener_round_def)
  moreover have "list_all (\<lambda>input. isl (fst input)) (replicate 4 (Inl ''refused'', Inr None))" by (simp add: list_all_length)
  ultimately have "ls_delay (fold (listener_round (\<lambda>_. None) ''done'') (replicate 4 (Inl ''refused'', Inr None))
      (listener_round (\<lambda>_. None) ''done'' (Inr (), Inr None) (listener_start (Inr ()))))
    = min (500 * 2 ^ length (replicate 4 (Inl ''refused'', Inr None) :: listener_input list)) 5000"
    using listener_health_exact [of "listener_start (Inr ())" "\<lambda>_. None" "''done''" "[]" "Inr ()" "(Inr (), Inr None)"
      "replicate 4 (Inl ''refused'', Inr None)"] unfolding fold_Nil id_apply by blast
  then show ?thesis unfolding length_replicate by simp
qed

definition answer_true :: "handle \<Rightarrow> uuid \<Rightarrow> sys list \<Rightarrow> job_result option answer list \<Rightarrow> done_event list \<Rightarrow> json result \<Rightarrow> bool" where
  "answer_true h i ys reads events r \<longleftrightarrow>
     (case r of
        Inr v \<Rightarrow> (\<exists>y\<in>set ys. \<exists>res err. job_outcome h i (sy_store y) = Some (Complete, res, err) \<and>
            v = (case res of Some x \<Rightarrow> x | None \<Rightarrow> JNull) \<and>
            (\<forall>y'. queue_step\<^sup>*\<^sup>* y y' \<longrightarrow> job_outcome h i (sy_store y') \<in> {None, Some (Complete, res, err)}))
      | Inl e \<Rightarrow>
          (\<forall>j. e = JobNotFound j \<longrightarrow> j = i \<and> (\<forall>found. Answered found \<in> set reads \<longrightarrow> found = None)) \<and>
          (\<forall>j. e = ResultExpired j \<longrightarrow> j = i \<and> (\<exists>y\<in>set ys. job_outcome h i (sy_store y) = None) \<and>
             ((\<exists>y\<in>set ys. \<exists>found. job_outcome h i (sy_store y) = Some found \<and> \<not> is_terminal (fst found)) \<or>
              (\<exists>event\<in>set events. ev_status event = Complete))) \<and>
          (\<forall>x. e = Job x \<longrightarrow>
             (\<exists>y\<in>set ys. \<exists>found. job_outcome h i (sy_store y) = Some found \<and> fst found \<in> {Failed, Aborted} \<and>
                resolve found = r \<and>
                (\<forall>y'. queue_step\<^sup>*\<^sup>* y y' \<longrightarrow> job_outcome h i (sy_store y') \<in> {None, Some found})) \<or>
             ((\<exists>y\<in>set ys. job_outcome h i (sy_store y) = None) \<and>
              (\<exists>event\<in>set events. ev_status event \<in> {Failed, Aborted, Aborting} \<and> resolve_deleted event = r))))"

text \<open>
  C32: a wait tells what became of its job. Along any run of the system, whatever reads
  fail, whichever events arrive and however the rounds fall: a value returned is the
  stored result of the job as it completed, and no later state of the job says otherwise; a
  missing job is reported only when no answered read ever found a row; an expired
  result, only when the row is gone after it was seen alive or after an event said the
  job completed; and an error of the job, only from its failed or aborted row, or from an event
  that says so once the row is gone.
\<close>

theorem wait_tells_the_truth:
  assumes "sys_ok y0" "i \<in> sy_used y0" "\<forall>y\<in>set ys. queue_step\<^sup>*\<^sup>* y0 y"
    "read_along h i ys (wait_reads rounds)" "\<forall>event\<in>set (wait_events rounds). ev_id event = i"
    "wait_loop i rounds wait_start = Resolved r"
  shows "answer_true h i ys (wait_reads rounds) (wait_events rounds) r"
proof -
  let ?reads = "wait_reads rounds" and ?events = "wait_events rounds"
  have ok: "sys_ok y \<and> i \<in> sy_used y" if "y \<in> set ys" for y
    using that assms(1-3) queue.run_good run_used by blast
  obtain seen where just: "justified i (set ?reads) (set ?events) seen r"
    and seen: "seen \<longrightarrow> (\<exists>found. Answered (Some found) \<in> set ?reads \<and> \<not> is_terminal (fst found))"
    using wait_loop_justified_reads [OF assms(6)] by (auto simp: pending_events_def wait_start_def)
  note final = read_along_final [OF assms(4) ok] and read = read_along_answer [OF assms(4)]
  show ?thesis
  proof (cases r)
    case (Inr v)
    then obtain res err where "Answered (Some (Complete, res, err)) \<in> set ?reads" "v = (case res of Some x \<Rightarrow> x | None \<Rightarrow> JNull)"
      using just unfolding Inr justified_cases by blast
    then show ?thesis using final [of "(Complete, res, err)"] Inr unfolding answer_true_def by fastforce
  next
    case (Inl e)
    have missing: "j = i \<and> (\<forall>found. Answered found \<in> set ?reads \<longrightarrow> found = None)" if "e = JobNotFound j" for j
    proof -
      note end_of_wait = assms(6) [unfolded Inl that]
      obtain pre rd post where p: "rounds = pre @ rd # post" "\<forall>x\<in>set pre. \<exists>e. fst x = Unanswered e" "fst rd = Answered None"
        and j: "j = i" using wait_loop_not_found [OF end_of_wait] by blast
      let ?later = "wake_reads (snd rd) @ wait_reads post"
      have reads: "?reads = wait_reads pre @ Answered None # ?later"
        using p(3) unfolding p(1) by (simp add: wait_reads_def round_reads_def)
      have "Answered found \<notin> set (wait_reads pre)" for found
        using p(2) by (auto simp: wait_reads_def round_reads_def dest!: bspec)
      moreover have "found = None" if "Answered found \<in> set ?later" for found
        using read_along_gone [of h i ys "wait_reads pre" ?later found] assms(4) ok that unfolding reads by blast
      ultimately show ?thesis using j unfolding reads by auto
    qed
    have expired: "j = i \<and> (\<exists>y\<in>set ys. job_outcome h i (sy_store y) = None) \<and>
             ((\<exists>y\<in>set ys. \<exists>found. job_outcome h i (sy_store y) = Some found \<and> \<not> is_terminal (fst found)) \<or>
              (\<exists>event\<in>set ?events. ev_status event = Complete))" if "e = ResultExpired j" for j
      using just seen read assms(5) unfolding Inl that justified_cases by metis
    have job: "(\<exists>y\<in>set ys. \<exists>found. job_outcome h i (sy_store y) = Some found \<and> fst found \<in> {Failed, Aborted} \<and>
                resolve found = r \<and>
                (\<forall>y'. queue_step\<^sup>*\<^sup>* y y' \<longrightarrow> job_outcome h i (sy_store y') \<in> {None, Some found})) \<or>
             ((\<exists>y\<in>set ys. job_outcome h i (sy_store y) = None) \<and>
              (\<exists>event\<in>set ?events. ev_status event \<in> {Failed, Aborted, Aborting} \<and> resolve_deleted event = r))"
      if "e = Job x" for x
    proof -
      have over: "is_terminal (fst found)" if "fst found \<in> {Failed, Aborted}" for found :: job_result
        using that by auto
      from justified_job [of i "set ?reads" "set ?events" seen x] just Inl that
      consider (row) found where "Answered (Some found) \<in> set ?reads" "fst found \<in> {Failed, Aborted}" "resolve found = r"
        | (event) event where "Answered None \<in> set ?reads" "event \<in> set ?events"
            "ev_status event \<in> {Failed, Aborted, Aborting}" "resolve_deleted event = r" by blast
      then show ?thesis
      proof cases
        case row
        then show ?thesis using final [OF _ row(1) over [OF row(2)]] row(2,3) by blast
      next
        case event
        then show ?thesis using read [OF event(1)] by blast
      qed
    qed
    show ?thesis using missing expired job unfolding answer_true_def Inl sum.case by blast
  qed
qed

definition sample_finished :: job_row where
  "sample_finished = sample_running\<lparr> j_status := Complete, j_result := Some (JBool True), j_completed_at := Some 3000 \<rparr>"

lemma sample_finished_ok: "row_ok sample_finished"
proof -
  have s: "j_status sample_running = Running" by (simp add: sample_running_def claim_row_def)
  have "row_ok sample_finished = row_ok sample_running"
    unfolding sample_finished_def row_ok_def attempts_ok_def using sample_row_ok(2) s
    by (simp add: row_ok_def attempts_ok_def)
  then show ?thesis using sample_row_ok(2) by simp
qed

text \<open>A wait whose first poll is lost and whose second one is answered.\<close>

theorem wait_tells_the_truth_witness:
  "wait_loop 7 [(Unanswered WaitTimeout, []), (Answered (Some (Complete, Some (JBool True), None)), [])] wait_start
     = Resolved (Inr (JBool True)) \<and>
   answer_true sample_handle 7 [sample_sys sample_finished, sample_sys sample_finished]
     [Unanswered WaitTimeout, Answered (Some (Complete, Some (JBool True), None))] [] (Inr (JBool True))"
proof -
  let ?y = "sample_sys sample_finished"
  let ?rounds = "[(Unanswered WaitTimeout, []), (Answered (Some (Complete, Some (JBool True), None)), [])] :: wait_round list"
  have i: "j_id sample_finished = 7" "j_queue sample_finished = ''default''" "j_error sample_finished = None"
    by (simp_all add: sample_finished_def sample_running_def claim_row_def sample_row_def new_job_row_def)
  have found: "job_outcome sample_handle 7 (sy_store ?y) = Some (Complete, Some (JBool True), None)"
    using i by (simp add: job_outcome_def sample_sys_def sample_store_def sample_handle_def)
      (simp add: sample_finished_def)
  have reads: "wait_reads ?rounds = [Unanswered WaitTimeout, Answered (Some (Complete, Some (JBool True), None))]"
    and events: "wait_events ?rounds = []"
    by (simp_all add: round_reads_def)
  have answer: "wait_loop 7 ?rounds wait_start = Resolved (Inr (JBool True))" by (simp add: wait_round_def)
  have "answer_true sample_handle 7 [?y, ?y] (wait_reads ?rounds) (wait_events ?rounds) (Inr (JBool True))"
  proof (rule wait_tells_the_truth [where ?y0.0 = ?y])
    show "sys_ok ?y" by (rule sample_sys_ok [OF sample_finished_ok])
    show "7 \<in> sy_used ?y" using i by (simp add: sample_sys_def)
    show "read_along sample_handle 7 [?y, ?y] (wait_reads ?rounds)" using found unfolding reads by (simp add: read_along_def)
  qed (use answer in simp_all)
  then show ?thesis using answer unfolding reads events by blast
qed

text \<open>
  C33: when a wait ends. A wait on a job with durable outcomes goes on exactly as long as
  every round leaves the question open: its poll was not answered, or found the
  row alive and so did every answered read of the round. The first answered read that
  finds a finished row, or none, ends it in that round; a timeout reports a
  timeout exactly when no round did. The polls of a wait are 250 ms apart at first, doubling up to 2 s.
\<close>

theorem wait_ends_exactly:
  assumes "\<not> deletes_immediately (jh_retentions jh)" "jh_awaited jh \<or> (\<forall>e. marked \<noteq> PoolClosed e)"
  shows "(wait_value None jh read marked rounds = None \<longleftrightarrow> list_all round_open rounds) \<and>
    (wait_value (Some d) jh read marked rounds = Some (Inl WaitTimeout) \<longleftrightarrow> list_all round_open rounds) \<and>
    (list_all round_open rounds \<longrightarrow> (\<exists>w. wait_value_inner jh read marked rounds = Waiting w \<and>
       wa_poll w = min (250 * 2 ^ length rounds) 2000))"
proof -
  have inner: "wait_value_inner jh read marked rounds = wait_loop (jh_id jh) rounds wait_start"
    using assms by (auto simp: wait_value_inner_def wait_inner_def split: answer.splits)
  note open_iff = wait_loop_open [of "jh_id jh" rounds wait_start]
  have poll: "wa_poll w = min (250 * 2 ^ length rounds) 2000" if "wait_loop (jh_id jh) rounds wait_start = Waiting w" for w
    using wait_loop_poll [OF that] by (simp add: wait_start_def INITIAL_POLL_INTERVAL_def MAX_POLL_INTERVAL_def)
  have "wait_loop (jh_id jh) rounds wait_start \<noteq> Resolved (Inl WaitTimeout)"
    using wait_loop_justified_reads [of "jh_id jh" rounds wait_start "Inl WaitTimeout"] justified_cases(4) by blast
  then show ?thesis
    using open_iff poll unfolding wait_value_def inner
    by (cases "wait_loop (jh_id jh) rounds wait_start") auto
qed

theorem wait_ends_exactly_witness:
  "wait_value (Some 1000) \<lparr> jh_id = 7, jh_retentions = \<lparr> rt_result = Forever, rt_failed = Forever \<rparr>, jh_awaited = True \<rparr>
     (Answered None) (PoolClosed ''closed'') [(Unanswered WaitTimeout, [])] = Some (Inl WaitTimeout)"
proof -
  have "list_all round_open [(Unanswered WaitTimeout, [])]" by (simp add: round_open_def)
  then show ?thesis
    using wait_ends_exactly [of "\<lparr> jh_id = 7, jh_retentions = \<lparr> rt_result = Forever, rt_failed = Forever \<rparr>, jh_awaited = True \<rparr>"
      "PoolClosed ''closed''" "Answered None" "[(Unanswered WaitTimeout, [])]" 1000] by (simp add: deletes_immediately_def)
qed

end
