(* ===== verification/Macro_Attrs.thy ===== *)
theory Macro_Attrs
  imports IQ_Prelude
begin

text \<open>
  The arguments of the \<^verbatim>\<open>#[ironqueue::job(...)]\<close> and \<^verbatim>\<open>#[ironqueue::cron(...)]\<close>
  attributes (\<^verbatim>\<open>ironqueue-macros/src/attrs.rs\<close>). The tokens are \<^verbatim>\<open>syn\<close>'s: an argument
  is a \<open>meta\<close>, a value an \<open>expr\<close>, with the forms the code tells apart. An error is its
  message; the span it points at is left out.
\<close>

section \<open>Syntax trees\<close>

text \<open>
  A path is an identifier or something longer; a literal integer is its decimal
  digits, signed, and its suffix. A list \<open>path(...)\<close> has its tokens and, when they
  parse as such, the arguments they hold.
\<close>

datatype path = Ident string | LongPath string

datatype lit = LStr string | LInt string string | LOther

datatype expr = EGroup expr | ELit lit | ENeg expr | EOther

datatype meta = MPath path | MNameValue path expr | MList path string "meta list option"

fun path_is_ident :: "path \<Rightarrow> string \<Rightarrow> bool" where
  "path_is_ident (Ident i) name = (i = name)"
| "path_is_ident (LongPath p) name = False"

fun get_ident :: "path \<Rightarrow> string option" where
  "get_ident (Ident i) = Some i"
| "get_ident (LongPath p) = None"

type_synonym 'a parsed = "string + 'a"

section \<open>Integers\<close>

text \<open>\<^verbatim>\<open>str::parse::<i128>\<close>: an optional sign and at least one digit, within the type.\<close>

fun digits_value :: "nat \<Rightarrow> string \<Rightarrow> nat option" where
  "digits_value acc [] = Some acc"
| "digits_value acc (c # cs) =
     (if (48 :: nat) \<le> of_char c \<and> (of_char c :: nat) \<le> 57
      then digits_value (acc * 10 + (of_char c - 48)) cs else None)"

definition parse_i128 :: "string \<Rightarrow> int option" where
  "parse_i128 text =
     (let (negative, digits) = (case text of
             c # cs \<Rightarrow> if c = CHR 0x2D then (True, cs) else if c = CHR 0x2B then (False, cs) else (False, text)
           | [] \<Rightarrow> (False, []))
      in if digits = [] then None
         else Option.bind (digits_value 0 digits) (\<lambda>n.
           let v = (if negative then - int n else int n)
           in if - (2 ^ 127) \<le> v \<and> v < 2 ^ 127 then Some v else None))"

section \<open>Values\<close>

fun ungroup :: "expr \<Rightarrow> expr" where
  "ungroup (EGroup e) = ungroup e"
| "ungroup e = e"

fun string_literal :: "expr \<Rightarrow> string parsed" where
  "string_literal (ELit (LStr s)) = Inr s"
| "string_literal _ = Inl ''expected a string literal''"

definition string_value :: "expr \<Rightarrow> string parsed" where
  "string_value e = string_literal (ungroup e)"

fun int_literal :: "expr \<Rightarrow> int parsed" where
  "int_literal (ELit (LInt digits suffix)) =
     (if suffix \<noteq> [] then Inl ''expected an unsuffixed integer literal''
      else case parse_i128 digits of
             Some v \<Rightarrow> Inr v
           | None \<Rightarrow> Inl ''integer literal is out of range'')"
| "int_literal _ = Inl ''expected an unsuffixed integer literal''"

definition int_value :: "expr \<Rightarrow> int parsed" where
  "int_value e = int_literal (ungroup e)"

fun written_negative :: "expr \<Rightarrow> bool" where
  "written_negative (ENeg e) = True"
| "written_negative (ELit (LInt (c # cs) suffix)) = (c = CHR 0x2D)"
| "written_negative _ = False"

definition unsigned_value :: "expr \<Rightarrow> int parsed" where
  "unsigned_value e =
     (if written_negative (ungroup e) then Inl ''expected a non-negative integer literal''
      else int_value (ungroup e))"

definition revision_value :: "expr \<Rightarrow> nat parsed" where
  "revision_value e =
     and_then (unsigned_value e) (\<lambda>v.
       if 0 \<le> v \<and> v < 2 ^ 64 \<and> v \<le> i64_max then Inr (nat v) else Inl ''revision must fit in PostgreSQL bigint'')"

text \<open>
  A negation written out is applied to its magnitude; the negation of \<^verbatim>\<open>i16::MIN\<close> wraps
  (a literal under a negation has no sign of its own, so this does not arise).
\<close>

definition priority_value :: "expr \<Rightarrow> int parsed" where
  "priority_value e =
     (case ungroup e of
        ENeg inner \<Rightarrow>
          and_then (int_value inner) (\<lambda>magnitude.
            if magnitude = 32768 then Inr (- 32768)
            else if magnitude = - 32768 then Inr (- 32768)
            else if - 32768 \<le> magnitude \<and> magnitude \<le> 32767 then Inr (- magnitude)
            else Inl ''priority must fit in a signed 16-bit integer'')
      | e' \<Rightarrow>
          and_then (int_value e') (\<lambda>v.
            if - 32768 \<le> v \<and> v \<le> 32767 then Inr v
            else Inl ''priority must fit in a signed 16-bit integer''))"

definition milliseconds_value :: "string \<Rightarrow> expr \<Rightarrow> nat parsed" where
  "milliseconds_value key e =
     and_then (unsigned_value e) (\<lambda>v.
       if 0 \<le> v \<and> v < 2 ^ 64 then Inr (nat v) else Inl (key @ '' exceeds ironqueue's maximum supported duration''))"

section \<open>Attributes\<close>

datatype result_ttl = ForMs nat | Delete

definition ttl_from_ms :: "nat \<Rightarrow> result_ttl" where
  "ttl_from_ms ms = (if ms = 0 then Delete else ForMs ms)"

text \<open>\<^verbatim>\<open>(timeout_ms != 0).then_some(timeout_ms)\<close>.\<close>

definition timeout_from_ms :: "nat \<Rightarrow> nat option" where
  "timeout_from_ms ms = (if ms \<noteq> 0 then Some ms else None)"

datatype attr_mode = JobAttr | CronAttr

fun max_name_bytes :: "attr_mode \<Rightarrow> nat" where
  "max_name_bytes JobAttr = 255"
| "max_name_bytes CronAttr = 250"

fun expected_keys :: "attr_mode \<Rightarrow> string" where
  "expected_keys JobAttr =
     ''name, max_attempts, timeout_ms, result_ttl_ms, failed_ttl_ms, retry_delay_ms, max_backoff_ms, priority''"
| "expected_keys CronAttr =
     ''name, max_attempts, timeout_ms, result_ttl_ms, failed_ttl_ms, retry_delay_ms, max_backoff_ms, priority, revision''"

record job_attrs =
  at_name :: "string option"
  at_max_attempts :: "nat option"
  at_timeout_ms :: "nat option option"
  at_result_ttl_ms :: "result_ttl option"
  at_failed_ttl_ms :: "result_ttl option"
  at_retry_delay_ms :: "nat option"
  at_max_backoff_ms :: "nat option"
  at_priority :: "int option"
  at_revision :: "nat option"
  at_durations :: "(string \<times> nat) list"

definition default_attrs :: job_attrs where
  "default_attrs = \<lparr> at_name = None, at_max_attempts = None, at_timeout_ms = None, at_result_ttl_ms = None,
     at_failed_ttl_ms = None, at_retry_delay_ms = None, at_max_backoff_ms = None, at_priority = None,
     at_revision = None, at_durations = [] \<rparr>"

definition record_duration :: "string \<Rightarrow> nat \<Rightarrow> job_attrs \<Rightarrow> job_attrs" where
  "record_duration key ms attrs =
     (if ms \<noteq> 0 then attrs\<lparr> at_durations := at_durations attrs @ [(key, ms)] \<rparr> else attrs)"

definition parse_name :: "attr_mode \<Rightarrow> expr \<Rightarrow> job_attrs \<Rightarrow> job_attrs parsed" where
  "parse_name mode value attrs =
     and_then (string_value value) (\<lambda>name.
       let m = max_name_bytes mode
       in if name = [] \<or> m < length name \<or> CHR 0x00 \<in> set name
          then Inl (''job name must be 1..='' @ decimal m @ '' bytes and contain no NUL'')
          else Inr (attrs\<lparr> at_name := Some name \<rparr>))"

definition parse_max_attempts :: "expr \<Rightarrow> job_attrs \<Rightarrow> job_attrs parsed" where
  "parse_max_attempts value attrs =
     and_then (unsigned_value value) (\<lambda>v.
       if 0 \<le> v \<and> v < 2 ^ 32 \<and> 1 \<le> v \<and> v < i32_max
       then Inr (attrs\<lparr> at_max_attempts := Some (nat v) \<rparr>)
       else Inl ''max_attempts must be between 1 and 2147483646'')"

text \<open>The match on the key of one \<^verbatim>\<open>key = value\<close> argument.\<close>

definition parse_value :: "attr_mode \<Rightarrow> string \<Rightarrow> expr \<Rightarrow> job_attrs \<Rightarrow> job_attrs parsed" where
  "parse_value mode key value attrs =
     (if key = ''name'' then parse_name mode value attrs
      else if key = ''max_attempts'' then parse_max_attempts value attrs
      else if key = ''timeout_ms'' then
        and_then (milliseconds_value ''timeout_ms'' value) (\<lambda>ms.
          Inr ((record_duration ''timeout_ms'' ms attrs)\<lparr> at_timeout_ms := Some (timeout_from_ms ms) \<rparr>))
      else if key = ''result_ttl_ms'' then
        and_then (milliseconds_value ''result_ttl_ms'' value) (\<lambda>ms.
          Inr ((record_duration ''result_ttl_ms'' ms attrs)\<lparr> at_result_ttl_ms := Some (ttl_from_ms ms) \<rparr>))
      else if key = ''failed_ttl_ms'' then
        and_then (milliseconds_value ''failed_ttl_ms'' value) (\<lambda>ms.
          Inr ((record_duration ''failed_ttl_ms'' ms attrs)\<lparr> at_failed_ttl_ms := Some (ttl_from_ms ms) \<rparr>))
      else if key = ''retry_delay_ms'' then
        and_then (milliseconds_value ''retry_delay_ms'' value) (\<lambda>ms.
          Inr ((record_duration ''retry_delay_ms'' ms attrs)\<lparr> at_retry_delay_ms := Some ms \<rparr>))
      else if key = ''max_backoff_ms'' then
        and_then (milliseconds_value ''max_backoff_ms'' value) (\<lambda>ms.
          if ms = 0 then Inl ''max_backoff_ms must be greater than zero''
          else Inr ((record_duration ''max_backoff_ms'' ms attrs)\<lparr> at_max_backoff_ms := Some ms \<rparr>))
      else if key = ''priority'' then
        and_then (priority_value value) (\<lambda>p. Inr (attrs\<lparr> at_priority := Some p \<rparr>))
      else if key = ''revision'' then
        (if mode = JobAttr then Inl ''`revision` is only valid on #[ironqueue::cron]''
         else and_then (revision_value value) (\<lambda>r. Inr (attrs\<lparr> at_revision := Some r \<rparr>)))
      else Inl (''unknown attribute `'' @ key @ ''`; expected one of: '' @ expected_keys mode))"

text \<open>
  The loop over the arguments, with the keys seen so far. \<open>backoff_key\<close> is whether
  \<^verbatim>\<open>max_backoff_span\<close> is set.
\<close>

fun parse_metas ::
    "attr_mode \<Rightarrow> meta list \<Rightarrow> string list \<Rightarrow> bool \<Rightarrow> job_attrs \<Rightarrow> (job_attrs \<times> bool) parsed" where
  "parse_metas mode [] seen backoff_key attrs = Inr (attrs, backoff_key)"
| "parse_metas mode (MPath p # metas) seen backoff_key attrs =
     (if path_is_ident p ''backoff''
      then Inl ''`backoff` is not supported; use `max_backoff_ms = ...`''
      else Inl ''expected `key = value`; see the ironqueue::job docs'')"
| "parse_metas mode (MList p tokens args # metas) seen backoff_key attrs =
     Inl ''expected `key = value`; see the ironqueue::job docs''"
| "parse_metas mode (MNameValue p value # metas) seen backoff_key attrs =
     (case get_ident p of
        None \<Rightarrow> Inl ''expected a simple attribute name''
      | Some key \<Rightarrow>
          (if key \<in> set seen then Inl (''duplicate attribute `'' @ key @ ''`'')
           else and_then (parse_value mode key value attrs) (\<lambda>attrs'.
             parse_metas mode metas (key # seen) (backoff_key \<or> key = ''max_backoff_ms'') attrs')))"

definition parse_attrs :: "attr_mode \<Rightarrow> meta list \<Rightarrow> job_attrs parsed" where
  "parse_attrs mode metas =
     (if metas = [] then Inr default_attrs
      else and_then (parse_metas mode metas [] False default_attrs) (\<lambda>(attrs, backoff_key).
        if backoff_key \<and> (case at_retry_delay_ms attrs of Some ms \<Rightarrow> ms | None \<Rightarrow> 0) = 0
        then Inl ''exponential backoff requires retry_delay_ms greater than zero''
        else Inr attrs))"

text \<open>\<^verbatim>\<open>split_leading_str\<close>: the arguments of a cron attribute start with a string literal.\<close>

fun split_leading_str :: "expr option \<Rightarrow> meta list \<Rightarrow> (string \<times> meta list) parsed" where
  "split_leading_str (Some (ELit (LStr s))) rest = Inr (s, rest)"
| "split_leading_str _ rest =
     Inl ''expected a cron expression string as the first argument, e.g. #[ironqueue::cron(\"0 * * * *\")]''"

section \<open>What parsing accepts\<close>

lemma unsigned_value_Inr: "unsigned_value e = Inr v \<Longrightarrow> \<not> written_negative (ungroup e) \<and> int_value e = Inr v"
proof -
  have idem: "ungroup (ungroup x) = ungroup x" for x by (induction x) auto
  show "unsigned_value e = Inr v \<Longrightarrow> \<not> written_negative (ungroup e) \<and> int_value e = Inr v"
    by (simp add: unsigned_value_def int_value_def idem split: if_splits)
qed

lemma milliseconds_value_bound: "milliseconds_value key e = Inr ms \<Longrightarrow> ms < 2 ^ 64"
  by (auto simp: milliseconds_value_def split: if_splits)

lemma revision_value_bound: "revision_value e = Inr r \<Longrightarrow> int r \<le> i64_max"
  by (auto simp: revision_value_def split: if_splits)

lemma priority_value_bound: "priority_value e = Inr p \<Longrightarrow> - 32768 \<le> p \<and> p \<le> 32767"
  by (auto simp: priority_value_def split: expr.splits if_splits)

text \<open>
  The invariant of the attributes read so far: every value is within the bounds of its
  key, and every millisecond value that is not the sentinel zero is recorded for
  the check of the expansion.
\<close>

definition attrs_ok :: "attr_mode \<Rightarrow> job_attrs \<Rightarrow> bool" where
  "attrs_ok mode a \<longleftrightarrow>
     (\<forall>n. at_name a = Some n \<longrightarrow> n \<noteq> [] \<and> length n \<le> max_name_bytes mode \<and> CHR 0x00 \<notin> set n) \<and>
     (\<forall>n. at_max_attempts a = Some n \<longrightarrow> 1 \<le> n \<and> int n < i32_max) \<and>
     (\<forall>p. at_priority a = Some p \<longrightarrow> - 32768 \<le> p \<and> p \<le> 32767) \<and>
     (\<forall>r. at_revision a = Some r \<longrightarrow> mode = CronAttr \<and> int r \<le> i64_max) \<and>
     (\<forall>ms. at_timeout_ms a = Some (Some ms) \<longrightarrow> ms \<noteq> 0 \<and> (''timeout_ms'', ms) \<in> set (at_durations a)) \<and>
     (\<forall>ms. at_result_ttl_ms a = Some (ForMs ms) \<longrightarrow> ms \<noteq> 0 \<and> (''result_ttl_ms'', ms) \<in> set (at_durations a)) \<and>
     (\<forall>ms. at_failed_ttl_ms a = Some (ForMs ms) \<longrightarrow> ms \<noteq> 0 \<and> (''failed_ttl_ms'', ms) \<in> set (at_durations a)) \<and>
     (\<forall>ms. at_retry_delay_ms a = Some ms \<longrightarrow> ms = 0 \<or> (''retry_delay_ms'', ms) \<in> set (at_durations a)) \<and>
     (\<forall>ms. at_max_backoff_ms a = Some ms \<longrightarrow> ms \<noteq> 0 \<and> (''max_backoff_ms'', ms) \<in> set (at_durations a))"

lemma attrs_ok_default [simp]: "attrs_ok mode default_attrs"
  by (simp add: attrs_ok_def default_attrs_def)

lemma parse_max_attempts_Inr:
  "parse_max_attempts e a = Inr a' \<Longrightarrow> \<exists>n. 1 \<le> n \<and> int n < i32_max \<and> a' = a\<lparr> at_max_attempts := Some n \<rparr>"
proof -
  assume "parse_max_attempts e a = Inr a'"
  then obtain v where "1 \<le> v" "v < i32_max" "a' = a\<lparr> at_max_attempts := Some (nat v) \<rparr>"
    by (auto simp: parse_max_attempts_def split: if_splits)
  then show ?thesis by (intro exI [of _ "nat v"]) simp
qed

lemma parse_name_Inr:
  "parse_name mode e a = Inr a' \<Longrightarrow>
     \<exists>n. n \<noteq> [] \<and> length n \<le> max_name_bytes mode \<and> CHR 0x00 \<notin> set n \<and> a' = a\<lparr> at_name := Some n \<rparr>"
  by (auto simp: parse_name_def Let_def not_less split: if_splits)

lemma parse_value_cases:
  assumes "parse_value mode key value attrs = Inr attrs'"
  obtains (name) n where "n \<noteq> []" "length n \<le> max_name_bytes mode" "CHR 0x00 \<notin> set n" "attrs' = attrs\<lparr> at_name := Some n \<rparr>"
      "key = ''name''"
  | (attempts) n where "1 \<le> n" "int n < i32_max" "attrs' = attrs\<lparr> at_max_attempts := Some n \<rparr>" "key = ''max_attempts''"
  | (timeout) ms where "attrs' = (record_duration ''timeout_ms'' ms attrs)\<lparr> at_timeout_ms := Some (timeout_from_ms ms) \<rparr>"
      "key = ''timeout_ms''"
  | (result_ttl) ms where "attrs' = (record_duration ''result_ttl_ms'' ms attrs)\<lparr> at_result_ttl_ms := Some (ttl_from_ms ms) \<rparr>"
      "key = ''result_ttl_ms''"
  | (failed_ttl) ms where "attrs' = (record_duration ''failed_ttl_ms'' ms attrs)\<lparr> at_failed_ttl_ms := Some (ttl_from_ms ms) \<rparr>"
      "key = ''failed_ttl_ms''"
  | (delay) ms where "attrs' = (record_duration ''retry_delay_ms'' ms attrs)\<lparr> at_retry_delay_ms := Some ms \<rparr>"
      "key = ''retry_delay_ms''"
  | (backoff) ms where "ms \<noteq> 0" "attrs' = (record_duration ''max_backoff_ms'' ms attrs)\<lparr> at_max_backoff_ms := Some ms \<rparr>"
      "key = ''max_backoff_ms''"
  | (priority) p where "- 32768 \<le> p" "p \<le> 32767" "attrs' = attrs\<lparr> at_priority := Some p \<rparr>" "key = ''priority''"
  | (revision) r where "mode = CronAttr" "int r \<le> i64_max" "attrs' = attrs\<lparr> at_revision := Some r \<rparr>" "key = ''revision''"
proof -
  have mode: "mode \<noteq> JobAttr \<longleftrightarrow> mode = CronAttr" by (cases mode) auto
  show thesis
    using assms that unfolding parse_value_def
    by (auto simp: mode dest!: parse_name_Inr parse_max_attempts_Inr dest: priority_value_bound revision_value_bound
        split: if_splits)
qed

lemma record_duration_simps [simp]:
  "at_name (record_duration k ms a) = at_name a" "at_max_attempts (record_duration k ms a) = at_max_attempts a"
  "at_timeout_ms (record_duration k ms a) = at_timeout_ms a" "at_result_ttl_ms (record_duration k ms a) = at_result_ttl_ms a"
  "at_failed_ttl_ms (record_duration k ms a) = at_failed_ttl_ms a" "at_retry_delay_ms (record_duration k ms a) = at_retry_delay_ms a"
  "at_max_backoff_ms (record_duration k ms a) = at_max_backoff_ms a" "at_priority (record_duration k ms a) = at_priority a"
  "at_revision (record_duration k ms a) = at_revision a"
  "at_durations (record_duration k ms a) = at_durations a @ (if ms \<noteq> 0 then [(k, ms)] else [])"
  by (simp_all add: record_duration_def)

lemma attrs_ok_parse_value: "parse_value mode key value a = Inr a' \<Longrightarrow> attrs_ok mode a \<Longrightarrow> attrs_ok mode a'"
  by (erule parse_value_cases) (auto simp: attrs_ok_def ttl_from_ms_def timeout_from_ms_def)

lemma parse_metas_invariant:
  assumes "parse_metas mode metas seen b a = Inr (a', b')" "attrs_ok mode a" "b \<longleftrightarrow> at_max_backoff_ms a \<noteq> None"
  shows "attrs_ok mode a' \<and> (b' \<longleftrightarrow> at_max_backoff_ms a' \<noteq> None)"
  using assms
proof (induction mode metas seen b a rule: parse_metas.induct)
  case (4 mode p e metas seen b a)
  then obtain key a1 where k: "get_ident p = Some key" "key \<notin> set seen" "parse_value mode key e a = Inr a1"
    "parse_metas mode metas (key # seen) (b \<or> key = ''max_backoff_ms'') a1 = Inr (a', b')"
    by (auto split: option.splits if_splits)
  have "(b \<or> key = ''max_backoff_ms'') = (at_max_backoff_ms a1 \<noteq> None)"
    using k(3) "4.prems"(3) by (cases rule: parse_value_cases) auto
  then show ?case using "4.IH" [OF k(1,2,3)] k(4) attrs_ok_parse_value [OF k(3) "4.prems"(2)] by blast
qed (auto split: if_splits)

lemma parse_attrs_ok:
  assumes "parse_attrs mode metas = Inr a"
  shows "attrs_ok mode a" and "at_max_backoff_ms a \<noteq> None \<Longrightarrow> \<exists>ms. at_retry_delay_ms a = Some ms \<and> ms \<noteq> 0"
proof -
  have "attrs_ok mode a \<and> (at_max_backoff_ms a \<noteq> None \<longrightarrow> (\<exists>ms. at_retry_delay_ms a = Some ms \<and> ms \<noteq> 0))"
  proof (cases "metas = []")
    case True
    then show ?thesis using assms by (auto simp: parse_attrs_def) (simp add: default_attrs_def)
  next
    case False
    then obtain b where b: "parse_metas mode metas [] False default_attrs = Inr (a, b)"
      "\<not> (b \<and> (case at_retry_delay_ms a of Some ms \<Rightarrow> ms | None \<Rightarrow> 0) = 0)"
      using assms by (auto simp: parse_attrs_def split: if_splits)
    have "attrs_ok mode a \<and> (b \<longleftrightarrow> at_max_backoff_ms a \<noteq> None)"
      using parse_metas_invariant [OF b(1)] by (simp add: default_attrs_def [THEN arg_cong [of _ _ at_max_backoff_ms]])
    then show ?thesis using b(2) by (auto split: option.splits)
  qed
  then show "attrs_ok mode a" "at_max_backoff_ms a \<noteq> None \<Longrightarrow> \<exists>ms. at_retry_delay_ms a = Some ms \<and> ms \<noteq> 0"
    by blast+
qed

section \<open>Spellings of one value\<close>

text \<open>
  A value can be written in several ways: within the invisible groups of a macro
  substitution, and with its sign inside the literal or as a negation around it. The
  normal form has no group outside and the sign inside.
\<close>

definition plain_digits :: "string \<Rightarrow> bool" where
  "plain_digits d \<longleftrightarrow> d \<noteq> [] \<and> list_all (\<lambda>c. (48 :: nat) \<le> of_char c \<and> (of_char c :: nat) \<le> 57) d"

fun fold_sign :: "expr \<Rightarrow> expr" where
  "fold_sign (ENeg inner) =
     (case ungroup inner of
        ELit (LInt d suffix) \<Rightarrow> if plain_digits d then ELit (LInt (CHR 0x2D # d) suffix) else ENeg inner
      | _ \<Rightarrow> ENeg inner)"
| "fold_sign e = e"

definition normal_value :: "expr \<Rightarrow> expr" where
  "normal_value e = fold_sign (ungroup e)"

fun normal_meta :: "meta \<Rightarrow> meta" where
  "normal_meta (MNameValue p e) = MNameValue p (normal_value e)"
| "normal_meta m = m"

lemma ungroup_idem [simp]: "ungroup (ungroup e) = ungroup e"
  by (induction e) auto

lemma ungroup_not_group [simp]: "ungroup e \<noteq> EGroup e'"
  by (induction e) auto

lemma normal_value_cases:
  obtains (negated) inner d suffix where "ungroup e = ENeg inner" "ungroup inner = ELit (LInt d suffix)" "plain_digits d"
      "normal_value e = ELit (LInt (CHR 0x2D # d) suffix)"
  | (same) "normal_value e = ungroup e"
proof (cases "\<exists>inner d suffix. ungroup e = ENeg inner \<and> ungroup inner = ELit (LInt d suffix) \<and> plain_digits d")
  case True
  then show thesis using negated by (auto simp: normal_value_def)
next
  case False
  have "normal_value e = ungroup e"
  proof (cases "ungroup e")
    case (ENeg inner)
    then show ?thesis using False
      by (cases "ungroup inner") (auto simp: normal_value_def split: lit.splits)
  qed (simp_all add: normal_value_def)
  then show thesis by (rule same)
qed

lemma parse_i128_plain:
  assumes "plain_digits d"
  shows "parse_i128 d = Option.bind (digits_value 0 d) (\<lambda>n. if int n < 2 ^ 127 then Some (int n) else None)"
    and "parse_i128 (CHR 0x2D # d) = Option.bind (digits_value 0 d) (\<lambda>n. if int n \<le> 2 ^ 127 then Some (- int n) else None)"
proof -
  obtain c cs where d: "d = c # cs" using assms by (cases d) (auto simp: plain_digits_def)
  have "c \<noteq> CHR 0x2D" "c \<noteq> CHR 0x2B" using assms by (auto simp: d plain_digits_def)
  then show "parse_i128 d = Option.bind (digits_value 0 d) (\<lambda>n. if int n < 2 ^ 127 then Some (int n) else None)"
    by (simp add: parse_i128_def Let_def d del: digits_value.simps cong: option.case_cong)
       (simp add: Option.bind_eq_None_conv bind_def [symmetric] del: digits_value.simps)?
  show "parse_i128 (CHR 0x2D # d) = Option.bind (digits_value 0 d) (\<lambda>n. if int n \<le> 2 ^ 127 then Some (- int n) else None)"
    using d by (simp add: parse_i128_def Let_def del: digits_value.simps)
qed

lemma ungroup_normal_value: "ungroup (normal_value e) = normal_value e"
  by (cases e rule: normal_value_cases) simp_all

lemma digits_of_plain: "plain_digits d \<Longrightarrow> \<exists>n. digits_value 0 d = Some n"
proof -
  have "list_all (\<lambda>c. (48 :: nat) \<le> of_char c \<and> (of_char c :: nat) \<le> 57) d \<Longrightarrow> \<exists>n. digits_value acc d = Some n" for acc
    by (induction d arbitrary: acc) auto
  then show "plain_digits d \<Longrightarrow> \<exists>n. digits_value 0 d = Some n" by (simp add: plain_digits_def)
qed

lemma string_value_normal: "string_value (normal_value e) = Inr v \<longleftrightarrow> string_value e = Inr v"
  by (cases e rule: normal_value_cases) (simp_all add: string_value_def)

lemma unsigned_value_normal: "unsigned_value (normal_value e) = Inr v \<longleftrightarrow> unsigned_value e = Inr v"
  by (cases e rule: normal_value_cases) (simp_all add: unsigned_value_def int_value_def)

lemma priority_value_normal: "priority_value (normal_value e) = Inr v \<longleftrightarrow> priority_value e = Inr v"
proof (cases e rule: normal_value_cases)
  case (negated inner d suffix)
  obtain n where n: "digits_value 0 d = Some n" using digits_of_plain [OF negated(3)] by blast
  have "priority_value (normal_value e) = Inr v \<longleftrightarrow> suffix = [] \<and> n \<le> 32768 \<and> v = - int n"
    using negated(4) parse_i128_plain(2) [OF negated(3)] n
    by (auto simp: priority_value_def int_value_def split: if_splits)
  moreover have "priority_value e = Inr v \<longleftrightarrow> suffix = [] \<and> n \<le> 32768 \<and> v = - int n"
    using negated(1,2) parse_i128_plain(1) [OF negated(3)] n
    by (auto simp: priority_value_def int_value_def split: if_splits)
  ultimately show ?thesis by simp
next
  case same
  then show ?thesis by (simp add: priority_value_def)
qed

lemma milliseconds_value_normal: "milliseconds_value key (normal_value e) = Inr v \<longleftrightarrow> milliseconds_value key e = Inr v"
  by (simp add: milliseconds_value_def unsigned_value_normal)

lemma revision_value_normal: "revision_value (normal_value e) = Inr v \<longleftrightarrow> revision_value e = Inr v"
  by (simp add: revision_value_def unsigned_value_normal)

lemma parse_value_normal:
  "parse_value mode key (normal_value e) a = Inr a' \<longleftrightarrow> parse_value mode key e a = Inr a'"
  by (simp add: parse_value_def parse_name_def parse_max_attempts_def string_value_normal unsigned_value_normal
      priority_value_normal milliseconds_value_normal revision_value_normal)

lemma parse_metas_normal:
  "parse_metas mode (map normal_meta metas) seen b a = Inr r \<longleftrightarrow> parse_metas mode metas seen b a = Inr r"
proof (induction mode metas seen b a rule: parse_metas.induct)
  case (4 mode p e metas seen b a)
  then show ?case by (cases "get_ident p") (auto simp: parse_value_normal)
qed simp_all

section \<open>Properties\<close>

text \<open>
  How a value is spelled does not matter. An attribute is accepted, and with the same
  outcome, whether its values arrive plain, wrapped in the invisible groups of a macro
  substitution, with a leading minus folded into the literal, or with a negation
  around it; so the position of an argument does not decide whether it compiles.
\<close>

theorem attribute_spelling_irrelevant:
  "parse_attrs mode (map normal_meta metas) = Inr a \<longleftrightarrow> parse_attrs mode metas = Inr a"
  by (auto simp: parse_attrs_def parse_metas_normal split: prod.splits)

end
