(* ===== verification/Macro_Expand.thy ===== *)
theory Macro_Expand
  imports Macro_Attrs Cron_Time
begin

text \<open>
  The expansion of \<^verbatim>\<open>#[ironqueue::job]\<close> and \<^verbatim>\<open>#[ironqueue::cron]\<close>
  (\<^verbatim>\<open>ironqueue-macros/src/expand.rs\<close>): the checks of the annotated function, the job's
  name, the routing of its attributes, the configuration the generated code
  builds, and the compile-time check of a cron schedule. The generated items are
  a record of what they say; their token spans and the function body are left out.
\<close>

section \<open>The annotated function\<close>

datatype attr_style = Outer | Inner

record attribute =
  a_style :: attr_style
  a_meta :: meta

text \<open>A type is \<^verbatim>\<open>impl Trait\<close>, a reference, or any other constructor with the types in it.\<close>

datatype rust_type = TImplTrait | TReference rust_type | TOther string "rust_type list"

datatype fn_arg = Receiver | Typed "attribute list" rust_type

text \<open>
  The parsed function: its identifier as written (a raw one starts with \<^verbatim>\<open>r#\<close>), the number of
  its generic parameters, and that of its where-predicates if it has a clause.
\<close>

record item_fn =
  if_attrs :: "attribute list"
  if_async :: bool
  if_ident :: string
  if_unsafe :: bool
  if_abi :: bool
  if_generics :: nat
  if_where :: "nat option"
  if_inputs :: "fn_arg list"
  if_variadic :: bool
  if_output :: "rust_type option"

datatype mode = JobMode | CronMode string

fun attr_name :: "mode \<Rightarrow> string" where
  "attr_name JobMode = ''#[ironqueue::job]''"
| "attr_name (CronMode schedule) = ''#[ironqueue::cron]''"

fun attr_mode_of :: "mode \<Rightarrow> attr_mode" where
  "attr_mode_of JobMode = JobAttr"
| "attr_mode_of (CronMode schedule) = CronAttr"

section \<open>Checks of the signature\<close>

fun meta_path :: "meta \<Rightarrow> path" where
  "meta_path (MPath p) = p"
| "meta_path (MNameValue p e) = p"
| "meta_path (MList p tokens args) = p"

definition meta_is :: "meta \<Rightarrow> string \<Rightarrow> bool" where
  "meta_is m name = path_is_ident (meta_path m) name"

lemma meta_arg_size [termination_simp]: "m \<in> set (drop n parts) \<Longrightarrow> size m < Suc (Suc (size_list size parts))"
  using size_list_estimation' [of m parts "size m" size] in_set_dropD [of m n parts] by fastforce

fun cfg_attr_wraps_cfg :: "meta \<Rightarrow> bool" where
  "cfg_attr_wraps_cfg (MList p tokens (Some parts)) =
     (path_is_ident p ''cfg_attr'' \<and> list_ex (\<lambda>m. meta_is m ''cfg'' \<or> cfg_attr_wraps_cfg m) (drop 1 parts))"
| "cfg_attr_wraps_cfg m = False"

fun is_impl_trait :: "rust_type \<Rightarrow> bool" where
  "is_impl_trait TImplTrait = True"
| "is_impl_trait (TReference t) = is_impl_trait t"
| "is_impl_trait (TOther name ts) = list_ex is_impl_trait ts"

definition unraw :: "string \<Rightarrow> string" where
  "unraw ident = (case strip_prefix ''r#'' ident of Some name \<Rightarrow> name | None \<Rightarrow> ident)"

definition numbered :: "string \<Rightarrow> string \<Rightarrow> bool" where
  "numbered prefix name = (case strip_prefix prefix name of None \<Rightarrow> False | Some index \<Rightarrow> plain_digits index)"

definition reserved_expansion_name :: "string \<Rightarrow> string option" where
  "reserved_expansion_name ident =
     (let name = unraw ident;
          collides = (name \<in> {''__config'', ''__args'', ''__ctx'', ''__result''} \<or>
                      numbered ''__ext'' name \<or> numbered ''__arg'' name)
      in if collides then Some name else None)"

fun is_reference :: "rust_type \<Rightarrow> bool" where
  "is_reference (TReference t) = True"
| "is_reference t = False"

fun validate_input :: "mode \<Rightarrow> fn_arg \<Rightarrow> unit parsed" where
  "validate_input md Receiver = Inr ()"
| "validate_input md (Typed attrs t) =
     (if list_ex (\<lambda>a. meta_is (a_meta a) ''cfg'' \<or> cfg_attr_wraps_cfg (a_meta a)) attrs
      then Inl (attr_name md @ '' functions cannot gate a parameter with `#[cfg]`; the attribute is expanded before `cfg` is evaluated, so the parameter is always part of the signature it reads'')
      else if is_impl_trait t
      then Inl (attr_name md @ '' functions cannot use `impl Trait` in argument position; use a concrete type'')
      else if is_reference t
      then Inl (attr_name md @ '' functions cannot take a borrowed parameter; the payload is deserialized from storage and extractors are built per attempt, so both must be owned'')
      else Inr ())"

fun validate_inputs :: "mode \<Rightarrow> fn_arg list \<Rightarrow> unit parsed" where
  "validate_inputs md [] = Inr ()"
| "validate_inputs md (i # is) = and_then (validate_input md i) (\<lambda>_. validate_inputs md is)"

definition validate_output :: "mode \<Rightarrow> rust_type option \<Rightarrow> unit parsed" where
  "validate_output md out =
     (case out of
        None \<Rightarrow> Inr ()
      | Some t \<Rightarrow>
          (if is_impl_trait t
           then Inl (attr_name md @ '' functions cannot use `impl Trait` in return position; use a concrete type'')
           else if is_reference t
           then Inl (attr_name md @ '' functions cannot return a borrowed type; the output is serialized into the job row and read back, so it must be owned'')
           else Inr ()))"

definition validate_fn :: "mode \<Rightarrow> item_fn \<Rightarrow> unit parsed" where
  "validate_fn md f =
     (if \<not> if_async f then Inl (attr_name md @ '' functions must be async'')
      else case reserved_expansion_name (if_ident f) of
        Some reserved \<Rightarrow>
          Inl (''`'' @ reserved @ ''` is reserved by the '' @ attr_name md @ '' expansion; rename the function and keep the stored job name with `name = '' @ debug_str reserved @ ''` if it matters'')
      | None \<Rightarrow>
          (if if_unsafe f then Inl (attr_name md @ '' functions cannot be unsafe'')
           else if if_abi f then Inl (attr_name md @ '' functions cannot declare an ABI'')
           else if if_generics f \<noteq> 0 then Inl (attr_name md @ '' functions cannot be generic'')
           else if (case if_where f of Some n \<Rightarrow> n \<noteq> 0 | None \<Rightarrow> False)
             then Inl (attr_name md @ '' functions cannot be generic'')
           else and_then (validate_inputs md (if_inputs f)) (\<lambda>_.
             and_then (validate_output md (if_output f)) (\<lambda>_.
             if md = JobMode \<and> if_inputs f = []
             then Inl ''#[ironqueue::job] functions need a payload as their first parameter; use `_: ()` for jobs without one''
             else if if_variadic f then Inl (attr_name md @ '' functions cannot be variadic'')
             else Inr ()))))"

definition job_name :: "mode \<Rightarrow> job_attrs \<Rightarrow> string \<Rightarrow> string parsed" where
  "job_name md attrs ident =
     (case at_name attrs of
        Some name \<Rightarrow> Inr name
      | None \<Rightarrow>
          (let m = max_name_bytes (attr_mode_of md); name = unraw ident
           in if m < length name
              then Inl (''job name must be 1..='' @ decimal m @ '' bytes and contain no NUL; this function's name is '' @
                     decimal (length name) @ '' bytes, so pass a shorter `name = \"...\"`'')
              else Inr name))"

section \<open>Routing of attributes\<close>

text \<open>\<^verbatim>\<open>allow\<close>, \<^verbatim>\<open>warn\<close> and \<^verbatim>\<open>deny\<close> are copied; \<^verbatim>\<open>expect\<close> and \<^verbatim>\<open>forbid\<close> are lowered.\<close>

definition struct_lint_attr :: "attribute \<Rightarrow> attribute option" where
  "struct_lint_attr a =
     (let m = a_meta a in
      if meta_is m ''allow'' \<or> meta_is m ''warn'' \<or> meta_is m ''deny'' then Some a
      else if meta_is m ''expect'' \<or> meta_is m ''forbid''
      then (case m of
              MList p tokens args \<Rightarrow>
                Some \<lparr> a_style = Outer, a_meta = MList (Ident (if meta_is m ''expect'' then ''allow'' else ''deny'')) tokens args \<rparr>
            | _ \<Rightarrow> None)
      else None)"

record item_attrs =
  ia_api :: "attribute list"
  ia_lint :: "attribute list"
  ia_deprecated :: bool

definition split_attr :: "item_attrs \<Rightarrow> attribute \<Rightarrow> item_attrs" where
  "split_attr s a =
     (if a_style a = Inner then s
      else if meta_is (a_meta a) ''doc'' then s\<lparr> ia_api := ia_api s @ [a] \<rparr>
      else if meta_is (a_meta a) ''deprecated'' then s\<lparr> ia_deprecated := True, ia_api := ia_api s @ [a] \<rparr>
      else case struct_lint_attr a of
             Some copy \<Rightarrow> s\<lparr> ia_api := ia_api s @ [copy], ia_lint := ia_lint s @ [copy] \<rparr>
           | None \<Rightarrow> s)"

definition split_attrs :: "attribute list \<Rightarrow> item_attrs" where
  "split_attrs attrs = foldl split_attr \<lparr> ia_api = [], ia_lint = [], ia_deprecated = False \<rparr> attrs"

text \<open>The attributes that stay on the function inside the expansion.\<close>

definition stays_on_function :: "attribute \<Rightarrow> bool" where
  "stays_on_function a \<longleftrightarrow> a_style a = Inner \<or> (\<not> meta_is (a_meta a) ''doc'' \<and> \<not> meta_is (a_meta a) ''deprecated'')"

definition lower_expect :: "attribute \<Rightarrow> attribute" where
  "lower_expect a =
     (if a_style a = Outer \<and> meta_is (a_meta a) ''expect''
      then (case a_meta a of
              MList p tokens args \<Rightarrow> \<lparr> a_style = Outer, a_meta = MList (Ident ''allow'') tokens args \<rparr>
            | _ \<Rightarrow> a)
      else a)"

definition inner_attrs :: "attribute list \<Rightarrow> attribute list" where
  "inner_attrs attrs = map lower_expect (filter stays_on_function attrs)"

text \<open>The path of the runtime crate; \<^verbatim>\<open>crate_name\<close> is answered by another crate.\<close>

datatype found_crate = Itself | Name string

fun found_crate_path :: "found_crate \<Rightarrow> string" where
  "found_crate_path (Name name) =
     (if name \<in> {''crate'', ''self'', ''super'', ''Self'', ''_''} then ''::'' @ name else ''::r#'' @ name)"
| "found_crate_path Itself = ''::ironqueue''"

definition runtime_crate_path :: "found_crate option \<Rightarrow> string" where
  "runtime_crate_path found = (case found of Some c \<Rightarrow> found_crate_path c | None \<Rightarrow> ''::ironqueue'')"

section \<open>The generated configuration\<close>

text \<open>The statements of the generated \<^verbatim>\<open>config()\<close>; they run on \<^verbatim>\<open>JobConfig::default()\<close>.\<close>

datatype setter =
    SetMaxAttempts nat
  | SetTimeout "duration option"
  | SetRetention job_retention
  | SetFailedRetention job_retention
  | SetRetryDelay duration
  | SetBackoff job_retry_backoff
  | SetPriority int

fun run_setter :: "setter \<Rightarrow> job_config \<Rightarrow> job_config" where
  "run_setter (SetMaxAttempts n) c = c\<lparr> cfg_max_attempts := n \<rparr>"
| "run_setter (SetTimeout t) c = c\<lparr> cfg_timeout := t \<rparr>"
| "run_setter (SetRetention r) c = c\<lparr> cfg_retention := r \<rparr>"
| "run_setter (SetFailedRetention r) c = c\<lparr> cfg_failed_retention := r \<rparr>"
| "run_setter (SetRetryDelay d) c = c\<lparr> cfg_retry_delay := d \<rparr>"
| "run_setter (SetBackoff b) c = c\<lparr> cfg_backoff := b \<rparr>"
| "run_setter (SetPriority p) c = c\<lparr> cfg_priority := p \<rparr>"

fun ttl_retention :: "result_ttl \<Rightarrow> job_retention" where
  "ttl_retention (ForMs ms) = For (from_millis ms)"
| "ttl_retention Delete = DeleteImmediately"

definition opt_setter :: "('a \<Rightarrow> setter) \<Rightarrow> 'a option \<Rightarrow> setter list" where
  "opt_setter f x = (case x of Some v \<Rightarrow> [f v] | None \<Rightarrow> [])"

definition config_setters :: "job_attrs \<Rightarrow> setter list" where
  "config_setters attrs =
     opt_setter SetMaxAttempts (at_max_attempts attrs) @
     opt_setter (\<lambda>t. SetTimeout (map_option from_millis t)) (at_timeout_ms attrs) @
     opt_setter (\<lambda>t. SetRetention (ttl_retention t)) (at_result_ttl_ms attrs) @
     opt_setter (\<lambda>t. SetFailedRetention (ttl_retention t)) (at_failed_ttl_ms attrs) @
     opt_setter (\<lambda>ms. SetRetryDelay (from_millis ms)) (at_retry_delay_ms attrs) @
     opt_setter (\<lambda>ms. SetBackoff (BExponential (Some (from_millis ms)))) (at_max_backoff_ms attrs) @
     opt_setter SetPriority (at_priority attrs)"

definition generated_config :: "setter list \<Rightarrow> job_config" where
  "generated_config setters = foldl (\<lambda>c st. run_setter st c) job_config_default setters"

text \<open>The \<^verbatim>\<open>const\<close> assertions of the generated code, as their conditions and messages.\<close>

definition duration_bound_assertions :: "job_attrs \<Rightarrow> (bool \<times> string) list" where
  "duration_bound_assertions attrs =
     map (\<lambda>(field, ms). (ms \<le> MAX_DURATION_MS, field @ '' exceeds ironqueue's maximum supported duration''))
       (at_durations attrs)"

section \<open>The expansion\<close>

text \<open>
  What the generated items say: the struct and its attributes, the assertions, the
  function kept inside, and the \<^verbatim>\<open>JobType\<close> implementation. A payload of \<open>None\<close> is the unit
  payload of a cron; \<open>ex_cron\<close> is its schedule and revision.
\<close>

record expansion =
  ex_ident :: string
  ex_api_attrs :: "attribute list"
  ex_lint_attrs :: "attribute list"
  ex_allow_deprecated :: bool
  ex_inner_attrs :: "attribute list"
  ex_asserts :: "(bool \<times> string) list"
  ex_name :: string
  ex_payload :: "rust_type option"
  ex_extractors :: "rust_type list"
  ex_call_params :: "rust_type list"
  ex_output :: "rust_type option"
  ex_setters :: "setter list"
  ex_cron :: "(string \<times> nat) option"

fun arg_types :: "mode \<Rightarrow> fn_arg list \<Rightarrow> rust_type list parsed" where
  "arg_types md [] = Inr []"
| "arg_types md (Receiver # args) = Inl (attr_name md @ '' functions cannot take self'')"
| "arg_types md (Typed attrs t # args) = and_then (arg_types md args) (\<lambda>ts. Inr (t # ts))"

definition expand :: "mode \<Rightarrow> job_attrs \<Rightarrow> item_fn \<Rightarrow> expansion parsed" where
  "expand md attrs f =
     and_then (validate_fn md f) (\<lambda>_.
     and_then (job_name md attrs (if_ident f)) (\<lambda>name.
     and_then (arg_types md (if_inputs f)) (\<lambda>types.
       let routed = split_attrs (if_attrs f);
           (payload, extractors) = (case md of
              JobMode \<Rightarrow> (Some (hd types), tl types)
            | CronMode _ \<Rightarrow> (None, types))
       in Inr \<lparr> ex_ident = if_ident f,
                ex_api_attrs = ia_api routed, ex_lint_attrs = ia_lint routed,
                ex_allow_deprecated = ia_deprecated routed,
                ex_inner_attrs = inner_attrs (if_attrs f),
                ex_asserts = duration_bound_assertions attrs,
                ex_name = name, ex_payload = payload, ex_extractors = extractors,
                ex_call_params = types, ex_output = if_output f,
                ex_setters = config_setters attrs,
                ex_cron = (case md of
                   JobMode \<Rightarrow> None
                 | CronMode schedule \<Rightarrow>
                     Some (schedule, case at_revision attrs of Some r \<Rightarrow> r | None \<Rightarrow> 0)) \<rparr>)))"

definition ex_config :: "expansion \<Rightarrow> job_config" where
  "ex_config ex = generated_config (ex_setters ex)"

text \<open>The generated code compiles only if every constant assertion holds.\<close>

definition asserts_hold :: "expansion \<Rightarrow> bool" where
  "asserts_hold ex \<longleftrightarrow> list_all fst (ex_asserts ex)"

definition expand_job :: "meta list \<Rightarrow> item_fn \<Rightarrow> expansion parsed" where
  "expand_job metas f = and_then (parse_attrs JobAttr metas) (\<lambda>attrs. expand JobMode attrs f)"

section \<open>Cron schedules\<close>

function probe_schedule :: "crontab \<Rightarrow> int \<Rightarrow> bool" where
  "probe_schedule cron cursor =
     (if cursor \<le> CRON_CYCLE_SECONDS
      then (case from_second cursor of Some t \<Rightarrow> find_next cron t \<noteq> None | None \<Rightarrow> False) \<or>
           probe_schedule cron (cursor + CRON_SEARCH_STEP_SECONDS)
      else False)"
  by pat_completeness auto
termination
  by (relation "measure (\<lambda>(cron, cursor). nat (CRON_CYCLE_SECONDS + 1 - cursor))") (auto simp: cron_consts)

declare probe_schedule.simps [simp del]

definition reject_a_schedule_that_never_fires :: "string \<Rightarrow> crontab \<Rightarrow> unit parsed" where
  "reject_a_schedule_that_never_fires schedule cron =
     (if probe_schedule cron 0 then Inr ()
      else Inl (''invalid cron expression '' @ debug_str schedule @ '': schedule never fires''))"

text \<open>\<open>parse\<close> is the crontab crate's, the one \<^verbatim>\<open>CronSchedule::parse\<close> uses.\<close>

definition expand_cron ::
    "(string \<Rightarrow> string + crontab) \<Rightarrow> expr option \<Rightarrow> meta list \<Rightarrow> item_fn \<Rightarrow> expansion parsed" where
  "expand_cron parse leading metas f =
     and_then (split_leading_str leading metas) (\<lambda>(schedule, rest).
       if count_fields False schedule \<noteq> 5
       then Inl (''invalid cron expression '' @ debug_str schedule @ '': expected 5 whitespace-separated fields'')
       else case parse schedule of
         Inl e \<Rightarrow> Inl (''invalid cron expression '' @ debug_str schedule @ '': '' @ e)
       | Inr cron \<Rightarrow>
           and_then (reject_a_schedule_that_never_fires schedule cron) (\<lambda>_.
           and_then (parse_attrs CronAttr rest) (\<lambda>attrs. expand (CronMode schedule) attrs f)))"

section \<open>The check of a schedule\<close>

text \<open>A five-field calendar repeats with the Gregorian cycle.\<close>

definition calendar_repeats :: "(timestamp \<Rightarrow> bool) \<Rightarrow> bool" where
  "calendar_repeats fires \<longleftrightarrow> (\<forall>t. fires t \<longleftrightarrow> fires (t + CRON_CYCLE_SECONDS * SECOND))"

lemma calendar_repeats_shift:
  assumes "calendar_repeats fires"
  shows "fires (t + k * (CRON_CYCLE_SECONDS * SECOND)) \<longleftrightarrow> fires t"
proof (induction k rule: int_induct [where k = 0])
  case base then show ?case by simp
next
  case (step1 k)
  have "fires (t + k * (CRON_CYCLE_SECONDS * SECOND)) \<longleftrightarrow> fires (t + k * (CRON_CYCLE_SECONDS * SECOND) + CRON_CYCLE_SECONDS * SECOND)"
    using assms unfolding calendar_repeats_def by blast
  then show ?case using step1 by (simp add: algebra_simps)
next
  case (step2 k)
  have "fires (t + (k - 1) * (CRON_CYCLE_SECONDS * SECOND)) \<longleftrightarrow>
      fires (t + (k - 1) * (CRON_CYCLE_SECONDS * SECOND) + CRON_CYCLE_SECONDS * SECOND)"
    using assms unfolding calendar_repeats_def by blast
  then show ?case using step2 by (simp add: algebra_simps)
qed

lemma fires_in_window:
  assumes "calendar_repeats fires" "fires t"
  shows "\<exists>x. fires x \<and> a < x \<and> x \<le> a + CRON_CYCLE_SECONDS * SECOND"
proof -
  let ?c = "CRON_CYCLE_SECONDS * SECOND"
  let ?x = "t + - ((t - a - 1) div ?c) * ?c"
  have pos: "0 < ?c" by (simp add: cron_consts SECOND_def)
  have x: "?x = a + 1 + (t - a - 1) mod ?c" using div_mult_mod_eq [of "t - a - 1" ?c] by (simp add: algebra_simps)
  have "fires ?x" using calendar_repeats_shift [OF assms(1)] assms(2) by blast
  moreover have "0 \<le> (t - a - 1) mod ?c" "(t - a - 1) mod ?c < ?c" using pos by simp_all
  ultimately show ?thesis using x by (intro exI [of _ ?x]) linarith
qed

lemma probe_sound: "crontab_law fires cron \<Longrightarrow> probe_schedule cron cursor \<Longrightarrow> \<exists>t. fires t"
proof (induction cron cursor rule: probe_schedule.induct)
  case (1 cron cursor)
  have "cursor \<le> CRON_CYCLE_SECONDS" "(\<exists>t n. find_next cron t = Some n) \<or> probe_schedule cron (cursor + CRON_SEARCH_STEP_SECONDS)"
    using "1.prems"(2) by (auto simp: probe_schedule.simps [of cron cursor] split: if_splits option.splits)
  then show ?case using "1.IH" "1.prems"(1) law_next(2) by blast
qed

lemma probe_complete:
  assumes "crontab_law fires cron" "fires t" "0 \<le> cursor" "cursor * SECOND < t" "t \<le> CRON_CYCLE_SECONDS * SECOND"
  shows "probe_schedule cron cursor"
  using assms
proof (induction cron cursor rule: probe_schedule.induct)
  case (1 cron cursor)
  have "cursor * SECOND < CRON_CYCLE_SECONDS * SECOND" using "1.prems" by linarith
  then have le: "cursor \<le> CRON_CYCLE_SECONDS" by (simp add: SECOND_def)
  then have c: "from_second cursor = Some (cursor * SECOND)"
    using "1.prems"(3) by (simp add: from_second_def cron_consts)
  show ?case
  proof (cases "find_next cron (cursor * SECOND)")
    case None
    then have "cursor * SECOND + 4 * 365 * 86400 * SECOND < t" using law_none [OF "1.prems"(1)] "1.prems" by blast
    then have "(cursor + CRON_SEARCH_STEP_SECONDS) * SECOND < t" by (simp add: cron_consts SECOND_def)
    then have "probe_schedule cron (cursor + CRON_SEARCH_STEP_SECONDS)"
      using "1.IH" le "1.prems" by (simp add: cron_consts)
    then show ?thesis using le by (subst probe_schedule.simps) simp
  next
    case (Some n)
    then show ?thesis using le c by (subst probe_schedule.simps) simp
  qed
qed

section \<open>The generated configuration is valid\<close>

text \<open>The last assignment of each field decides it.\<close>

lemma generated_config_fields:
  fixes attrs
  defines "c \<equiv> generated_config (config_setters attrs)"
  shows "cfg_max_attempts c = (case at_max_attempts attrs of Some n \<Rightarrow> n | None \<Rightarrow> 1)"
    "cfg_timeout c = (case at_timeout_ms attrs of Some t \<Rightarrow> map_option from_millis t | None \<Rightarrow> Some (from_secs 10))"
    "cfg_retention c = (case at_result_ttl_ms attrs of Some t \<Rightarrow> ttl_retention t | None \<Rightarrow> For (from_secs 600))"
    "cfg_failed_retention c = (case at_failed_ttl_ms attrs of Some t \<Rightarrow> ttl_retention t | None \<Rightarrow> For DEFAULT_FAILED_RETENTION)"
    "cfg_retry_delay c = (case at_retry_delay_ms attrs of Some ms \<Rightarrow> from_millis ms | None \<Rightarrow> 0)"
    "cfg_backoff c = (case at_max_backoff_ms attrs of Some ms \<Rightarrow> BExponential (Some (from_millis ms)) | None \<Rightarrow> BNone)"
    "cfg_priority c = (case at_priority attrs of Some p \<Rightarrow> p | None \<Rightarrow> 0)"
  unfolding c_def generated_config_def config_setters_def opt_setter_def foldl_append job_config_default_def
  by (cases "at_max_attempts attrs"; cases "at_timeout_ms attrs"; cases "at_result_ttl_ms attrs";
      cases "at_failed_ttl_ms attrs"; cases "at_retry_delay_ms attrs"; cases "at_max_backoff_ms attrs";
      cases "at_priority attrs"; simp)+

text \<open>What the lexer guarantees of an identifier.\<close>

definition source_ident :: "string \<Rightarrow> bool" where
  "source_ident ident \<longleftrightarrow> unraw ident \<noteq> [] \<and> NUL \<notin> set (unraw ident)"

lemma job_name_bounds:
  assumes "job_name md attrs ident = Inr name" "attrs_ok (attr_mode_of md) attrs" "source_ident ident"
  shows "name \<noteq> [] \<and> length name \<le> max_name_bytes (attr_mode_of md) \<and> NUL \<notin> set name"
  using assms by (auto simp: job_name_def attrs_ok_def source_ident_def Let_def split: option.splits if_splits)

lemma ttl_retention_bound:
  "ttl_retention t = For d \<Longrightarrow> \<exists>ms. t = ForMs ms \<and> d = from_millis ms"
  by (cases t) auto

lemma generated_config_valid:
  assumes ok: "attrs_ok am attrs" and backoff: "at_max_backoff_ms attrs \<noteq> None \<Longrightarrow> \<exists>ms. at_retry_delay_ms attrs = Some ms \<and> ms \<noteq> 0"
    and bound: "\<And>field ms. (field, ms) \<in> set (at_durations attrs) \<Longrightarrow> ms \<le> MAX_DURATION_MS"
  shows "job_config_validate (generated_config (config_setters attrs)) = Inr ()"
proof -
  let ?c = "generated_config (config_setters attrs)"
  have "1 \<le> cfg_max_attempts ?c \<and> int (cfg_max_attempts ?c) < i32_max"
    using ok by (auto simp: generated_config_fields attrs_ok_def split: option.splits)
  moreover have "0 < t \<and> t \<le> MAX_DURATION" if t: "cfg_timeout ?c = Some t" for t
  proof (cases "at_timeout_ms attrs")
    case None
    then show ?thesis using t by (simp add: generated_config_fields duration_consts)
  next
    case (Some ms)
    then obtain m where m: "at_timeout_ms attrs = Some (Some m)" "t = from_millis m"
      using t by (cases ms) (simp_all add: generated_config_fields)
    then have "m \<noteq> 0" "m \<le> MAX_DURATION_MS" using ok bound by (auto simp: attrs_ok_def)
    then show ?thesis using m by (simp add: MAX_DURATION_def)
  qed
  moreover have "d \<le> MAX_DURATION" if d: "cfg_retention ?c = For d" for d
  proof (cases "at_result_ttl_ms attrs")
    case None
    then show ?thesis using d by (simp add: generated_config_fields duration_consts)
  next
    case (Some ttl)
    then obtain m where "at_result_ttl_ms attrs = Some (ForMs m)" "d = from_millis m"
      using d ttl_retention_bound by (auto simp: generated_config_fields)
    then show ?thesis using ok bound by (auto simp: attrs_ok_def MAX_DURATION_def)
  qed
  moreover have "d \<le> MAX_DURATION" if d: "cfg_failed_retention ?c = For d" for d
  proof (cases "at_failed_ttl_ms attrs")
    case None
    then show ?thesis using d by (simp add: generated_config_fields duration_consts)
  next
    case (Some ttl)
    then obtain m where "at_failed_ttl_ms attrs = Some (ForMs m)" "d = from_millis m"
      using d ttl_retention_bound by (auto simp: generated_config_fields)
    then show ?thesis using ok bound by (auto simp: attrs_ok_def MAX_DURATION_def)
  qed
  moreover have "cfg_retry_delay ?c \<le> MAX_DURATION"
    using ok bound by (fastforce simp: generated_config_fields attrs_ok_def MAX_DURATION_def split: option.splits)
  moreover have "0 < cfg_retry_delay ?c \<and> (\<forall>x. m = Some x \<longrightarrow> 0 < x \<and> x \<le> MAX_DURATION)" if b: "cfg_backoff ?c = BExponential m" for m
  proof -
    obtain ms where ms: "at_max_backoff_ms attrs = Some ms" "m = Some (from_millis ms)"
      using b by (auto simp: generated_config_fields split: option.splits)
    then obtain r where "at_retry_delay_ms attrs = Some r" "r \<noteq> 0" using backoff by auto
    moreover have "ms \<noteq> 0" "ms \<le> MAX_DURATION_MS" using ok bound ms by (auto simp: attrs_ok_def)
    ultimately show ?thesis using ms by (simp add: generated_config_fields MAX_DURATION_def)
  qed
  ultimately show ?thesis unfolding job_config_validate_Inr by blast
qed

text \<open>What an expansion that compiles guarantees, in either mode.\<close>

lemma expand_parts:
  assumes "parse_attrs (attr_mode_of md) metas = Inr attrs" "expand md attrs f = Inr ex" "asserts_hold ex" "source_ident (if_ident f)"
  shows "job_config_validate (ex_config ex) = Inr ()" "- 32768 \<le> cfg_priority (ex_config ex)" "cfg_priority (ex_config ex) \<le> 32767"
    "ex_name ex \<noteq> []" "length (ex_name ex) \<le> max_name_bytes (attr_mode_of md)" "NUL \<notin> set (ex_name ex)"
    "ex_cron ex = (case md of JobMode \<Rightarrow> None | CronMode schedule \<Rightarrow> Some (schedule, case at_revision attrs of Some r \<Rightarrow> r | None \<Rightarrow> 0))"
    "int (case at_revision attrs of Some r \<Rightarrow> r | None \<Rightarrow> 0) \<le> i64_max"
proof -
  note ok = parse_attrs_ok [OF assms(1)]
  obtain name types where name: "job_name md attrs (if_ident f) = Inr name"
    and ex: "ex_name ex = name" "ex_setters ex = config_setters attrs" "ex_asserts ex = duration_bound_assertions attrs"
      "ex_cron ex = (case md of JobMode \<Rightarrow> None | CronMode schedule \<Rightarrow> Some (schedule, case at_revision attrs of Some r \<Rightarrow> r | None \<Rightarrow> 0))"
    using assms(2) by (cases md) (auto simp: expand_def Let_def)
  have "ms \<le> MAX_DURATION_MS" if "(field, ms) \<in> set (at_durations attrs)" for field ms
    using assms(3) that ex(3) by (auto simp: asserts_hold_def duration_bound_assertions_def list_all_iff)
  then show "job_config_validate (ex_config ex) = Inr ()"
    using generated_config_valid [OF ok] ex(2) by (simp add: ex_config_def)
  show "- 32768 \<le> cfg_priority (ex_config ex)" "cfg_priority (ex_config ex) \<le> 32767"
    using ok(1) ex(2) by (auto simp: ex_config_def generated_config_fields attrs_ok_def split: option.splits)
  show "ex_name ex \<noteq> []" "length (ex_name ex) \<le> max_name_bytes (attr_mode_of md)" "NUL \<notin> set (ex_name ex)"
    using job_name_bounds [OF name ok(1) assms(4)] ex(1) by blast+
  show "int (case at_revision attrs of Some r \<Rightarrow> r | None \<Rightarrow> 0) \<le> i64_max"
    using ok(1) by (auto simp: attrs_ok_def split: option.splits)
  show "ex_cron ex = (case md of JobMode \<Rightarrow> None | CronMode schedule \<Rightarrow> Some (schedule, case at_revision attrs of Some r \<Rightarrow> r | None \<Rightarrow> 0))"
    by (rule ex(4))
qed

section \<open>Properties\<close>

text \<open>
  The compile-time check of a schedule is exact. Given what the crontab crate
  documents and that a calendar repeats with the Gregorian cycle, a schedule is
  refused exactly when it never fires, although the check only probes one cycle in
  steps of three years.
\<close>

theorem never_firing_schedule_refused:
  assumes law: "crontab_law fires cron" and repeats: "calendar_repeats fires"
  shows "reject_a_schedule_that_never_fires schedule cron = Inr () \<longleftrightarrow> (\<exists>t. fires t)"
proof -
  have "probe_schedule cron 0" if fire: "fires t" for t
  proof -
    obtain x where "fires x" "0 < x" "x \<le> CRON_CYCLE_SECONDS * SECOND"
      using fires_in_window [OF repeats fire, of 0] by auto
    then show ?thesis using probe_complete [OF law, of x 0] by simp
  qed
  then show ?thesis using probe_sound [OF law] by (auto simp: reject_a_schedule_that_never_fires_def)
qed

lemma minutely_repeats: "calendar_repeats (\<lambda>t. t mod MINUTE = 0)"
proof -
  have "(t + CRON_CYCLE_SECONDS * SECOND) mod MINUTE = t mod MINUTE" for t
    by (simp add: cron_consts MINUTE_def SECOND_def mod_add_right_eq [symmetric])
  then show ?thesis by (simp add: calendar_repeats_def)
qed

theorem never_firing_schedule_refused_witness:
  "reject_a_schedule_that_never_fires ''* * * * *'' minutely = Inr ()"
  using never_firing_schedule_refused [OF minutely_law minutely_repeats, of "''* * * * *''"] by (auto intro: exI [of _ 0])

text \<open>
  C35: a job that compiles can be enqueued. If the attribute and the function are
  accepted and the assertions of the generated code hold, a request with the
  generated name and configuration is refused only for its payload, and its
  priority fits the column.
\<close>

theorem compiled_job_enqueues:
  assumes "expand_job metas f = Inr ex" "asserts_hold ex" "source_ident (if_ident f)"
    and "validate_json_document chunks ''job payload'' payload = Inr ()"
    and "validate_json_document chunks ''job meta'' (JObject []) = Inr ()"
  shows "job_request_validate chunks now ((job_request_new (ex_name ex) payload)\<lparr> rq_config := ex_config ex \<rparr>) = Inr () \<and>
    - 32768 \<le> cfg_priority (ex_config ex) \<and> cfg_priority (ex_config ex) \<le> 32767 \<and> ex_cron ex = None"
proof -
  obtain attrs where p: "parse_attrs (attr_mode_of JobMode) metas = Inr attrs" "expand JobMode attrs f = Inr ex"
    using assms(1) by (auto simp: expand_job_def)
  show ?thesis using expand_parts [OF p assms(2,3)] assms(4,5)
    by (simp add: job_request_validate_Inr job_request_new_def Suc_le_eq)
qed

text \<open>A function \<^verbatim>\<open>async fn send(_: Email)\<close>, and one without parameters.\<close>

definition sample_fn :: "fn_arg list \<Rightarrow> item_fn" where
  "sample_fn args = \<lparr> if_attrs = [], if_async = True, if_ident = ''send'', if_unsafe = False, if_abi = False, if_generics = 0,
     if_where = None, if_inputs = args, if_variadic = False, if_output = None \<rparr>"

lemma sample_fn_ident: "unraw ''send'' = ''send''" "source_ident (if_ident (sample_fn args))"
  by (simp_all add: unraw_def source_ident_def sample_fn_def)

lemma sample_fn_expands:
  assumes "args = [Typed [] (TOther ''Email'' [])] \<or> (args = [] \<and> md \<noteq> JobMode)" "at_name attrs = None" "at_durations attrs = []"
  shows "\<exists>ex. expand md attrs (sample_fn args) = Inr ex \<and> ex_name ex = ''send'' \<and> asserts_hold ex \<and> ex_setters ex = config_setters attrs"
  using assms
  by (cases md) (auto simp: expand_def validate_fn_def sample_fn_def reserved_expansion_name_def numbered_def
      validate_output_def sample_fn_ident job_name_def asserts_hold_def duration_bound_assertions_def Let_def)

theorem compiled_job_enqueues_witness:
  "\<exists>ex. expand_job [MNameValue (Ident ''max_attempts'') (ELit (LInt ''3'' []))] (sample_fn [Typed [] (TOther ''Email'' [])]) = Inr ex \<and>
     ex_name ex = ''send'' \<and>
     job_request_validate (\<lambda>_. []) 0 ((job_request_new ''send'' JNull)\<lparr> rq_config := ex_config ex \<rparr>) = Inr ()"
proof -
  let ?metas = "[MNameValue (Ident ''max_attempts'') (ELit (LInt ''3'' []))]"
  obtain attrs where a: "parse_attrs JobAttr ?metas = Inr attrs" "at_name attrs = None" "at_durations attrs = []"
    by (simp add: parse_attrs_def parse_value_def parse_max_attempts_def unsigned_value_def int_value_def parse_i128_def
        default_attrs_def)
  obtain ex where ex: "expand JobMode attrs (sample_fn [Typed [] (TOther ''Email'' [])]) = Inr ex" "ex_name ex = ''send''" "asserts_hold ex"
    using sample_fn_expands a(2,3) by blast
  then have e: "expand_job ?metas (sample_fn [Typed [] (TOther ''Email'' [])]) = Inr ex" using a by (simp add: expand_job_def)
  from compiled_job_enqueues [OF e ex(3) sample_fn_ident(2), of "\<lambda>_. []" JNull 0] e ex(2) show ?thesis
    by (simp add: validate_json_document_def json_exceeds_bytes_def MAX_JSON_DOCUMENT_BYTES_def MAX_JSON_DEPTH_def)
qed



end
