(* ===== verification/Dashboard_Throttle.thy ===== *)
theory Dashboard_Throttle
  imports Queue_Connect "HOL-Library.Multiset"
begin

text \<open>
  Who a dashboard request is and what it may still guess (\<^verbatim>\<open>dashboard.rs\<close>): the client an
  authentication attempt is charged to, read from the socket peer or from the trusted end of
  \<^verbatim>\<open>X-Forwarded-For\<close>, and the token buckets that meter credential comparisons.

  A bucket map is the list of its entries in the iteration order of the \<^verbatim>\<open>HashMap\<close>; the order
  may be any, and may change between two operations. Instants (\<^verbatim>\<open>tokio::time::Instant\<close>) are
  nanoseconds of the process clock.
\<close>

unbundle bit_operations_syntax

type_synonym instant = nat

section \<open>Strings\<close>

text \<open>
  \<^verbatim>\<open>split\<close> at a separator byte, \<^verbatim>\<open>trim_ascii\<close>, and whether bytes are a Rust \<^verbatim>\<open>str\<close>.
\<close>

fun split_on :: "char \<Rightarrow> string \<Rightarrow> string list" where
  "split_on sep [] = [[]]"
| "split_on sep (c # cs) =
     (if c = sep then [] # split_on sep cs
      else case split_on sep cs of [] \<Rightarrow> [[c]] | piece # pieces \<Rightarrow> (c # piece) # pieces)"

definition is_ascii_whitespace :: "char \<Rightarrow> bool" where
  "is_ascii_whitespace c \<longleftrightarrow> (of_char c :: nat) \<in> {9, 10, 12, 13, 32}"

definition trim_ascii :: "string \<Rightarrow> string" where
  "trim_ascii s = rev (dropWhile is_ascii_whitespace (rev (dropWhile is_ascii_whitespace s)))"

fun utf8_ok :: "nat list \<Rightarrow> bool" where
  "utf8_ok [] = True"
| "utf8_ok (a # bs) =
     (if a < 128 then utf8_ok bs
      else if 194 \<le> a \<and> a \<le> 223 then
        (case bs of b # r \<Rightarrow> 128 \<le> b \<and> b < 192 \<and> utf8_ok r | _ \<Rightarrow> False)
      else if 224 \<le> a \<and> a \<le> 239 then
        (case bs of b # c # r \<Rightarrow>
             (if a = 224 then 160 else 128) \<le> b \<and> b < (if a = 237 then 160 else 192) \<and>
             128 \<le> c \<and> c < 192 \<and> utf8_ok r
         | _ \<Rightarrow> False)
      else if 240 \<le> a \<and> a \<le> 244 then
        (case bs of b # c # d # r \<Rightarrow>
             (if a = 240 then 144 else 128) \<le> b \<and> b < (if a = 244 then 144 else 192) \<and>
             128 \<le> c \<and> c < 192 \<and> 128 \<le> d \<and> d < 192 \<and> utf8_ok r
         | _ \<Rightarrow> False)
      else False)"

definition str_from_utf8 :: "string \<Rightarrow> string option" where
  "str_from_utf8 bytes = (if utf8_ok (map of_char bytes) then Some bytes else None)"

section \<open>Addresses\<close>

text \<open>
  \<^verbatim>\<open>std::net::IpAddr\<close>, and the parser behind \<^verbatim>\<open>str::parse\<close> of an address: each reader takes the text
  that is left and returns what it read with the rest, or fails and reads nothing. \<^verbatim>\<open>parse\<close> accepts
  when nothing is left.
\<close>

datatype ip_addr = V4 "32 word" | V6 "128 word"

definition digit_value :: "char \<Rightarrow> nat option" where
  "digit_value c =
     (let b = (of_char (to_lower c) :: nat)
      in if 48 \<le> b \<and> b \<le> 57 then Some (b - 48) else if 97 \<le> b \<and> b \<le> 102 then Some (b - 87) else None)"

definition is_digit_in :: "nat \<Rightarrow> char \<Rightarrow> bool" where
  "is_digit_in radix c \<longleftrightarrow> (case digit_value c of Some d \<Rightarrow> d < radix | None \<Rightarrow> False)"

definition read_number :: "nat \<Rightarrow> nat option \<Rightarrow> bool \<Rightarrow> nat \<Rightarrow> string \<Rightarrow> (nat \<times> string) option" where
  "read_number radix max_digits allow_zero_prefix bound s =
     (let ds = takeWhile (is_digit_in radix) s;
          n = fold (\<lambda>c acc. acc * radix + the (digit_value c)) ds 0
      in if ds = [] \<or> (case max_digits of Some m \<Rightarrow> m < length ds | None \<Rightarrow> False) \<or>
            (\<not> allow_zero_prefix \<and> hd ds = CHR ''0'' \<and> 1 < length ds) \<or> bound < n
         then None else Some (n, drop (length ds) s))"

fun read_char :: "char \<Rightarrow> string \<Rightarrow> string option" where
  "read_char c [] = None"
| "read_char c (x # xs) = (if x = c then Some xs else None)"

definition read_separator :: "char \<Rightarrow> nat \<Rightarrow> (string \<Rightarrow> ('a \<times> string) option) \<Rightarrow> string \<Rightarrow> ('a \<times> string) option" where
  "read_separator sep index inner s = (if index = 0 then inner s else Option.bind (read_char sep s) inner)"

fun read_octets :: "nat \<Rightarrow> nat \<Rightarrow> string \<Rightarrow> (nat list \<times> string) option" where
  "read_octets index 0 s = Some ([], s)"
| "read_octets index (Suc k) s =
     (case read_separator CHR ''.'' index (read_number 10 (Some 3) False 255) s of
        None \<Rightarrow> None
      | Some (n, r) \<Rightarrow> map_option (\<lambda>(ns, rest). (n # ns, rest)) (read_octets (Suc index) k r))"

definition read_ipv4 :: "string \<Rightarrow> (32 word \<times> string) option" where
  "read_ipv4 s =
     map_option (\<lambda>(ns, r). (of_nat (fold (\<lambda>n acc. acc * 256 + n) ns 0), r)) (read_octets 0 4 s)"

text \<open>
  \<^verbatim>\<open>read_groups\<close>: up to \<open>k\<close> groups of 16 bits, the last two of which may be written as an IPv4
  address; the flag says that they were.
\<close>

fun read_groups :: "nat \<Rightarrow> nat \<Rightarrow> string \<Rightarrow> nat list \<times> bool \<times> string" where
  "read_groups index 0 s = ([], False, s)"
| "read_groups index (Suc k) s =
     (case (if k > 0 then read_separator CHR '':'' index read_ipv4 s else None) of
        Some (a, r) \<Rightarrow> ([unat (drop_bit 16 a), unat (take_bit 16 a)], True, r)
      | None \<Rightarrow>
          (case read_separator CHR '':'' index (read_number 16 (Some 4) True 65535) s of
             None \<Rightarrow> ([], False, s)
           | Some (n, r) \<Rightarrow>
               (case read_groups (Suc index) k r of (ns, v4, rest) \<Rightarrow> (n # ns, v4, rest))))"

definition groups_word :: "nat list \<Rightarrow> 128 word" where
  "groups_word ns = of_nat (fold (\<lambda>n acc. acc * 65536 + n) ns 0)"

definition read_ipv6 :: "string \<Rightarrow> (128 word \<times> string) option" where
  "read_ipv6 s =
     (case read_groups 0 8 s of
        (head, v4, r) \<Rightarrow>
          if length head = 8 then Some (groups_word head, r)
          else if v4 then None
          else Option.bind (read_char CHR '':'' r) (\<lambda>r1.
               Option.bind (read_char CHR '':'' r1) (\<lambda>r2.
                 (case read_groups 0 (8 - (length head + 1)) r2 of
                    (tail, _, rest) \<Rightarrow>
                      Some (groups_word (head @ replicate (8 - length head - length tail) 0 @ tail), rest)))))"

definition parse_with :: "(string \<Rightarrow> ('a \<times> string) option) \<Rightarrow> string \<Rightarrow> 'a option" where
  "parse_with p s = (case p s of Some (x, r) \<Rightarrow> if r = [] then Some x else None | None \<Rightarrow> None)"

definition read_ip_addr :: "string \<Rightarrow> (ip_addr \<times> string) option" where
  "read_ip_addr s =
     (case read_ipv4 s of
        Some (a, r) \<Rightarrow> Some (V4 a, r)
      | None \<Rightarrow> map_option (\<lambda>(a, r). (V6 a, r)) (read_ipv6 s))"

definition read_port :: "string \<Rightarrow> (nat \<times> string) option" where
  "read_port s = Option.bind (read_char CHR '':'' s) (read_number 10 None True 65535)"

definition read_scope_id :: "string \<Rightarrow> (nat \<times> string) option" where
  "read_scope_id s = Option.bind (read_char CHR ''%'' s) (read_number 10 None True 4294967295)"

text \<open>Only the address of a \<^verbatim>\<open>SocketAddr\<close> is used.\<close>

definition read_socket_addr :: "string \<Rightarrow> (ip_addr \<times> string) option" where
  "read_socket_addr s =
     (case Option.bind (read_ipv4 s) (\<lambda>(a, r). map_option (\<lambda>(_, r'). (V4 a, r')) (read_port r)) of
        Some x \<Rightarrow> Some x
      | None \<Rightarrow>
          Option.bind (read_char CHR ''['' s) (\<lambda>r0.
          Option.bind (read_ipv6 r0) (\<lambda>(a, r1).
            (let r2 = (case read_scope_id r1 of Some (_, r) \<Rightarrow> r | None \<Rightarrow> r1)
             in Option.bind (read_char CHR '']'' r2) (\<lambda>r3.
                  map_option (\<lambda>(_, r4). (V6 a, r4)) (read_port r3))))))"

definition parse_ip :: "string \<Rightarrow> ip_addr option" where "parse_ip = parse_with read_ip_addr"
definition parse_socket :: "string \<Rightarrow> ip_addr option" where "parse_socket = parse_with read_socket_addr"

text \<open>\<^verbatim>\<open>strip_suffix\<close>.\<close>

definition strip_suffix :: "string \<Rightarrow> string \<Rightarrow> string option" where
  "strip_suffix suffix s = map_option rev (strip_prefix (rev suffix) (rev s))"

definition forwarded_address :: "string \<Rightarrow> ip_addr option" where
  "forwarded_address entry =
     (case parse_ip entry of
        Some a \<Rightarrow> Some a
      | None \<Rightarrow>
          (case parse_socket entry of
             Some a \<Rightarrow> Some a
           | None \<Rightarrow> Option.bind (Option.bind (strip_prefix ''['' entry) (strip_suffix '']'')) parse_ip))"

section \<open>Clients\<close>

datatype auth_client = Peer ip_addr | Any

text \<open>
  \<^verbatim>\<open>IpAddr::to_canonical\<close>: an address in \<^verbatim>\<open>::ffff:0:0/96\<close> is the IPv4 address it maps. An IPv6
  client is its /64: the last eight octets are cleared.
\<close>

fun to_canonical :: "ip_addr \<Rightarrow> ip_addr" where
  "to_canonical (V4 a) = V4 a"
| "to_canonical (V6 a) = (if drop_bit 32 a = 0xFFFF then V4 (ucast a) else V6 a)"

definition peer :: "ip_addr \<Rightarrow> auth_client" where
  "peer address =
     (case to_canonical address of
        V6 a \<Rightarrow> Peer (V6 (push_bit 64 (drop_bit 64 a)))
      | canonical \<Rightarrow> Peer canonical)"

text \<open>
  Headers are their name, in lower case, with the bytes of the value, in the order received;
  the extensions of a request hold the socket peer, when the server recorded one.
\<close>

type_synonym headers = "(string \<times> string) list"

definition get_all :: "headers \<Rightarrow> string \<Rightarrow> string list" where
  "get_all hs name = map snd (filter (\<lambda>(n, v). n = name) hs)"

definition get_header :: "headers \<Rightarrow> string \<Rightarrow> string option" where
  "get_header hs name = (case get_all hs name of [] \<Rightarrow> None | v # vs \<Rightarrow> Some v)"

definition client_of_peer :: "ip_addr option \<Rightarrow> auth_client" where
  "client_of_peer connect_info = (case connect_info of Some ip \<Rightarrow> peer ip | None \<Rightarrow> Any)"

definition forwarded_chain :: "headers \<Rightarrow> string list" where
  "forwarded_chain hs =
     filter (\<lambda>entry. entry \<noteq> [])
       (map trim_ascii (concat (map (split_on CHR '','') (get_all hs ''x-forwarded-for''))))"

definition forwarded_client :: "headers \<Rightarrow> nat \<Rightarrow> auth_client option" where
  "forwarded_client hs trusted_proxy_hops =
     (if trusted_proxy_hops = 0 then None
      else
        (let chain = forwarded_chain hs in
         if length chain < trusted_proxy_hops then None
         else Option.bind (str_from_utf8 (chain ! (length chain - trusted_proxy_hops))) (\<lambda>entry.
              map_option peer (forwarded_address entry))))"

definition client_of :: "nat \<Rightarrow> headers \<Rightarrow> ip_addr option \<Rightarrow> auth_client" where
  "client_of trusted_proxy_hops hs connect_info =
     (case forwarded_client hs trusted_proxy_hops of
        Some client \<Rightarrow> client
      | None \<Rightarrow> client_of_peer connect_info)"

section \<open>Token buckets\<close>

definition AUTH_ATTEMPT_REFILL :: duration where "AUTH_ATTEMPT_REFILL = from_millis 100"
definition AUTH_ATTEMPT_BURST :: nat where "AUTH_ATTEMPT_BURST = 16"
definition MAX_AUTH_CLIENTS :: nat where "MAX_AUTH_CLIENTS = 1024"

datatype auth_channel = BasicChannel | Interactive

record throttle_key =
  tk_client :: auth_client
  tk_channel :: auth_channel

record throttle_tokens =
  available :: nat
  refilled_at :: instant

definition full_tokens :: "instant \<Rightarrow> throttle_tokens" where
  "full_tokens now = \<lparr> available = AUTH_ATTEMPT_BURST, refilled_at = now \<rparr>"

definition arriving_tokens :: "instant \<Rightarrow> nat option \<Rightarrow> throttle_tokens" where
  "arriving_tokens now displaced =
     (case displaced of
        Some left_over \<Rightarrow> \<lparr> available = max left_over 1, refilled_at = now \<rparr>
      | None \<Rightarrow> full_tokens now)"

definition refill :: "instant \<Rightarrow> throttle_tokens \<Rightarrow> throttle_tokens" where
  "refill now tokens =
     (let elapsed = (now - refilled_at tokens) div AUTH_ATTEMPT_REFILL;
          headroom = AUTH_ATTEMPT_BURST - available tokens
      in if headroom \<le> elapsed then tokens\<lparr> available := AUTH_ATTEMPT_BURST, refilled_at := now \<rparr>
         else if elapsed > 0 then
           tokens\<lparr> available := available tokens + elapsed,
                   refilled_at := refilled_at tokens + AUTH_ATTEMPT_REFILL * elapsed \<rparr>
         else tokens)"

type_synonym buckets = "(throttle_key \<times> throttle_tokens) list"

text \<open>\<^verbatim>\<open>max_by_key\<close> returns the last of the entries with the largest budget.\<close>

fun fullest :: "buckets \<Rightarrow> (throttle_key \<times> nat) option" where
  "fullest [] = None"
| "fullest ((key, tokens) # bs) =
     (case fullest bs of
        Some (k, a) \<Rightarrow> if a < available tokens then Some (key, available tokens) else Some (k, a)
      | None \<Rightarrow> Some (key, available tokens))"

definition remove_bucket :: "throttle_key \<Rightarrow> buckets \<Rightarrow> buckets" where
  "remove_bucket key bs = filter (\<lambda>(k, t). k \<noteq> key) bs"

lemma fullest_SomeD: "fullest bs = Some (k, a) \<Longrightarrow> \<exists>t. (k, t) \<in> set bs \<and> available t = a"
  by (induction bs arbitrary: k a rule: fullest.induct) (auto split: option.splits if_splits)

lemma length_remove_bucket: "(k, t) \<in> set bs \<Longrightarrow> length (remove_bucket k bs) < length bs"
  unfolding remove_bucket_def by (rule length_filter_less) auto

function evict :: "buckets \<Rightarrow> nat option \<Rightarrow> buckets \<times> nat option" where
  "evict bs displaced =
     (if MAX_AUTH_CLIENTS \<le> length bs then
        (case fullest bs of
           Some (key, left_over) \<Rightarrow> evict (remove_bucket key bs) (Some left_over)
         | None \<Rightarrow> (bs, displaced))
      else (bs, displaced))"
  by pat_completeness auto

termination
  by (relation "measure (\<lambda>(bs, d). length bs)") (auto dest!: fullest_SomeD dest: length_remove_bucket)

declare evict.simps [simp del]

definition make_room_for_a_bucket :: "instant \<Rightarrow> buckets \<Rightarrow> buckets \<times> nat option" where
  "make_room_for_a_bucket now bs =
     (if length bs < MAX_AUTH_CLIENTS then (bs, None)
      else evict (filter (\<lambda>(k, t). available t < AUTH_ATTEMPT_BURST) (map (\<lambda>(k, t). (k, refill now t)) bs)) None)"

definition has_bucket :: "throttle_key \<Rightarrow> buckets \<Rightarrow> bool" where
  "has_bucket key bs \<longleftrightarrow> key \<in> fst ` set bs"

definition set_bucket :: "throttle_key \<Rightarrow> throttle_tokens \<Rightarrow> buckets \<Rightarrow> buckets" where
  "set_bucket key tokens bs = map (\<lambda>(k, t). if k = key then (k, tokens) else (k, t)) bs"

text \<open>
  The throttle and whether its lock is poisoned. \<open>enter_bucket\<close> is the lookup of \<^verbatim>\<open>spend\<close>: the
  bucket of the key, entered when the map has none.
\<close>

record auth_throttle =
  th_buckets :: buckets
  th_poisoned :: bool

definition throttle_new :: auth_throttle where
  "throttle_new = \<lparr> th_buckets = [], th_poisoned = False \<rparr>"

definition enter_bucket :: "instant \<Rightarrow> throttle_key \<Rightarrow> buckets \<Rightarrow> buckets" where
  "enter_bucket now key bs =
     (if has_bucket key bs then bs
      else case make_room_for_a_bucket now bs of
             (kept, displaced) \<Rightarrow> kept @ [(key, arriving_tokens now displaced)])"

definition spend :: "instant \<Rightarrow> throttle_key \<Rightarrow> auth_throttle \<Rightarrow> bool \<times> auth_throttle" where
  "spend now key th =
     (if th_poisoned th then (False, th)
      else
        (let bs = enter_bucket now key (th_buckets th);
             tokens = refill now (the (map_of bs key))
         in if available tokens = 0 then (False, th\<lparr> th_buckets := set_bucket key tokens bs \<rparr>)
            else (True, th\<lparr> th_buckets :=
                   set_bucket key (tokens\<lparr> available := available tokens - 1 \<rparr>) bs \<rparr>)))"

definition refund :: "throttle_key \<Rightarrow> auth_throttle \<Rightarrow> auth_throttle" where
  "refund key th =
     (if th_poisoned th then th
      else case map_of (th_buckets th) key of
             Some tokens \<Rightarrow>
               th\<lparr> th_buckets := set_bucket key
                    (tokens\<lparr> available := min (available tokens + 1) AUTH_ATTEMPT_BURST \<rparr>) (th_buckets th) \<rparr>
           | None \<Rightarrow> th)"

section \<open>What the buckets keep\<close>

lemma map_of_set_bucket:
  "map_of (set_bucket key tokens bs) k = (if k = key \<and> has_bucket key bs then Some tokens else map_of bs k)"
proof (induction bs)
  case (Cons b bs)
  show ?case
    using Cons by (cases b; cases "fst b = key"; cases "k = key") (simp_all add: set_bucket_def has_bucket_def)
qed (simp add: set_bucket_def has_bucket_def)

lemma keys_set_bucket [simp]: "map fst (set_bucket key tokens bs) = map fst bs"
  by (auto simp: set_bucket_def)

lemma has_bucket_map_of: "has_bucket key bs \<longleftrightarrow> map_of bs key \<noteq> None"
  by (simp add: has_bucket_def map_of_eq_None_iff)

lemma has_set_bucket [simp]: "has_bucket k (set_bucket key tokens bs) = has_bucket k bs"
  unfolding has_bucket_def set_map [symmetric] keys_set_bucket ..

text \<open>One entry per key, no budget past a burst, no mark in the future, and the bound on the map.\<close>

definition tokens_ok :: "instant \<Rightarrow> throttle_tokens \<Rightarrow> bool" where
  "tokens_ok now t \<longleftrightarrow> available t \<le> AUTH_ATTEMPT_BURST \<and> refilled_at t \<le> now"

definition buckets_ok :: "instant \<Rightarrow> buckets \<Rightarrow> bool" where
  "buckets_ok now bs \<longleftrightarrow>
     distinct (map fst bs) \<and> length bs \<le> MAX_AUTH_CLIENTS \<and> (\<forall>t\<in>snd ` set bs. tokens_ok now t)"

lemma refill_ok: "tokens_ok now t \<Longrightarrow> tokens_ok now (refill now t)"
proof -
  assume ok: "tokens_ok now t"
  have "AUTH_ATTEMPT_REFILL * ((now - refilled_at t) div AUTH_ATTEMPT_REFILL) \<le> now - refilled_at t"
    by simp
  then have "refilled_at t + AUTH_ATTEMPT_REFILL * ((now - refilled_at t) div AUTH_ATTEMPT_REFILL) \<le> now"
    using ok unfolding tokens_ok_def by linarith
  then show ?thesis
    using ok by (auto simp: tokens_ok_def refill_def Let_def)
qed

lemma arriving_ok: "(case displaced of Some a \<Rightarrow> a \<le> AUTH_ATTEMPT_BURST | None \<Rightarrow> True) \<Longrightarrow>
   tokens_ok now (arriving_tokens now displaced) \<and> 1 \<le> available (arriving_tokens now displaced)"
  by (auto simp: tokens_ok_def arriving_tokens_def full_tokens_def AUTH_ATTEMPT_BURST_def split: option.splits)

text \<open>Eviction and the sweep of the refilled buckets only remove entries, or refill them.\<close>

lemma evict_subset: "set (fst (evict bs d)) \<subseteq> set bs"
proof (induction bs d rule: evict.induct)
  case (1 bs d)
  show ?case
  proof (cases "MAX_AUTH_CLIENTS \<le> length bs")
    case True
    show ?thesis
    proof (cases "fullest bs")
      case None
      then show ?thesis using True by (subst evict.simps) simp
    next
      case (Some p)
      obtain k a where p: "p = (k, a)" by (cases p)
      have "set (fst (evict (remove_bucket k bs) (Some a))) \<subseteq> set (remove_bucket k bs)"
        using "1.IH" [OF True Some p [symmetric]] .
      then show ?thesis
        using True Some p by (subst evict.simps) (auto simp: remove_bucket_def)
    qed
  qed (subst evict.simps, simp)
qed

lemma distinct_remove_bucket: "distinct (map fst bs) \<Longrightarrow> distinct (map fst (remove_bucket k bs))"
  unfolding remove_bucket_def by (rule distinct_map_filter)

lemma evict_distinct: "distinct (map fst bs) \<Longrightarrow> distinct (map fst (fst (evict bs d)))"
proof (induction bs d rule: evict.induct)
  case (1 bs d)
  show ?case
    using "1.IH" "1.prems" distinct_remove_bucket
    by (subst evict.simps) (auto split: option.splits)
qed

lemma fullest_None: "fullest bs = None \<longleftrightarrow> bs = []"
  by (induction bs rule: fullest.induct) (auto split: option.splits)

lemma evict_length: "length (fst (evict bs d)) < MAX_AUTH_CLIENTS"
proof (induction bs d rule: evict.induct)
  case (1 bs d)
  show ?case
    using "1.IH" by (subst evict.simps) (auto simp: fullest_None MAX_AUTH_CLIENTS_def split: option.splits)
qed

lemma evict_displaced:
  "\<lbrakk>\<forall>t\<in>snd ` set bs. available t \<le> n; case d of Some a \<Rightarrow> a \<le> n | None \<Rightarrow> True\<rbrakk> \<Longrightarrow>
     (case snd (evict bs d) of Some a \<Rightarrow> a \<le> n | None \<Rightarrow> True)"
proof (induction bs d rule: evict.induct)
  case (1 bs d)
  have room: "\<forall>t\<in>snd ` set (remove_bucket k bs). available t \<le> n" for k
    using "1.prems"(1) by (auto simp: remove_bucket_def)
  have full: "a \<le> n" if "fullest bs = Some (k, a)" for k a
    using "1.prems"(1) fullest_SomeD [OF that] by force
  show ?case
  proof (cases "MAX_AUTH_CLIENTS \<le> length bs \<and> fullest bs \<noteq> None")
    case True
    then obtain k a where f: "fullest bs = Some (k, a)" and len: "MAX_AUTH_CLIENTS \<le> length bs"
      by auto
    have "case snd (evict (remove_bucket k bs) (Some a)) of Some a \<Rightarrow> a \<le> n | None \<Rightarrow> True"
      using "1.IH" [OF len f refl] room full [OF f] by simp
    then show ?thesis
      using len f by (subst evict.simps) simp
  next
    case False
    then show ?thesis
      using "1.prems"(2) by (subst evict.simps) (auto split: option.splits)
  qed
qed

definition refreshed :: "instant \<Rightarrow> buckets \<Rightarrow> buckets" where
  "refreshed now bs = filter (\<lambda>(k, t). available t < AUTH_ATTEMPT_BURST) (map (\<lambda>(k, t). (k, refill now t)) bs)"

lemma refreshed_mem: "(k, t) \<in> set (refreshed now bs) \<Longrightarrow> \<exists>t0. (k, t0) \<in> set bs \<and> t = refill now t0"
  by (auto simp: refreshed_def)

lemma distinct_refreshed: "distinct (map fst bs) \<Longrightarrow> distinct (map fst (refreshed now bs))"
proof -
  assume d: "distinct (map fst bs)"
  have "map fst (map (\<lambda>(k, t). (k, refill now t)) bs) = map fst bs"
    by (induction bs) auto
  then show ?thesis
    using d unfolding refreshed_def by (intro distinct_map_filter) (simp only:)
qed

lemma make_room_mem:
  "(k, t) \<in> set (fst (make_room_for_a_bucket now bs)) \<Longrightarrow> \<exists>t0. (k, t0) \<in> set bs \<and> (t = t0 \<or> t = refill now t0)"
  unfolding make_room_for_a_bucket_def refreshed_def [symmetric]
  by (auto split: if_splits dest!: subsetD [OF evict_subset] refreshed_mem)

lemma make_room_shape:
  "buckets_ok now bs \<Longrightarrow>
     distinct (map fst (fst (make_room_for_a_bucket now bs))) \<and>
     length (fst (make_room_for_a_bucket now bs)) < MAX_AUTH_CLIENTS"
  unfolding make_room_for_a_bucket_def refreshed_def [symmetric]
  by (auto simp: buckets_ok_def evict_length intro!: evict_distinct distinct_refreshed)

lemma make_room_displaced:
  "buckets_ok now bs \<Longrightarrow>
     (case snd (make_room_for_a_bucket now bs) of Some a \<Rightarrow> a \<le> AUTH_ATTEMPT_BURST | None \<Rightarrow> True)"
  unfolding make_room_for_a_bucket_def refreshed_def [symmetric]
  by (auto intro!: evict_displaced simp: refreshed_def)

lemma enter_bucket_has: "has_bucket key (enter_bucket now key bs)"
  by (cases "make_room_for_a_bucket now bs") (simp add: enter_bucket_def has_bucket_def)

lemma enter_bucket_ok:
  assumes "buckets_ok now bs"
  shows "buckets_ok now (enter_bucket now key bs)"
proof (cases "has_bucket key bs")
  case False
  obtain kept displaced where mr: "make_room_for_a_bucket now bs = (kept, displaced)"
    by (cases "make_room_for_a_bucket now bs")
  have src: "\<exists>t0. (k, t0) \<in> set bs \<and> (t = t0 \<or> t = refill now t0)" if "(k, t) \<in> set kept" for k t
    using make_room_mem [of k t now bs] that mr by simp
  have new: "key \<notin> fst ` set kept"
    using src False unfolding has_bucket_def by (metis (no_types, lifting) image_iff prod.collapse fst_conv)
  have kept: "\<forall>t\<in>snd ` set kept. tokens_ok now t"
    using src assms refill_ok by (force simp: buckets_ok_def)
  have arr: "tokens_ok now (arriving_tokens now displaced)"
    using arriving_ok make_room_displaced [OF assms] mr by simp
  show ?thesis
    using make_room_shape [OF assms] mr False new kept arr
    by (auto simp: enter_bucket_def buckets_ok_def)
qed (use assms in \<open>simp add: enter_bucket_def\<close>)

lemma set_bucket_ok:
  "\<lbrakk>buckets_ok now bs; tokens_ok now t\<rbrakk> \<Longrightarrow> buckets_ok now (set_bucket key t bs)"
  unfolding buckets_ok_def keys_set_bucket by (auto simp: set_bucket_def split: if_splits)

section \<open>Credit\<close>

text \<open>
  What a bucket is worth, in nanoseconds of refill: its budget and the time since its mark, up
  to a burst. Refilling does not change it, a spent comparison takes one interval, a refund
  returns at most one, and a clock step adds at most itself.
\<close>

abbreviation burst_credit :: nat where "burst_credit \<equiv> AUTH_ATTEMPT_BURST * AUTH_ATTEMPT_REFILL"

definition credit :: "instant \<Rightarrow> throttle_tokens \<Rightarrow> nat" where
  "credit now t = min burst_credit (available t * AUTH_ATTEMPT_REFILL + (now - refilled_at t))"

lemma refill_pos: "0 < AUTH_ATTEMPT_REFILL"
  by (simp add: AUTH_ATTEMPT_REFILL_def)

lemma credit_le: "credit now t \<le> burst_credit"
  by (simp add: credit_def)

lemma partial_refill:
  fixes a b r e n :: nat
  assumes "e = n div r" "e < b - a" "0 < r"
  shows "a * r + n < b * r" and "(a + e) * r + (n - r * e) = a * r + n"
proof -
  have n: "n = r * e + n mod r"
    using assms(1) by simp
  have "n mod r < r"
    using assms(3) by simp
  then have "a * r + n < (a + e + 1) * r"
    using n by (simp add: algebra_simps)
  also have "\<dots> \<le> b * r"
    using assms(2) by (intro mult_le_mono1) simp
  finally show "a * r + n < b * r" .
  show "(a + e) * r + (n - r * e) = a * r + n"
    using n by (simp add: algebra_simps)
qed

lemma full_refill:
  fixes a b r n :: nat
  assumes "b - a \<le> n div r"
  shows "b * r \<le> a * r + n"
proof -
  have "b * r \<le> (a + n div r) * r"
    using assms by (intro mult_le_mono1) simp
  also have "\<dots> \<le> a * r + n"
    using div_times_less_eq_dividend [of n r] by (simp add: algebra_simps)
  finally show ?thesis .
qed

lemma refilled_value:
  "available (refill now t) * AUTH_ATTEMPT_REFILL + (now - refilled_at (refill now t)) = credit now t"
proof (cases "AUTH_ATTEMPT_BURST - available t \<le> (now - refilled_at t) div AUTH_ATTEMPT_REFILL")
  case True
  then show ?thesis
    using full_refill [OF True] by (simp add: credit_def refill_def Let_def)
next
  case False
  define e where "e = (now - refilled_at t) div AUTH_ATTEMPT_REFILL"
  have e: "e < AUTH_ATTEMPT_BURST - available t"
    using False e_def by simp
  have t: "available (refill now t) = available t + e \<and>
      refilled_at (refill now t) = refilled_at t + AUTH_ATTEMPT_REFILL * e"
    using False by (auto simp: refill_def Let_def e_def [symmetric])
  have "credit now t = available t * AUTH_ATTEMPT_REFILL + (now - refilled_at t)"
    using partial_refill(1) [OF e_def e refill_pos] by (simp add: credit_def)
  then show ?thesis
    using partial_refill(2) [OF e_def e refill_pos] t by (simp add: diff_diff_eq)
qed

lemma per_interval:
  fixes g n d r :: nat
  assumes "g * r \<le> n * r + d" "0 < r"
  shows "g \<le> n + d div r"
proof -
  have "g * r div r \<le> (d + n * r) div r"
    using assms(1) by (intro div_le_mono) simp
  then show ?thesis
    using assms(2) by simp
qed

lemma refill_credit: "credit now (refill now t) = credit now t"
proof -
  have "credit now (refill now t) = min burst_credit (credit now t)"
    unfolding credit_def [of now "refill now t"] refilled_value ..
  then show ?thesis
    using credit_le [of now t] by simp
qed

lemma refilled_budget:
  "AUTH_ATTEMPT_REFILL \<le> credit now t \<Longrightarrow> tokens_ok now t \<Longrightarrow> 0 < available (refill now t)"
proof (rule ccontr)
  assume c: "AUTH_ATTEMPT_REFILL \<le> credit now t" and ok: "tokens_ok now t"
    and "\<not> 0 < available (refill now t)"
  then have zero: "available (refill now t) = 0" by simp
  show False
  proof (cases "AUTH_ATTEMPT_BURST - available t \<le> (now - refilled_at t) div AUTH_ATTEMPT_REFILL")
    case True
    then show False using zero by (simp add: refill_def Let_def AUTH_ATTEMPT_BURST_def)
  next
    case False
    then have "available t = 0 \<and> (now - refilled_at t) div AUTH_ATTEMPT_REFILL = 0"
      using zero by (auto simp: refill_def Let_def split: if_splits)
    then have "now - refilled_at t < AUTH_ATTEMPT_REFILL \<and> available t = 0"
      using refill_pos by (simp add: div_eq_0_iff)
    then show False
      using c unfolding credit_def by simp
  qed
qed

lemma spend_credit:
  assumes "0 < available (refill now t)"
  shows "credit now ((refill now t)\<lparr> available := available (refill now t) - 1 \<rparr>) + AUTH_ATTEMPT_REFILL
           = credit now t"
proof -
  obtain n where n: "available (refill now t) = Suc n"
    using assms by (cases "available (refill now t)") auto
  have v: "n * AUTH_ATTEMPT_REFILL + (now - refilled_at (refill now t)) + AUTH_ATTEMPT_REFILL = credit now t"
    using refilled_value [of now t] n by simp
  have "credit now ((refill now t)\<lparr> available := n \<rparr>) = n * AUTH_ATTEMPT_REFILL + (now - refilled_at (refill now t))"
    using v credit_le [of now t] unfolding credit_def [of now "(refill now t)\<lparr> available := n \<rparr>"] by simp
  then show ?thesis
    using n v by simp
qed

lemma refund_credit:
  "credit now (t\<lparr> available := min (available t + 1) AUTH_ATTEMPT_BURST \<rparr>) \<le> credit now t + AUTH_ATTEMPT_REFILL"
proof -
  have "min (available t + 1) AUTH_ATTEMPT_BURST * AUTH_ATTEMPT_REFILL \<le> available t * AUTH_ATTEMPT_REFILL + AUTH_ATTEMPT_REFILL"
    using mult_le_mono1 [of "min (available t + 1) AUTH_ATTEMPT_BURST" "available t + 1" AUTH_ATTEMPT_REFILL] by simp
  then show ?thesis
    unfolding credit_def by simp
qed

lemma refund_keeps_credit:
  "available t \<le> AUTH_ATTEMPT_BURST \<Longrightarrow>
     credit now t \<le> credit now (t\<lparr> available := min (available t + 1) AUTH_ATTEMPT_BURST \<rparr>)"
proof -
  assume "available t \<le> AUTH_ATTEMPT_BURST"
  then have "available t * AUTH_ATTEMPT_REFILL \<le> min (available t + 1) AUTH_ATTEMPT_BURST * AUTH_ATTEMPT_REFILL"
    by (intro mult_le_mono1) simp
  then show ?thesis
    unfolding credit_def by (intro min.mono add_mono) simp_all
qed

lemma credit_later: "now \<le> later \<Longrightarrow> credit later t \<le> credit now t + (later - now)"
  unfolding credit_def by simp

lemma credit_grows:
  "\<lbrakk>refilled_at t \<le> now; now \<le> later\<rbrakk> \<Longrightarrow>
     min burst_credit (credit now t + (later - now)) \<le> credit later t"
  unfolding credit_def by simp

definition credit_of :: "throttle_key \<Rightarrow> instant \<Rightarrow> buckets \<Rightarrow> nat" where
  "credit_of key now bs = (case map_of bs key of Some t \<Rightarrow> credit now t | None \<Rightarrow> 0)"

lemma credit_of_le: "credit_of key now bs \<le> burst_credit"
  by (auto simp: credit_of_def credit_le split: option.splits)

section \<open>Runs of the throttle\<close>

text \<open>
  What happens to a throttle over time, from any number of threads: each lookup holds the lock
  for one \<open>spend\<close> or \<open>refund\<close>, the clock moves between them, and the map may be laid out
  anew. An event notes the key, and of a lookup whether it was granted and whether it entered
  a new bucket.
\<close>

datatype throttle_event = Spent throttle_key bool bool | Refunded throttle_key

inductive throttle_run :: "instant \<Rightarrow> auth_throttle \<Rightarrow> throttle_event list \<Rightarrow> instant \<Rightarrow> auth_throttle \<Rightarrow> bool" where
  run_start: "throttle_run t th [] t th"
| run_wait: "\<lbrakk>throttle_run t th es u th'; u \<le> v\<rbrakk> \<Longrightarrow> throttle_run t th es v th'"
| run_rehash: "\<lbrakk>throttle_run t th es u th'; mset bs = mset (th_buckets th')\<rbrakk> \<Longrightarrow>
    throttle_run t th es u (th'\<lparr> th_buckets := bs \<rparr>)"
| run_spend: "\<lbrakk>throttle_run t th es u th'; spend u key th' = (granted, th'')\<rbrakk> \<Longrightarrow>
    throttle_run t th (es @ [Spent key granted (\<not> has_bucket key (th_buckets th'))]) u th''"
| run_refund: "throttle_run t th es u th' \<Longrightarrow>
    throttle_run t th (es @ [Refunded key]) u (refund key th')"

definition throttle_ok :: "instant \<Rightarrow> auth_throttle \<Rightarrow> bool" where
  "throttle_ok now th \<longleftrightarrow> buckets_ok now (th_buckets th)"

fun grants :: "throttle_key \<Rightarrow> throttle_event list \<Rightarrow> nat" where
  "grants key [] = 0"
| "grants key (Spent k granted fresh # es) = (if k = key \<and> granted then 1 else 0) + grants key es"
| "grants key (Refunded k # es) = grants key es"

fun refunds :: "throttle_key \<Rightarrow> throttle_event list \<Rightarrow> nat" where
  "refunds key [] = 0"
| "refunds key (Refunded k # es) = (if k = key then 1 else 0) + refunds key es"
| "refunds key (Spent k granted fresh # es) = refunds key es"

fun arrivals :: "throttle_key \<Rightarrow> throttle_event list \<Rightarrow> nat" where
  "arrivals key [] = 0"
| "arrivals key (Spent k granted fresh # es) = (if k = key \<and> fresh then 1 else 0) + arrivals key es"
| "arrivals key (Refunded k # es) = arrivals key es"

lemma grants_append [simp]: "grants key (es @ fs) = grants key es + grants key fs"
  by (induction key es rule: grants.induct) simp_all

lemma refunds_append [simp]: "refunds key (es @ fs) = refunds key es + refunds key fs"
  by (induction key es rule: refunds.induct) simp_all

lemma arrivals_append [simp]: "arrivals key (es @ fs) = arrivals key es + arrivals key fs"
  by (induction key es rule: arrivals.induct) simp_all

lemma tokens_ok_later: "\<lbrakk>tokens_ok now t; now \<le> later\<rbrakk> \<Longrightarrow> tokens_ok later t"
  by (simp add: tokens_ok_def)

lemma throttle_ok_later: "\<lbrakk>throttle_ok now th; now \<le> later\<rbrakk> \<Longrightarrow> throttle_ok later th"
  unfolding throttle_ok_def buckets_ok_def using tokens_ok_later by blast

lemma map_of_rehash:
  assumes "mset bs = mset cs" "distinct (map fst cs)"
  shows "map_of bs = map_of cs"
proof (rule map_of_inject_set [THEN iffD2])
  show "set bs = set cs" using assms(1) by (rule mset_eq_setD)
  have "mset (map fst bs) = mset (map fst cs)" using assms(1) by simp
  then show "distinct (map fst bs)" using assms(2) by (metis mset_eq_imp_distinct_iff)
qed (fact assms(2))

lemma buckets_ok_rehash: "\<lbrakk>buckets_ok now cs; mset bs = mset cs\<rbrakk> \<Longrightarrow> buckets_ok now bs"
proof -
  assume ok: "buckets_ok now cs" and eq: "mset bs = mset cs"
  have "mset (map fst bs) = mset (map fst cs)" using eq by simp
  then have "distinct (map fst bs)"
    using ok by (metis buckets_ok_def mset_eq_imp_distinct_iff)
  then show ?thesis
    using ok mset_eq_setD [OF eq] mset_eq_length [OF eq] by (simp add: buckets_ok_def)
qed

lemma the_bucket_ok: "\<lbrakk>buckets_ok now bs; has_bucket key bs\<rbrakk> \<Longrightarrow> tokens_ok now (the (map_of bs key))"
proof -
  assume ok: "buckets_ok now bs" and "has_bucket key bs"
  then obtain t where t: "map_of bs key = Some t" by (auto simp: has_bucket_map_of)
  then have "t \<in> snd ` set bs" by (force dest: map_of_SomeD)
  then show ?thesis using ok t by (auto simp: buckets_ok_def)
qed

lemma spend_ok: "throttle_ok now th \<Longrightarrow> throttle_ok now (snd (spend now key th))"
proof -
  assume ok: "throttle_ok now th"
  define bs where "bs = enter_bucket now key (th_buckets th)"
  have bs: "buckets_ok now bs" "has_bucket key bs"
    using ok enter_bucket_ok enter_bucket_has by (auto simp: bs_def throttle_ok_def)
  have t: "tokens_ok now (refill now (the (map_of bs key)))"
    using refill_ok the_bucket_ok [OF bs] by blast
  then have "tokens_ok now ((refill now (the (map_of bs key)))\<lparr> available := n \<rparr>)"
    if "n \<le> available (refill now (the (map_of bs key)))" for n
    using that by (simp add: tokens_ok_def)
  then show ?thesis
    using ok t bs set_bucket_ok by (auto simp: spend_def Let_def bs_def [symmetric] throttle_ok_def)
qed

lemma refund_ok: "throttle_ok now th \<Longrightarrow> throttle_ok now (refund key th)"
proof (cases "map_of (th_buckets th) key")
  case (Some t)
  assume ok: "throttle_ok now th"
  have "tokens_ok now t"
    using the_bucket_ok [of now "th_buckets th" key] ok Some by (simp add: throttle_ok_def has_bucket_map_of)
  then have "tokens_ok now (t\<lparr> available := min (available t + 1) AUTH_ATTEMPT_BURST \<rparr>)"
    by (simp add: tokens_ok_def)
  then show ?thesis
    using ok Some set_bucket_ok by (auto simp: refund_def throttle_ok_def)
qed (simp add: refund_def)

lemma throttle_run_ok: "\<lbrakk>throttle_run t th es u th'; throttle_ok t th\<rbrakk> \<Longrightarrow> t \<le> u \<and> throttle_ok u th'"
proof (induction rule: throttle_run.induct)
  case (run_spend t th es u th' key granted th'')
  then show ?case using spend_ok [of u th' key] by simp
next
  case (run_rehash t th es u th' bs)
  then show ?case using buckets_ok_rehash by (auto simp: throttle_ok_def)
qed (auto intro: throttle_ok_later refund_ok)

text \<open>Entering a bucket can take other keys' credit away and gives them none.\<close>

lemma enter_bucket_other:
  assumes ok: "buckets_ok now bs" and "k \<noteq> key" and t: "map_of (enter_bucket now key bs) k = Some t"
  obtains t0 where "map_of bs k = Some t0" "t = t0 \<or> t = refill now t0"
proof (cases "has_bucket key bs")
  case True
  then show ?thesis using t that by (simp add: enter_bucket_def)
next
  case False
  obtain kept displaced where mr: "make_room_for_a_bucket now bs = (kept, displaced)"
    by (cases "make_room_for_a_bucket now bs")
  have "map_of kept k = Some t"
    using t False mr assms(2) by (auto simp: enter_bucket_def map_add_def split: option.splits if_splits)
  then have "(k, t) \<in> set (fst (make_room_for_a_bucket now bs))"
    using mr by (auto dest: map_of_SomeD)
  then obtain t0 where "(k, t0) \<in> set bs" and t0: "t = t0 \<or> t = refill now t0"
    using make_room_mem by blast
  then have "map_of bs k = Some t0"
    using ok by (simp add: buckets_ok_def)
  then show ?thesis using t0 that by blast
qed

lemma enter_credit_other:
  assumes "buckets_ok now bs" "k \<noteq> key"
  shows "credit_of k now (enter_bucket now key bs) \<le> credit_of k now bs"
proof (cases "map_of (enter_bucket now key bs) k")
  case (Some t)
  obtain t0 where "map_of bs k = Some t0" "t = t0 \<or> t = refill now t0"
    by (rule enter_bucket_other [OF assms Some])
  then show ?thesis
    using Some refill_credit by (auto simp: credit_of_def)
qed (simp add: credit_of_def)

lemma spend_credit_other:
  assumes "throttle_ok now th" "k \<noteq> key"
  shows "credit_of k now (th_buckets (snd (spend now key th))) \<le> credit_of k now (th_buckets th)"
  using enter_credit_other [of now "th_buckets th" k key] assms
  by (auto simp: spend_def Let_def credit_of_def map_of_set_bucket throttle_ok_def)

lemma spend_credit_own:
  assumes "throttle_ok now th" "spend now key th = (granted, th')"
  shows "(if granted then AUTH_ATTEMPT_REFILL else 0) + credit_of key now (th_buckets th') \<le>
           (if has_bucket key (th_buckets th) then credit_of key now (th_buckets th) else burst_credit)"
proof (cases "th_poisoned th")
  case True
  then show ?thesis
    using assms(2) by (auto simp: spend_def credit_of_le)
next
  case False
  define bs where "bs = enter_bucket now key (th_buckets th)"
  have has: "has_bucket key bs" unfolding bs_def by (rule enter_bucket_has)
  then obtain t where t: "map_of bs key = Some t" by (auto simp: has_bucket_map_of)
  have start: "credit now t \<le> (if has_bucket key (th_buckets th) then credit_of key now (th_buckets th) else burst_credit)"
    using t credit_le [of now t] by (auto simp: bs_def enter_bucket_def credit_of_def)
  show ?thesis
  proof (cases "available (refill now t) = 0")
    case True
    then show ?thesis
      using assms(2) False t has start refill_credit [of now t]
      by (auto simp: spend_def Let_def bs_def [symmetric] credit_of_def map_of_set_bucket)
  next
    case fuel: False
    have "credit now ((refill now t)\<lparr> available := available (refill now t) - 1 \<rparr>) + AUTH_ATTEMPT_REFILL = credit now t"
      using fuel by (intro spend_credit) simp
    then show ?thesis
      using assms(2) False t has start fuel
      by (auto simp: spend_def Let_def bs_def [symmetric] credit_of_def map_of_set_bucket)
  qed
qed

lemma refund_credit_of:
  "credit_of k now (th_buckets (refund key th)) \<le>
     credit_of k now (th_buckets th) + (if k = key then AUTH_ATTEMPT_REFILL else 0)"
proof (cases "map_of (th_buckets th) key")
  case (Some t)
  then show ?thesis
    using refund_credit [of now t] by (auto simp: refund_def credit_of_def map_of_set_bucket)
qed (simp add: refund_def)

lemma credit_of_later: "now \<le> later \<Longrightarrow> credit_of k later bs \<le> credit_of k now bs + (later - now)"
  using credit_later by (auto simp: credit_of_def split: option.splits)

lemma throttle_accounting:
  assumes "throttle_run t th es u th'" "throttle_ok t th"
  shows "grants key es * AUTH_ATTEMPT_REFILL + credit_of key u (th_buckets th') \<le>
     refunds key es * AUTH_ATTEMPT_REFILL + arrivals key es * burst_credit +
     credit_of key t (th_buckets th) + (u - t)"
  using assms
proof (induction rule: throttle_run.induct)
  case (run_wait t th es u th' v)
  have "t \<le> u" using throttle_run_ok [OF run_wait.hyps(1) run_wait.prems] by simp
  then show ?case
    using run_wait credit_of_later [of u v key "th_buckets th'"] by simp
next
  case (run_rehash t th es u th' bs)
  have "map_of bs = map_of (th_buckets th')"
    using map_of_rehash [OF run_rehash.hyps(2)] throttle_run_ok [OF run_rehash.hyps(1) run_rehash.prems]
    by (simp add: throttle_ok_def buckets_ok_def)
  then show ?case
    using run_rehash by (simp add: credit_of_def)
next
  case (run_spend t th es u th' k granted th'')
  have ok: "throttle_ok u th'" using throttle_run_ok [OF run_spend.hyps(1) run_spend.prems] by simp
  show ?case
  proof (cases "k = key")
    case True
    have "credit_of key u (th_buckets th') = 0" if "\<not> has_bucket key (th_buckets th')"
      using that by (simp add: credit_of_def has_bucket_map_of)
    then show ?thesis
      using spend_credit_own [OF ok run_spend.hyps(2)] run_spend True
      by (cases "has_bucket key (th_buckets th')"; cases granted) (simp_all add: algebra_simps)
  next
    case False
    then show ?thesis
      using spend_credit_other [OF ok, of key k] run_spend by simp
  qed
next
  case (run_refund t th es u th' k)
  then show ?case
    using refund_credit_of [of key u k th'] by (cases "k = key") (simp_all add: algebra_simps)
qed simp

section \<open>Bounds and availability\<close>

lemma spend_poisoned [simp]: "th_poisoned (snd (spend now key th)) = th_poisoned th"
  by (simp add: spend_def Let_def)

lemma refund_poisoned [simp]: "th_poisoned (refund key th) = th_poisoned th"
  by (simp add: refund_def split: option.split)

lemma run_poisoned: "throttle_run t th es u th' \<Longrightarrow> th_poisoned th' = th_poisoned th"
proof (induction rule: throttle_run.induct)
  case (run_spend t th es u th' key granted th'')
  then show ?case using spend_poisoned [of u key th'] by simp
qed auto

text \<open>The keys that were looked up; while they fit the map, none of them loses its bucket.\<close>

fun looked_up :: "throttle_event list \<Rightarrow> throttle_key set" where
  "looked_up [] = {}"
| "looked_up (Spent k granted fresh # es) = insert k (looked_up es)"
| "looked_up (Refunded k # es) = looked_up es"

lemma looked_up_append [simp]: "looked_up (es @ fs) = looked_up es \<union> looked_up fs"
  by (induction es rule: looked_up.induct) simp_all

lemma keys_refund: "fst ` set (th_buckets (refund k th)) = fst ` set (th_buckets th)"
proof -
  have "map fst (th_buckets (refund k th)) = map fst (th_buckets th)"
    by (simp add: refund_def split: option.split)
  then show ?thesis by (metis set_map)
qed

lemma keys_spend:
  "\<not> th_poisoned th \<Longrightarrow>
     fst ` set (th_buckets (snd (spend now k th))) = fst ` set (enter_bucket now k (th_buckets th))"
proof -
  assume "\<not> th_poisoned th"
  then have "map fst (th_buckets (snd (spend now k th))) = map fst (enter_bucket now k (th_buckets th))"
    by (simp add: spend_def Let_def)
  then show ?thesis by (metis set_map)
qed

lemma few_keys_arrive_once:
  assumes "throttle_run t th es u th'" "th = throttle_new" "card (looked_up es) \<le> MAX_AUTH_CLIENTS"
  shows "fst ` set (th_buckets th') = looked_up es \<and> arrivals key es = (if key \<in> looked_up es then 1 else 0)"
  using assms
proof (induction rule: throttle_run.induct)
  case (run_start t th)
  then show ?case by (simp add: throttle_new_def)
next
  case (run_rehash t th es u th' bs)
  then show ?case using mset_eq_setD [OF run_rehash.hyps(2)] by simp
next
  case (run_spend t th es u th' k granted th'')
  have new: "throttle_ok t throttle_new" by (simp add: throttle_ok_def throttle_new_def buckets_ok_def)
  have fin: "finite (looked_up es)" by (induction es rule: looked_up.induct) auto
  have card: "card (looked_up es) \<le> MAX_AUTH_CLIENTS"
    using run_spend.prems(2) card_insert_le [of "looked_up es" k] by (simp add: insert_absorb)
  have ih: "fst ` set (th_buckets th') = looked_up es"
      "arrivals key es = (if key \<in> looked_up es then 1 else 0)"
    using run_spend.IH run_spend.prems(1) card by auto
  have ok: "buckets_ok u (th_buckets th')"
    using throttle_run_ok [OF run_spend.hyps(1)] run_spend.prems(1) new by (simp add: throttle_ok_def)
  have live: "\<not> th_poisoned th'"
    using run_poisoned [OF run_spend.hyps(1)] run_spend.prems(1) by (simp add: throttle_new_def)
  have room: "length (th_buckets th') < MAX_AUTH_CLIENTS" if "k \<notin> looked_up es"
  proof -
    have "card (fst ` set (th_buckets th')) = length (th_buckets th')"
      using ok by (metis buckets_ok_def distinct_card length_map set_map)
    moreover have "card (insert k (looked_up es)) = Suc (card (looked_up es))"
      using that fin by simp
    ultimately show ?thesis using run_spend.prems(2) ih by simp
  qed
  have keys: "fst ` set (enter_bucket u k (th_buckets th')) = insert k (looked_up es)"
    using ih room by (auto simp: enter_bucket_def has_bucket_def make_room_for_a_bucket_def)
  have "fst ` set (th_buckets th'') = insert k (looked_up es)"
    using keys_spend [OF live, of u k] run_spend.hyps(2) keys by simp
  then show ?case
    using ih by (auto simp: has_bucket_def)
qed (auto simp: keys_refund)

text \<open>
  C27: guessing is metered. Over any run of the throttle, whatever other clients do and however the
  operations interleave, the comparisons granted to a client on a channel exceed those
  handed back for a match by at most a burst for each time its bucket was entered, the one it
  started with included, and one per refill interval. While the clients seen
  since the start fit the map no bucket is entered twice: the wrong guesses of a client are at
  most a burst and one per interval.
\<close>

theorem guesses_are_metered:
  assumes "throttle_run t th es u th'" "throttle_ok t th"
  shows "grants key es \<le> refunds key es +
           AUTH_ATTEMPT_BURST * (arrivals key es + (if has_bucket key (th_buckets th) then 1 else 0)) +
           (u - t) div AUTH_ATTEMPT_REFILL \<and>
         (th = throttle_new \<and> card (looked_up es) \<le> MAX_AUTH_CLIENTS \<longrightarrow>
           grants key es \<le> refunds key es + AUTH_ATTEMPT_BURST + (u - t) div AUTH_ATTEMPT_REFILL)"
proof -
  define b where "b = (if has_bucket key (th_buckets th) then 1 else 0 :: nat)"
  have start: "credit_of key t (th_buckets th) \<le> b * burst_credit"
    using credit_of_le by (simp add: credit_of_def has_bucket_map_of b_def)
  define n where "n = refunds key es + AUTH_ATTEMPT_BURST * (arrivals key es + b)"
  have "grants key es * AUTH_ATTEMPT_REFILL \<le> n * AUTH_ATTEMPT_REFILL + (u - t)"
    using throttle_accounting [OF assms, of key] start by (simp add: n_def algebra_simps)
  then have bound: "grants key es \<le> n + (u - t) div AUTH_ATTEMPT_REFILL"
    using refill_pos by (rule per_interval)
  have "grants key es \<le> refunds key es + AUTH_ATTEMPT_BURST + (u - t) div AUTH_ATTEMPT_REFILL"
    if new: "th = throttle_new" and few: "card (looked_up es) \<le> MAX_AUTH_CLIENTS"
  proof -
    have "arrivals key es \<le> 1"
      using few_keys_arrive_once [OF assms(1) new few, of key] by simp
    then have "AUTH_ATTEMPT_BURST * (arrivals key es + b) \<le> AUTH_ATTEMPT_BURST"
      using new by (simp add: throttle_new_def has_bucket_def b_def)
    then show ?thesis
      using bound n_def by linarith
  qed
  then show ?thesis
    using bound unfolding n_def b_def by blast
qed

text \<open>Two lookups of one client, the first of them matched.\<close>

definition guest :: throttle_key where
  "guest = \<lparr> tk_client = Peer (V4 0xC0000201), tk_channel = Interactive \<rparr>"

definition guest_left :: "nat \<Rightarrow> auth_throttle" where
  "guest_left n = \<lparr> th_buckets = [(guest, \<lparr> available = n, refilled_at = 0 \<rparr>)], th_poisoned = False \<rparr>"

lemma guest_steps:
  "spend 0 guest throttle_new = (True, guest_left 15)"
  "refund guest (guest_left 15) = guest_left 16"
  "spend 0 guest (guest_left 16) = (True, guest_left 15)"
  by (simp_all add: spend_def refund_def throttle_new_def guest_left_def enter_bucket_def has_bucket_def
      make_room_for_a_bucket_def arriving_tokens_def full_tokens_def refill_def set_bucket_def
      MAX_AUTH_CLIENTS_def AUTH_ATTEMPT_BURST_def AUTH_ATTEMPT_REFILL_def)

lemma guest_run:
  "throttle_run 0 throttle_new [Spent guest True True, Refunded guest, Spent guest True False] 50000000 (guest_left 15)"
proof -
  have "throttle_run 0 throttle_new [Spent guest True True] 0 (guest_left 15)"
    using run_spend [OF run_start guest_steps(1)] by (simp add: throttle_new_def has_bucket_def)
  then have "throttle_run 0 throttle_new [Spent guest True True, Refunded guest] 0 (guest_left 16)"
    using run_refund [of 0 throttle_new "[Spent guest True True]" 0 "guest_left 15" guest] guest_steps(2) by simp
  then have "throttle_run 0 throttle_new [Spent guest True True, Refunded guest, Spent guest True False] 0 (guest_left 15)"
    using run_spend [OF _ guest_steps(3), of 0 throttle_new "[Spent guest True True, Refunded guest]"]
    by (simp add: guest_left_def has_bucket_def)
  then show ?thesis
    by (rule run_wait) simp
qed

lemma throttle_new_ok: "throttle_ok t throttle_new"
  by (simp add: throttle_ok_def throttle_new_def buckets_ok_def)

theorem guesses_are_metered_witness:
  "grants guest [Spent guest True True, Refunded guest, Spent guest True False] \<le> 1 + 16 + 0"
  using guesses_are_metered [OF guest_run throttle_new_ok, of guest]
  by (simp add: AUTH_ATTEMPT_REFILL_def AUTH_ATTEMPT_BURST_def MAX_AUTH_CLIENTS_def)

text \<open>A bucket nobody spends from only fills, whatever happens to the others.\<close>

lemma unspent_credit:
  assumes "throttle_run t th es u th'" "throttle_ok t th" "key \<notin> looked_up es"
    "map_of (th_buckets th') key = Some tok"
  shows "min burst_credit (u - t) \<le> credit u tok"
  using assms
proof (induction arbitrary: tok rule: throttle_run.induct)
  case (run_wait t th es u th' v)
  have ok: "t \<le> u \<and> throttle_ok u th'" using throttle_run_ok [OF run_wait.hyps(1) run_wait.prems(1)] .
  then have "tokens_ok u tok"
    using the_bucket_ok [of u "th_buckets th'" key] run_wait.prems(3)
    by (simp add: throttle_ok_def has_bucket_map_of)
  then have "min burst_credit (credit u tok + (v - u)) \<le> credit v tok"
    using run_wait.hyps(2) by (intro credit_grows) (simp_all add: tokens_ok_def)
  moreover have "min burst_credit (u - t) \<le> credit u tok"
    using run_wait.IH run_wait.prems by simp
  ultimately show ?case using ok run_wait.hyps(2) by linarith
next
  case (run_rehash t th es u th' bs)
  have "map_of bs = map_of (th_buckets th')"
    using map_of_rehash [OF run_rehash.hyps(2)] throttle_run_ok [OF run_rehash.hyps(1) run_rehash.prems(1)]
    by (simp add: throttle_ok_def buckets_ok_def)
  then show ?case using run_rehash by simp
next
  case (run_spend t th es u th' k granted th'')
  have ok: "buckets_ok u (th_buckets th')"
    using throttle_run_ok [OF run_spend.hyps(1) run_spend.prems(1)] by (simp add: throttle_ok_def)
  have other: "key \<noteq> k" "key \<notin> looked_up es" using run_spend.prems(2) by auto
  have "\<exists>t0. map_of (th_buckets th') key = Some t0 \<and> (tok = t0 \<or> tok = refill u t0)"
  proof (cases "th_poisoned th'")
    case True
    then show ?thesis using run_spend.hyps(2) run_spend.prems(3) by (auto simp: spend_def)
  next
    case False
    then have "map_of (enter_bucket u k (th_buckets th')) key = Some tok"
      using run_spend.hyps(2) run_spend.prems(3) other
      by (auto simp: spend_def Let_def map_of_set_bucket split: if_splits)
    then show ?thesis
      by (rule enter_bucket_other [OF ok other(1)]) blast
  qed
  then show ?case
    using run_spend.IH run_spend.prems(1) other refill_credit by auto
next
  case (run_refund t th es u th' k)
  have ok: "buckets_ok u (th_buckets th')"
    using throttle_run_ok [OF run_refund.hyps(1) run_refund.prems(1)] by (simp add: throttle_ok_def)
  obtain t0 where t0: "map_of (th_buckets th') key = Some t0"
      "tok = t0 \<or> tok = t0\<lparr> available := min (available t0 + 1) AUTH_ATTEMPT_BURST \<rparr>"
    using run_refund.prems(3)
    by (cases "map_of (th_buckets th') k"; cases "k = key"; cases "th_poisoned th'")
       (auto simp: refund_def map_of_set_bucket has_bucket_map_of split: if_splits)
  have "available t0 \<le> AUTH_ATTEMPT_BURST"
    using the_bucket_ok [OF ok, of key] t0(1) by (simp add: has_bucket_map_of tokens_ok_def)
  then have "credit u t0 \<le> credit u tok"
    using t0(2) refund_keeps_credit [of t0 u] by auto
  then show ?case
    using run_refund.IH [OF run_refund.prems(1) _ t0(1)] run_refund.prems(2) by simp
qed simp

lemma refill_only_adds: "tokens_ok now t \<Longrightarrow> available t \<le> available (refill now t)"
  by (auto simp: refill_def Let_def tokens_ok_def)

text \<open>
  No lockout. A client that made no attempt on a channel for one refill interval is heard at
  its next one, whatever every other client did meanwhile, and on the other channel: a flood
  cannot keep it refused.
\<close>

theorem no_lockout:
  assumes run: "throttle_run t th es u th'" and ok: "throttle_ok t th" and live: "\<not> th_poisoned th"
    and quiet: "key \<notin> looked_up es" and wait: "t + AUTH_ATTEMPT_REFILL \<le> u"
  shows "fst (spend u key th')"
proof -
  have live': "\<not> th_poisoned th'" using run_poisoned [OF run] live by simp
  have ok': "buckets_ok u (th_buckets th')" using throttle_run_ok [OF run ok] by (simp add: throttle_ok_def)
  define bs where "bs = enter_bucket u key (th_buckets th')"
  have bs: "buckets_ok u bs" "has_bucket key bs"
    using enter_bucket_ok [OF ok'] enter_bucket_has by (auto simp: bs_def)
  then obtain tok where tok: "map_of bs key = Some tok" "tokens_ok u tok"
    using the_bucket_ok [OF bs] by (auto simp: has_bucket_map_of)
  have "0 < available (refill u tok)"
  proof (cases "has_bucket key (th_buckets th')")
    case True
    then have "map_of (th_buckets th') key = Some tok"
      using tok(1) by (simp add: bs_def enter_bucket_def)
    then have "min burst_credit (u - t) \<le> credit u tok"
      by (rule unspent_credit [OF run ok quiet])
    moreover have "AUTH_ATTEMPT_REFILL \<le> burst_credit" by (simp add: AUTH_ATTEMPT_BURST_def)
    ultimately have "AUTH_ATTEMPT_REFILL \<le> credit u tok" using wait by linarith
    then show ?thesis using tok(2) by (rule refilled_budget)
  next
    case False
    obtain kept displaced where mr: "make_room_for_a_bucket u (th_buckets th') = (kept, displaced)"
      by (cases "make_room_for_a_bucket u (th_buckets th')")
    have "map_of kept key = None"
    proof (rule ccontr)
      assume "map_of kept key \<noteq> None"
      then obtain t1 where "(key, t1) \<in> set (fst (make_room_for_a_bucket u (th_buckets th')))"
        using mr by (auto dest: map_of_SomeD)
      then show False
        using make_room_mem False unfolding has_bucket_def by force
    qed
    then have "tok = arriving_tokens u displaced"
      using tok(1) False mr by (simp add: bs_def enter_bucket_def map_add_def)
    then have "1 \<le> available tok"
      using arriving_ok make_room_displaced [OF ok'] mr by simp
    then show ?thesis
      using refill_only_adds [OF tok(2)] by simp
  qed
  then show ?thesis
    using live' tok by (simp add: spend_def Let_def bs_def [symmetric])
qed

text \<open>The guest spent its last comparison; one interval later it is heard again.\<close>

theorem no_lockout_witness: "fst (spend 100000000 guest (guest_left 0))"
proof -
  have "throttle_ok 0 (guest_left 0)"
    by (simp add: throttle_ok_def buckets_ok_def guest_left_def tokens_ok_def MAX_AUTH_CLIENTS_def)
  moreover have "throttle_run 0 (guest_left 0) [] 100000000 (guest_left 0)"
    by (rule run_wait [OF run_start]) simp
  ultimately show ?thesis
    using no_lockout [of 0 "guest_left 0" "[]" 100000000 "guest_left 0" guest]
    by (simp add: AUTH_ATTEMPT_REFILL_def guest_left_def)
qed

text \<open>
  What a full map costs an arriving client. When every tracked bucket is still spent, the
  fullest gives way, the others are kept, and the newcomer starts from what was left in it, one
  comparison at least: no fresh burst comes out of displacing a spent bucket.
\<close>

lemma fullest_max: "fullest bs = Some (k, a) \<Longrightarrow> \<forall>t\<in>snd ` set bs. available t \<le> a"
proof (induction bs arbitrary: k a rule: fullest.induct)
  case (2 key tokens bs)
  show ?case
  proof (cases "fullest bs")
    case None
    then show ?thesis using "2.prems" by (simp add: fullest_None)
  next
    case (Some p)
    obtain k' a' where p: "p = (k', a')" by (cases p)
    have "\<forall>t\<in>snd ` set bs. available t \<le> a'" using "2.IH" Some p by simp
    moreover have "a' \<le> a \<and> available tokens \<le> a" using "2.prems" Some p by (auto split: if_splits)
    ultimately show ?thesis by auto
  qed
qed simp

lemma remove_bucket_length:
  "\<lbrakk>distinct (map fst bs); (k, t) \<in> set bs\<rbrakk> \<Longrightarrow> Suc (length (remove_bucket k bs)) = length bs"
proof (induction bs)
  case (Cons b bs)
  show ?case
  proof (cases "fst b = k")
    case True
    then have "remove_bucket k bs = bs"
      using Cons.prems(1) unfolding remove_bucket_def by (intro filter_True) (auto simp: image_iff)
    then show ?thesis using True by (simp add: remove_bucket_def case_prod_beta')
  next
    case False
    then show ?thesis using Cons by (auto simp: remove_bucket_def case_prod_beta')
  qed
qed simp

theorem displacing_grants_no_burst:
  assumes ok: "buckets_ok now bs" and new: "\<not> has_bucket key bs"
    and crowded: "length bs = MAX_AUTH_CLIENTS" "length (refreshed now bs) = MAX_AUTH_CLIENTS"
  obtains k a where "\<forall>t\<in>snd ` set (refreshed now bs). available t \<le> a"
    "enter_bucket now key bs = remove_bucket k (refreshed now bs) @ [(key, \<lparr> available = max a 1, refilled_at = now \<rparr>)]"
    "a < AUTH_ATTEMPT_BURST"
proof -
  have "refreshed now bs \<noteq> []" using crowded(2) by (auto simp: MAX_AUTH_CLIENTS_def)
  then obtain k a where f: "fullest (refreshed now bs) = Some (k, a)"
    using fullest_None by (cases "fullest (refreshed now bs)") auto
  obtain t where t: "(k, t) \<in> set (refreshed now bs)" "available t = a"
    using fullest_SomeD [OF f] by blast
  have a: "a < AUTH_ATTEMPT_BURST" using t by (auto simp: refreshed_def)
  have "Suc (length (remove_bucket k (refreshed now bs))) = MAX_AUTH_CLIENTS"
    using remove_bucket_length [OF distinct_refreshed t(1)] ok crowded by (simp add: buckets_ok_def)
  then have "evict (refreshed now bs) None = (remove_bucket k (refreshed now bs), Some a)"
    using f crowded(2) by (subst evict.simps, subst evict.simps) simp
  then have "make_room_for_a_bucket now bs = (remove_bucket k (refreshed now bs), Some a)"
    using crowded(1) by (simp add: make_room_for_a_bucket_def refreshed_def)
  then show ?thesis
    using that fullest_max [OF f] a new by (simp add: enter_bucket_def arriving_tokens_def)
qed

section \<open>Trusted proxies\<close>

text \<open>
  What a deployment promises with \<^verbatim>\<open>trusted_proxy_hops\<close>: each of its proxies adds the address it
  saw to the end of the chain. Two ways to do it are in use, an entry appended to the last
  header line and a header line of its own.
\<close>

locale appending_proxy =
  fixes append_entry :: "string \<Rightarrow> headers \<Rightarrow> headers"
    and entry_ok :: "string \<Rightarrow> bool"
  assumes appends: "entry_ok entry \<Longrightarrow> forwarded_chain (append_entry entry hs) = forwarded_chain hs @ [entry]"
begin

lemma chain_through:
  "list_all entry_ok seen \<Longrightarrow> forwarded_chain (fold append_entry seen hs) = forwarded_chain hs @ seen"
  by (induction seen arbitrary: hs) (auto simp: appends)

text \<open>The client is what the outermost proxy saw, whatever headers arrived at it.\<close>

lemma forwarded_through:
  assumes "list_all entry_ok (entry # inner)"
  shows "forwarded_client (fold append_entry (entry # inner) hs) (Suc (length inner)) =
           Option.bind (str_from_utf8 entry) (\<lambda>e. map_option peer (forwarded_address e))"
  using chain_through [OF assms, of hs] by (simp add: forwarded_client_def nth_append Let_def)

end

definition proxy_entry_ok :: "string \<Rightarrow> bool" where
  "proxy_entry_ok e \<longleftrightarrow> e \<noteq> [] \<and> trim_ascii e = e \<and> CHR '','' \<notin> set e"

definition own_line :: "string \<Rightarrow> headers \<Rightarrow> headers" where
  "own_line entry hs = hs @ [(''x-forwarded-for'', entry)]"

fun join_last :: "string \<Rightarrow> string list \<Rightarrow> string list" where
  "join_last entry [] = [entry]"
| "join_last entry [v] = [v @ '', '' @ entry]"
| "join_last entry (v # w # vs) = v # join_last entry (w # vs)"

definition one_line :: "string \<Rightarrow> headers \<Rightarrow> headers" where
  "one_line entry hs =
     filter (\<lambda>(n, v). n \<noteq> ''x-forwarded-for'') hs @
     map (Pair ''x-forwarded-for'') (join_last entry (get_all hs ''x-forwarded-for''))"

lemma split_on_no_sep: "sep \<notin> set s \<Longrightarrow> split_on sep s = [s]"
  by (induction s) auto

lemma split_on_append:
  "split_on sep (s @ sep # t) = split_on sep s @ split_on sep t"
proof (induction s)
  case (Cons c s)
  have "split_on sep s \<noteq> []" by (induction s) (auto split: list.splits)
  then show ?case using Cons by (auto split: list.splits)
qed simp

lemma trim_leading_space: "trim_ascii (CHR '' '' # e) = trim_ascii e"
  by (simp add: trim_ascii_def is_ascii_whitespace_def)

lemma get_all_append: "get_all (hs @ ks) name = get_all hs name @ get_all ks name"
  by (simp add: get_all_def)

definition chain_entries :: "string list \<Rightarrow> string list" where
  "chain_entries vs = filter (\<lambda>entry. entry \<noteq> []) (map trim_ascii (concat (map (split_on CHR '','') vs)))"

lemma chain_entries_append: "chain_entries (vs @ ws) = chain_entries vs @ chain_entries ws"
  by (simp add: chain_entries_def)

lemma chain_entries_entry: "proxy_entry_ok e \<Longrightarrow> chain_entries [e] = [e]"
  by (simp add: chain_entries_def split_on_no_sep proxy_entry_ok_def)

lemma chain_entries_join: "proxy_entry_ok e \<Longrightarrow> chain_entries (join_last e vs) = chain_entries vs @ [e]"
proof (induction e vs rule: join_last.induct)
  case (1 entry)
  then show ?case by (simp add: chain_entries_entry) (simp add: chain_entries_def)
next
  case (2 entry v)
  have "CHR '','' \<notin> set (CHR '' '' # entry)" using 2 by (simp add: proxy_entry_ok_def)
  then have "split_on CHR '','' (v @ '', '' @ entry) = split_on CHR '','' v @ [CHR '' '' # entry]"
    using split_on_append [of "CHR '',''" v "CHR '' '' # entry"] by (simp add: split_on_no_sep)
  then show ?case using 2 by (simp add: chain_entries_def trim_leading_space proxy_entry_ok_def)
next
  case (3 entry v w vs)
  then show ?case by (simp add: chain_entries_def)
qed

lemma get_all_one_line: "get_all (one_line e hs) ''x-forwarded-for'' = join_last e (get_all hs ''x-forwarded-for'')"
proof -
  have "get_all (filter (\<lambda>(n, v). n \<noteq> name) hs) name = []" for name and hs :: headers
    by (auto simp: get_all_def filter_empty_conv)
  moreover have "get_all (map (Pair name) vs) name = vs" for name and vs :: "string list"
    by (induction vs) (auto simp: get_all_def)
  ultimately show ?thesis by (simp add: one_line_def get_all_append)
qed

lemma forwarded_chain_entries: "forwarded_chain hs = chain_entries (get_all hs ''x-forwarded-for'')"
  by (simp add: forwarded_chain_def chain_entries_def)

interpretation line_proxy: appending_proxy own_line proxy_entry_ok
proof unfold_locales
  fix entry :: string and hs
  assume "proxy_entry_ok entry"
  then show "forwarded_chain (own_line entry hs) = forwarded_chain hs @ [entry]"
    by (simp add: forwarded_chain_entries own_line_def get_all_append chain_entries_append chain_entries_entry)
       (simp add: get_all_def chain_entries_entry)
qed

interpretation join_proxy: appending_proxy one_line proxy_entry_ok
  by unfold_locales (simp add: forwarded_chain_entries get_all_one_line chain_entries_join)

text \<open>
  C28: the client cannot choose the bucket it is charged to. Behind as many proxies as are trusted,
  a request is charged to what the outermost of them saw, whatever \<^verbatim>\<open>X-Forwarded-For\<close> lines the
  client sent, and to the socket peer when that names no address.
\<close>

theorem forged_chain_ignored:
  assumes "list_all proxy_entry_ok (seen # inner)" "add = own_line \<or> add = one_line"
  shows "client_of (Suc (length inner)) (fold add (seen # inner) sent) connect_info =
           (case Option.bind (str_from_utf8 seen) forwarded_address of
              Some address \<Rightarrow> peer address
            | None \<Rightarrow> client_of_peer connect_info)"
  using assms(2) line_proxy.forwarded_through [OF assms(1), of sent] join_proxy.forwarded_through [OF assms(1), of sent]
  by (auto simp: client_of_def split: option.splits Option.bind_splits)

lemma number_example:
  "read_number 10 (Some 3) False 255 ''203.0.113.7'' = Some (203, ''.0.113.7'')"
  "read_number 10 (Some 3) False 255 ''0.113.7'' = Some (0, ''.113.7'')"
  "read_number 10 (Some 3) False 255 ''113.7'' = Some (113, ''.7'')"
  "read_number 10 (Some 3) False 255 ''7'' = Some (7, [])"
  by (simp_all add: read_number_def is_digit_in_def digit_value_def to_lower_def)

lemma parse_example: "parse_ip ''203.0.113.7'' = Some (V4 0xCB007107)"
proof -
  have "read_octets i 4 s = read_octets i (Suc (Suc (Suc (Suc 0)))) s" for i s
    by (simp add: numeral_eq_Suc)
  then show ?thesis
    by (simp add: parse_ip_def parse_with_def read_ip_addr_def read_ipv4_def read_separator_def number_example)
qed

theorem forged_chain_ignored_witness:
  "client_of 1 (one_line ''203.0.113.7'' [(''x-forwarded-for'', ''198.51.100.9, unknown'')]) (Some (V4 0x7F000001)) =
     Peer (V4 0xCB007107)"
proof -
  have "list_all proxy_entry_ok [''203.0.113.7'']"
    by (simp add: proxy_entry_ok_def trim_ascii_def is_ascii_whitespace_def)
  moreover have "Option.bind (str_from_utf8 ''203.0.113.7'') forwarded_address = Some (V4 0xCB007107)"
    by (simp add: str_from_utf8_def forwarded_address_def parse_example)
  moreover have "peer (V4 0xCB007107) = Peer (V4 0xCB007107)" by (simp add: peer_def)
  ultimately show ?thesis
    using forged_chain_ignored [of "''203.0.113.7''" "[]" one_line
        "[(''x-forwarded-for'', ''198.51.100.9, unknown'')]" "Some (V4 0x7F000001)"] by simp
qed

text \<open>IPv6 clients are their /64, and a mapped IPv4 client is the IPv4 client.\<close>

lemma peer_v6_prefix:
  assumes "drop_bit 32 a \<noteq> 0xFFFF" "drop_bit 32 b \<noteq> 0xFFFF"
  shows "peer (V6 a) = peer (V6 b) \<longleftrightarrow> drop_bit 64 a = drop_bit 64 b"
proof -
  have "drop_bit 64 (push_bit 64 (drop_bit 64 x)) = drop_bit 64 (x :: 128 word)" for x
    by (rule bit_word_eqI) (auto simp: bit_simps dest: bit_imp_le_length)
  then show ?thesis
    using assms by (auto simp: peer_def) metis
qed

lemma peer_mapped_v4: "drop_bit 32 a = 0xFFFF \<Longrightarrow> peer (V6 a) = peer (V4 (ucast a))"
  by (simp add: peer_def)

end
