(* ===== verification/Dashboard_Http.thy ===== *)
theory Dashboard_Http
  imports Dashboard_Throttle Worker_Build
begin

text \<open>
  The dashboard's pages and server (\<^verbatim>\<open>dashboard.rs\<close>): its configuration and what it refuses,
  the API errors and the responses they become, the embedded files with their templates, the
  request filters, the liveness and readiness answers, and the cache that lets one database
  round answer any number of requests.

  The embedded files (\<^verbatim>\<open>include_dir!\<close>) are the parameter \<open>files\<close>. A response keeps its status, the
  headers the code sets, and its body; the headers axum adds for a kind of body are left out.
\<close>

section \<open>Responses\<close>

datatype body = Empty_Body | Text string | Html string | Json json | Contents string

record response =
  rs_status :: nat
  rs_headers :: headers
  rs_body :: body

definition respond :: "nat \<Rightarrow> headers \<Rightarrow> body \<Rightarrow> response" where
  "respond status hs b = \<lparr> rs_status = status, rs_headers = hs, rs_body = b \<rparr>"

definition insert_header :: "string \<Rightarrow> string \<Rightarrow> response \<Rightarrow> response" where
  "insert_header name v r =
     r\<lparr> rs_headers := filter (\<lambda>(n, _). n \<noteq> name) (rs_headers r) @ [(name, v)] \<rparr>"

datatype api_error =
    BadRequest string
  | NotFound string
  | Forbidden string
  | TooManyRequests string
  | Unavailable string
  | RoundFailed
  | Internal error

fun api_error_from :: "error \<Rightarrow> api_error" where
  "api_error_from (JobNotFound job) = NotFound ''job not found''"
| "api_error_from e = Internal e"

definition error_json :: "string \<Rightarrow> body" where
  "error_json what = Json (JObject [(''error'', JString what)])"

fun api_error_response :: "api_error \<Rightarrow> response" where
  "api_error_response (BadRequest what) = respond 400 [] (error_json what)"
| "api_error_response (NotFound what) = respond 404 [] (error_json what)"
| "api_error_response (Forbidden what) = respond 403 [] (error_json what)"
| "api_error_response (TooManyRequests what) = respond 429 [(''retry-after'', ''1'')] (error_json what)"
| "api_error_response (Unavailable what) = respond 503 [(''retry-after'', ''1'')] (error_json what)"
| "api_error_response RoundFailed = respond 500 [] (error_json ''internal server error'')"
| "api_error_response (Internal e) = respond 500 [] (error_json ''internal server error'')"

section \<open>Templates\<close>

definition escape_char :: "char \<Rightarrow> string" where
  "escape_char c =
     (if c = CHR ''&'' then ''&amp;''
      else if c = CHR ''<'' then ''&lt;''
      else if c = CHR ''>'' then ''&gt;''
      else if c = CHR 0x22 then ''&quot;''
      else if c = CHR 0x27 then ''&#39;''
      else [c])"

definition html_attr_escape :: "string \<Rightarrow> string" where
  "html_attr_escape input = concat (map escape_char input)"

text \<open>
  \<^verbatim>\<open>render_template\<close>, on what follows an opening brace: the first placeholder whose name stands there
  before a closing brace.
\<close>

definition placeholder_at :: "(string \<times> string) list \<Rightarrow> string \<Rightarrow> (string \<times> string) option" where
  "placeholder_at values rest =
     find (\<lambda>(name, value). length name < length rest \<and> rest ! length name = CHR ''}'' \<and>
             take (length name) rest = name) values"

fun render_template :: "string \<Rightarrow> (string \<times> string) list \<Rightarrow> string" where
  "render_template [] values = []"
| "render_template (c # rest) values =
     (if c = CHR ''{'' then
        (case placeholder_at values rest of
           Some (name, value) \<Rightarrow> value @ render_template (drop (length name + 1) rest) values
         | None \<Rightarrow> CHR ''{'' # render_template rest values)
      else c # render_template rest values)"

section \<open>Embedded files\<close>

definition PUBLIC_FILES :: "(string \<times> string) list" where
  "PUBLIC_FILES =
     [(''app.css'', ''text/css; charset=utf-8''),
      (''app.mjs'', ''application/javascript; charset=utf-8''),
      (''favicon.svg'', ''image/svg+xml''),
      (''login.css'', ''text/css; charset=utf-8''),
      (''pico.min.css'', ''text/css; charset=utf-8'')]"

definition file_fingerprint :: "string \<Rightarrow> string" where
  "file_fingerprint contents = hex_digits 16 (unat (stable_hash contents))"

definition PUBLIC_FILES_VERSION :: "(string \<Rightarrow> string option) \<Rightarrow> string" where
  "PUBLIC_FILES_VERSION files =
     file_fingerprint (concat (List.map_filter (\<lambda>(path, _). files path) PUBLIC_FILES))"

text \<open>\<^verbatim>\<open>contents_utf8().unwrap_or_default()\<close>: a template that is missing, or no text, is empty.\<close>

definition template_text :: "(string \<Rightarrow> string option) \<Rightarrow> string \<Rightarrow> string" where
  "template_text files path =
     (case Option.bind (files path) str_from_utf8 of Some text \<Rightarrow> text | None \<Rightarrow> [])"

definition render_index :: "(string \<Rightarrow> string option) \<Rightarrow> string \<Rightarrow> string \<Rightarrow> bool \<Rightarrow> string" where
  "render_index files root username auth_enabled =
     render_template (template_text files ''index.html'')
       [(''root'', html_attr_escape root), (''username'', html_attr_escape username),
        (''auth_enabled'', if auth_enabled then ''true'' else ''false''),
        (''version'', PUBLIC_FILES_VERSION files)]"

definition render_login :: "(string \<Rightarrow> string option) \<Rightarrow> string \<Rightarrow> string \<Rightarrow> string" where
  "render_login files root err =
     render_template (template_text files ''login.html'')
       [(''root'', html_attr_escape root), (''error'', html_attr_escape err),
        (''version'', PUBLIC_FILES_VERSION files)]"

definition serve_file :: "(string \<Rightarrow> string option) \<Rightarrow> string \<Rightarrow> response" where
  "serve_file files path =
     (case Option.bind (find (\<lambda>(name, _). name = path) PUBLIC_FILES)
             (\<lambda>(name, content_type). map_option (\<lambda>file. (file, content_type)) (files name)) of
        None \<Rightarrow> respond 404 [] (Text ''not found'')
      | Some (file, content_type) \<Rightarrow>
          respond 200 [(''content-type'', content_type), (''cache-control'', ''max-age=3600'')] (Contents file))"

section \<open>Request filters\<close>

definition has_ambiguous_framing :: "headers \<Rightarrow> bool" where
  "has_ambiguous_framing hs \<longleftrightarrow> get_header hs ''content-length'' \<noteq> None \<and> get_header hs ''transfer-encoding'' \<noteq> None"

definition ambiguous_framing_response :: response where
  "ambiguous_framing_response =
     insert_header ''connection'' ''close'' (respond 400 [] (Text ''ambiguous HTTP request framing''))"

record http_request =
  hr_path :: string
  hr_headers :: headers
  hr_peer :: "ip_addr option"

definition reject_ambiguous_framing :: "(http_request \<Rightarrow> response) \<Rightarrow> http_request \<Rightarrow> response" where
  "reject_ambiguous_framing next req =
     (if has_ambiguous_framing (hr_headers req) then ambiguous_framing_response else next req)"

definition starts_with :: "string \<Rightarrow> string \<Rightarrow> bool" where
  "starts_with s start \<longleftrightarrow> take (length start) s = start"

definition CONTENT_SECURITY_POLICY :: string where
  "CONTENT_SECURITY_POLICY =
     ''default-src 'self'; script-src 'self'; style-src 'self'; '' @
     ''connect-src 'self'; img-src 'self' data:; frame-ancestors 'none'; '' @
     ''base-uri 'none'; form-action 'self'' @ [CHR 0x27]"

definition security_headers :: "bool \<Rightarrow> (http_request \<Rightarrow> response) \<Rightarrow> http_request \<Rightarrow> response" where
  "security_headers secure_cookies next req =
     (let sensitive = \<not> starts_with (hr_path req) ''/static/'';
          r = insert_header ''x-frame-options'' ''DENY''
             (insert_header ''referrer-policy'' ''no-referrer''
             (insert_header ''x-content-type-options'' ''nosniff''
             (insert_header ''content-security-policy'' CONTENT_SECURITY_POLICY (next req))));
          r' = (if secure_cookies then insert_header ''strict-transport-security'' ''max-age=31536000'' r else r)
      in if sensitive then insert_header ''cache-control'' ''no-store'' r' else r')"

definition ACTION_HEADER :: string where "ACTION_HEADER = ''x-ironqueue-request''"

definition require_action_header :: "headers \<Rightarrow> api_error + unit" where
  "require_action_header hs =
     (if get_header hs ACTION_HEADER = Some ''dashboard'' then Inr ()
      else Inl (Forbidden ''missing dashboard action header''))"

text \<open>
  \<^verbatim>\<open>str::trim\<close>: the white space of Unicode at either end, each character by its UTF-8 bytes.
\<close>

definition whitespace_chars :: "string list" where
  "whitespace_chars =
     map (\<lambda>b. [char_of (b :: nat)]) [9, 10, 11, 12, 13, 32] @
     map (map (\<lambda>b. char_of (b :: nat)))
       ([[0xC2, 0x85], [0xC2, 0xA0], [0xE1, 0x9A, 0x80]] @
        map (\<lambda>b. [0xE2, 0x80, b]) ([0x80..<0x8B] @ [0xA8, 0xA9, 0xAF]) @
        [[0xE2, 0x81, 0x9F], [0xE3, 0x80, 0x80]])"

fun strip_one :: "string list \<Rightarrow> string \<Rightarrow> string option" where
  "strip_one [] s = None"
| "strip_one (w # ws) s = (if w \<noteq> [] \<and> take (length w) s = w then Some (drop (length w) s) else strip_one ws s)"

lemma strip_one_less: "strip_one ws s = Some r \<Longrightarrow> length r < length s"
proof (induction ws s rule: strip_one.induct)
  case (2 w ws s)
  show ?case
  proof (cases "w \<noteq> [] \<and> take (length w) s = w")
    case True
    then have "s \<noteq> []" by auto
    then show ?thesis using True "2.prems" by (cases w) auto
  next
    case False
    then show ?thesis using "2.IH" [OF False] "2.prems" by (simp split: if_splits)
  qed
qed simp

function trim_front :: "string list \<Rightarrow> string \<Rightarrow> string" where
  "trim_front ws s = (case strip_one ws s of Some r \<Rightarrow> trim_front ws r | None \<Rightarrow> s)"
  by pat_completeness auto

termination
  by (relation "measure (\<lambda>(ws, s). length s)") (auto dest: strip_one_less)

declare trim_front.simps [simp del]

definition trim :: "string \<Rightarrow> string" where
  "trim s = rev (trim_front (map rev whitespace_chars) (rev (trim_front whitespace_chars s)))"

text \<open>\<^verbatim>\<open>split_once\<close> at the first occurrence of a separator.\<close>

fun split_once :: "string \<Rightarrow> string \<Rightarrow> (string \<times> string) option" where
  "split_once sep [] = (if sep = [] then Some ([], []) else None)"
| "split_once sep (c # cs) =
     (if take (length sep) (c # cs) = sep then Some ([], drop (length sep) (c # cs))
      else map_option (\<lambda>(a, b). (c # a, b)) (split_once sep cs))"

definition origin_canonical :: "string option \<Rightarrow> string \<Rightarrow> string" where
  "origin_canonical default_port v =
     (let v' = trim v
      in map to_lower (case Option.bind default_port (\<lambda>port. strip_suffix port v') of Some s \<Rightarrow> s | None \<Rightarrow> v'))"

definition origin_names_host :: "string \<Rightarrow> string \<Rightarrow> bool" where
  "origin_names_host origin host =
     (case split_once ''://'' origin of
        None \<Rightarrow> False
      | Some (scheme, authority) \<Rightarrow>
          (let default_port = (if scheme = ''http'' then Some '':80''
                               else if scheme = ''https'' then Some '':443'' else None)
           in authority \<noteq> [] \<and> origin_canonical default_port authority = origin_canonical default_port host))"

text \<open>
  \<open>to_str\<close> is \<^verbatim>\<open>HeaderValue::to_str\<close> of the http crate: the text of a value, when it is readable.
\<close>

definition is_cross_site_post :: "(string \<Rightarrow> string option) \<Rightarrow> headers \<Rightarrow> bool" where
  "is_cross_site_post to_str hs =
     (case get_header hs ''sec-fetch-site'' of
        Some site \<Rightarrow> \<not> (site = ''same-origin'' \<or> site = ''none'')
      | None \<Rightarrow>
          (case Option.bind (get_header hs ''origin'') to_str of
             None \<Rightarrow> False
           | Some origin \<Rightarrow>
               (case Option.bind (get_header hs ''host'') to_str of
                  None \<Rightarrow> False
                | Some host \<Rightarrow> \<not> origin_names_host origin host)))"

section \<open>Configuration\<close>

datatype authentication = Unconfigured | Unauthenticated | BasicAuth string string

record dashboard =
  d_queues :: "handle list"
  d_auth :: authentication
  d_mount_path :: string
  d_secure_cookies :: bool
  d_trusted_proxy_hops :: nat
  d_health_probe_ttl :: duration
  d_queue_signals_ttl :: duration

definition HEALTH_PROBE_TTL :: duration where "HEALTH_PROBE_TTL = from_millis 500"
definition QUEUE_SIGNALS_TTL :: duration where "QUEUE_SIGNALS_TTL = from_secs 1"

definition dashboard_new :: "handle list \<Rightarrow> dashboard" where
  "dashboard_new queues =
     \<lparr> d_queues = queues, d_auth = Unconfigured, d_mount_path = ''/'', d_secure_cookies = True,
       d_trusted_proxy_hops = 0, d_health_probe_ttl = HEALTH_PROBE_TTL, d_queue_signals_ttl = QUEUE_SIGNALS_TTL \<rparr>"

definition basic_auth :: "string \<Rightarrow> string \<Rightarrow> dashboard \<Rightarrow> dashboard" where
  "basic_auth user password d = d\<lparr> d_auth := BasicAuth user password \<rparr>"

definition allow_unauthenticated :: "dashboard \<Rightarrow> dashboard" where
  "allow_unauthenticated d = d\<lparr> d_auth := Unauthenticated \<rparr>"

definition secure_cookies :: "bool \<Rightarrow> dashboard \<Rightarrow> dashboard" where
  "secure_cookies secure d = d\<lparr> d_secure_cookies := secure \<rparr>"

definition trusted_proxy_hops :: "nat \<Rightarrow> dashboard \<Rightarrow> dashboard" where
  "trusted_proxy_hops hops d = d\<lparr> d_trusted_proxy_hops := hops \<rparr>"

definition mount_path :: "string \<Rightarrow> dashboard \<Rightarrow> dashboard" where
  "mount_path path d = d\<lparr> d_mount_path := if starts_with path ''/'' then path else ''/'' @ path \<rparr>"

definition trim_end_slashes :: "string \<Rightarrow> string" where
  "trim_end_slashes s = rev (dropWhile (\<lambda>c. c = CHR ''/'') (rev s))"

definition is_ascii_alphanumeric :: "char \<Rightarrow> bool" where
  "is_ascii_alphanumeric c =
     (let b = (of_char c :: nat) in (48 \<le> b \<and> b \<le> 57) \<or> (65 \<le> b \<and> b \<le> 90) \<or> (97 \<le> b \<and> b \<le> 122))"

definition valid_segments :: "string \<Rightarrow> bool" where
  "valid_segments path =
     (let p = trim_end_slashes path in
      p = [] \<or>
      (case strip_prefix ''/'' p of
         Some rest \<Rightarrow> list_all (\<lambda>segment. segment \<noteq> [] \<and> segment \<noteq> ''.'' \<and> segment \<noteq> ''..'') (split_on CHR ''/'' rest)
       | None \<Rightarrow> False))"

definition validate_mount_path :: "string \<Rightarrow> unit result" where
  "validate_mount_path path =
     (if \<not> starts_with path ''/'' \<or> starts_with path ''//'' \<or>
         \<not> list_all (\<lambda>c. is_ascii_alphanumeric c \<or> c \<in> set ''/-_.~'') path \<or> \<not> valid_segments path
      then Inl (Config ''dashboard mount_path must be a same-origin absolute path with safe ASCII segments'')
      else Inr ())"

text \<open>\<^verbatim>\<open>chars().count()\<close>: the bytes of a string that start a character.\<close>

definition char_count :: "string \<Rightarrow> nat" where
  "char_count s = length (filter (\<lambda>c. \<not> is_continuation_byte c) s)"

definition MAX_CREDENTIAL_BYTES :: nat where "MAX_CREDENTIAL_BYTES = 512"

definition validate_authentication :: "authentication \<Rightarrow> unit result" where
  "validate_authentication auth =
     (case auth of
        Unconfigured \<Rightarrow> Inl (Config ''dashboard authentication mode is not configured; call basic_auth or allow_unauthenticated'')
      | Unauthenticated \<Rightarrow> Inr ()
      | BasicAuth username password \<Rightarrow>
          if username = [] \<or> password = [] then
            Inl (Config ''dashboard basic_auth requires a non-empty username and password'')
          else if CHR '':'' \<in> set username then
            Inl (Config (''dashboard basic_auth username must not contain ':'' @ [CHR 0x27]))
          else if MAX_CREDENTIAL_BYTES < length username \<or> MAX_CREDENTIAL_BYTES < length password then
            Inl (Config (''dashboard basic_auth username and password must each be at most '' @
                         decimal MAX_CREDENTIAL_BYTES @ '' bytes''))
          else if char_count password < 8 then
            Inl (Config ''dashboard basic_auth password must be at least 8 characters'')
          else Inr ())"

text \<open>The loop over the queues; \<open>show_name\<close> is \<^verbatim>\<open>{:?}\<close> of a string.\<close>

fun distinct_queues :: "(string \<Rightarrow> string) \<Rightarrow> handle list \<Rightarrow> handle list \<Rightarrow> (handle list) result" where
  "distinct_queues show_name queues [] = Inr queues"
| "distinct_queues show_name queues (q # rest) =
     (if list_ex (\<lambda>existing. h_name existing = h_name q) queues
      then Inl (Config (''dashboard queue name '' @ show_name (h_name q) @ '' is configured more than once''))
      else distinct_queues show_name (queues @ [q]) rest)"

text \<open>
  What a router serves: the queues in order, the mount root, and the credentials that guard it,
  if any. The request limiter, when there is one, wraps every route but \<^verbatim>\<open>/health\<close>.
\<close>

record router =
  r_queues :: "handle list"
  r_root :: string
  r_auth :: "(string \<times> string) option"
  r_index_user :: string
  r_secure_cookies :: bool
  r_hops :: nat
  r_health_probe_ttl :: duration
  r_queue_signals_ttl :: duration
  r_request_limits :: "(duration \<times> nat) option"

definition build_router :: "(string \<Rightarrow> string) \<Rightarrow> (duration \<times> nat) option \<Rightarrow> dashboard \<Rightarrow> router result" where
  "build_router show_name request_limits d =
     and_then (distinct_queues show_name [] (d_queues d)) (\<lambda>queues.
       if queues = [] then Inl (Config ''dashboard requires at least one queue'')
       else
         (let base = \<lparr> r_queues = queues, r_root = trim_end_slashes (d_mount_path d), r_auth = None,
                       r_index_user = ''anonymous'', r_secure_cookies = d_secure_cookies d, r_hops = d_trusted_proxy_hops d,
                       r_health_probe_ttl = d_health_probe_ttl d, r_queue_signals_ttl = d_queue_signals_ttl d,
                       r_request_limits = request_limits \<rparr>
          in case d_auth d of
               BasicAuth username password \<Rightarrow>
                 Inr (base\<lparr> r_auth := Some (username, password), r_index_user := username \<rparr>)
             | Unauthenticated \<Rightarrow> Inr base
             | Unconfigured \<Rightarrow> Inl (Config ''dashboard authentication mode is not configured'')))"

definition router_with_health :: "(string \<Rightarrow> string) \<Rightarrow> (duration \<times> nat) option \<Rightarrow> dashboard \<Rightarrow> router result" where
  "router_with_health show_name request_limits d =
     and_then (validate_mount_path (d_mount_path d)) (\<lambda>_.
     and_then (validate_authentication (d_auth d)) (\<lambda>_.
     build_router show_name request_limits d))"

record server_limits =
  sl_header_read_timeout :: duration
  sl_request_timeout :: duration
  sl_max_connections :: nat
  sl_max_concurrent_requests :: nat

definition server_limits_default :: server_limits where
  "server_limits_default = \<lparr> sl_header_read_timeout = from_secs 10, sl_request_timeout = from_secs 30,
     sl_max_connections = 256, sl_max_concurrent_requests = 128 \<rparr>"

text \<open>\<open>max_permits\<close> is \<^verbatim>\<open>Semaphore::MAX_PERMITS\<close>, \<open>clock_fits\<close> as for the worker's durations.\<close>

definition validate_timeout :: "(duration \<Rightarrow> bool) \<Rightarrow> string \<Rightarrow> duration \<Rightarrow> unit result" where
  "validate_timeout clock_fits name timeout =
     (if timeout = 0 then Inl (Config (name @ '' must be greater than zero''))
      else if \<not> clock_fits timeout then Inl (Config (name @ '' is too large for the runtime clock''))
      else Inr ())"

definition server_limits_validate :: "(duration \<Rightarrow> bool) \<Rightarrow> nat \<Rightarrow> server_limits \<Rightarrow> unit result" where
  "server_limits_validate clock_fits max_permits l =
     and_then (validate_timeout clock_fits ''dashboard header read timeout'' (sl_header_read_timeout l)) (\<lambda>_.
     and_then (validate_timeout clock_fits ''dashboard request timeout'' (sl_request_timeout l)) (\<lambda>_.
       if sl_max_connections l = 0 \<or> max_permits < sl_max_connections l then
         Inl (Config (''dashboard max connections must be between 1 and '' @ decimal max_permits))
       else if sl_max_concurrent_requests l = 0 then
         Inl (Config ''dashboard max concurrent requests must be greater than zero'')
       else Inr ()))"

record dashboard_server =
  ds_dashboard :: dashboard
  ds_host :: string
  ds_port :: nat
  ds_limits :: server_limits

definition serve_on :: "string \<Rightarrow> nat \<Rightarrow> dashboard \<Rightarrow> dashboard_server" where
  "serve_on host port d =
     \<lparr> ds_dashboard = d, ds_host = host, ds_port = port, ds_limits = server_limits_default \<rparr>"

record server_config =
  sc_host :: string
  sc_port :: nat
  sc_router :: router
  sc_limits :: server_limits

definition into_server_config ::
    "(string \<Rightarrow> string) \<Rightarrow> (duration \<Rightarrow> bool) \<Rightarrow> nat \<Rightarrow> dashboard_server \<Rightarrow> server_config result" where
  "into_server_config show_name clock_fits max_permits s =
     (if trim_end_slashes (d_mount_path (ds_dashboard s)) \<noteq> [] then
        Inl (Config ''DashboardServer requires mount_path `/`; use Dashboard::router for a custom path'')
      else
        and_then (server_limits_validate clock_fits max_permits (ds_limits s)) (\<lambda>_.
        and_then (router_with_health show_name
                    (Some (sl_request_timeout (ds_limits s),
                           min (sl_max_concurrent_requests (ds_limits s)) (sl_max_connections (ds_limits s))))
                    (ds_dashboard s)) (\<lambda>router.
          Inr \<lparr> sc_host = ds_host s, sc_port = ds_port s, sc_router = router, sc_limits = ds_limits s \<rparr>)))"

section \<open>Liveness and readiness\<close>

definition health_response :: "bool \<Rightarrow> bool \<Rightarrow> response" where
  "health_response healthy degraded =
     (if healthy then (if degraded then respond 200 [] (Text ''DEGRADED'') else respond 200 [] (Text ''OK''))
      else respond 500 [] (Text ''unhealthy''))"

text \<open>
  One probe round is healthy when every queue answered. \<open>probed\<close> is what the round cache
  answers; it is not asked while the worker is starting or stopped.
\<close>

definition probe_round :: "('e + unit) list \<Rightarrow> bool" where
  "probe_round replies = fold (\<lambda>a healthy. healthy \<and> a = Inr ()) replies True"

definition health :: "worker_health_status option \<Rightarrow> (unit \<Rightarrow> bool option) \<Rightarrow> response" where
  "health status probed =
     (case status of
        Some Starting \<Rightarrow> respond 503 [] (Text ''unhealthy'')
      | Some Stopped \<Rightarrow> respond 503 [] (Text ''unhealthy'')
      | _ \<Rightarrow>
          (case probed () of
             Some healthy \<Rightarrow> health_response healthy (status = Some Degraded)
           | None \<Rightarrow> respond 503 [] (Text ''unavailable'')))"

text \<open>\<^verbatim>\<open>queue_signals_round\<close>: the answers in queue order, or nothing after the first failure.\<close>

fun queue_signals_round :: "('e + 'a) list \<Rightarrow> 'a list option" where
  "queue_signals_round [] = Some []"
| "queue_signals_round (Inr signals # rest) = map_option (Cons signals) (queue_signals_round rest)"
| "queue_signals_round (Inl e # rest) = None"

definition list_queues :: "'a list option option \<Rightarrow> api_error + 'a list" where
  "list_queues signals =
     (case signals of
        Some (Some queues) \<Rightarrow> Inr queues
      | Some None \<Rightarrow> Inl RoundFailed
      | None \<Rightarrow> Inl (Unavailable ''queue signals unavailable''))"

section \<open>The round cache\<close>

definition ROUND_WAIT_TIMEOUT :: duration where "ROUND_WAIT_TIMEOUT = from_secs 2"
definition ROUND_TIMEOUT :: duration where "ROUND_TIMEOUT = from_secs 60"

text \<open>
  The last published round with its instant, and the round in flight, which holds the one
  permit, with the instant it started at.
\<close>

record 'a round_cache =
  rc_ttl :: duration
  rc_published :: "(instant \<times> 'a) option"
  rc_round :: "instant option"

definition round_cache_new :: "duration \<Rightarrow> 'a round_cache" where
  "round_cache_new ttl = \<lparr> rc_ttl = ttl, rc_published = None, rc_round = None \<rparr>"

definition fresh :: "instant \<Rightarrow> 'a round_cache \<Rightarrow> 'a option" where
  "fresh now c =
     (case rc_published c of
        Some (taken_at, v) \<Rightarrow> if now - taken_at < rc_ttl c then Some v else None
      | None \<Rightarrow> None)"

text \<open>
  The part of \<open>get\<close> before it waits: served from the cache, or waiting, on a round of its own
  when none is in flight.
\<close>

definition get_begin :: "instant \<Rightarrow> 'a round_cache \<Rightarrow> 'a option \<times> bool \<times> 'a round_cache" where
  "get_begin now c =
     (case fresh now c of
        Some v \<Rightarrow> (Some v, False, c)
      | None \<Rightarrow> if rc_round c = None then (None, True, c\<lparr> rc_round := Some now \<rparr>) else (None, False, c))"

text \<open>
  The end of the detached round: its value published and the permit released, or, at its
  deadline, the permit alone.
\<close>

definition round_ends :: "instant \<Rightarrow> 'a option \<Rightarrow> 'a round_cache \<Rightarrow> 'a round_cache" where
  "round_ends now outcome_value c =
     (case outcome_value of
        Some v \<Rightarrow> c\<lparr> rc_published := Some (now, v), rc_round := None \<rparr>
      | None \<Rightarrow> c\<lparr> rc_round := None \<rparr>)"

text \<open>
  The wait of \<open>get\<close>: the publications after it subscribed, in order, up to its reading one. It
  wakes at the first and takes the newest.
\<close>

definition get_wait :: "instant \<Rightarrow> (instant \<times> 'a) list \<Rightarrow> 'a option" where
  "get_wait began published =
     (case published of
        [] \<Rightarrow> None
      | (taken_at, v) # later \<Rightarrow>
          if taken_at \<le> began + ROUND_WAIT_TIMEOUT then Some (snd (last published)) else None)"

text \<open>
  The cache over time: requests of any clients, the end of the round in flight, which publishes
  or is abandoned at its deadline, and the clock. The instants rounds started at are noted,
  the newest first.
\<close>

inductive cache_run :: "instant \<Rightarrow> 'a round_cache \<Rightarrow> instant list \<Rightarrow> instant \<Rightarrow> 'a round_cache \<Rightarrow> bool" where
  cache_start: "cache_run t c [] t c"
| cache_wait: "\<lbrakk>cache_run t c starts u c'; u \<le> v\<rbrakk> \<Longrightarrow> cache_run t c starts v c'"
| cache_request: "\<lbrakk>cache_run t c starts u c'; get_begin u c' = (served, started, c'')\<rbrakk> \<Longrightarrow>
    cache_run t c (if started then u # starts else starts) u c''"
| cache_publish: "\<lbrakk>cache_run t c starts u c'; rc_round c' = Some s\<rbrakk> \<Longrightarrow>
    cache_run t c starts u (round_ends u (Some v) c')"
| cache_abandon: "\<lbrakk>cache_run t c starts u c'; rc_round c' = Some s; s + ROUND_TIMEOUT \<le> u\<rbrakk> \<Longrightarrow>
    cache_run t c starts u (round_ends u None c')"

text \<open>The rounds of a run start a time to live apart, and none while another is in flight.\<close>

fun spaced :: "nat \<Rightarrow> instant \<Rightarrow> instant list \<Rightarrow> bool" where
  "spaced ttl t [] = True"
| "spaced ttl t [s] = (t \<le> s)"
| "spaced ttl t (s # s' # ss) = (s' + ttl \<le> s \<and> spaced ttl t (s' # ss))"

definition last_round :: "instant \<Rightarrow> 'a round_cache \<Rightarrow> instant \<Rightarrow> bool" where
  "last_round u c s \<longleftrightarrow> s \<le> u \<and>
     (rc_round c = Some s \<or>
      (rc_round c = None \<and>
       (s + ROUND_TIMEOUT \<le> u \<or> (\<exists>p v. rc_published c = Some (p, v) \<and> s \<le> p))))"

lemma get_begin_cases:
  "get_begin u c = (served, started, c') \<Longrightarrow>
     (\<not> started \<and> c' = c) \<or>
     (started \<and> rc_round c = None \<and> c' = c\<lparr> rc_round := Some u \<rparr> \<and>
      (\<forall>p v. rc_published c = Some (p, v) \<longrightarrow> rc_ttl c \<le> u - p))"
  by (auto simp: get_begin_def fresh_def split: option.splits if_splits)

lemma cache_run_spaced:
  assumes "cache_run t c starts u c'" "0 < rc_ttl c" "rc_ttl c \<le> ROUND_TIMEOUT"
  shows "t \<le> u \<and> rc_ttl c' = rc_ttl c \<and> spaced (rc_ttl c) t starts \<and>
     (starts \<noteq> [] \<longrightarrow> last_round u c' (hd starts))"
  using assms
proof (induction rule: cache_run.induct)
  case (cache_wait t c starts u c' v)
  then show ?case by (auto simp: last_round_def)
next
  case (cache_request t c starts u c' served started c'')
  note ih = cache_request.IH [OF cache_request.prems]
  consider (same) "\<not> started" "c'' = c'"
    | (begin_round) "started" "rc_round c' = None" "c'' = c'\<lparr> rc_round := Some u \<rparr>"
        "\<forall>p v. rc_published c' = Some (p, v) \<longrightarrow> rc_ttl c \<le> u - p"
    using get_begin_cases [OF cache_request.hyps(2)] ih by auto
  then show ?case
  proof cases
    case begin_round
    have "hd starts + rc_ttl c \<le> u" if "starts \<noteq> []"
    proof -
      have "hd starts + ROUND_TIMEOUT \<le> u \<or> (\<exists>p v. rc_published c' = Some (p, v) \<and> hd starts \<le> p)"
        using ih that begin_round(2) by (simp add: last_round_def)
      then show ?thesis
      proof
        assume "\<exists>p v. rc_published c' = Some (p, v) \<and> hd starts \<le> p"
        then obtain p v where "rc_published c' = Some (p, v)" "hd starts \<le> p" by blast
        then show ?thesis using begin_round(4) cache_request.prems(1) by fastforce
      qed (use cache_request.prems(2) in linarith)
    qed
    then have "spaced (rc_ttl c) t (u # starts)"
      using ih by (cases starts) auto
    then show ?thesis using begin_round ih by (simp add: last_round_def)
  qed (use ih in simp)
next
  case (cache_publish t c starts u c' s v)
  then show ?case by (auto simp: last_round_def round_ends_def)
next
  case (cache_abandon t c starts u c' s)
  then show ?case by (auto simp: last_round_def round_ends_def)
qed simp

lemma spaced_length: "spaced ttl t (s # ss) \<Longrightarrow> t + length ss * ttl \<le> s"
  by (induction "s # ss" arbitrary: s ss rule: spaced.induct) (auto simp: algebra_simps)

text \<open>
  Requests do not become database load. However many requests arrive, and however slow the
  database is, a cache starts at most one round, and one more per time to live.
\<close>

theorem rounds_are_rate_limited:
  assumes "cache_run t c starts u c'" "0 < rc_ttl c" "rc_ttl c \<le> ROUND_TIMEOUT"
  shows "length starts \<le> 1 + (u - t) div rc_ttl c"
proof (cases starts)
  case (Cons s ss)
  have "t + length ss * rc_ttl c \<le> s \<and> s \<le> u"
    using cache_run_spaced [OF assms] spaced_length Cons by (auto simp: last_round_def)
  then have "length ss * rc_ttl c \<le> 0 * rc_ttl c + (u - t)" by linarith
  then have "length ss \<le> 0 + (u - t) div rc_ttl c" using assms(2) by (rule per_interval)
  then show ?thesis using Cons by simp
qed simp

text \<open>Two requests race for the first round of the liveness probe; one round starts.\<close>

theorem rounds_are_rate_limited_witness:
  "\<exists>starts c. cache_run 0 (round_cache_new HEALTH_PROBE_TTL :: bool round_cache) starts 3 c \<and> length starts = 1 \<and>
     length starts \<le> 1 + (3 - 0) div HEALTH_PROBE_TTL"
proof -
  let ?c = "round_cache_new HEALTH_PROBE_TTL :: bool round_cache"
  let ?d = "?c\<lparr> rc_round := Some 0 \<rparr>"
  have "cache_run 0 ?c [0] 0 ?d"
    using cache_request [OF cache_start, of 0 ?c None True ?d]
    by (simp add: get_begin_def fresh_def round_cache_new_def)
  then have "cache_run 0 ?c [0] 3 ?d" by (rule cache_wait) simp
  then have run: "cache_run 0 ?c [0] 3 ?d"
    using cache_request [of 0 ?c "[0]" 3 ?d None False ?d]
    by (simp add: get_begin_def fresh_def round_cache_new_def)
  have "length [0 :: nat] \<le> 1 + (3 - 0) div rc_ttl ?c"
    by (rule rounds_are_rate_limited [OF run]) (simp_all add: round_cache_new_def HEALTH_PROBE_TTL_def ROUND_TIMEOUT_def)
  then show ?thesis using run by (intro exI [of _ "[0]"] exI [of _ ?d]) (simp add: round_cache_new_def)
qed

text \<open>A wedged round gives way: once abandoned, the next request that finds nothing fresh starts one.\<close>

lemma wedged_round_gives_way:
  "fresh u c = None \<Longrightarrow> get_begin u (round_ends u None c) = (None, True, c\<lparr> rc_round := Some u \<rparr>)"
  by (auto simp: round_ends_def get_begin_def fresh_def split: option.splits)

section \<open>What a configuration that is served promises\<close>

definition credentials_ok :: "string \<times> string \<Rightarrow> bool" where
  "credentials_ok = (\<lambda>(username, password).
     username \<noteq> [] \<and> CHR '':'' \<notin> set username \<and> 8 \<le> char_count password \<and>
     length username \<le> MAX_CREDENTIAL_BYTES \<and> length password \<le> MAX_CREDENTIAL_BYTES)"

definition router_ok :: "dashboard \<Rightarrow> router \<Rightarrow> bool" where
  "router_ok d r \<longleftrightarrow>
     r_queues r = d_queues d \<and> r_queues r \<noteq> [] \<and> distinct (map h_name (r_queues r)) \<and>
     (case r_auth r of Some c \<Rightarrow> credentials_ok c | None \<Rightarrow> d_auth d = Unauthenticated) \<and>
     list_all (\<lambda>c. is_ascii_alphanumeric c \<or> c \<in> set ''/-_.~'') (r_root r)"

lemma distinct_queues_Inr:
  "\<lbrakk>distinct_queues show_name queues rest = Inr all; distinct (map h_name queues)\<rbrakk> \<Longrightarrow>
     all = queues @ rest \<and> distinct (map h_name all)"
proof (induction show_name queues rest rule: distinct_queues.induct)
  case (2 show_name queues q rest)
  have new: "\<not> list_ex (\<lambda>existing. h_name existing = h_name q) queues"
    using "2.prems"(1) by (auto split: if_splits)
  then have "distinct (map h_name (queues @ [q]))"
    using "2.prems"(2) by (auto simp: list_ex_iff)
  moreover have "distinct_queues show_name (queues @ [q]) rest = Inr all"
    using "2.prems"(1) new by simp
  ultimately show ?case
    using "2.IH" [OF new] by (metis append_Cons append_Nil append_assoc)
qed simp

lemma trim_end_slashes_set: "set (trim_end_slashes s) \<subseteq> set s"
  unfolding trim_end_slashes_def by (auto dest: set_dropWhileD)

lemma router_with_health_ok:
  assumes "router_with_health show_name lim d = Inr r"
  shows "router_ok d r \<and> r_request_limits r = lim \<and> r_root r = trim_end_slashes (d_mount_path d)"
proof -
  have path: "list_all (\<lambda>c. is_ascii_alphanumeric c \<or> c \<in> set ''/-_.~'') (d_mount_path d)"
    and auth: "validate_authentication (d_auth d) = Inr ()"
    and built: "build_router show_name lim d = Inr r"
    using assms by (auto simp: router_with_health_def validate_mount_path_def split: if_splits)
  obtain queues where q: "distinct_queues show_name [] (d_queues d) = Inr queues" "queues \<noteq> []"
    using built by (auto simp: build_router_def split: if_splits)
  have "queues = d_queues d" "distinct (map h_name (d_queues d))"
    using distinct_queues_Inr [OF q(1)] by auto
  then show ?thesis
    using built q auth path trim_end_slashes_set [of "d_mount_path d"]
    by (auto simp: build_router_def router_ok_def Let_def validate_authentication_def credentials_ok_def
        list_all_iff split: authentication.splits if_splits)
qed

text \<open>
  A dashboard that is served is guarded and routable. Without an explicit opt-out it has
  credentials that no empty, ambiguous or short value satisfies; its queues are those configured, at
  least one, under distinct names; a standalone server sits at the root, with positive
  deadlines, and no more concurrent requests than connections.
\<close>

theorem served_dashboard_well_formed:
  assumes "into_server_config show_name clock_fits max_permits s = Inr c"
  shows "router_ok (ds_dashboard s) (sc_router c) \<and> r_root (sc_router c) = [] \<and>
     0 < sl_header_read_timeout (sc_limits c) \<and> clock_fits (sl_header_read_timeout (sc_limits c)) \<and>
     0 < sl_max_connections (sc_limits c) \<and> sl_max_connections (sc_limits c) \<le> max_permits \<and>
     (\<exists>timeout permits. r_request_limits (sc_router c) = Some (timeout, permits) \<and>
        0 < timeout \<and> clock_fits timeout \<and> 0 < permits \<and> permits \<le> sl_max_connections (sc_limits c))"
proof -
  let ?l = "ds_limits s"
  let ?lim = "Some (sl_request_timeout ?l, min (sl_max_concurrent_requests ?l) (sl_max_connections ?l))"
  have root: "trim_end_slashes (d_mount_path (ds_dashboard s)) = []"
    and lim: "server_limits_validate clock_fits max_permits ?l = Inr ()"
    using assms by (auto simp: into_server_config_def split: if_splits)
  obtain router where r: "router_with_health show_name ?lim (ds_dashboard s) = Inr router"
      "c = \<lparr> sc_host = ds_host s, sc_port = ds_port s, sc_router = router, sc_limits = ?l \<rparr>"
    using assms root lim by (auto simp: into_server_config_def)
  have "0 < sl_header_read_timeout ?l \<and> clock_fits (sl_header_read_timeout ?l) \<and>
      0 < sl_request_timeout ?l \<and> clock_fits (sl_request_timeout ?l) \<and>
      0 < sl_max_connections ?l \<and> sl_max_connections ?l \<le> max_permits \<and> 0 < sl_max_concurrent_requests ?l"
    using lim by (auto simp: server_limits_validate_def validate_timeout_def split: if_splits)
  then show ?thesis
    using router_with_health_ok [OF r(1)] r(2) root by auto
qed

theorem served_dashboard_well_formed_witness:
  "\<exists>c. into_server_config (\<lambda>n. n) (\<lambda>d. d < 10 ^ 18) 1000
         (serve_on ''localhost'' 8080 (basic_auth ''admin'' ''password'' (dashboard_new
            [\<lparr> h_name = ''default'', h_priorities = (0, 0), h_sweep_grace = 0, h_sweep_batch_size = 1,
               h_notify_throttle = None, h_last_notify_ms = 0,
               h_counters = \<lparr> n_complete = 0, n_failed = 0, n_retried = 0, n_aborted = 0 \<rparr> \<rparr>]))) = Inr c \<and>
       r_root (sc_router c) = []"
proof -
  let ?s = "serve_on ''localhost'' 8080 (basic_auth ''admin'' ''password'' (dashboard_new
            [\<lparr> h_name = ''default'', h_priorities = (0, 0), h_sweep_grace = 0, h_sweep_batch_size = 1,
               h_notify_throttle = None, h_last_notify_ms = 0,
               h_counters = \<lparr> n_complete = 0, n_failed = 0, n_retried = 0, n_aborted = 0 \<rparr> \<rparr>]))"
  have "\<exists>c. into_server_config (\<lambda>n. n) (\<lambda>d. d < 10 ^ 18) 1000 ?s = Inr c"
    by (simp add: into_server_config_def serve_on_def basic_auth_def dashboard_new_def trim_end_slashes_def
        server_limits_validate_def server_limits_default_def validate_timeout_def router_with_health_def
        validate_mount_path_def starts_with_def valid_segments_def validate_authentication_def
        MAX_CREDENTIAL_BYTES_def char_count_def is_continuation_byte_def build_router_def Let_def)
  then show ?thesis
    using served_dashboard_well_formed by blast
qed

section \<open>What a rendered page contains\<close>

text \<open>
  A template is literal text and holes. Rendering replaces each hole once, by its value, which
  is never read again; escaped vals contain nothing that ends an attribute or opens a tag, and
  different texts have different escapes.
\<close>

datatype piece = Literal string | Hole string

fun unparse :: "piece list \<Rightarrow> string" where
  "unparse [] = []"
| "unparse (Literal s # ps) = s @ unparse ps"
| "unparse (Hole name # ps) = CHR ''{'' # name @ CHR ''}'' # unparse ps"

fun filled :: "(string \<times> string) list \<Rightarrow> piece list \<Rightarrow> string" where
  "filled vals [] = []"
| "filled vals (Literal s # ps) = s @ filled vals ps"
| "filled vals (Hole name # ps) = the (map_of vals name) @ filled vals ps"

fun piece_ok :: "(string \<times> string) list \<Rightarrow> piece \<Rightarrow> bool" where
  "piece_ok vals (Literal s) = (CHR ''{'' \<notin> set s)"
| "piece_ok vals (Hole name) = (name \<in> fst ` set vals)"

definition inert :: "string \<Rightarrow> bool" where
  "inert s \<longleftrightarrow> set s \<inter> {CHR ''<'', CHR ''>'', CHR 0x22, CHR 0x27} = {}"

lemma placeholder_found:
  assumes "list_all (\<lambda>(n, v). CHR ''}'' \<notin> set n) vals" "CHR ''}'' \<notin> set name"
  shows "placeholder_at vals (name @ CHR ''}'' # rest) = map_option (Pair name) (map_of vals name)"
  using assms(1)
proof (induction vals)
  case Nil
  then show ?case by (simp add: placeholder_at_def)
next
  case (Cons nv vals)
  obtain n v where nv: "nv = (n, v)" by (cases nv)
  let ?r = "name @ CHR ''}'' # rest"
  have "n = name" if hit: "length n < length ?r" "?r ! length n = CHR ''}''" "take (length n) ?r = n"
  proof -
    have "CHR ''}'' \<notin> set n" using Cons.prems nv by simp
    then have "length n \<le> length name"
    proof -
      have "\<not> length name < length n"
      proof
        assume lt: "length name < length n"
        then have "n ! length name = CHR ''}''"
          using hit(3) by (metis nth_append_length nth_take)
        then show False using lt \<open>CHR ''}'' \<notin> set n\<close> by (metis nth_mem)
      qed
      then show ?thesis by simp
    qed
    moreover have "\<not> length n < length name"
    proof
      assume lt: "length n < length name"
      then have "name ! length n = CHR ''}''" using hit(2) by (simp add: nth_append)
      then show False using lt assms(2) by (metis nth_mem)
    qed
    ultimately have "length n = length name" by simp
    then show ?thesis using hit(3) by simp
  qed
  then show ?case
    using Cons nv by (cases "n = name") (auto simp: placeholder_at_def)
qed

lemma render_literal: "CHR ''{'' \<notin> set s \<Longrightarrow> render_template (s @ t) vals = s @ render_template t vals"
  by (induction s) auto

lemma render_pieces:
  assumes "list_all (\<lambda>(n, v). CHR ''}'' \<notin> set n) vals" "list_all (piece_ok vals) ps"
  shows "render_template (unparse ps) vals = filled vals ps"
  using assms(2)
proof (induction ps)
  case (Cons p ps)
  show ?case
  proof (cases p)
    case (Literal s)
    then show ?thesis using Cons render_literal by simp
  next
    case (Hole name)
    have name: "name \<in> fst ` set vals" using Cons.prems Hole by simp
    then have "CHR ''}'' \<notin> set name" using assms(1) by (auto simp: list_all_iff)
    moreover obtain v where v: "map_of vals name = Some v"
      using name by (metis map_of_eq_None_iff not_None_eq)
    ultimately have "placeholder_at vals (name @ CHR ''}'' # unparse ps) = Some (name, v)"
      using placeholder_found [OF assms(1)] by simp
    then show ?thesis using Cons Hole v by simp
  qed
qed simp

lemma escape_char_inert: "inert (escape_char c)"
  by (simp add: escape_char_def inert_def)

lemma escape_inert: "inert (html_attr_escape s)"
  using escape_char_inert by (induction s) (auto simp: html_attr_escape_def inert_def)

lemma escape_char_prefix:
  "escape_char c @ s = escape_char d @ t \<Longrightarrow> c = d \<and> s = t"
  by (auto simp: escape_char_def split: if_splits)

lemma escape_injective: "html_attr_escape s = html_attr_escape t \<Longrightarrow> s = t"
proof (induction s arbitrary: t)
  case Nil
  then show ?case by (cases t) (auto simp: html_attr_escape_def escape_char_def split: if_splits)
next
  case (Cons c s)
  then obtain d t' where t: "t = d # t'"
    by (cases t) (auto simp: html_attr_escape_def escape_char_def split: if_splits)
  have "escape_char c @ html_attr_escape s = escape_char d @ html_attr_escape t'"
    using Cons.prems t by (simp add: html_attr_escape_def)
  then show ?case using escape_char_prefix Cons.IH t by blast
qed

lemma hex_digit_inert: "n < 16 \<Longrightarrow> hex_digit n \<notin> {CHR ''<'', CHR ''>'', CHR 0x22, CHR 0x27}"
proof -
  assume "n < 16"
  then have code: "(of_char (hex_digit n) :: nat) = (if n < 10 then 48 + n else 87 + n)"
    by (simp add: hex_digit_def)
  have "(of_char (hex_digit n) :: nat) \<notin> {60, 62, 34, 39}"
    unfolding code using \<open>n < 16\<close> by (simp split: if_splits)
  then show ?thesis by auto
qed

lemma hex_digits_inert: "inert (hex_digits k n)"
  by (induction k arbitrary: n) (use hex_digit_inert in \<open>auto simp: inert_def\<close>)

theorem login_page_inert:
  assumes template: "template_text files ''login.html'' = unparse ps"
    and ok: "list_all (piece_ok [(''root'', []), (''error'', []), (''version'', [])]) ps"
  obtains vals where "render_login files root err = filled vals ps"
    "map fst vals = [''root'', ''error'', ''version'']" "\<forall>v\<in>snd ` set vals. inert v"
proof
  let ?vals = "[(''root'', html_attr_escape root), (''error'', html_attr_escape err),
        (''version'', PUBLIC_FILES_VERSION files)]"
  have "piece_ok [(''root'', []), (''error'', []), (''version'', [])] p = piece_ok ?vals p" for p
    by (cases p) simp_all
  then show "render_login files root err = filled ?vals ps"
    unfolding render_login_def template using ok by (intro render_pieces) (simp_all add: list_all_iff)
  show "\<forall>v\<in>snd ` set ?vals. inert v"
    using escape_inert hex_digits_inert by (simp add: PUBLIC_FILES_VERSION_def file_fingerprint_def)
qed simp

text \<open>\<open>/static/\<close> serves the public files and nothing else that is embedded.\<close>

lemma serve_file_public:
  "rs_body (serve_file files path) = Contents text \<Longrightarrow> path \<in> fst ` set PUBLIC_FILES \<and> files path = Some text"
proof -
  assume body: "rs_body (serve_file files path) = Contents text"
  then obtain name ct where hit: "find (\<lambda>(name, _). name = path) PUBLIC_FILES = Some (name, ct)" "files name = Some text"
    by (auto simp: serve_file_def respond_def split: option.splits Option.bind_splits)
  then have "name = path \<and> (name, ct) \<in> set PUBLIC_FILES"
    unfolding find_Some_iff by (metis (mono_tags, lifting) case_prod_conv nth_mem)
  then show ?thesis using hit(2) by force
qed

end
