(* ===== verification/Dashboard_Session.thy ===== *)
theory Dashboard_Session
  imports Dashboard_Http
begin

text \<open>
  Signing in to the dashboard (\<^verbatim>\<open>dashboard.rs\<close>): the credential comparisons behind the throttle,
  the sessions minted by them, password rotation and logout, and the gate in front of the
  protected routes. What comes from outside is an argument: the clock, the random tokens and
  fresh revisions, the \<^verbatim>\<open>to_str\<close> of a header value and whether a text may be one. Sessions are
  the entries of their map in its iteration order; both instants of the source, the session's
  and the throttle's, are on one clock. A lock that is poisoned stays so.
\<close>

unbundle bit_operations_syntax

section \<open>Comparing credentials\<close>

definition byte :: "char \<Rightarrow> 8 word" where "byte c = of_nat (of_char c)"

definition constant_time_eq :: "string \<Rightarrow> string \<Rightarrow> bool" where
  "constant_time_eq a b \<longleftrightarrow>
     length a = length b \<and> fold (\<lambda>(x, y) acc. acc OR (byte x XOR byte y)) (zip a b) 0 = 0"

definition BASE64_ALPHABET :: string where
  "BASE64_ALPHABET = ''ABCDEFGHIJKLMNOPQRSTUVWXYZabcdefghijklmnopqrstuvwxyz0123456789+/''"

definition base64_number :: "string \<Rightarrow> 32 word" where
  "base64_number chunk =
     (let b = map (\<lambda>i. if i < length chunk then ucast (byte (chunk ! i)) else 0) [0..<3]
      in push_bit 16 (b ! 0) OR push_bit 8 (b ! 1) OR b ! 2)"

definition base64_chunk :: "string \<Rightarrow> string" where
  "base64_chunk chunk =
     (let n = base64_number chunk
      in map (\<lambda>i. if i \<le> length chunk then BASE64_ALPHABET ! unat (drop_bit (18 - 6 * i) n AND 0x3F) else CHR ''='')
           [0..<4])"

fun base64 :: "string \<Rightarrow> string" where
  "base64 (a # b # c # rest) = base64_chunk [a, b, c] @ base64 rest"
| "base64 [] = []"
| "base64 chunk = base64_chunk chunk"

text \<open>\<^verbatim>\<open>basic_credentials\<close>: what follows the scheme and its spaces.\<close>

definition basic_credentials :: "headers \<Rightarrow> string option" where
  "basic_credentials hs =
     Option.bind (get_header hs ''authorization'') (\<lambda>v.
       if length v < 5 then None
       else if \<not> eq_ignore_ascii_case (take 5 v) ''basic'' \<or> \<not> starts_with (drop 5 v) '' '' then None
       else Some (dropWhile (\<lambda>c. c = CHR '' '') (drop 5 v)))"

section \<open>State\<close>

definition SESSION_TTL :: duration where "SESSION_TTL = from_secs (12 * 60 * 60)"
definition MAX_SESSIONS :: nat where "MAX_SESSIONS = 64"

record session_entry =
  ses_expires_at :: instant
  ses_revision :: uuid

type_synonym sessions = "(string \<times> session_entry) list"

record auth_state =
  as_username :: string
  as_password :: string
  as_revision :: uuid
  as_credentials_poisoned :: bool
  as_sessions :: sessions
  as_sessions_poisoned :: bool
  as_throttle :: auth_throttle
  as_root :: string
  as_cookie_name :: string
  as_secure_cookies :: bool
  as_hops :: nat

text \<open>\<open>simple\<close> is the hyphen-free text of the cookie's UUID.\<close>

definition auth_state_new :: "uuid \<Rightarrow> string \<Rightarrow> string \<Rightarrow> string \<Rightarrow> string \<Rightarrow> bool \<Rightarrow> nat \<Rightarrow> auth_state" where
  "auth_state_new revision simple username password root secure hops =
     \<lparr> as_username = username, as_password = password, as_revision = revision, as_credentials_poisoned = False,
       as_sessions = [], as_sessions_poisoned = False, as_throttle = throttle_new, as_root = root,
       as_cookie_name = (if secure \<and> root = [] then ''__Host-'' else []) @ ''ironqueue_session_'' @ simple,
       as_secure_cookies = secure, as_hops = hops \<rparr>"

section \<open>Checking credentials\<close>

definition credentials_match :: "string \<Rightarrow> string \<Rightarrow> auth_state \<Rightarrow> uuid option" where
  "credentials_match username password st =
     (if as_credentials_poisoned st then None
      else if constant_time_eq username (as_username st) \<and> constant_time_eq password (as_password st)
      then Some (as_revision st) else None)"

definition basic_credentials_match :: "string \<Rightarrow> auth_state \<Rightarrow> uuid option" where
  "basic_credentials_match supplied st =
     (if as_credentials_poisoned st then None
      else if constant_time_eq supplied (base64 (as_username st @ '':'' @ as_password st))
      then Some (as_revision st) else None)"

datatype credential_check = Accepted uuid | Rejected | Saturated

text \<open>The failure delay of \<^verbatim>\<open>check\<close> only takes time.\<close>

definition check ::
    "instant \<Rightarrow> auth_channel \<Rightarrow> auth_client \<Rightarrow> (auth_state \<Rightarrow> uuid option) \<Rightarrow> auth_state
     \<Rightarrow> credential_check \<times> auth_state" where
  "check now channel client compare st =
     (let key = \<lparr> tk_client = client, tk_channel = channel \<rparr>
      in case spend now key (as_throttle st) of
           (False, th) \<Rightarrow> (Saturated, st\<lparr> as_throttle := th \<rparr>)
         | (True, th) \<Rightarrow>
             (let st' = st\<lparr> as_throttle := th \<rparr>
              in case compare st' of
                   Some revision \<Rightarrow> (Accepted revision, st'\<lparr> as_throttle := refund key th \<rparr>)
                 | None \<Rightarrow> (Rejected, st')))"

definition check_credentials ::
    "instant \<Rightarrow> auth_client \<Rightarrow> string \<Rightarrow> string \<Rightarrow> auth_state \<Rightarrow> credential_check \<times> auth_state" where
  "check_credentials now client username password st =
     check now Interactive client (credentials_match username password) st"

definition check_basic_credentials ::
    "instant \<Rightarrow> auth_client \<Rightarrow> headers \<Rightarrow> auth_state \<Rightarrow> credential_check \<times> auth_state" where
  "check_basic_credentials now client hs st =
     (case basic_credentials hs of
        None \<Rightarrow> (Rejected, st)
      | Some supplied \<Rightarrow> check now BasicChannel client (basic_credentials_match supplied) st)"

section \<open>Sessions\<close>

definition random_session_token :: "string \<Rightarrow> string" where
  "random_session_token bytes = concat (map (\<lambda>b. hex_digits 2 (of_char b)) bytes)"

definition session_tokens :: "(string \<Rightarrow> string option) \<Rightarrow> headers \<Rightarrow> string \<Rightarrow> string list" where
  "session_tokens to_str hs cookie_name =
     List.map_filter (\<lambda>(name, token). if name = cookie_name \<and> token \<noteq> [] then Some token else None)
       (List.map_filter (\<lambda>cookie. split_once ''='' (trim cookie))
         (concat (map (split_on CHR '';'') (List.map_filter to_str (get_all hs ''cookie'')))))"

definition stored_session_key :: "sessions \<Rightarrow> string \<Rightarrow> string option" where
  "stored_session_key ss token = find (\<lambda>stored. constant_time_eq stored token) (map fst ss)"

definition retain_sessions :: "instant \<Rightarrow> uuid \<Rightarrow> sessions \<Rightarrow> sessions" where
  "retain_sessions now revision ss =
     filter (\<lambda>(token, s). now < ses_expires_at s \<and> ses_revision s = revision) ss"

definition remove_key :: "string \<Rightarrow> sessions \<Rightarrow> sessions" where
  "remove_key token ss = filter (\<lambda>(t, s). t \<noteq> token) ss"

text \<open>\<^verbatim>\<open>min_by_key\<close> returns the first of the entries that expire first.\<close>

fun oldest :: "sessions \<Rightarrow> (string \<times> instant) option" where
  "oldest [] = None"
| "oldest ((token, s) # ss) =
     (case oldest ss of
        Some (t, e) \<Rightarrow> if e < ses_expires_at s then Some (t, e) else Some (token, ses_expires_at s)
      | None \<Rightarrow> Some (token, ses_expires_at s))"

definition insert_session :: "string \<Rightarrow> session_entry \<Rightarrow> sessions \<Rightarrow> sessions" where
  "insert_session token s ss = remove_key token ss @ [(token, s)]"

datatype session_creation = Created string | StaleCredentials | SessionUnavailable

definition create_session :: "instant \<Rightarrow> string \<Rightarrow> uuid \<Rightarrow> auth_state \<Rightarrow> session_creation \<times> auth_state" where
  "create_session now token credential_revision st =
     (if as_credentials_poisoned st then (SessionUnavailable, st)
      else if as_revision st \<noteq> credential_revision then (StaleCredentials, st)
      else if as_sessions_poisoned st then (SessionUnavailable, st)
      else
        (let ss = retain_sessions now (as_revision st) (as_sessions st);
             ss' = (if MAX_SESSIONS \<le> length ss then
                      (case oldest ss of Some (t, _) \<Rightarrow> remove_key t ss | None \<Rightarrow> ss)
                    else ss)
         in (Created token,
             st\<lparr> as_sessions := insert_session token
                   \<lparr> ses_expires_at = now + SESSION_TTL, ses_revision = credential_revision \<rparr> ss' \<rparr>)))"

definition session_is_valid ::
    "(string \<Rightarrow> string option) \<Rightarrow> instant \<Rightarrow> headers \<Rightarrow> auth_state \<Rightarrow> bool \<times> auth_state" where
  "session_is_valid to_str now hs st =
     (if as_credentials_poisoned st \<or> as_sessions_poisoned st then (False, st)
      else
        (let ss = retain_sessions now (as_revision st) (as_sessions st)
         in (list_ex (\<lambda>token. stored_session_key ss token \<noteq> None) (session_tokens to_str hs (as_cookie_name st)),
             st\<lparr> as_sessions := ss \<rparr>)))"

definition remove_session :: "(string \<Rightarrow> string option) \<Rightarrow> headers \<Rightarrow> auth_state \<Rightarrow> auth_state" where
  "remove_session to_str hs st =
     (if as_sessions_poisoned st then st
      else
        (let stored = List.map_filter (stored_session_key (as_sessions st))
                        (session_tokens to_str hs (as_cookie_name st))
         in st\<lparr> as_sessions := fold remove_key stored (as_sessions st) \<rparr>))"

datatype password_rotation =
    Changed "(string \<times> instant) option"
  | RotationStale
  | RotationUnavailable

definition rotate_password ::
    "(string \<Rightarrow> string option) \<Rightarrow> instant \<Rightarrow> uuid \<Rightarrow> string \<Rightarrow> uuid \<Rightarrow> string \<Rightarrow> headers \<Rightarrow> auth_state
     \<Rightarrow> password_rotation \<times> auth_state" where
  "rotate_password to_str now revision token expected_revision new_password hs st =
     (let current = session_tokens to_str hs (as_cookie_name st)
      in if as_credentials_poisoned st then (RotationUnavailable, st)
         else if as_revision st \<noteq> expected_revision then (RotationStale, st)
         else if as_sessions_poisoned st then (RotationUnavailable, st)
         else
           (let expires_at =
                  find (\<lambda>expires_at. now < expires_at)
                    (map ses_expires_at
                      (List.map_filter (\<lambda>stored. map_of (as_sessions st) stored)
                        (List.map_filter (stored_session_key (as_sessions st)) current)));
                st' = st\<lparr> as_password := new_password, as_revision := revision \<rparr>
            in case expires_at of
                 Some e \<Rightarrow>
                   (Changed (Some (token, e)),
                    st'\<lparr> as_sessions := [(token, \<lparr> ses_expires_at = e, ses_revision = revision \<rparr>)] \<rparr>)
               | None \<Rightarrow> (Changed None, st'\<lparr> as_sessions := [] \<rparr>)))"

section \<open>Handlers\<close>

definition home_path :: "auth_state \<Rightarrow> string" where
  "home_path st = (if as_root st = [] then ''/'' else as_root st)"

definition login_path :: "auth_state \<Rightarrow> string" where
  "login_path st = as_root st @ ''/login''"

definition cookie_path :: "auth_state \<Rightarrow> string" where
  "cookie_path st = (if as_root st = [] then ''/'' else as_root st)"

definition session_cookie_attributes :: "string \<Rightarrow> bool \<Rightarrow> string \<Rightarrow> nat option \<Rightarrow> string" where
  "session_cookie_attributes v secure path max_age =
     v @ ''; Path='' @ path @ (if secure then ''; Secure'' else []) @ ''; HttpOnly; SameSite=Strict'' @
     (case max_age of Some seconds \<Rightarrow> ''; Max-Age='' @ decimal seconds | None \<Rightarrow> [])"

definition session_cookie :: "string \<Rightarrow> string \<Rightarrow> bool \<Rightarrow> string \<Rightarrow> string" where
  "session_cookie cookie_name token secure path =
     session_cookie_attributes (cookie_name @ ''='' @ token) secure path (Some (SESSION_TTL div from_secs 1))"

definition redirect_response :: "(string \<Rightarrow> bool) \<Rightarrow> string \<Rightarrow> string option \<Rightarrow> response" where
  "redirect_response header_value location cookie =
     (if \<not> header_value location then respond 500 [] Empty_Body
      else
        (let r = insert_header ''location'' location (respond 303 [] Empty_Body)
         in case cookie of
              None \<Rightarrow> r
            | Some c \<Rightarrow> if header_value c then insert_header ''set-cookie'' c r else respond 500 [] Empty_Body))"

text \<open>
  What the code takes from outside: the readability of header values, and the embedded files.
\<close>

record environment =
  env_to_str :: "string \<Rightarrow> string option"
  env_header_value :: "string \<Rightarrow> bool"
  env_files :: "string \<Rightarrow> string option"

definition login_html :: "environment \<Rightarrow> string \<Rightarrow> auth_state \<Rightarrow> body" where
  "login_html env err st = Html (render_login (env_files env) (as_root st) err)"

definition client_of_request :: "auth_state \<Rightarrow> http_request \<Rightarrow> auth_client" where
  "client_of_request st req = client_of (as_hops st) (hr_headers req) (hr_peer req)"

text \<open>The gate: \<open>Inr\<close> passes the request on.\<close>

definition contains_text :: "string \<Rightarrow> string \<Rightarrow> bool" where
  "contains_text needle s = list_ex (\<lambda>i. starts_with (drop i s) needle) [0..<Suc (length s)]"

definition unauthorized :: "environment \<Rightarrow> auth_state \<Rightarrow> http_request \<Rightarrow> response" where
  "unauthorized env st req =
     (if \<not> starts_with (hr_path req) ''/api/'' \<and>
         (case Option.bind (get_header (hr_headers req) ''accept'') (env_to_str env) of
            Some v \<Rightarrow> contains_text ''text/html'' v | None \<Rightarrow> False)
      then redirect_response (env_header_value env) (login_path st) None
      else respond 401 [(''www-authenticate'', ''Basic realm='' @ [CHR 0x22] @ ''ironqueue'' @ [CHR 0x22])]
             (Text ''unauthorized''))"

definition AUTH_SATURATED_MESSAGE :: string where
  "AUTH_SATURATED_MESSAGE = ''too many authentication attempts''"

definition require_auth ::
    "environment \<Rightarrow> instant \<Rightarrow> http_request \<Rightarrow> auth_state \<Rightarrow> (response + unit) \<times> auth_state" where
  "require_auth env now req st =
     (case session_is_valid (env_to_str env) now (hr_headers req) st of
        (True, st1) \<Rightarrow> (Inr (), st1)
      | (False, st1) \<Rightarrow>
          if get_header (hr_headers req) ''authorization'' = None then (Inl (unauthorized env st1 req), st1)
          else
            (case check_basic_credentials now (client_of_request st1 req) (hr_headers req) st1 of
               (Accepted revision, st2) \<Rightarrow> (Inr (), st2)
             | (Rejected, st2) \<Rightarrow> (Inl (unauthorized env st2 req), st2)
             | (Saturated, st2) \<Rightarrow> (Inl (api_error_response (TooManyRequests AUTH_SATURATED_MESSAGE)), st2)))"

definition invalid_login :: "environment \<Rightarrow> auth_state \<Rightarrow> response" where
  "invalid_login env st = respond 401 [] (login_html env ''Invalid username or password.'' st)"

text \<open>
  The login form. The check and the minting of the session hold different locks; \<open>login_begin\<close>
  ends with the revision that was accepted, \<open>login_finish\<close> mints for it, and other requests may
  come between.
\<close>

definition login_begin ::
    "environment \<Rightarrow> instant \<Rightarrow> http_request \<Rightarrow> string \<Rightarrow> string \<Rightarrow> auth_state \<Rightarrow> (response + uuid) \<times> auth_state" where
  "login_begin env now req username password st =
     (if is_cross_site_post (env_to_str env) (hr_headers req) then
        (Inl (respond 403 [] (login_html env ''Cross-site login posts are refused.'' st)), st)
      else
        (case check_credentials now (client_of_request st req) username password st of
           (Accepted revision, st') \<Rightarrow> (Inr revision, st')
         | (Rejected, st') \<Rightarrow> (Inl (invalid_login env st'), st')
         | (Saturated, st') \<Rightarrow>
             (Inl (respond 429 [(''retry-after'', ''1'')]
                     (login_html env ''Too many attempts. Try again shortly.'' st')), st')))"

definition login_finish :: "environment \<Rightarrow> instant \<Rightarrow> string \<Rightarrow> uuid \<Rightarrow> auth_state \<Rightarrow> response \<times> auth_state" where
  "login_finish env now token revision st =
     (case create_session now token revision st of
        (Created token, st') \<Rightarrow>
          (redirect_response (env_header_value env) (home_path st')
             (Some (session_cookie (as_cookie_name st') token (as_secure_cookies st') (cookie_path st'))), st')
      | (StaleCredentials, st') \<Rightarrow> (invalid_login env st', st')
      | (SessionUnavailable, st') \<Rightarrow> (respond 500 [] Empty_Body, st'))"

text \<open>The password change, in the same two parts.\<close>

definition change_password_begin ::
    "environment \<Rightarrow> instant \<Rightarrow> http_request \<Rightarrow> string \<Rightarrow> string \<Rightarrow> auth_state \<Rightarrow> (api_error + uuid) \<times> auth_state" where
  "change_password_begin env now req current_password new_password st =
     (case require_action_header (hr_headers req) of
        Inl e \<Rightarrow> (Inl e, st)
      | Inr _ \<Rightarrow>
          if char_count new_password < 8 then
            (Inl (BadRequest ''new password must be at least 8 characters''), st)
          else if MAX_CREDENTIAL_BYTES < length new_password then
            (Inl (BadRequest ''new password is too long''), st)
          else
            (case check_credentials now (client_of_request st req) (as_username st) current_password st of
               (Accepted revision, st') \<Rightarrow> (Inr revision, st')
             | (Rejected, st') \<Rightarrow> (Inl (Forbidden ''current password is incorrect''), st')
             | (Saturated, st') \<Rightarrow> (Inl (TooManyRequests AUTH_SATURATED_MESSAGE), st')))"

definition changed_response :: "environment \<Rightarrow> instant \<Rightarrow> (string \<times> instant) option \<Rightarrow> auth_state \<Rightarrow> response" where
  "changed_response env later session st =
     (let r = respond 200 [] (Json (JObject [(''changed'', JBool True)]))
      in case session of
           None \<Rightarrow> r
         | Some (token, expires_at) \<Rightarrow>
             (let cookie = session_cookie_attributes (as_cookie_name st @ ''='' @ token) (as_secure_cookies st)
                             (cookie_path st) (Some ((expires_at - later) div from_secs 1))
              in if env_header_value env cookie then insert_header ''set-cookie'' cookie r
                 else respond 500 [] Empty_Body))"

definition change_password_finish ::
    "environment \<Rightarrow> instant \<Rightarrow> instant \<Rightarrow> uuid \<Rightarrow> string \<Rightarrow> uuid \<Rightarrow> string \<Rightarrow> http_request \<Rightarrow> auth_state
     \<Rightarrow> (api_error + response) \<times> auth_state" where
  "change_password_finish env now later revision token accepted new_password req st =
     (case rotate_password (env_to_str env) now revision token accepted new_password (hr_headers req) st of
        (Changed session, st') \<Rightarrow> (Inr (changed_response env later session st'), st')
      | (RotationStale, st') \<Rightarrow> (Inl (Forbidden ''current password is incorrect''), st')
      | (RotationUnavailable, st') \<Rightarrow>
          (Inl (Internal (Dashboard ''dashboard authentication state unavailable'')), st'))"

definition logout :: "environment \<Rightarrow> http_request \<Rightarrow> auth_state \<Rightarrow> (api_error + response) \<times> auth_state" where
  "logout env req st =
     (case require_action_header (hr_headers req) of
        Inl e \<Rightarrow> (Inl e, st)
      | Inr _ \<Rightarrow>
          (let st' = remove_session (env_to_str env) (hr_headers req) st;
               cookie = session_cookie_attributes (as_cookie_name st' @ ''='') (as_secure_cookies st')
                          (cookie_path st') (Some 0)
           in if env_header_value env cookie
              then (Inr (insert_header ''set-cookie'' cookie (respond 200 [] (Json (JObject [(''logged_out'', JBool True)])))), st')
              else (Inr (respond 500 [] Empty_Body), st')))"

section \<open>The comparisons are exact\<close>

lemma byte_inject: "byte c = byte d \<longleftrightarrow> c = d"
proof -
  have "(of_char c :: nat) < 2 ^ LENGTH(8)" for c by simp
  then have "unat (byte c) = of_char c" for c
    unfolding byte_def by (simp add: unsigned_of_nat take_bit_nat_eq_self)
  then show ?thesis by (metis of_char_eq_iff)
qed

lemma xor_zero: "x XOR y = 0 \<longleftrightarrow> x = (y :: 8 word)"
proof
  assume z: "x XOR y = 0"
  have "x = (x XOR y) XOR y" by (simp add: xor.assoc)
  also have "\<dots> = y" unfolding z by simp
  finally show "x = y" .
qed simp

lemma or_fold_zero: "fold (\<lambda>(x, y) acc. acc OR (byte x XOR byte y)) ps acc = 0 \<longleftrightarrow>
   acc = (0 :: 8 word) \<and> (\<forall>(x, y)\<in>set ps. x = y)"
proof (induction ps arbitrary: acc)
  case (Cons p ps)
  obtain x y where p: "p = (x, y)" by (cases p)
  have "acc OR (byte x XOR byte y) = 0 \<longleftrightarrow> acc = 0 \<and> byte x = byte y"
    using xor_zero [of "byte x" "byte y"] by (simp add: or_eq_0_iff)
  then show ?case using Cons p byte_inject by auto
qed simp

lemma constant_time_eq_iff: "constant_time_eq a b \<longleftrightarrow> a = b"
proof -
  have "length a = length b \<Longrightarrow> (\<forall>(x, y)\<in>set (zip a b). x = y) \<longleftrightarrow> a = b"
    by (induction a b rule: list_induct2) auto
  then show ?thesis unfolding constant_time_eq_def or_fold_zero by auto
qed

lemma stored_session_key_eq: "stored_session_key ss token = (if token \<in> fst ` set ss then Some token else None)"
proof (cases "token \<in> fst ` set ss")
  case True
  have "find (\<lambda>stored. stored = token) ts = Some token" if "token \<in> set ts" for ts
    using that by (induction ts) auto
  then show ?thesis using True by (simp add: stored_session_key_def constant_time_eq_iff)
next
  case False
  then show ?thesis by (auto simp: stored_session_key_def constant_time_eq_iff find_None_iff)
qed

text \<open>A decoder for padded base64, as a specification of the encoder.\<close>

definition sextet :: "char \<Rightarrow> nat option" where
  "sextet c = find (\<lambda>k. BASE64_ALPHABET ! k = c) [0..<64]"

definition sextets_word :: "nat list \<Rightarrow> 32 word" where
  "sextets_word ks =
     push_bit 18 (of_nat (ks ! 0)) OR push_bit 12 (of_nat (ks ! 1)) OR
     push_bit 6 (of_nat (ks ! 2)) OR of_nat (ks ! 3)"

definition word_bytes :: "32 word \<Rightarrow> string" where
  "word_bytes n = map (\<lambda>k. char_of (unat (ucast (drop_bit k n) :: 8 word))) [16, 8, 0]"

fun base64_decode :: "string \<Rightarrow> string option" where
  "base64_decode [] = Some []"
| "base64_decode (w # x # y # z # rest) =
     (case (sextet w, sextet x, sextet y, sextet z) of
        (Some a, Some b, Some c, Some d) \<Rightarrow>
          map_option (\<lambda>r. word_bytes (sextets_word [a, b, c, d]) @ r) (base64_decode rest)
      | (Some a, Some b, Some c, None) \<Rightarrow>
          if z = CHR ''='' \<and> rest = [] then Some (take 2 (word_bytes (sextets_word [a, b, c, 0]))) else None
      | (Some a, Some b, None, None) \<Rightarrow>
          if y = CHR ''='' \<and> z = CHR ''='' \<and> rest = [] then Some (take 1 (word_bytes (sextets_word [a, b, 0, 0])))
          else None
      | _ \<Rightarrow> None)"
| "base64_decode _ = None"

lemma sextet_nth: "k < 64 \<Longrightarrow> sextet (BASE64_ALPHABET ! k) = Some k"
proof -
  assume "k < 64"
  have "list_all (\<lambda>k. sextet (BASE64_ALPHABET ! k) = Some k) [0..<64]" by code_simp
  then show ?thesis using \<open>k < 64\<close> by (simp add: list_all_iff)
qed

lemma sextet_padding: "sextet CHR ''='' = None" by code_simp

definition digit :: "32 word \<Rightarrow> nat \<Rightarrow> nat" where
  "digit n i = unat (drop_bit (18 - 6 * i) n AND 0x3F)"

lemma digit_take_bit: "digit n i = unat (take_bit 6 (drop_bit (18 - 6 * i) n))"
proof -
  have "(0x3F :: 32 word) = mask 6" by (simp add: mask_eq_exp_minus_1)
  then show ?thesis by (simp add: digit_def take_bit_eq_mask)
qed

lemma digit_less: "digit n i < 64"
proof -
  have "unat (take_bit 6 (drop_bit (18 - 6 * i) n)) = take_bit 6 (unat (drop_bit (18 - 6 * i) n))"
    by (simp add: unsigned_take_bit_eq)
  also have "\<dots> < 2 ^ 6" by (rule take_bit_nat_less_exp)
  finally show ?thesis by (simp add: digit_take_bit)
qed

lemma sextets_digits:
  "sextets_word [digit n 0, digit n 1, digit n 2, digit n 3] = take_bit 24 n"
proof (rule bit_word_eqI)
  fix i :: nat
  assume "i < LENGTH(32)"
  then show "bit (sextets_word [digit n 0, digit n 1, digit n 2, digit n 3]) i \<longleftrightarrow> bit (take_bit 24 n) i"
    by (cases "i < 6"; cases "i < 12"; cases "i < 18"; cases "i < 24")
       (simp_all add: sextets_word_def digit_take_bit bit_simps, (linarith | simp add: less_diff_conv2)+)
qed

lemma byte_char: "char_of (unat (byte c)) = c"
proof -
  have "(of_char c :: nat) < 2 ^ LENGTH(8)" by simp
  then have "unat (byte c) = of_char c"
    unfolding byte_def by (simp add: unsigned_of_nat take_bit_nat_eq_self)
  then show ?thesis by simp
qed

lemma number_bytes:
  "ucast (drop_bit 16 (take_bit 24 (push_bit 16 (ucast a) OR push_bit 8 (ucast b) OR ucast c :: 32 word))) = (a :: 8 word)"
  "ucast (drop_bit 8 (take_bit 24 (push_bit 16 (ucast a) OR push_bit 8 (ucast b) OR ucast c :: 32 word))) = (b :: 8 word)"
  "ucast (drop_bit 0 (take_bit 24 (push_bit 16 (ucast a) OR push_bit 8 (ucast b) OR ucast c :: 32 word))) = (c :: 8 word)"
  by (rule bit_word_eqI; force simp: bit_simps dest: bit_imp_le_length)+

lemma word_bytes_number:
  "word_bytes (take_bit 24 (push_bit 16 (ucast (byte a)) OR push_bit 8 (ucast (byte b)) OR ucast (byte c))) = [a, b, c]"
  unfolding word_bytes_def list.map number_bytes byte_char ..

lemma base64_number_simps:
  "base64_number [a, b, c] = push_bit 16 (ucast (byte a)) OR push_bit 8 (ucast (byte b)) OR ucast (byte c)"
  "base64_number [a, b] = push_bit 16 (ucast (byte a)) OR push_bit 8 (ucast (byte b)) OR ucast (byte NUL)"
  "base64_number [a] = push_bit 16 (ucast (byte a)) OR push_bit 8 (ucast (byte NUL)) OR ucast (byte NUL)"
  by (simp_all add: base64_number_def upt_rec byte_def Let_def)

lemma base64_chunk_simps:
  "base64_chunk [a, b, c] = map (\<lambda>i. BASE64_ALPHABET ! digit (base64_number [a, b, c]) i) [0, 1, 2, 3]"
  "base64_chunk [a, b] = map (\<lambda>i. BASE64_ALPHABET ! digit (base64_number [a, b]) i) [0, 1, 2] @ ''=''"
  "base64_chunk [a] = map (\<lambda>i. BASE64_ALPHABET ! digit (base64_number [a]) i) [0, 1] @ ''==''"
  by (simp_all add: base64_chunk_def upt_rec digit_def Let_def)

lemma low_digits:
  "digit (push_bit 16 (ucast (byte a)) OR push_bit 8 (ucast (byte b)) OR ucast (byte NUL)) 3 = 0"
  "digit (push_bit 16 (ucast (byte a)) OR push_bit 8 (ucast (byte NUL)) OR ucast (byte NUL)) 2 = 0"
proof -
  have z: "byte NUL = 0" by (simp add: byte_def)
  have "take_bit 6 (drop_bit 0 (push_bit 16 (ucast (byte a)) OR push_bit 8 (ucast (byte b)) OR ucast (byte NUL) :: 32 word)) = 0"
    unfolding z by (rule bit_word_eqI) (auto simp: bit_simps)
  then show "digit (push_bit 16 (ucast (byte a)) OR push_bit 8 (ucast (byte b)) OR ucast (byte NUL)) 3 = 0"
    by (simp add: digit_take_bit)
  have "take_bit 6 (drop_bit 6 (push_bit 16 (ucast (byte a)) OR push_bit 8 (ucast (byte NUL)) OR ucast (byte NUL) :: 32 word)) = 0"
    unfolding z by (rule bit_word_eqI) (auto simp: bit_simps)
  then show "digit (push_bit 16 (ucast (byte a)) OR push_bit 8 (ucast (byte NUL)) OR ucast (byte NUL)) 2 = 0"
    by (simp add: digit_take_bit)
qed

lemma chunk_bytes:
  "word_bytes (sextets_word (map (digit (base64_number [a, b, c])) [0, 1, 2, 3])) = [a, b, c]"
  "word_bytes (sextets_word (map (digit (base64_number [a, b])) [0, 1, 2, 3])) = [a, b, NUL]"
  "word_bytes (sextets_word (map (digit (base64_number [a])) [0, 1, 2, 3])) = [a, NUL, NUL]"
  unfolding list.map sextets_digits base64_number_simps by (rule word_bytes_number)+

text \<open>The encoder is right against the decoder, on every byte string.\<close>

theorem base64_decodes: "base64_decode (base64 s) = Some s"
proof (induction s rule: base64.induct [case_names chunk nil one two])
  case (chunk a b c rest)
  then show ?case
    using chunk_bytes(1) [of a b c] by (simp add: base64_chunk_simps sextet_nth digit_less)
next
  case nil
  then show ?case by simp
next
  case (one a)
  have "digit (base64_number [a]) 2 = 0" "digit (base64_number [a]) 3 = 0"
    unfolding base64_number_simps by (rule low_digits)+
  then show ?case
    using chunk_bytes(3) [of a] by (simp add: base64_chunk_simps sextet_nth digit_less sextet_padding)
next
  case (two a b)
  have "digit (base64_number [a, b]) 3 = 0"
    unfolding base64_number_simps by (rule low_digits)
  then show ?case
    using chunk_bytes(2) [of a b] by (simp add: base64_chunk_simps sextet_nth digit_less sextet_padding)
qed

lemma base64_injective: "base64 s = base64 t \<Longrightarrow> s = t"
proof -
  assume e: "base64 s = base64 t"
  have "Some s = base64_decode (base64 t)" unfolding e [symmetric] base64_decodes ..
  then show "s = t" unfolding base64_decodes by simp
qed

section \<open>Session tables\<close>

definition sessions_ok :: "auth_state \<Rightarrow> bool" where
  "sessions_ok st \<longleftrightarrow> distinct (map fst (as_sessions st)) \<and> length (as_sessions st) \<le> MAX_SESSIONS"

lemma distinct_retain: "distinct (map fst ss) \<Longrightarrow> distinct (map fst (retain_sessions now revision ss))"
  unfolding retain_sessions_def by (rule distinct_map_filter)

lemma length_retain: "length (retain_sessions now revision ss) \<le> length ss"
  by (simp add: retain_sessions_def)

lemma distinct_remove_key: "distinct (map fst ss) \<Longrightarrow> distinct (map fst (remove_key t ss))"
  unfolding remove_key_def by (rule distinct_map_filter)

lemma oldest_mem: "oldest ss = Some (t, e) \<Longrightarrow> t \<in> fst ` set ss"
  by (induction ss arbitrary: t e rule: oldest.induct) (auto split: option.splits if_splits)

lemma length_remove_key: "t \<in> fst ` set ss \<Longrightarrow> length (remove_key t ss) < length ss"
  unfolding remove_key_def by (auto intro!: length_filter_less)

lemma length_remove_key_le: "length (remove_key t ss) \<le> length ss"
  by (simp add: remove_key_def)

lemma oldest_None: "oldest ss = None \<longleftrightarrow> ss = []"
  by (induction ss rule: oldest.induct) (auto split: option.splits)

text \<open>Minting keeps the cap: a full table gives up its oldest session.\<close>

lemma create_session_ok:
  assumes "sessions_ok st"
  shows "sessions_ok (snd (create_session now token revision st))"
proof -
  let ?ss = "retain_sessions now (as_revision st) (as_sessions st)"
  define kept where "kept = (if MAX_SESSIONS \<le> length ?ss
      then (case oldest ?ss of Some (t, _) \<Rightarrow> remove_key t ?ss | None \<Rightarrow> ?ss) else ?ss)"
  have d: "distinct (map fst ?ss)" and l: "length ?ss \<le> MAX_SESSIONS"
    using assms distinct_retain length_retain [of now "as_revision st" "as_sessions st"]
    by (auto simp: sessions_ok_def)
  have "distinct (map fst kept) \<and> length kept < MAX_SESSIONS"
  proof (cases "MAX_SESSIONS \<le> length ?ss")
    case True
    then obtain t e where t: "oldest ?ss = Some (t, e)"
      using oldest_None [of ?ss] by (cases "oldest ?ss") (auto simp: MAX_SESSIONS_def)
    have k: "kept = remove_key t ?ss" using True t by (simp add: kept_def)
    have "length kept < length ?ss"
      unfolding k by (rule length_remove_key [OF oldest_mem [OF t]])
    then show ?thesis using k l distinct_remove_key [OF d, of t] by simp
  next
    case False
    then show ?thesis using d by (simp add: kept_def)
  qed
  then have "distinct (map fst (insert_session token s kept)) \<and> length (insert_session token s kept) \<le> MAX_SESSIONS" for s
    using distinct_remove_key [of kept token] le_less_trans [OF length_remove_key_le [of token kept]]
    by (auto simp: insert_session_def remove_key_def Suc_le_eq)
  then show ?thesis
    using assms unfolding create_session_def Let_def kept_def [symmetric] by (simp add: sessions_ok_def)
qed

lemma check_frame:
  "check now channel client compare st = (r, st') \<Longrightarrow> \<exists>th. st' = st\<lparr> as_throttle := th \<rparr>"
  by (auto simp: check_def Let_def split: prod.splits bool.splits option.splits)

lemma check_accepted:
  "check now channel client compare st = (Accepted revision, st') \<Longrightarrow>
     \<exists>th. compare (st\<lparr> as_throttle := th \<rparr>) = Some revision"
  by (auto simp: check_def Let_def split: prod.splits bool.splits option.splits)

text \<open>
  What a check says. Accepted: the credentials are the current ones, and the attempt was handed back.
  Rejected: they are not. Saturated: nothing was compared, right or wrong.
\<close>

lemma credentials_match_iff:
  "credentials_match username password st = Some revision \<longleftrightarrow>
     \<not> as_credentials_poisoned st \<and> username = as_username st \<and> password = as_password st \<and> revision = as_revision st"
  by (auto simp: credentials_match_def constant_time_eq_iff)

lemma basic_credentials_match_iff:
  "basic_credentials_match supplied st = Some revision \<longleftrightarrow>
     \<not> as_credentials_poisoned st \<and> supplied = base64 (as_username st @ '':'' @ as_password st) \<and>
     revision = as_revision st"
  by (auto simp: basic_credentials_match_def constant_time_eq_iff)

theorem saturation_is_blind:
  "fst (check now channel client compare st) = Saturated \<longleftrightarrow>
     \<not> fst (spend now \<lparr> tk_client = client, tk_channel = channel \<rparr> (as_throttle st))"
  by (auto simp: check_def Let_def split: prod.splits bool.splits option.splits)

lemma session_is_valid_iff:
  "fst (session_is_valid to_str now hs st) \<longleftrightarrow>
     \<not> as_credentials_poisoned st \<and> \<not> as_sessions_poisoned st \<and>
     (\<exists>token\<in>set (session_tokens to_str hs (as_cookie_name st)). \<exists>s. (token, s) \<in> set (as_sessions st) \<and>
        now < ses_expires_at s \<and> ses_revision s = as_revision st)"
  by (auto simp: session_is_valid_def Let_def list_ex_iff stored_session_key_eq retain_sessions_def image_iff)

text \<open>
  HTTP Basic accepts what the login form accepts. Its comparison is with one encoding, of the
  pair joined by a colon; as no username contains one, a supplied pair encodes to it exactly when
  name and password are both right, and the encoding loses nothing.
\<close>

lemma joined_pair:
  "\<lbrakk>CHR '':'' \<notin> set u; CHR '':'' \<notin> set v; u @ '':'' @ p = v @ '':'' @ q\<rbrakk> \<Longrightarrow> u = v \<and> p = q"
proof (induction u arbitrary: v)
  case Nil
  then show ?case by (cases v) auto
next
  case (Cons c u)
  then show ?case by (cases v) auto
qed

theorem basic_accepts_what_the_form_accepts:
  assumes "CHR '':'' \<notin> set (as_username st)" "CHR '':'' \<notin> set username"
  shows "basic_credentials_match (base64 (username @ '':'' @ password)) st = credentials_match username password st \<and>
     base64_decode (base64 (username @ '':'' @ password)) = Some (username @ '':'' @ password)"
proof -
  have "base64 (username @ '':'' @ password) = base64 (as_username st @ '':'' @ as_password st) \<longleftrightarrow>
      username = as_username st \<and> password = as_password st"
    using base64_injective joined_pair [OF assms(2,1)] by blast
  then show ?thesis
    unfolding basic_credentials_match_def credentials_match_def constant_time_eq_iff base64_decodes by simp
qed

theorem basic_accepts_what_the_form_accepts_witness:
  "basic_credentials_match (base64 ''admin:password'') (auth_state_new 7 [] ''admin'' ''password'' [] True 0) = Some 7"
  using basic_accepts_what_the_form_accepts [of "auth_state_new 7 [] ''admin'' ''password'' [] True 0" "''admin''" "''password''"]
  by (simp add: auth_state_new_def credentials_match_def constant_time_eq_iff)

section \<open>The world of a dashboard\<close>

text \<open>
  Requests of any number of clients, in any interleaving of their locked parts: a login and a
  password change check first and act later, on what they were told. The history notes each
  revision with the password it stands for, the name and password a client proved to know
  for a revision, by presenting them or by choosing the password, and each minted token with the
  revision and the instant of the sign-in it goes back to.
\<close>

record minting =
  mint_token :: string
  mint_revision :: uuid
  mint_since :: instant

record auth_world =
  aw_state :: auth_state
  aw_logins :: "uuid list"
  aw_changes :: "(uuid \<times> string) list"
  aw_passwords :: "uuid \<rightharpoonup> string"
  aw_known :: "(uuid \<times> string \<times> string) list"
  aw_minted :: "minting list"

definition world_new :: "auth_state \<Rightarrow> auth_world" where
  "world_new st = \<lparr> aw_state = st, aw_logins = [], aw_changes = [], aw_passwords = [as_revision st \<mapsto> as_password st],
     aw_known = [], aw_minted = [] \<rparr>"

inductive auth_step :: "environment \<Rightarrow> auth_world \<Rightarrow> auth_world \<Rightarrow> bool" for env where
  step_gate: "require_auth env now req (aw_state w) = (answer, st) \<Longrightarrow> auth_step env w (w\<lparr> aw_state := st \<rparr>)"
| step_login_refused: "login_begin env now req username password (aw_state w) = (Inl answer, st) \<Longrightarrow>
    auth_step env w (w\<lparr> aw_state := st \<rparr>)"
| step_login_accepted: "login_begin env now req username password (aw_state w) = (Inr revision, st) \<Longrightarrow>
    auth_step env w (w\<lparr> aw_state := st, aw_logins := revision # aw_logins w,
                       aw_known := (revision, username, password) # aw_known w \<rparr>)"
| step_login_finished:
    "\<lbrakk>revision \<in> set (aw_logins w); create_session now token revision (aw_state w) = (made, st)\<rbrakk> \<Longrightarrow>
     auth_step env w (w\<lparr> aw_state := snd (login_finish env now token revision (aw_state w)),
       aw_logins := remove1 revision (aw_logins w),
       aw_minted := (if made = Created token
                     then \<lparr> mint_token = token, mint_revision = revision, mint_since = now \<rparr> # aw_minted w
                     else aw_minted w) \<rparr>)"
| step_change_refused: "change_password_begin env now req current new_password (aw_state w) = (Inl answer, st) \<Longrightarrow>
    auth_step env w (w\<lparr> aw_state := st \<rparr>)"
| step_change_accepted: "change_password_begin env now req current new_password (aw_state w) = (Inr revision, st) \<Longrightarrow>
    auth_step env w (w\<lparr> aw_state := st, aw_changes := (revision, new_password) # aw_changes w,
                       aw_known := (revision, as_username (aw_state w), current) # aw_known w \<rparr>)"
| step_change_finished:
    "\<lbrakk>(accepted, new_password) \<in> set (aw_changes w); revision \<notin> dom (aw_passwords w);
      rotate_password (env_to_str env) now revision token accepted new_password (hr_headers req) (aw_state w) = (rotation, st)\<rbrakk> \<Longrightarrow>
     auth_step env w (w\<lparr> aw_state := snd (change_password_finish env now later revision token accepted new_password req (aw_state w)),
       aw_changes := remove1 (accepted, new_password) (aw_changes w),
       aw_passwords := (case rotation of Changed _ \<Rightarrow> (aw_passwords w)(revision \<mapsto> new_password) | _ \<Rightarrow> aw_passwords w),
       aw_known := (case rotation of Changed _ \<Rightarrow> (revision, as_username (aw_state w), new_password) # aw_known w | _ \<Rightarrow> aw_known w),
       aw_minted := (case rotation of
                       Changed (Some (token, expires)) \<Rightarrow>
                         \<lparr> mint_token = token, mint_revision = revision, mint_since = expires - SESSION_TTL \<rparr> # aw_minted w
                     | _ \<Rightarrow> aw_minted w) \<rparr>)"
| step_logout: "logout env req (aw_state w) = (answer, st) \<Longrightarrow> auth_step env w (w\<lparr> aw_state := st \<rparr>)"

inductive auth_run :: "environment \<Rightarrow> auth_world \<Rightarrow> auth_world \<Rightarrow> bool" for env where
  run_refl: "auth_run env w w"
| run_step: "\<lbrakk>auth_run env w w'; auth_step env w' w''\<rbrakk> \<Longrightarrow> auth_run env w w''"

text \<open>What every operation but a mint and a rotation keeps: the credentials, and no session is added.\<close>

definition shrinks :: "auth_state \<Rightarrow> auth_state \<Rightarrow> bool" where
  "shrinks st st' \<longleftrightarrow>
     as_username st' = as_username st \<and> as_password st' = as_password st \<and> as_revision st' = as_revision st \<and>
     as_cookie_name st' = as_cookie_name st \<and> set (as_sessions st') \<subseteq> set (as_sessions st) \<and>
     (sessions_ok st \<longrightarrow> sessions_ok st')"

lemma shrinks_refl [simp]: "shrinks st st"
  by (simp add: shrinks_def)

lemma shrinks_trans: "\<lbrakk>shrinks a b; shrinks b c\<rbrakk> \<Longrightarrow> shrinks a c"
  by (auto simp: shrinks_def)

lemma shrinks_throttle [simp]: "shrinks st (st\<lparr> as_throttle := th \<rparr>)"
  by (simp add: shrinks_def sessions_ok_def)

lemma shrinks_check: "check now channel client compare st = (r, st') \<Longrightarrow> shrinks st st'"
  using check_frame by fastforce

lemma shrinks_valid: "shrinks st (snd (session_is_valid to_str now hs st))"
proof -
  let ?ss = "retain_sessions now (as_revision st) (as_sessions st)"
  have sub: "set ?ss \<subseteq> set (as_sessions st)" by (auto simp: retain_sessions_def)
  have ok: "distinct (map fst ?ss) \<and> length ?ss \<le> MAX_SESSIONS" if "sessions_ok st"
    using that distinct_retain le_trans [OF length_retain [of now "as_revision st" "as_sessions st"]]
    by (simp add: sessions_ok_def)
  show ?thesis
    using sub ok by (simp add: session_is_valid_def Let_def shrinks_def sessions_ok_def)
qed

lemma shrinks_basic: "check_basic_credentials now client hs st = (r, st') \<Longrightarrow> shrinks st st'"
  by (auto simp: check_basic_credentials_def shrinks_check split: option.splits)

lemma shrinks_gate: "require_auth env now req st = (answer, st') \<Longrightarrow> shrinks st st'"
proof -
  assume run: "require_auth env now req st = (answer, st')"
  obtain v st1 where v: "session_is_valid (env_to_str env) now (hr_headers req) st = (v, st1)"
    by (cases "session_is_valid (env_to_str env) now (hr_headers req) st")
  have s1: "shrinks st st1" using shrinks_valid [of st "env_to_str env" now "hr_headers req"] v by simp
  obtain r st2 where r: "check_basic_credentials now (client_of_request st1 req) (hr_headers req) st1 = (r, st2)"
    by (cases "check_basic_credentials now (client_of_request st1 req) (hr_headers req) st1")
  have "st' = st1 \<or> st' = st2"
    using run v r by (cases v; cases r) (auto simp: require_auth_def split: if_splits)
  then show ?thesis using s1 shrinks_basic [OF r] shrinks_trans by blast
qed

lemma shrinks_login: "login_begin env now req username password st = (answer, st') \<Longrightarrow> shrinks st st'"
  by (auto simp: login_begin_def check_credentials_def dest: shrinks_check
      split: if_splits prod.splits credential_check.splits)

lemma shrinks_change: "change_password_begin env now req current new_password st = (answer, st') \<Longrightarrow> shrinks st st'"
  by (auto simp: change_password_begin_def check_credentials_def dest: shrinks_check
      split: if_splits prod.splits credential_check.splits sum.splits)

lemma fold_remove_key: "set (fold remove_key ts ss) = {(t, s) \<in> set ss. t \<notin> set ts}"
  by (induction ts arbitrary: ss) (auto simp: remove_key_def)

lemma fold_remove_key_ok: "distinct (map fst ss) \<Longrightarrow>
   distinct (map fst (fold remove_key ts ss)) \<and> length (fold remove_key ts ss) \<le> length ss"
proof (induction ts arbitrary: ss)
  case (Cons t ts)
  have "distinct (map fst (fold remove_key ts (remove_key t ss))) \<and>
      length (fold remove_key ts (remove_key t ss)) \<le> length (remove_key t ss)"
    by (rule Cons.IH [OF distinct_remove_key [OF Cons.prems]])
  then show ?case
    using le_trans [OF _ length_remove_key_le [of t ss]] by simp
qed simp

lemma shrinks_remove: "shrinks st (remove_session to_str hs st)"
proof -
  have "sessions_ok st \<Longrightarrow> sessions_ok (remove_session to_str hs st)"
    using fold_remove_key_ok [of "as_sessions st"] le_trans
    by (fastforce simp: remove_session_def Let_def sessions_ok_def)
  then show ?thesis
    by (auto simp: shrinks_def remove_session_def Let_def fold_remove_key)
qed

lemma shrinks_logout: "logout env req st = (answer, st') \<Longrightarrow> shrinks st st'"
  using shrinks_remove by (auto simp: logout_def Let_def split: sum.splits if_splits)

lemma login_accepted:
  "login_begin env now req username password st = (Inr revision, st') \<Longrightarrow>
     username = as_username st \<and> password = as_password st \<and> revision = as_revision st"
  by (auto simp: login_begin_def check_credentials_def credentials_match_iff dest!: check_accepted
      split: if_splits prod.splits credential_check.splits)

lemma change_accepted:
  "change_password_begin env now req current new_password st = (Inr revision, st') \<Longrightarrow>
     current = as_password st \<and> revision = as_revision st \<and> 8 \<le> char_count new_password"
  by (auto simp: change_password_begin_def check_credentials_def credentials_match_iff dest!: check_accepted
      split: if_splits prod.splits credential_check.splits sum.splits)

lemma login_finish_state: "snd (login_finish env now token revision st) = snd (create_session now token revision st)"
  by (simp add: login_finish_def split: prod.splits session_creation.splits)

lemma change_finish_state:
  "snd (change_password_finish env now later revision token accepted new_password req st) =
     snd (rotate_password (env_to_str env) now revision token accepted new_password (hr_headers req) st)"
  by (simp add: change_password_finish_def split: prod.splits password_rotation.splits)

section \<open>Who is let in\<close>

definition entry_traced :: "minting list \<Rightarrow> string \<times> session_entry \<Rightarrow> bool" where
  "entry_traced ms e \<longleftrightarrow>
     (\<exists>m\<in>set ms. mint_token m = fst e \<and> mint_revision m = ses_revision (snd e) \<and>
        ses_expires_at (snd e) = mint_since m + SESSION_TTL)"

definition world_ok :: "auth_world \<Rightarrow> bool" where
  "world_ok w \<longleftrightarrow>
     sessions_ok (aw_state w) \<and>
     aw_passwords w (as_revision (aw_state w)) = Some (as_password (aw_state w)) \<and>
     (\<forall>(r, u, p)\<in>set (aw_known w). u = as_username (aw_state w) \<and> aw_passwords w r = Some p) \<and>
     (\<forall>r\<in>set (aw_logins w). r \<in> fst ` set (aw_known w)) \<and>
     (\<forall>m\<in>set (aw_minted w). mint_revision m \<in> fst ` set (aw_known w)) \<and>
     (\<forall>e\<in>set (as_sessions (aw_state w)). entry_traced (aw_minted w) e)"

lemma entry_traced_more: "\<lbrakk>entry_traced ms e; set ms \<subseteq> set ns\<rbrakk> \<Longrightarrow> entry_traced ns e"
  unfolding entry_traced_def by blast

lemma world_ok_shrinks:
  assumes "world_ok w" "shrinks (aw_state w) st"
  shows "world_ok (w\<lparr> aw_state := st \<rparr>)"
  using assms unfolding world_ok_def shrinks_def by auto

lemma world_ok_known:
  assumes "world_ok w" "r = as_revision (aw_state w)" "u = as_username (aw_state w)" "p = as_password (aw_state w)"
  shows "world_ok (w\<lparr> aw_known := (r, u, p) # aw_known w \<rparr>)"
  using assms unfolding world_ok_def by auto

lemma create_session_effect:
  assumes "create_session now token revision st = (made, st')"
  shows "as_username st' = as_username st \<and> as_password st' = as_password st \<and> as_revision st' = as_revision st \<and>
    (made = Created token \<and> revision = as_revision st \<and>
       set (as_sessions st') \<subseteq>
         insert (token, \<lparr> ses_expires_at = now + SESSION_TTL, ses_revision = revision \<rparr>) (set (as_sessions st))
     \<or> made \<noteq> Created token \<and> st' = st)"
proof -
  let ?ss = "retain_sessions now (as_revision st) (as_sessions st)"
  have sub: "set (case oldest ?ss of Some (t, _) \<Rightarrow> remove_key t ?ss | None \<Rightarrow> ?ss) \<subseteq> set (as_sessions st)"
    by (auto simp: remove_key_def retain_sessions_def split: option.splits)
  have sub': "set ?ss \<subseteq> set (as_sessions st)" by (auto simp: retain_sessions_def)
  show ?thesis
    using assms sub sub' by (auto simp: create_session_def Let_def insert_session_def remove_key_def split: if_splits)
qed

lemma rotate_password_effect:
  assumes "rotate_password to_str now revision token expected new_password hs st = (rotation, st')"
  shows "as_username st' = as_username st \<and>
    (case rotation of
       Changed session \<Rightarrow>
         as_revision st = expected \<and> as_password st' = new_password \<and> as_revision st' = revision \<and>
         (case session of
            Some (tok, e) \<Rightarrow> tok = token \<and> now < e \<and>
              as_sessions st' = [(token, \<lparr> ses_expires_at = e, ses_revision = revision \<rparr>)] \<and>
              e \<in> ses_expires_at ` snd ` set (as_sessions st)
          | None \<Rightarrow> as_sessions st' = [])
     | _ \<Rightarrow> st' = st)"
proof -
  define live where "live = find (\<lambda>expires_at. now < expires_at)
      (map ses_expires_at (List.map_filter (\<lambda>stored. map_of (as_sessions st) stored)
         (List.map_filter (stored_session_key (as_sessions st)) (session_tokens to_str hs (as_cookie_name st)))))"
  have mem: "now < e \<and> e \<in> ses_expires_at ` snd ` set (as_sessions st)" if "live = Some e" for e
  proof -
    have "now < e" "e \<in> set (map ses_expires_at (List.map_filter (\<lambda>stored. map_of (as_sessions st) stored)
         (List.map_filter (stored_session_key (as_sessions st)) (session_tokens to_str hs (as_cookie_name st)))))"
      using that unfolding live_def find_Some_iff by (metis, metis nth_mem)
    then obtain key s where "map_of (as_sessions st) key = Some s" "e = ses_expires_at s"
      by (auto simp: List.map_filter_def)
    then show ?thesis using \<open>now < e\<close> by (force dest: map_of_SomeD)
  qed
  show ?thesis
  proof (cases live)
    case None
    then show ?thesis
      using assms unfolding rotate_password_def Let_def live_def [symmetric] by (auto split: if_splits)
  next
    case (Some e)
    then show ?thesis
      using assms mem [OF Some] unfolding rotate_password_def Let_def live_def [symmetric]
      by (auto split: if_splits) (metis image_eqI snd_conv)
  qed
qed

lemma world_ok_step: "\<lbrakk>auth_step env w w'; world_ok w\<rbrakk> \<Longrightarrow> world_ok w'"
proof (induction rule: auth_step.induct)
  case (step_gate now req w answer st)
  then show ?case using world_ok_shrinks shrinks_gate by blast
next
  case (step_login_refused now req username password w answer st)
  then show ?case using world_ok_shrinks shrinks_login by blast
next
  case (step_login_accepted now req username password w revision st)
  have a: "username = as_username (aw_state w)" "password = as_password (aw_state w)" "revision = as_revision (aw_state w)"
    using login_accepted [OF step_login_accepted.hyps] by auto
  have "world_ok (w\<lparr> aw_state := st \<rparr>)"
    using world_ok_shrinks [OF step_login_accepted.prems shrinks_login [OF step_login_accepted.hyps]] .
  then show ?case
    using a shrinks_login [OF step_login_accepted.hyps] unfolding world_ok_def shrinks_def by auto
next
  case (step_login_finished revision w now token made st)
  have eff: "create_session now token revision (aw_state w) = (made, st)" by (fact step_login_finished.hyps(2))
  have ok: "sessions_ok st"
    using create_session_ok [of "aw_state w" now token revision] eff step_login_finished.prems by (simp add: world_ok_def)
  have logins: "set (remove1 revision (aw_logins w)) \<subseteq> set (aw_logins w)" by (rule set_remove1_subset)
  show ?case
  proof (cases "made = Created token")
    case True
    let ?m = "\<lparr> mint_token = token, mint_revision = revision, mint_since = now \<rparr>"
    let ?e = "(token, \<lparr> ses_expires_at = now + SESSION_TTL, ses_revision = revision \<rparr>)"
    have e: "entry_traced (?m # aw_minted w) ?e" by (simp add: entry_traced_def)
    have "set (as_sessions st) \<subseteq> insert ?e (set (as_sessions (aw_state w)))"
      using create_session_effect [OF eff] True by blast
    then have "\<forall>x\<in>set (as_sessions st). entry_traced (?m # aw_minted w) x"
      using e step_login_finished.prems entry_traced_more [of "aw_minted w" _ "?m # aw_minted w"]
      unfolding world_ok_def by (metis insertE set_subset_Cons subsetD)
    then show ?thesis
      using True ok eff create_session_effect [OF eff] step_login_finished.prems step_login_finished.hyps(1) logins
      by (auto simp: world_ok_def login_finish_state)
  next
    case False
    then have "st = aw_state w" using create_session_effect [OF eff] by blast
    then show ?thesis
      using False eff step_login_finished.prems logins by (auto simp: world_ok_def login_finish_state)
  qed
next
  case (step_change_refused now req current new_password w answer st)
  then show ?case using world_ok_shrinks shrinks_change by blast
next
  case (step_change_accepted now req current new_password w revision st)
  have a: "current = as_password (aw_state w)" "revision = as_revision (aw_state w)"
    using change_accepted [OF step_change_accepted.hyps] by auto
  have "world_ok (w\<lparr> aw_state := st \<rparr>)"
    using world_ok_shrinks [OF step_change_accepted.prems shrinks_change [OF step_change_accepted.hyps]] .
  then show ?case
    using a shrinks_change [OF step_change_accepted.hyps] unfolding world_ok_def shrinks_def by auto
next
  case (step_change_finished accepted new_password w revision now token req rotation st later)
  have eff: "rotate_password (env_to_str env) now revision token accepted new_password (hr_headers req) (aw_state w) = (rotation, st)"
    by (fact step_change_finished.hyps(3))
  note fx = rotate_password_effect [OF eff]
  show ?case
  proof (cases rotation)
    case (Changed session)
    have other: "aw_passwords w r = Some p \<Longrightarrow> r \<noteq> revision" for r p
      using step_change_finished.hyps(2) by auto
    have traced: "\<forall>e\<in>set (as_sessions st). entry_traced
        (case session of Some (token, expires) \<Rightarrow>
            \<lparr> mint_token = token, mint_revision = revision, mint_since = expires - SESSION_TTL \<rparr> # aw_minted w
         | None \<Rightarrow> aw_minted w) e"
    proof (cases session)
      case (Some te)
      obtain tok e where te: "te = (tok, e)" by (cases te)
      obtain old s where "(old, s) \<in> set (as_sessions (aw_state w))" "e = ses_expires_at s"
        using fx Changed Some te by (auto simp: image_iff)
      then have "SESSION_TTL \<le> e"
        using step_change_finished.prems unfolding world_ok_def entry_traced_def by fastforce
      then show ?thesis using fx Changed Some te by (simp add: entry_traced_def)
    qed (use fx Changed in simp)
    have ok: "sessions_ok st"
      using fx Changed by (cases session) (auto simp: sessions_ok_def MAX_SESSIONS_def)
    have known: "\<forall>(r, u, p)\<in>set (aw_known w). u = as_username st \<and> ((aw_passwords w)(revision \<mapsto> new_password)) r = Some p"
      using step_change_finished.prems fx other unfolding world_ok_def by fastforce
    show ?thesis
      using Changed ok known traced fx eff step_change_finished.prems
      by (cases session) (auto simp: world_ok_def change_finish_state)
  next
    case RotationStale
    then show ?thesis using fx eff step_change_finished.prems by (simp add: world_ok_def change_finish_state)
  next
    case RotationUnavailable
    then show ?thesis using fx eff step_change_finished.prems by (simp add: world_ok_def change_finish_state)
  qed
next
  case (step_logout req w answer st)
  then show ?case using world_ok_shrinks shrinks_logout by blast
qed

lemma world_ok_run: "\<lbrakk>auth_run env w w'; world_ok w\<rbrakk> \<Longrightarrow> world_ok w'"
  by (induction rule: auth_run.induct) (auto intro: world_ok_step)

lemma world_new_ok: "as_sessions st = [] \<Longrightarrow> world_ok (world_new st)"
  by (simp add: world_ok_def world_new_def sessions_ok_def)

text \<open>
  C25: nobody gets past the gate without the current password. However logins, password changes,
  logouts and requests interleave, a request that is let in carries a session minted, within the last twelve
  hours, under the revision of the password in force, for a client that presented name and
  password or chose it; or it carries the Basic encoding of the current pair. A session of an
  earlier password, or a login checked before a rotation and finished after it, opens nothing.
\<close>

theorem gate_requires_current_password:
  assumes run: "auth_run env (world_new (auth_state_new revision simple user password root secure hops)) w"
    and gate: "require_auth env now req (aw_state w) = (Inr (), st)"
  shows "(\<exists>m\<in>set (aw_minted w). mint_token m \<in> set (session_tokens (env_to_str env) (hr_headers req) (as_cookie_name (aw_state w))) \<and>
            mint_revision m = as_revision (aw_state w) \<and> now < mint_since m + SESSION_TTL \<and>
            (mint_revision m, as_username (aw_state w), as_password (aw_state w)) \<in> set (aw_known w)) \<or>
         (\<exists>supplied. basic_credentials (hr_headers req) = Some supplied \<and>
            base64_decode supplied = Some (as_username (aw_state w) @ '':'' @ as_password (aw_state w)))"
proof -
  have ok: "world_ok w"
    using world_ok_run [OF run world_new_ok] by (simp add: auth_state_new_def)
  obtain v st1 where v: "session_is_valid (env_to_str env) now (hr_headers req) (aw_state w) = (v, st1)"
    by (cases "session_is_valid (env_to_str env) now (hr_headers req) (aw_state w)")
  show ?thesis
  proof (cases v)
    case True
    then have "fst (session_is_valid (env_to_str env) now (hr_headers req) (aw_state w))" using v by simp
    then obtain token s where s: "token \<in> set (session_tokens (env_to_str env) (hr_headers req) (as_cookie_name (aw_state w)))"
        "(token, s) \<in> set (as_sessions (aw_state w))" "now < ses_expires_at s" "ses_revision s = as_revision (aw_state w)"
      unfolding session_is_valid_iff by blast
    have "entry_traced (aw_minted w) (token, s)" using ok s(2) unfolding world_ok_def by blast
    then obtain m where m: "m \<in> set (aw_minted w)" "mint_token m = token" "mint_revision m = ses_revision s"
        "ses_expires_at s = mint_since m + SESSION_TTL"
      unfolding entry_traced_def by auto
    have "mint_revision m \<in> fst ` set (aw_known w)" using ok m(1) unfolding world_ok_def by blast
    then obtain u p where k: "(mint_revision m, u, p) \<in> set (aw_known w)" by auto
    have "u = as_username (aw_state w) \<and> p = as_password (aw_state w)"
      using ok k m(3) s(4) unfolding world_ok_def by fastforce
    then show ?thesis using m s k by auto
  next
    case False
    have same: "as_username st1 = as_username (aw_state w) \<and> as_password st1 = as_password (aw_state w)"
      using shrinks_valid [of "aw_state w" "env_to_str env" now "hr_headers req"] v by (simp add: shrinks_def)
    have "\<exists>r st2. check_basic_credentials now (client_of_request st1 req) (hr_headers req) st1 = (Accepted r, st2)"
      using gate v False by (auto simp: require_auth_def split: if_splits prod.splits credential_check.splits)
    then obtain r st2 supplied where b: "basic_credentials (hr_headers req) = Some supplied"
        "check now BasicChannel (client_of_request st1 req) (basic_credentials_match supplied) st1 = (Accepted r, st2)"
      by (auto simp: check_basic_credentials_def split: option.splits)
    then have "supplied = base64 (as_username st1 @ '':'' @ as_password st1)"
      using check_accepted [OF b(2)] by (auto simp: basic_credentials_match_iff)
    then show ?thesis using b(1) same base64_decodes by metis
  qed
qed

text \<open>A sign-in and the request that follows it.\<close>

definition sample_env :: environment where
  "sample_env = \<lparr> env_to_str = Some, env_header_value = (\<lambda>v. True), env_files = (\<lambda>path. None) \<rparr>"

definition sample_auth :: auth_state where
  "sample_auth = auth_state_new 7 ''c'' ''admin'' ''password'' [] False 0"

definition signed_in_request :: http_request where
  "signed_in_request =
     \<lparr> hr_path = ''/'', hr_headers = [(''cookie'', ''ironqueue_session_c=t'')], hr_peer = Some (V4 1) \<rparr>"

lemma sample_tokens: "session_tokens Some (hr_headers signed_in_request) ''ironqueue_session_c'' = [''t'']"
  by code_simp

lemma sample_login:
  "fst (login_begin sample_env 0 \<lparr> hr_path = ''/login'', hr_headers = [], hr_peer = Some (V4 1) \<rparr> ''admin'' ''password'' sample_auth) = Inr 7"
  by (simp add: login_begin_def is_cross_site_post_def get_header_def get_all_def sample_env_def sample_auth_def
      check_credentials_def check_def auth_state_new_def spend_def throttle_new_def enter_bucket_def has_bucket_def
      make_room_for_a_bucket_def MAX_AUTH_CLIENTS_def AUTH_ATTEMPT_BURST_def AUTH_ATTEMPT_REFILL_def
      arriving_tokens_def full_tokens_def refill_def credentials_match_def constant_time_eq_iff Let_def)

theorem gate_requires_current_password_witness:
  "\<exists>w st. auth_run sample_env (world_new sample_auth) w \<and>
     require_auth sample_env 5 signed_in_request (aw_state w) = (Inr (), st) \<and> length (aw_minted w) = 1 \<and>
     (\<exists>m\<in>set (aw_minted w). (mint_revision m, as_username (aw_state w), as_password (aw_state w)) \<in> set (aw_known w))"
proof -
  let ?req = "\<lparr> hr_path = ''/login'', hr_headers = [], hr_peer = Some (V4 1) \<rparr>"
  obtain st where login: "login_begin sample_env 0 ?req ''admin'' ''password'' sample_auth = (Inr 7, st)"
    using sample_login by (cases "login_begin sample_env 0 ?req ''admin'' ''password'' sample_auth") auto
  define w1 where "w1 = (world_new sample_auth)\<lparr> aw_state := st, aw_logins := [7], aw_known := [(7, ''admin'', ''password'')] \<rparr>"
  have "auth_step sample_env (world_new sample_auth) w1"
    using step_login_accepted [of sample_env 0 ?req "''admin''" "''password''" "world_new sample_auth"] login
    by (simp add: w1_def world_new_def)
  then have r1: "auth_run sample_env (world_new sample_auth) w1" by (rule run_step [OF run_refl])
  have sh: "shrinks sample_auth st" using shrinks_login [OF login] .
  obtain th where "st = sample_auth\<lparr> as_throttle := th \<rparr>"
    using login by (auto simp: login_begin_def check_credentials_def dest!: check_frame
        split: if_splits prod.splits credential_check.splits)
  note st = this
  define st2 where "st2 = snd (create_session 0 ''t'' 7 st)"
  have made: "create_session 0 ''t'' 7 st = (Created ''t'', st2)"
    by (simp add: st2_def create_session_def st sample_auth_def auth_state_new_def Let_def)
  have st2: "st2 = st\<lparr> as_sessions := [(''t'', \<lparr> ses_expires_at = SESSION_TTL, ses_revision = 7 \<rparr>)] \<rparr>"
    by (simp add: st2_def create_session_def st sample_auth_def auth_state_new_def Let_def retain_sessions_def
        insert_session_def remove_key_def MAX_SESSIONS_def)
  define w2 where "w2 = w1\<lparr> aw_state := st2, aw_logins := [],
      aw_minted := [\<lparr> mint_token = ''t'', mint_revision = 7, mint_since = 0 \<rparr>] \<rparr>"
  have "auth_step sample_env w1 w2"
    using step_login_finished [of 7 w1 0 "''t''" "Created ''t''" st2 sample_env] made
    by (simp add: w1_def w2_def world_new_def login_finish_state)
  then have r2: "auth_run sample_env (world_new sample_auth) w2" by (rule run_step [OF r1])
  have "fst (session_is_valid Some 5 (hr_headers signed_in_request) st2)"
    unfolding session_is_valid_iff st2 st
    by (simp add: sample_auth_def auth_state_new_def sample_tokens SESSION_TTL_def)
  then have gate: "require_auth sample_env 5 signed_in_request (aw_state w2) =
      (Inr (), snd (session_is_valid Some 5 (hr_headers signed_in_request) st2))"
    by (cases "session_is_valid Some 5 (hr_headers signed_in_request) st2")
       (simp add: require_auth_def w2_def sample_env_def)
  have run: "auth_run sample_env (world_new (auth_state_new 7 ''c'' ''admin'' ''password'' [] False 0)) w2"
    using r2 by (simp add: sample_auth_def)
  have "basic_credentials (hr_headers signed_in_request) = None"
    by (simp add: signed_in_request_def basic_credentials_def get_header_def get_all_def)
  then have "\<exists>m\<in>set (aw_minted w2). (mint_revision m, as_username (aw_state w2), as_password (aw_state w2)) \<in> set (aw_known w2)"
    using gate_requires_current_password [OF run gate] by auto
  then show ?thesis using r2 gate by (intro exI [of _ w2]) (auto simp: w2_def)
qed

lemma named_session:
  "\<lbrakk>token \<in> set tokens; (token, s) \<in> set ss\<rbrakk> \<Longrightarrow> token \<in> set (List.map_filter (stored_session_key ss) tokens)"
proof -
  assume "token \<in> set tokens" "(token, s) \<in> set ss"
  moreover from this have "stored_session_key ss token = Some token"
    by (force simp: stored_session_key_eq)
  ultimately show ?thesis
    unfolding List.map_filter_def by (auto intro!: image_eqI [of _ _ token])
qed

text \<open>
  C26: a session ends when it is told to. After a logout, and after any password change, no request
  carrying one of the old cookies alone is let in: the gate refuses every token the logout
  request named, and after a change every token but the one minted by it.
\<close>

theorem revoked_sessions_stay_out:
  "\<not> fst (session_is_valid to_str now hs (remove_session to_str hs st)) \<and>
     (\<forall>rotation st'. rotate_password to_str when revision token expected new_password hs st = (rotation, st') \<longrightarrow>
        (\<exists>session. rotation = Changed session) \<longrightarrow>
        token \<notin> set (session_tokens to_str hs' (as_cookie_name st')) \<longrightarrow>
        \<not> fst (session_is_valid to_str now hs' st'))"
proof -
  have "\<not> fst (session_is_valid to_str now hs (remove_session to_str hs st))"
  proof
    assume v: "fst (session_is_valid to_str now hs (remove_session to_str hs st))"
    then have live: "\<not> as_sessions_poisoned st"
      by (auto simp: session_is_valid_iff remove_session_def Let_def split: if_splits)
    obtain token s where t: "token \<in> set (session_tokens to_str hs (as_cookie_name st))"
        "(token, s) \<in> set (as_sessions (remove_session to_str hs st))"
      using v unfolding session_is_valid_iff remove_session_def Let_def by (auto split: if_splits)
    then have "(token, s) \<in> set (as_sessions st)"
        "token \<notin> set (List.map_filter (stored_session_key (as_sessions st)) (session_tokens to_str hs (as_cookie_name st)))"
      using live by (auto simp: remove_session_def Let_def fold_remove_key)
    then show False
      using t(1) named_session by blast
  qed
  moreover have "\<not> fst (session_is_valid to_str now hs' st')"
    if "rotate_password to_str when revision token expected new_password hs st = (Changed session, st')"
      "token \<notin> set (session_tokens to_str hs' (as_cookie_name st'))" for st' session
    using rotate_password_effect [OF that(1)] that(2)
    by (cases session) (auto simp: session_is_valid_iff)
  ultimately show ?thesis by blast
qed

text \<open>Cookies planted beside the session's own, in lines of their own or ahead of it, do not hide it.\<close>

lemma session_tokens_append:
  "session_tokens to_str (hs @ ks) name = session_tokens to_str hs name @ session_tokens to_str ks name"
  by (simp add: session_tokens_def get_all_append List.map_filter_def)

lemma planted_cookies_harmless:
  "fst (session_is_valid to_str now hs st) \<Longrightarrow> fst (session_is_valid to_str now (planted @ hs @ others) st)"
  unfolding session_is_valid_iff session_tokens_append by auto

theorem revoked_sessions_stay_out_witness:
  "\<not> fst (session_is_valid Some 5 (hr_headers signed_in_request)
       (remove_session Some (hr_headers signed_in_request)
          (sample_auth\<lparr> as_sessions := [(''t'', \<lparr> ses_expires_at = 9, ses_revision = 7 \<rparr>)] \<rparr>)))"
  using revoked_sessions_stay_out [of Some 5 "hr_headers signed_in_request"
      "sample_auth\<lparr> as_sessions := [(''t'', \<lparr> ses_expires_at = 9, ses_revision = 7 \<rparr>)] \<rparr>"] by blast

end
