(* ===== verification/Dashboard_Pages.thy ===== *)
theory Dashboard_Pages
  imports Dashboard_Http Db_Recovery
begin

text \<open>
  The dashboard's API over the store (\<^verbatim>\<open>dashboard.rs\<close>, and its SQL functions in
  \<^verbatim>\<open>0001_migration.sql\<close>): the query strings and what they are refused for, the listings of jobs
  and workers with their keyset cursors, the name typeahead, the queue signals, and the
  bounded bodies of the detail pages. The database errors of a query are not modelled; \<^verbatim>\<open>now()\<close>
  is an argument. The JSON around a listing is left out.
\<close>

section \<open>Query strings\<close>

definition MAX_PAGE_SIZE :: int where "MAX_PAGE_SIZE = 100"
definition JOB_NAME_SUGGESTION_LIMIT :: nat where "JOB_NAME_SUGGESTION_LIMIT = 20"

definition ALL_STATUSES :: "job_status list" where
  "ALL_STATUSES = [Queued, Running, Complete, Failed, Aborting, Aborted]"

fun add_statuses :: "job_status list \<Rightarrow> string list \<Rightarrow> api_error + job_status list" where
  "add_statuses statuses [] = Inr statuses"
| "add_statuses statuses (v # vs) =
     (case status_from_str v of
        Inl e \<Rightarrow> Inl (BadRequest ''unknown status'')
      | Inr st \<Rightarrow> add_statuses (if st \<in> set statuses then statuses else statuses @ [st]) vs)"

definition filter_statuses :: "string option \<Rightarrow> api_error + job_status list" where
  "filter_statuses status =
     and_then
       (case status of
          Some v \<Rightarrow> add_statuses [] (filter (\<lambda>v. v \<noteq> []) (map trim (split_on CHR '','' v)))
        | None \<Rightarrow> Inr [])
       (\<lambda>statuses. Inr (if statuses = [] then ALL_STATUSES else statuses))"

definition job_kind :: "string option \<Rightarrow> api_error + string" where
  "job_kind kind =
     (case kind of
        None \<Rightarrow> Inr ''job''
      | Some k \<Rightarrow> if k = [] then Inr ''job''
                  else if k = ''job'' \<or> k = ''cron'' then Inr k
                  else Inl (BadRequest ''unknown job kind''))"

definition cursor_pair :: "timestamp option \<Rightarrow> uuid option \<Rightarrow> api_error + (timestamp \<times> uuid) option" where
  "cursor_pair at i =
     (case (at, i) of
        (None, None) \<Rightarrow> Inr None
      | (Some t, Some i) \<Rightarrow>
          if t < MIN_TIMESTAMPTZ then Inl (BadRequest ''page cursor timestamp is out of range'')
          else Inr (Some (t, i))
      | _ \<Rightarrow> Inl (BadRequest ''incomplete page cursor''))"

definition page_limit :: "int option \<Rightarrow> int" where
  "page_limit limit = min (max (case limit of Some n \<Rightarrow> n | None \<Rightarrow> 50) 1) MAX_PAGE_SIZE"

record jobs_query =
  jq_status :: "string option"
  jq_name :: "string option"
  jq_kind :: "string option"
  jq_limit :: "int option"
  jq_cursor_enqueued_at :: "timestamp option"
  jq_cursor_id :: "uuid option"

record filtered_jobs_query =
  fq_statuses :: "job_status list"
  fq_name :: "string option"
  fq_kind :: string
  fq_limit :: int
  fq_cursor :: "(timestamp \<times> uuid) option"

definition jobs_query_filter :: "jobs_query \<Rightarrow> api_error + filtered_jobs_query" where
  "jobs_query_filter q =
     and_then (filter_statuses (jq_status q)) (\<lambda>statuses.
     and_then (job_kind (jq_kind q)) (\<lambda>kind.
     and_then (cursor_pair (jq_cursor_enqueued_at q) (jq_cursor_id q)) (\<lambda>cursor.
       (let name = (case jq_name q of Some n \<Rightarrow> if n = [] then None else Some n | None \<Rightarrow> None)
        in if (case name of Some n \<Rightarrow> 255 < length n | None \<Rightarrow> False)
             then Inl (BadRequest ''job name is too long'')
           else if (case name of Some n \<Rightarrow> NUL \<in> set n | None \<Rightarrow> False)
             then Inl (BadRequest ''job name must not contain NUL'')
           else Inr \<lparr> fq_statuses = statuses, fq_name = name, fq_kind = kind,
                      fq_limit = page_limit (jq_limit q), fq_cursor = cursor \<rparr>))))"

text \<open>A page was fetched with one row more than it shows.\<close>

definition next_cursor :: "'a list \<Rightarrow> int \<Rightarrow> ('a \<Rightarrow> 'c) \<Rightarrow> 'a list \<times> 'c option" where
  "next_cursor items limit cursor =
     (if limit < 0 \<or> int (length items) \<le> limit then (items, None)
      else (butlast items, if butlast items = [] then None else Some (cursor (last (butlast items)))))"

definition queue_of :: "handle list \<Rightarrow> string \<Rightarrow> api_error + handle" where
  "queue_of queues name =
     (case find (\<lambda>q. h_name q = name) queues of
        Some q \<Rightarrow> Inr q
      | None \<Rightarrow> Inl (NotFound ''queue not found''))"

section \<open>Job listing\<close>

record job_summary =
  su_id :: uuid
  su_dedupe_key :: "string option"
  su_queue :: string
  su_name :: string
  su_status :: job_status
  su_priority :: int
  su_attempts :: int
  su_max_attempts :: int
  su_timeout_ms :: "int option"
  su_retry_delay_ms :: int
  su_backoff :: job_retry_backoff
  su_result_ttl_ms :: "int option"
  su_failed_ttl_ms :: "int option"
  su_scheduled_at :: timestamp
  su_enqueued_at :: timestamp
  su_started_at :: "timestamp option"
  su_touched_at :: "timestamp option"
  su_completed_at :: "timestamp option"
  su_expires_at :: "timestamp option"
  su_worker_id :: "uuid option"
  su_kind :: string
  su_cron_expr :: "string option"
  su_updated_at :: timestamp

definition updated_at :: "job_row \<Rightarrow> timestamp" where
  "updated_at j =
     max (j_enqueued_at j)
       (max (case j_touched_at j of Some t \<Rightarrow> t | None \<Rightarrow> j_enqueued_at j)
            (case j_completed_at j of Some t \<Rightarrow> t | None \<Rightarrow> j_enqueued_at j))"

definition job_summary_of :: "job_row \<Rightarrow> job_summary" where
  "job_summary_of j = \<lparr>
     su_id = j_id j, su_dedupe_key = j_dedupe_key j, su_queue = j_queue j, su_name = j_name j,
     su_status = j_status j, su_priority = j_priority j, su_attempts = j_attempts j,
     su_max_attempts = j_max_attempts j, su_timeout_ms = j_timeout_ms j,
     su_retry_delay_ms = j_retry_delay_ms j, su_backoff = j_backoff j, su_result_ttl_ms = j_result_ttl_ms j,
     su_failed_ttl_ms = j_failed_ttl_ms j, su_scheduled_at = j_scheduled_at j,
     su_enqueued_at = j_enqueued_at j, su_started_at = j_started_at j, su_touched_at = j_touched_at j,
     su_completed_at = j_completed_at j, su_expires_at = j_expires_at j, su_worker_id = j_worker_id j,
     su_kind = j_kind j, su_cron_expr = j_cron_expr j, su_updated_at = updated_at j \<rparr>"

definition before_cursor :: "(timestamp \<times> uuid) option \<Rightarrow> job_row \<Rightarrow> bool" where
  "before_cursor cursor j = (case cursor of None \<Rightarrow> True | Some c \<Rightarrow> (j_enqueued_at j, j_id j) < c)"

text \<open>
  \<^verbatim>\<open>ironqueue.job_page_keys\<close> and its variant by name: one bounded newest-first scan per
  requested status, their union in no order the caller relies on.
\<close>

definition job_page_keys ::
    "string \<Rightarrow> string \<Rightarrow> job_status list \<Rightarrow> (timestamp \<times> uuid) option \<Rightarrow> nat \<Rightarrow> store \<Rightarrow> (timestamp \<times> uuid) list" where
  "job_page_keys queue kind statuses cursor limit s =
     concat (map (\<lambda>status. map (\<lambda>j. (j_enqueued_at j, j_id j))
       (select_rows (\<lambda>j. j_queue j = queue \<and> j_kind j = kind \<and> j_status j = status \<and> before_cursor cursor j)
          page_key limit (st_jobs s))) statuses)"

definition job_page_keys_by_name ::
    "string \<Rightarrow> string \<Rightarrow> job_status list \<Rightarrow> string \<Rightarrow> (timestamp \<times> uuid) option \<Rightarrow> nat \<Rightarrow> store \<Rightarrow> (timestamp \<times> uuid) list" where
  "job_page_keys_by_name queue kind statuses name cursor limit s =
     concat (map (\<lambda>status. map (\<lambda>j. (j_enqueued_at j, j_id j))
       (select_rows (\<lambda>j. j_queue j = queue \<and> j_kind j = kind \<and> j_name j = name \<and> j_status j = status \<and>
            before_cursor cursor j)
          page_key limit (st_jobs s))) statuses)"

definition newest_first :: "timestamp \<times> uuid \<Rightarrow> int \<times> int" where
  "newest_first k = (- fst k, - int (snd k))"

text \<open>\<^verbatim>\<open>job_page_sql!\<close>: the keys in order, up to the limit, each joined to its row.\<close>

definition job_page_sql :: "(timestamp \<times> uuid) list \<Rightarrow> nat \<Rightarrow> store \<Rightarrow> job_summary list" where
  "job_page_sql keys limit s =
     concat (map (\<lambda>k. map job_summary_of (take 1 (filter (\<lambda>j. j_id j = snd k) (st_jobs s))))
       (take limit (sort_key newest_first keys)))"

definition dashboard_jobs_page ::
    "job_status list \<Rightarrow> string \<Rightarrow> string option \<Rightarrow> (timestamp \<times> uuid) option \<Rightarrow> int \<Rightarrow> handle \<Rightarrow> store
     \<Rightarrow> job_summary list result" where
  "dashboard_jobs_page statuses kind name cursor limit h s =
     (if statuses = [] then Inl (Config ''dashboard jobs page requires at least one status'')
      else if limit \<le> 0 then Inl (Config ''dashboard jobs page limit must be greater than zero'')
      else Inr
        (case name of
           Some n \<Rightarrow> job_page_sql (job_page_keys_by_name (h_name h) kind statuses n cursor (nat limit) s) (nat limit) s
         | None \<Rightarrow> job_page_sql (job_page_keys (h_name h) kind statuses cursor (nat limit) s) (nat limit) s))"

definition api_result :: "'a result \<Rightarrow> api_error + 'a" where
  "api_result r = (case r of Inl e \<Rightarrow> Inl (api_error_from e) | Inr x \<Rightarrow> Inr x)"

text \<open>\<open>db\<close> is the database behind each queue handle.\<close>

definition list_jobs ::
    "handle list \<Rightarrow> (handle \<Rightarrow> store) \<Rightarrow> string \<Rightarrow> jobs_query
     \<Rightarrow> api_error + (job_summary list \<times> (timestamp \<times> uuid) option)" where
  "list_jobs queues db name query =
     and_then (queue_of queues name) (\<lambda>queue.
     and_then (jobs_query_filter query) (\<lambda>f.
     and_then (api_result (dashboard_jobs_page (fq_statuses f) (fq_kind f) (fq_name f) (fq_cursor f)
                 (fq_limit f + 1) queue (db queue))) (\<lambda>jobs.
       Inr (next_cursor jobs (fq_limit f) (\<lambda>job. (su_enqueued_at job, su_id job))))))"

section \<open>Bodies\<close>

definition MAX_BODY_CHARS :: nat where "MAX_BODY_CHARS = 64 * 1024"

text \<open>The first characters of a text: \<^verbatim>\<open>left\<close> in SQL, the cut at a character index in Rust.\<close>

fun char_prefix :: "nat \<Rightarrow> string \<Rightarrow> string" where
  "char_prefix n [] = []"
| "char_prefix n (c # cs) =
     (if is_continuation_byte c then c # char_prefix n cs
      else case n of 0 \<Rightarrow> [] | Suc m \<Rightarrow> c # char_prefix m cs)"

definition job_text :: "string \<Rightarrow> string \<times> bool" where
  "job_text s = (if MAX_BODY_CHARS < char_count s then (char_prefix MAX_BODY_CHARS s, True) else (s, False))"

text \<open>\<open>from_str\<close> is serde's reader of a JSON text.\<close>

definition job_body :: "(string \<Rightarrow> json option) \<Rightarrow> string \<Rightarrow> json \<times> bool" where
  "job_body from_str s =
     (case job_text s of
        (t, True) \<Rightarrow> (JString t, True)
      | (t, False) \<Rightarrow> (case from_str t of Some v \<Rightarrow> (v, False) | None \<Rightarrow> (JString t, False)))"

text \<open>A document as a detail query returns it; \<open>jsonb_text\<close> is the server's rendering.\<close>

definition detail_body :: "(json \<Rightarrow> string) \<Rightarrow> (string \<Rightarrow> json option) \<Rightarrow> json \<Rightarrow> json \<times> bool" where
  "detail_body jsonb_text from_str doc = job_body from_str (char_prefix (MAX_BODY_CHARS + 1) (jsonb_text doc))"

definition detail_text :: "string \<Rightarrow> string \<times> bool" where
  "detail_text s = job_text (char_prefix (MAX_BODY_CHARS + 1) s)"

definition optional_body :: "('a \<Rightarrow> 'b \<times> bool) \<Rightarrow> 'a option \<Rightarrow> 'b option \<times> bool" where
  "optional_body f x = (case x of Some d \<Rightarrow> (Some (fst (f d)), snd (f d)) | None \<Rightarrow> (None, False))"

record dashboard_job_row =
  dj_job :: job_row
  dj_payload_truncated :: bool
  dj_result_truncated :: bool
  dj_meta_truncated :: bool
  dj_error_truncated :: bool
  dj_updated_at :: timestamp

definition dashboard_job_row_of ::
    "(json \<Rightarrow> string) \<Rightarrow> (string \<Rightarrow> json option) \<Rightarrow> job_row \<Rightarrow> dashboard_job_row" where
  "dashboard_job_row_of jsonb_text from_str j =
     (let body = detail_body jsonb_text from_str;
          payload = body (j_payload j); res = optional_body body (j_result j);
          meta = body (j_meta j); err = optional_body detail_text (j_error j)
      in \<lparr> dj_job = j\<lparr> j_payload := fst payload, j_result := fst res, j_error := fst err, j_meta := fst meta \<rparr>,
           dj_payload_truncated = snd payload, dj_result_truncated = snd res,
           dj_meta_truncated = snd meta, dj_error_truncated = snd err, dj_updated_at = updated_at j \<rparr>)"

definition dashboard_job ::
    "(json \<Rightarrow> string) \<Rightarrow> (string \<Rightarrow> json option) \<Rightarrow> uuid \<Rightarrow> handle \<Rightarrow> store \<Rightarrow> dashboard_job_row option" where
  "dashboard_job jsonb_text from_str i h s =
     map_option (dashboard_job_row_of jsonb_text from_str)
       (find (\<lambda>j. j_id j = i \<and> j_queue j = h_name h) (st_jobs s))"

definition job_detail ::
    "(json \<Rightarrow> string) \<Rightarrow> (string \<Rightarrow> json option) \<Rightarrow> handle list \<Rightarrow> (handle \<Rightarrow> store) \<Rightarrow> string \<Rightarrow> uuid
     \<Rightarrow> api_error + dashboard_job_row" where
  "job_detail jsonb_text from_str queues db name i =
     and_then (queue_of queues name) (\<lambda>queue.
       case dashboard_job jsonb_text from_str i queue (db queue) of
         Some job \<Rightarrow> Inr job
       | None \<Rightarrow> Inl (NotFound ''job not found''))"

section \<open>Workers\<close>

record dashboard_worker_row =
  dw_worker :: worker_row
  dw_stats_truncated :: bool
  dw_metadata_truncated :: bool

definition dashboard_worker_row_of ::
    "(json \<Rightarrow> string) \<Rightarrow> (string \<Rightarrow> json option) \<Rightarrow> worker_row \<Rightarrow> dashboard_worker_row" where
  "dashboard_worker_row_of jsonb_text from_str w =
     (let body = detail_body jsonb_text from_str;
          stats = body (w_stats w); metadata = optional_body body (w_metadata w)
      in \<lparr> dw_worker = w\<lparr> w_stats := fst stats, w_metadata := fst metadata \<rparr>,
           dw_stats_truncated = snd stats, dw_metadata_truncated = snd metadata \<rparr>)"

definition dashboard_workers_page ::
    "(json \<Rightarrow> string) \<Rightarrow> (string \<Rightarrow> json option) \<Rightarrow> timestamp \<Rightarrow> (timestamp \<times> uuid) option \<Rightarrow> int \<Rightarrow> handle \<Rightarrow> store
     \<Rightarrow> dashboard_worker_row list result" where
  "dashboard_workers_page jsonb_text from_str now cursor limit h s =
     (if limit \<le> 0 then Inl (Config ''dashboard workers page limit must be greater than zero'')
      else Inr (map (dashboard_worker_row_of jsonb_text from_str)
        (select_rows (\<lambda>w. w_queue w = h_name h \<and> now < w_expires_at w \<and>
             (case cursor of None \<Rightarrow> True | Some c \<Rightarrow> c < (w_started_at w, w_id w)))
           (\<lambda>w. (w_started_at w, w_id w)) (nat limit) (st_workers s))))"

definition dashboard_worker ::
    "(json \<Rightarrow> string) \<Rightarrow> (string \<Rightarrow> json option) \<Rightarrow> timestamp \<Rightarrow> uuid \<Rightarrow> handle \<Rightarrow> store \<Rightarrow> dashboard_worker_row option" where
  "dashboard_worker jsonb_text from_str now i h s =
     map_option (dashboard_worker_row_of jsonb_text from_str)
       (find (\<lambda>w. w_id w = i \<and> w_queue w = h_name h \<and> now < w_expires_at w) (st_workers s))"

record workers_query =
  wq_limit :: "int option"
  wq_cursor_started_at :: "timestamp option"
  wq_cursor_id :: "uuid option"

definition list_workers ::
    "(json \<Rightarrow> string) \<Rightarrow> (string \<Rightarrow> json option) \<Rightarrow> timestamp \<Rightarrow> handle list \<Rightarrow> (handle \<Rightarrow> store) \<Rightarrow> string \<Rightarrow> workers_query
     \<Rightarrow> api_error + (dashboard_worker_row list \<times> (timestamp \<times> uuid) option)" where
  "list_workers jsonb_text from_str now queues db name query =
     and_then (queue_of queues name) (\<lambda>queue.
       (let limit = page_limit (wq_limit query) in
        and_then (cursor_pair (wq_cursor_started_at query) (wq_cursor_id query)) (\<lambda>cursor.
        and_then (api_result (dashboard_workers_page jsonb_text from_str now cursor (limit + 1) queue (db queue))) (\<lambda>ws.
          Inr (next_cursor ws limit (\<lambda>row. (w_started_at (dw_worker row), w_id (dw_worker row))))))))"

definition worker_detail ::
    "(json \<Rightarrow> string) \<Rightarrow> (string \<Rightarrow> json option) \<Rightarrow> timestamp \<Rightarrow> handle list \<Rightarrow> (handle \<Rightarrow> store) \<Rightarrow> string \<Rightarrow> uuid
     \<Rightarrow> api_error + dashboard_worker_row" where
  "worker_detail jsonb_text from_str now queues db name i =
     and_then (queue_of queues name) (\<lambda>queue.
       case dashboard_worker jsonb_text from_str now i queue (db queue) of
         Some w \<Rightarrow> Inr w
       | None \<Rightarrow> Inl (NotFound ''worker not found''))"

section \<open>Name typeahead\<close>

text \<open>
  \<^verbatim>\<open>JOB_NAME_TYPEAHEAD_SQL\<close>: a loose scan of the folded names of each status, from the prefix on,
  one row per folded name. \<open>lower\<close> is the server's; \<open>collate\<close> its ordering of names. Of the rows
  with the least folded name the statement takes any; here it is the first.
\<close>

definition next_name ::
    "(string \<Rightarrow> string) \<Rightarrow> string \<Rightarrow> string \<Rightarrow> job_status \<Rightarrow> (string \<Rightarrow> bool) \<Rightarrow> store \<Rightarrow> (string \<times> string) option" where
  "next_name lower queue kind status bound s =
     (case select_rows (\<lambda>j. j_queue j = queue \<and> j_kind j = kind \<and> j_status j = status \<and> bound (lower (j_name j)))
             (\<lambda>j. lower (j_name j)) 1 (st_jobs s) of
        j # _ \<Rightarrow> Some (lower (j_name j), j_name j)
      | [] \<Rightarrow> None)"

text \<open>The recursion from a row of the walk; \<open>steps\<close> is what its depth bound leaves.\<close>

fun walk_names ::
    "(string \<Rightarrow> string) \<Rightarrow> string \<Rightarrow> string \<Rightarrow> job_status \<Rightarrow> string \<Rightarrow> nat \<Rightarrow> string \<times> string \<Rightarrow> store \<Rightarrow> (string \<times> string) list" where
  "walk_names lower queue kind status start 0 row s = [row]"
| "walk_names lower queue kind status start (Suc steps) row s =
     row # (if starts_with (fst row) start then
              (case next_name lower queue kind status (\<lambda>folded. fst row < folded) s of
                 Some row' \<Rightarrow> walk_names lower queue kind status start steps row' s
               | None \<Rightarrow> [])
            else [])"

definition walk_status ::
    "(string \<Rightarrow> string) \<Rightarrow> string \<Rightarrow> string \<Rightarrow> string \<Rightarrow> nat \<Rightarrow> store \<Rightarrow> job_status \<Rightarrow> (string \<times> string) list" where
  "walk_status lower queue kind start limit s status =
     (case next_name lower queue kind status (\<lambda>folded. start \<le> folded) s of
        Some row \<Rightarrow> filter (\<lambda>row. starts_with (fst row) start) (walk_names lower queue kind status start (limit - 1) row s)
      | None \<Rightarrow> [])"

definition dashboard_job_names ::
    "(string \<Rightarrow> string) \<Rightarrow> (string \<Rightarrow> nat) \<Rightarrow> job_status list \<Rightarrow> string \<Rightarrow> string \<Rightarrow> nat \<Rightarrow> handle \<Rightarrow> store \<Rightarrow> string list" where
  "dashboard_job_names lower collate statuses kind start limit h s =
     take limit (sort_key (\<lambda>n. (collate (lower n), collate n))
       (remdups (map snd (concat (map (walk_status lower (h_name h) kind (lower start) limit s) statuses)))))"

record job_names_query =
  nq_kind :: "string option"
  nq_prefix :: "string option"
  nq_status :: "string option"

definition list_job_names ::
    "(string \<Rightarrow> string) \<Rightarrow> (string \<Rightarrow> nat) \<Rightarrow> handle list \<Rightarrow> (handle \<Rightarrow> store) \<Rightarrow> string \<Rightarrow> job_names_query
     \<Rightarrow> api_error + string list" where
  "list_job_names lower collate queues db name query =
     and_then (queue_of queues name) (\<lambda>queue.
     and_then (job_kind (nq_kind query)) (\<lambda>kind.
     and_then (filter_statuses (nq_status query)) (\<lambda>statuses.
       (let start = (case nq_prefix query of Some p \<Rightarrow> p | None \<Rightarrow> [])
        in if 255 < length start then Inl (BadRequest ''job name prefix is too long'')
           else if NUL \<in> set start then Inl (BadRequest ''job name prefix must not contain NUL'')
           else Inr (if start = [] then []
                     else dashboard_job_names lower collate statuses kind start JOB_NAME_SUGGESTION_LIMIT queue (db queue))))))"

section \<open>Queue signals\<close>

record queue_signals =
  qs_name :: string
  qs_oldest_ready_at :: "timestamp option"
  qs_next_scheduled_at :: "timestamp option"
  qs_execution :: string
  qs_has_live_workers :: bool
  qs_latest_failure_or_abort_at :: "timestamp option"

definition first_scheduled :: "(job_row \<Rightarrow> bool) \<Rightarrow> store \<Rightarrow> timestamp option" where
  "first_scheduled p s =
     (case select_rows p (\<lambda>j. (j_scheduled_at j, j_id j)) 1 (st_jobs s) of
        j # _ \<Rightarrow> Some (j_scheduled_at j) | [] \<Rightarrow> None)"

text \<open>\<^verbatim>\<open>max(status)\<close> over the active rows is a maximum of texts.\<close>

definition execution_of :: "string list \<Rightarrow> string" where
  "execution_of texts =
     (if texts = [] then ''idle''
      else if Max (set texts) = ''running'' then ''running''
      else if Max (set texts) = ''aborting'' then ''aborting''
      else ''idle'')"

definition latest_completed :: "string \<Rightarrow> job_status \<Rightarrow> store \<Rightarrow> timestamp list" where
  "latest_completed queue status s =
     map (\<lambda>j. the (j_completed_at j))
       (select_rows (\<lambda>j. j_queue j = queue \<and> j_status j = status \<and> j_completed_at j \<noteq> None)
          (\<lambda>j. (- the (j_completed_at j), - int (j_id j))) 1 (st_jobs s))"

definition dashboard_signals :: "timestamp \<Rightarrow> handle \<Rightarrow> store \<Rightarrow> queue_signals" where
  "dashboard_signals now h s =
     (let q = h_name h; terminal = latest_completed q Failed s @ latest_completed q Aborted s
      in \<lparr> qs_name = q,
           qs_oldest_ready_at = first_scheduled (\<lambda>j. j_queue j = q \<and> j_status j = Queued \<and> j_scheduled_at j \<le> now) s,
           qs_next_scheduled_at = first_scheduled (\<lambda>j. j_queue j = q \<and> j_status j = Queued \<and> now < j_scheduled_at j) s,
           qs_execution = execution_of (map (\<lambda>j. status_as_str (j_status j))
             (filter (\<lambda>j. j_queue j = q \<and> j_status j \<in> {Running, Aborting}) (st_jobs s))),
           qs_has_live_workers = list_ex (\<lambda>w. w_queue w = q \<and> now < w_expires_at w) (st_workers s),
           qs_latest_failure_or_abort_at = (if terminal = [] then None else Some (Max (set terminal))) \<rparr>)"

text \<open>\<^verbatim>\<open>HEALTH_PROBE_SQL\<close>: whether the queue has a row; the probe only asks that it answers.\<close>

definition health_probe :: "handle \<Rightarrow> store \<Rightarrow> bool" where
  "health_probe h s = (0 < length (select_rows (\<lambda>j. j_queue j = h_name h) page_key 1 (st_jobs s)))"

section \<open>Actions\<close>

definition retry_job_action ::
    "(json \<Rightarrow> string list) \<Rightarrow> timestamp \<Rightarrow> timestamp \<Rightarrow> uuid \<Rightarrow> handle list \<Rightarrow> (handle \<Rightarrow> store) \<Rightarrow> string \<Rightarrow> uuid \<Rightarrow> headers
     \<Rightarrow> api_error + (uuid option \<times> handle \<times> store)" where
  "retry_job_action chunks now clock new_id queues db name i hs =
     and_then (require_action_header hs) (\<lambda>_.
     and_then (queue_of queues name) (\<lambda>queue.
       (case retry_job_occurrence chunks now clock new_id i ''retried from dashboard'' queue (db queue) of
          (r, h, s) \<Rightarrow> and_then (api_result r) (\<lambda>job_id. Inr (job_id, h, s)))))"

definition abort_job_action ::
    "(json \<Rightarrow> string list) \<Rightarrow> timestamp \<Rightarrow> handle list \<Rightarrow> (handle \<Rightarrow> store) \<Rightarrow> string \<Rightarrow> uuid \<Rightarrow> headers
     \<Rightarrow> api_error + (bool \<times> handle \<times> store)" where
  "abort_job_action chunks now queues db name i hs =
     and_then (require_action_header hs) (\<lambda>_.
     and_then (queue_of queues name) (\<lambda>queue.
       (case abort chunks now i ''aborted from dashboard'' queue (db queue) of
          (r, h, s) \<Rightarrow> and_then (api_result r) (\<lambda>aborted. Inr (aborted, h, s)))))"

section \<open>Per-status scans and their union\<close>

lemma sort_strict:
  assumes "distinct (map k xs)"
  shows "sorted_wrt (<) (map k (sort_key k xs))"
proof -
  have "sorted (map k (sort_key k xs))" by simp
  moreover have "distinct (map k (sort_key k xs))"
    using assms by (simp add: distinct_map)
  ultimately show ?thesis by (simp add: strict_sorted_iff)
qed

lemma strict_keys_unique:
  fixes k :: "'a \<Rightarrow> 'k :: linorder"
  assumes "sorted_wrt (<) (map k xs)" "sorted_wrt (<) (map k ys)" "set xs = set ys"
  shows "xs = ys"
proof -
  have inj: "inj_on k (set xs)"
    using assms(1) by (metis distinct_map strict_sorted_iff)
  have "set (map k ys) = set (map k xs)" using assms(3) by simp
  then have "map k xs = map k ys" using assms(1,2) by (metis strict_sorted_equal)
  then show ?thesis using inj assms(3) by (auto dest: map_inj_on)
qed

text \<open>A row is selected when fewer rows precede it than the limit.\<close>

lemma in_take_strict:
  fixes k :: "'a \<Rightarrow> 'k :: linorder"
  assumes "sorted_wrt (<) (map k ys)"
  shows "x \<in> set (take n ys) \<longleftrightarrow> x \<in> set ys \<and> length (filter (\<lambda>y. k y < k x) ys) < n"
  using assms
proof (induction ys arbitrary: n)
  case (Cons y ys)
  have none: "filter (\<lambda>z. k z < k y) ys = []" using Cons.prems by (fastforce simp: filter_empty_conv)
  show ?case
  proof (cases n)
    case (Suc m)
    show ?thesis
    proof (cases "x = y")
      case True
      then show ?thesis using Suc none by simp
    next
      case False
      have "x \<in> set ys \<Longrightarrow> k y < k x" using Cons.prems by simp
      then show ?thesis using Suc False Cons.IH [of m] Cons.prems by (cases "x \<in> set ys") auto
    qed
  qed simp
qed simp

lemma selected_iff:
  assumes "distinct (map k rows)"
  shows "x \<in> set (select_rows p k n rows) \<longleftrightarrow>
         x \<in> set rows \<and> p x \<and> length (filter (\<lambda>y. p y \<and> k y < k x) rows) < n"
proof -
  have "sorted_wrt (<) (map k (sort_key k (filter p rows)))"
    using assms by (intro sort_strict) (simp add: distinct_map_filter)
  from in_take_strict [OF this, of x n] show ?thesis
    by (auto simp: select_rows_def filter_sort conj_commute)
qed

lemma length_filter_mono: "(\<And>x. p x \<Longrightarrow> q x) \<Longrightarrow> length (filter p xs) \<le> length (filter q xs)"
  by (induction xs) (auto intro: le_SucI)

text \<open>The smallest keys of a table are those of any part that holds them all.\<close>

lemma take_sorted_part:
  assumes dist: "distinct (map k rows)" and sub: "set part \<subseteq> set rows" and dp: "distinct part"
    and cover: "set (take n (sort_key k rows)) \<subseteq> set part"
  shows "take n (sort_key k part) = take n (sort_key k rows)"
proof -
  let ?S = "sort_key k rows"
  have inj: "inj_on k (set rows)" and drows: "distinct rows" using dist by (auto simp: distinct_map)
  have "distinct (map k part)" using inj sub dp by (auto simp: distinct_map intro: inj_on_subset)
  then have "sorted_wrt (<) (map k (sort_key k part))" by (rule sort_strict)
  moreover have "sorted_wrt (<) (map k (filter (\<lambda>x. x \<in> set part) ?S))"
    using sort_strict [OF dist] by (simp add: sorted_wrt_map sorted_wrt_filter)
  ultimately have eq: "sort_key k part = filter (\<lambda>x. x \<in> set part) ?S"
    using sub by (intro strict_keys_unique [of k]) auto
  have "filter (\<lambda>x. x \<in> set part) ?S =
      filter (\<lambda>x. x \<in> set part) (take n ?S) @ filter (\<lambda>x. x \<in> set part) (drop n ?S)"
    by (metis append_take_drop_id filter_append)
  moreover have "filter (\<lambda>x. x \<in> set part) (take n ?S) = take n ?S"
    using cover by (auto simp: filter_id_conv)
  ultimately have "sort_key k part = take n ?S @ filter (\<lambda>x. x \<in> set part) (drop n ?S)"
    using eq by simp
  then show ?thesis
    by (cases "length ?S \<le> n") (simp_all add: min_def)
qed

lemma distinct_concat_tagged:
  assumes "distinct ts" "\<And>t. distinct (f t)" "\<And>t r. r \<in> set (f t) \<Longrightarrow> g r = t"
  shows "distinct (concat (map f ts))"
  using assms(1)
proof (induction ts)
  case (Cons t ts)
  have "set (f t) \<inter> (\<Union>u\<in>set ts. set (f u)) = {}"
    using Cons.prems assms(3) by (metis (no_types, lifting) UN_E disjoint_iff distinct.simps(2))
  then show ?case using Cons assms(2) by simp
qed simp

lemma select_rows_scans:
  assumes dist: "distinct (map k rows)" and tags: "distinct tags"
  shows "take n (sort_key k (concat (map (\<lambda>t. select_rows (\<lambda>r. p r \<and> tag r = t) k n rows) tags))) =
         select_rows (\<lambda>r. p r \<and> tag r \<in> set tags) k n rows"
proof -
  let ?M = "filter (\<lambda>r. p r \<and> tag r \<in> set tags) rows"
  let ?part = "concat (map (\<lambda>t. select_rows (\<lambda>r. p r \<and> tag r = t) k n rows) tags)"
  have dM: "distinct (map k ?M)" using dist by (simp add: distinct_map_filter)
  have sub: "set ?part \<subseteq> set ?M" by (auto dest!: in_select_rows)
  have one: "distinct (select_rows (\<lambda>r. p r \<and> tag r = t) k n rows)" for t
    using distinct_select_rows [OF dist, of "\<lambda>r. p r \<and> tag r = t" k n] by (simp add: distinct_map)
  have tagged: "tag r = t" if "r \<in> set (select_rows (\<lambda>r. p r \<and> tag r = t) k n rows)" for r t
    using in_select_rows [OF that] by simp
  have dpart: "distinct ?part"
    by (rule distinct_concat_tagged [OF tags one tagged])
  have cover: "set (take n (sort_key k ?M)) \<subseteq> set ?part"
  proof
    fix x
    assume "x \<in> set (take n (sort_key k ?M))"
    then have "x \<in> set (select_rows (\<lambda>r. p r \<and> tag r \<in> set tags) k n rows)"
      by (simp add: select_rows_def)
    then have x: "x \<in> set rows" "p x" "tag x \<in> set tags"
        "length (filter (\<lambda>y. (p y \<and> tag y \<in> set tags) \<and> k y < k x) rows) < n"
      by (simp_all add: selected_iff [OF dist])
    have "length (filter (\<lambda>y. (p y \<and> tag y = tag x) \<and> k y < k x) rows) < n"
      using length_filter_mono [of "\<lambda>y. (p y \<and> tag y = tag x) \<and> k y < k x"
          "\<lambda>y. (p y \<and> tag y \<in> set tags) \<and> k y < k x" rows] x by force
    then have "x \<in> set (select_rows (\<lambda>r. p r \<and> tag r = tag x) k n rows)"
      using x by (simp add: selected_iff [OF dist])
    then show "x \<in> set ?part" using x(3) by auto
  qed
  show ?thesis
    using take_sorted_part [OF dM sub dpart cover] by (simp add: select_rows_def)
qed

lemma sort_key_map: "sort_key f (map g xs) = map g (sort_key (\<lambda>x. f (g x)) xs)"
proof -
  have "insort_key f (g x) (map g ys) = map g (insort_key (\<lambda>x. f (g x)) x ys)" for x ys
    by (induction ys) auto
  then show ?thesis by (induction xs) auto
qed

section \<open>A page is the newest rows that match\<close>

definition job_listed :: "handle \<Rightarrow> filtered_jobs_query \<Rightarrow> job_row \<Rightarrow> bool" where
  "job_listed q f j \<longleftrightarrow>
     j_queue j = h_name q \<and> j_kind j = fq_kind f \<and> (case fq_name f of None \<Rightarrow> True | Some n \<Rightarrow> j_name j = n) \<and>
     j_status j \<in> set (fq_statuses f)"

lemma page_key_distinct:
  assumes "jobs_ok rows"
  shows "distinct (map page_key rows)"
proof -
  have "distinct (map j_id rows)" using assms by (simp add: jobs_ok_def)
  then show ?thesis by (auto simp: distinct_map inj_on_def page_key_def)
qed

lemma rows_of_keys:
  assumes ok: "jobs_ok rows" and sub: "set xs \<subseteq> set rows"
  shows "concat (map (\<lambda>k. map g (take 1 (filter (\<lambda>j. j_id j = snd k) rows)))
           (map (\<lambda>j. (j_enqueued_at j, j_id j)) xs)) = map g xs"
  using sub
proof (induction xs)
  case (Cons x xs)
  have "j_id j = j_id x \<longleftrightarrow> j = x" if "j \<in> set rows" for j
    using that Cons.prems jobs_ok_unique_id [OF ok] by auto
  then have "filter (\<lambda>j. j_id j = j_id x) rows = filter (\<lambda>j. j = x) rows" by (rule filter_cong [OF refl])
  moreover have "filter (\<lambda>j. j = x) rows \<noteq> []" using Cons.prems by (auto simp: filter_empty_conv)
  moreover have "\<forall>y \<in> set (take 1 (filter (\<lambda>j. j = x) rows)). y = x"
    by (auto dest: in_set_takeD)
  ultimately have "take 1 (filter (\<lambda>j. j_id j = j_id x) rows) = [x]"
    by (cases "filter (\<lambda>j. j = x) rows") auto
  then show ?case using Cons by simp
qed simp

lemma job_page_of_scans:
  assumes ok: "jobs_ok (st_jobs s)" and d: "distinct statuses"
  shows "job_page_sql (concat (map (\<lambda>t. map (\<lambda>j. (j_enqueued_at j, j_id j))
             (select_rows (\<lambda>j. p j \<and> j_status j = t) page_key n (st_jobs s))) statuses)) n s =
         map job_summary_of (select_rows (\<lambda>j. p j \<and> j_status j \<in> set statuses) page_key n (st_jobs s))"
proof -
  let ?xs = "concat (map (\<lambda>t. select_rows (\<lambda>j. p j \<and> j_status j = t) page_key n (st_jobs s)) statuses)"
  have keys: "concat (map (\<lambda>t. map (\<lambda>j. (j_enqueued_at j, j_id j))
      (select_rows (\<lambda>j. p j \<and> j_status j = t) page_key n (st_jobs s))) statuses) =
      map (\<lambda>j. (j_enqueued_at j, j_id j)) ?xs"
    by (simp add: map_concat comp_def)
  have "take n (sort_key newest_first (map (\<lambda>j. (j_enqueued_at j, j_id j)) ?xs)) =
      map (\<lambda>j. (j_enqueued_at j, j_id j)) (take n (sort_key page_key ?xs))"
    by (simp add: sort_key_map newest_first_def page_key_def [abs_def] take_map)
  also have "take n (sort_key page_key ?xs) =
      select_rows (\<lambda>j. p j \<and> j_status j \<in> set statuses) page_key n (st_jobs s)"
    by (rule select_rows_scans [OF page_key_distinct [OF ok] d])
  finally show ?thesis
    unfolding job_page_sql_def keys
    by (simp only:) (rule rows_of_keys [OF ok], auto dest: in_select_rows)
qed

lemma dashboard_jobs_page_selects:
  assumes "jobs_ok (st_jobs s)" "distinct (fq_statuses f)" "fq_statuses f \<noteq> []" "0 < limit"
  shows "dashboard_jobs_page (fq_statuses f) (fq_kind f) (fq_name f) cursor limit h s =
         Inr (map job_summary_of
           (select_rows (\<lambda>j. job_listed h f j \<and> before_cursor cursor j) page_key (nat limit) (st_jobs s)))"
proof (cases "fq_name f")
  case None
  have "(\<lambda>j. job_listed h f j \<and> before_cursor cursor j) =
      (\<lambda>j. (j_queue j = h_name h \<and> j_kind j = fq_kind f \<and> before_cursor cursor j) \<and> j_status j \<in> set (fq_statuses f))"
    using None by (auto simp: job_listed_def fun_eq_iff)
  then show ?thesis
    using assms None job_page_of_scans [OF assms(1,2),
        of "\<lambda>j. j_queue j = h_name h \<and> j_kind j = fq_kind f \<and> before_cursor cursor j" "nat limit"]
    by (simp add: dashboard_jobs_page_def job_page_keys_def conj_commute conj_left_commute conj_assoc)
next
  case (Some name)
  have "(\<lambda>j. job_listed h f j \<and> before_cursor cursor j) =
      (\<lambda>j. (j_queue j = h_name h \<and> j_kind j = fq_kind f \<and> j_name j = name \<and> before_cursor cursor j) \<and>
        j_status j \<in> set (fq_statuses f))"
    using Some by (auto simp: job_listed_def fun_eq_iff)
  then show ?thesis
    using assms Some job_page_of_scans [OF assms(1,2),
        of "\<lambda>j. j_queue j = h_name h \<and> j_kind j = fq_kind f \<and> j_name j = name \<and> before_cursor cursor j" "nat limit"]
    by (simp add: dashboard_jobs_page_def job_page_keys_by_name_def conj_commute conj_left_commute conj_assoc)
qed

section \<open>Keyset paging\<close>

text \<open>
  A client that follows the cursors: one page from each store in turn, as the store stands when
  the page is asked for. A refused page ends the walk; the flag says whether the last cursor
  came back empty.
\<close>

fun follow :: "('c option \<Rightarrow> 's \<Rightarrow> api_error + ('i list \<times> 'c option)) \<Rightarrow> 'c option \<Rightarrow> 's list
    \<Rightarrow> api_error + ('i list \<times> bool)" where
  "follow page c [] = Inr ([], False)"
| "follow page c (s # ss) =
     and_then (page c s) (\<lambda>(items, following).
       case following of
         None \<Rightarrow> Inr (items, True)
       | Some c' \<Rightarrow> and_then (follow page (Some c') ss) (\<lambda>(others, ended). Inr (items @ others, ended)))"

definition past :: "('c \<Rightarrow> 'c \<Rightarrow> bool) \<Rightarrow> 'c option \<Rightarrow> 'c \<Rightarrow> bool" where
  "past before c k = (case c of None \<Rightarrow> True | Some c' \<Rightarrow> before c' k)"

text \<open>What a listing promises of one page; what a client gets of all of them.\<close>

locale keyset_listing =
  fixes page :: "'c option \<Rightarrow> 's \<Rightarrow> api_error + ('i list \<times> 'c option)"
    and listed :: "'s \<Rightarrow> 'i set"
    and key :: "'i \<Rightarrow> 'c"
    and before :: "'c \<Rightarrow> 'c \<Rightarrow> bool"
    and good :: "'s \<Rightarrow> bool"
    and usable :: "'c option \<Rightarrow> bool"
  assumes before_trans: "before a b \<Longrightarrow> before b d \<Longrightarrow> before a d"
    and before_irrefl: "\<not> before a a"
    and usable_None: "usable None"
    and finite_listed: "good s \<Longrightarrow> finite (listed s)"
    and serves: "good s \<Longrightarrow> usable c \<Longrightarrow> \<exists>items c'. page c s = Inr (items, c')"
    and sound: "good s \<Longrightarrow> usable c \<Longrightarrow> page c s = Inr (items, c') \<Longrightarrow> x \<in> set items \<Longrightarrow>
        x \<in> listed s \<and> past before c (key x)"
    and ordered: "good s \<Longrightarrow> usable c \<Longrightarrow> page c s = Inr (items, c') \<Longrightarrow> sorted_wrt before (map key items)"
    and advances: "good s \<Longrightarrow> usable c \<Longrightarrow> page c s = Inr (items, Some k) \<Longrightarrow>
        usable (Some k) \<and> items \<noteq> [] \<and> k = key (last items)"
    and complete: "good s \<Longrightarrow> usable c \<Longrightarrow> page c s = Inr (items, c') \<Longrightarrow> x \<in> listed s \<Longrightarrow>
        past before c (key x) \<Longrightarrow> x \<in> set items \<or> (\<exists>k. c' = Some k \<and> before k (key x))"
begin

lemma past_later: "past before c k \<Longrightarrow> before k k' \<Longrightarrow> past before c k'"
  by (auto simp: past_def split: option.splits intro: before_trans)

lemma cursor_past:
  assumes "good s" "usable c" "page c s = Inr (items, Some k)"
  shows "past before c k"
  using sound [OF assms(1-3)] advances [OF assms] by auto

lemma page_below_cursor:
  assumes "good s" "usable c" "page c s = Inr (items, Some k)" "x \<in> set items"
  shows "key x = k \<or> before (key x) k"
proof -
  have ne: "items \<noteq> []" and k: "k = key (last items)" using advances [OF assms(1-3)] by auto
  have "sorted_wrt before (map key (butlast items @ [last items]))"
    using ordered [OF assms(1-3)] ne by simp
  then have "\<forall>y \<in> set (butlast items). before (key y) k"
    using k by (simp add: sorted_wrt_append)
  moreover have "x \<in> set (butlast items) \<or> x = last items"
    using assms(4) ne by (metis Un_iff append_butlast_last_id empty_iff insert_iff list.set set_append)
  ultimately show ?thesis using k by auto
qed

lemma follow_serves:
  "\<lbrakk>\<forall>s\<in>set ss. good s; usable c\<rbrakk> \<Longrightarrow> \<exists>items ended. follow page c ss = Inr (items, ended)"
proof (induction ss arbitrary: c)
  case Nil
  then show ?case by auto
next
  case (Cons s ss)
  obtain items c' where p: "page c s = Inr (items, c')" using serves Cons.prems by fastforce
  show ?case
  proof (cases c')
    case (Some k)
    then have "usable (Some k)" using advances Cons.prems p by fastforce
    then show ?thesis using Cons.IH [of "Some k"] Cons.prems p Some by fastforce
  qed (use p in fastforce)
qed

text \<open>One page of a walk: the page and, after a cursor, the walk that follows it.\<close>

lemma follow_step:
  assumes "follow page c (s # ss) = Inr (shown, ended)" "good s" "usable c"
  obtains (final) "page c s = Inr (shown, None)" "ended"
  | (further) items k others where "page c s = Inr (items, Some k)" "usable (Some k)"
      "follow page (Some k) ss = Inr (others, ended)" "shown = items @ others"
proof -
  obtain items c' where p: "page c s = Inr (items, c')" using serves assms(2,3) by blast
  show thesis
  proof (cases c')
    case None
    then show ?thesis using final assms(1) p by simp
  next
    case (Some k)
    have u: "usable (Some k)" using advances assms(2,3) p Some by blast
    show ?thesis
    proof (cases "follow page (Some k) ss")
      case (Inl e)
      then show ?thesis using assms(1) p Some by simp
    next
      case (Inr r)
      then show ?thesis using further [OF p [unfolded Some] u, of "fst r"] assms(1) p Some
        by (cases r) simp
    qed
  qed
qed

lemma follow_sound:
  "\<lbrakk>follow page c ss = Inr (shown, ended); \<forall>s\<in>set ss. good s; usable c; x \<in> set shown\<rbrakk>
   \<Longrightarrow> (\<exists>s\<in>set ss. x \<in> listed s) \<and> past before c (key x)"
proof (induction ss arbitrary: c shown)
  case (Cons s ss)
  have g: "good s" using Cons.prems by simp
  show ?case
  proof (cases rule: follow_step [OF Cons.prems(1) g Cons.prems(3)])
    case 1
    then show ?thesis using sound [OF g Cons.prems(3)] Cons.prems(4) by fastforce
  next
    case (2 items k others)
    show ?thesis
    proof (cases "x \<in> set items")
      case True
      then show ?thesis using sound [OF g Cons.prems(3) 2(1)] by auto
    next
      case False
      then have "(\<exists>s\<in>set ss. x \<in> listed s) \<and> past before (Some k) (key x)"
        using Cons.IH [OF 2(3) _ 2(2)] Cons.prems(2,4) 2(4) by auto
      then show ?thesis
        using past_later [OF cursor_past [OF g Cons.prems(3) 2(1)]] by (auto simp: past_def)
    qed
  qed
qed simp

lemma follow_ordered:
  "\<lbrakk>follow page c ss = Inr (shown, ended); \<forall>s\<in>set ss. good s; usable c\<rbrakk>
   \<Longrightarrow> sorted_wrt before (map key shown)"
proof (induction ss arbitrary: c shown)
  case (Cons s ss)
  have g: "good s" using Cons.prems by simp
  show ?case
  proof (cases rule: follow_step [OF Cons.prems(1) g Cons.prems(3)])
    case 1
    then show ?thesis using ordered [OF g Cons.prems(3)] by simp
  next
    case (2 items k others)
    have "before k (key y)" if "y \<in> set others" for y
      using follow_sound [OF 2(3) _ 2(2) that] Cons.prems(2) by (simp add: past_def)
    moreover have "key x = k \<or> before (key x) k" if "x \<in> set items" for x
      by (rule page_below_cursor [OF g Cons.prems(3) 2(1) that])
    ultimately have "\<forall>x\<in>set items. \<forall>y\<in>set others. before (key x) (key y)"
      using before_trans by metis
    then show ?thesis
      using ordered [OF g Cons.prems(3) 2(1)] Cons.IH [OF 2(3) _ 2(2)] Cons.prems(2) 2(4)
      by (simp add: sorted_wrt_append)
  qed
qed simp

text \<open>Whatever is listed under a key at every page of a finished walk was shown.\<close>

lemma follow_complete:
  "\<lbrakk>follow page c ss = Inr (shown, True); \<forall>s\<in>set ss. good s; usable c; past before c k;
    \<forall>s\<in>set ss. \<exists>x\<in>listed s. key x = k\<rbrakk> \<Longrightarrow> \<exists>x\<in>set shown. key x = k"
proof (induction ss arbitrary: c shown)
  case (Cons s ss)
  have g: "good s" using Cons.prems by simp
  obtain x where x: "x \<in> listed s" "key x = k" using Cons.prems(5) by auto
  show ?case
  proof (cases rule: follow_step [OF Cons.prems(1) g Cons.prems(3)])
    case 1
    then show ?thesis using complete [OF g Cons.prems(3) 1(1) x(1)] x(2) Cons.prems(4) by auto
  next
    case (2 items k' others)
    show ?thesis
    proof (cases "x \<in> set items")
      case False
      then have "past before (Some k') k"
        using complete [OF g Cons.prems(3) 2(1) x(1)] x(2) Cons.prems(4) by (auto simp: past_def)
      then show ?thesis using Cons.IH [OF 2(3) _ 2(2)] Cons.prems(2,5) 2(4) by auto
    qed (use x 2(4) in auto)
  qed
qed simp

text \<open>Over a store that stands still every page moves past some of it, so the walk ends.\<close>

lemma follow_ends:
  "\<lbrakk>good s; usable c; card {x \<in> listed s. past before c (key x)} < n\<rbrakk>
   \<Longrightarrow> \<exists>shown. follow page c (replicate n s) = Inr (shown, True)"
proof (induction n arbitrary: c)
  case (Suc n)
  obtain items c' where p: "page c s = Inr (items, c')" using serves Suc.prems by blast
  show ?case
  proof (cases c')
    case (Some k)
    have u: "usable (Some k)" and ne: "items \<noteq> []" and k: "k = key (last items)"
      using advances Suc.prems p Some by blast+
    let ?A = "\<lambda>c. {x \<in> listed s. past before c (key x)}"
    have "last items \<in> ?A c" using sound [OF Suc.prems(1,2) p] ne by simp
    moreover have "last items \<notin> ?A (Some k)" using before_irrefl k by (simp add: past_def)
    moreover have "?A (Some k) \<subseteq> ?A c"
      using past_later [OF cursor_past [OF Suc.prems(1,2)]] p Some by (auto simp: past_def)
    ultimately have "card (?A (Some k)) < card (?A c)"
      using finite_listed [OF Suc.prems(1)] by (intro psubset_card_mono) auto
    then obtain others where "follow page (Some k) (replicate n s) = Inr (others, True)"
      using Suc.IH [OF Suc.prems(1) u] Suc.prems(3) by auto
    then show ?thesis using p Some by simp
  qed (simp add: p)
qed simp

end

section \<open>The job listing is a keyset listing\<close>

definition jobs_at :: "handle list \<Rightarrow> string \<Rightarrow> jobs_query \<Rightarrow> (timestamp \<times> uuid) option \<Rightarrow> (handle \<Rightarrow> store)
    \<Rightarrow> api_error + (job_summary list \<times> (timestamp \<times> uuid) option)" where
  "jobs_at queues name query c db =
     list_jobs queues db name
       (query\<lparr> jq_cursor_enqueued_at := map_option fst c, jq_cursor_id := map_option snd c \<rparr>)"

definition first_page :: "jobs_query \<Rightarrow> jobs_query" where
  "first_page query = query\<lparr> jq_cursor_enqueued_at := None, jq_cursor_id := None \<rparr>"

definition summary_key :: "job_summary \<Rightarrow> timestamp \<times> uuid" where
  "summary_key x = (su_enqueued_at x, su_id x)"

definition jobs_listed :: "handle list \<Rightarrow> string \<Rightarrow> jobs_query \<Rightarrow> (handle \<Rightarrow> store) \<Rightarrow> job_summary set" where
  "jobs_listed queues name query db =
     (case (queue_of queues name, jobs_query_filter (first_page query)) of
        (Inr q, Inr f) \<Rightarrow> job_summary_of ` {j \<in> set (st_jobs (db q)). job_listed q f j}
      | _ \<Rightarrow> {})"

definition usable_cursor :: "(timestamp \<times> uuid) option \<Rightarrow> bool" where
  "usable_cursor c = (case c of None \<Rightarrow> True | Some k \<Rightarrow> MIN_TIMESTAMPTZ \<le> fst k)"

text \<open>The queue is served, the query is well formed and the times are ones the server stores.\<close>

definition jobs_served :: "handle list \<Rightarrow> string \<Rightarrow> jobs_query \<Rightarrow> (handle \<Rightarrow> store) \<Rightarrow> bool" where
  "jobs_served queues name query db =
     (case (queue_of queues name, jobs_query_filter (first_page query)) of
        (Inr q, Inr f) \<Rightarrow> jobs_ok (st_jobs (db q)) \<and> list_all (\<lambda>j. MIN_TIMESTAMPTZ \<le> j_enqueued_at j) (st_jobs (db q))
      | _ \<Rightarrow> False)"

lemma next_cursor_page:
  assumes page: "next_cursor (map g (select_rows P k (Suc n) rows)) (int n) cur = (items, c')"
    and n: "0 < n" and dist: "distinct (map k rows)"
  shows "items = map g (select_rows P k n rows)"
    and "c' = Some \<kappa> \<Longrightarrow> items \<noteq> [] \<and> \<kappa> = cur (last items)"
    and "x \<in> set rows \<Longrightarrow> P x \<Longrightarrow> x \<notin> set (select_rows P k n rows) \<Longrightarrow>
         c' \<noteq> None \<and> k (last (select_rows P k n rows)) < k x"
proof -
  let ?S = "sort_key k (filter P rows)"
  have sel: "select_rows P k m rows = take m ?S" for m by (simp add: select_rows_def)
  have strict: "sorted_wrt (<) (map k ?S)"
    using dist by (intro sort_strict) (simp add: distinct_map_filter)
  show items: "items = map g (select_rows P k n rows)"
    using page by (auto simp: next_cursor_def sel map_butlast [symmetric] butlast_take split: if_splits)
  show "items \<noteq> [] \<and> \<kappa> = cur (last items)" if "c' = Some \<kappa>"
    using page that by (auto simp: next_cursor_def split: if_splits)
  assume x: "x \<in> set rows" "P x" "x \<notin> set (select_rows P k n rows)"
  have split: "?S = take n ?S @ drop n ?S" by simp
  have "x \<in> set ?S" using x(1,2) by simp
  then have xd: "x \<in> set (drop n ?S)"
    using x(3) unfolding sel by (metis Un_iff append_take_drop_id set_append)
  then have len: "n < length ?S" by (cases "n < length ?S") auto
  have "sorted_wrt (<) (map k (take n ?S) @ map k (drop n ?S))"
    using strict by (metis append_take_drop_id map_append)
  moreover have "last (take n ?S) \<in> set (take n ?S)" using n xd by (intro last_in_set) (cases ?S; simp)
  ultimately have "k (last (take n ?S)) < k x" using xd by (auto simp: sorted_wrt_append)
  moreover have "c' \<noteq> None"
  proof -
    have "?S \<noteq> []" using xd by (cases ?S) auto
    then have "items \<noteq> []" using items n by (simp add: sel)
    moreover have "\<not> length (take (Suc n) ?S) \<le> n" using len by simp
    ultimately show ?thesis using page by (auto simp: next_cursor_def sel split: if_splits)
  qed
  ultimately show "c' \<noteq> None \<and> k (last (select_rows P k n rows)) < k x" by (simp add: sel)
qed

lemma add_statuses_distinct:
  "add_statuses acc vs = Inr sts \<Longrightarrow> distinct acc \<Longrightarrow> distinct sts"
  by (induction acc vs rule: add_statuses.induct) (auto split: sum.splits if_splits)

lemma filter_statuses_distinct:
  "filter_statuses v = Inr sts \<Longrightarrow> distinct sts \<and> sts \<noteq> []"
  by (auto simp: filter_statuses_def ALL_STATUSES_def split: option.splits if_splits dest: add_statuses_distinct)

lemma jobs_query_filter_ok:
  assumes "jobs_query_filter q = Inr f"
  shows "distinct (fq_statuses f)" "fq_statuses f \<noteq> []" "1 \<le> fq_limit f"
  using assms filter_statuses_distinct
  by (auto simp: jobs_query_filter_def Let_def page_limit_def MAX_PAGE_SIZE_def split: if_splits)

lemma jobs_query_filter_cursor:
  assumes "jobs_query_filter (first_page q) = Inr f" "usable_cursor c"
  shows "jobs_query_filter (q\<lparr> jq_cursor_enqueued_at := map_option fst c, jq_cursor_id := map_option snd c \<rparr>) =
         Inr (f\<lparr> fq_cursor := c \<rparr>)"
  using assms
  by (cases c)
     (auto simp: jobs_query_filter_def first_page_def cursor_pair_def usable_cursor_def Let_def
           split: if_splits option.splits)

lemma jobs_served_cases:
  assumes "jobs_served queues name query db"
  obtains q f where "queue_of queues name = Inr q" "jobs_query_filter (first_page query) = Inr f"
    "jobs_ok (st_jobs (db q))" "\<forall>j\<in>set (st_jobs (db q)). MIN_TIMESTAMPTZ \<le> j_enqueued_at j"
    "jobs_listed queues name query db = job_summary_of ` {j \<in> set (st_jobs (db q)). job_listed q f j}"
  using assms
  by (auto simp: jobs_served_def jobs_listed_def list_all_iff split: sum.splits)

lemma job_listed_cursor [simp]: "job_listed q (f\<lparr> fq_cursor := c \<rparr>) = job_listed q f"
  by (simp add: job_listed_def fun_eq_iff)

lemma jobs_at_page:
  assumes "queue_of queues name = Inr q" "jobs_query_filter (first_page query) = Inr f"
    "jobs_ok (st_jobs (db q))" "usable_cursor c"
  shows "jobs_at queues name query c db = Inr (next_cursor
           (map job_summary_of (select_rows (\<lambda>j. job_listed q f j \<and> before_cursor c j) page_key
             (Suc (nat (fq_limit f))) (st_jobs (db q))))
           (int (nat (fq_limit f))) summary_key)"
proof -
  let ?f = "f\<lparr> fq_cursor := c \<rparr>"
  have ok: "distinct (fq_statuses ?f)" "fq_statuses ?f \<noteq> []" "0 < fq_limit f + 1" "1 \<le> fq_limit f"
    using jobs_query_filter_ok [OF assms(2)] by simp_all
  have n: "nat (fq_limit f + 1) = Suc (nat (fq_limit f))" using ok by linarith
  have "dashboard_jobs_page (fq_statuses ?f) (fq_kind ?f) (fq_name ?f) c (fq_limit f + 1) q (db q) =
      Inr (map job_summary_of (select_rows (\<lambda>j. job_listed q ?f j \<and> before_cursor c j) page_key
        (nat (fq_limit f + 1)) (st_jobs (db q))))"
    by (rule dashboard_jobs_page_selects [OF assms(3) ok(1,2,3)])
  then show ?thesis
    using assms(1) ok(4) jobs_query_filter_cursor [OF assms(2,4)]
    by (simp add: jobs_at_def list_jobs_def api_result_def n summary_key_def [abs_def])
qed

lemma summary_key_of [simp]: "summary_key (job_summary_of j) = (j_enqueued_at j, j_id j)"
  by (simp add: summary_key_def job_summary_of_def)

lemma page_key_less: "page_key a < page_key b \<longleftrightarrow> (j_enqueued_at b, j_id b) < (j_enqueued_at a, j_id a)"
  by (auto simp: page_key_def less_prod_def less_eq_prod_def)

lemma before_cursor_past: "before_cursor c j \<longleftrightarrow> past (\<lambda>a b. b < a) c (j_enqueued_at j, j_id j)"
  by (simp add: before_cursor_def past_def split: option.splits)

text \<open>Every promise of a page, at once, for rows with a key that orders them as the listing does.\<close>

lemma keyset_page_laws:
  assumes page: "next_cursor (map g (select_rows (\<lambda>r. L r \<and> past before c (key (g r))) k (Suc n) rows)) (int n) key
      = (items, c')"
    and n: "0 < n" and dist: "distinct (map k rows)"
    and order: "\<And>a b. k a < k b \<longleftrightarrow> before (key (g a)) (key (g b))"
  shows "x \<in> set items \<Longrightarrow> x \<in> g ` {r \<in> set rows. L r} \<and> past before c (key x)"
    and "sorted_wrt before (map key items)"
    and "c' = Some \<kappa> \<Longrightarrow> items \<noteq> [] \<and> \<kappa> = key (last items)"
    and "x \<in> g ` {r \<in> set rows. L r} \<Longrightarrow> past before c (key x) \<Longrightarrow>
         x \<in> set items \<or> (\<exists>\<kappa>. c' = Some \<kappa> \<and> before \<kappa> (key x))"
proof -
  let ?P = "\<lambda>r. L r \<and> past before c (key (g r))"
  let ?sel = "select_rows ?P k n rows"
  note np = next_cursor_page [OF page n dist]
  have items: "items = map g ?sel" by (rule np(1))
  show "x \<in> g ` {r \<in> set rows. L r} \<and> past before c (key x)" if xi: "x \<in> set items"
  proof -
    obtain r where r: "x = g r" "r \<in> set ?sel" using xi unfolding items by auto
    then have "r \<in> set rows \<and> ?P r" using in_select_rows by fast
    then show ?thesis using r(1) by simp
  qed
  have "sorted_wrt (<) (map k ?sel)"
    using sort_strict [of k "filter ?P rows"] dist
    by (simp add: select_rows_def distinct_map_filter take_map [symmetric] sorted_wrt_take)
  then show "sorted_wrt before (map key items)"
    unfolding items by (simp add: sorted_wrt_map order comp_def)
  show "items \<noteq> [] \<and> \<kappa> = key (last items)" if "c' = Some \<kappa>"
    by (rule np(2) [OF that])
  assume x: "x \<in> g ` {r \<in> set rows. L r}" "past before c (key x)"
  then obtain r where r: "x = g r" "r \<in> set rows" "?P r" by auto
  show "x \<in> set items \<or> (\<exists>\<kappa>. c' = Some \<kappa> \<and> before \<kappa> (key x))"
  proof (cases "r \<in> set ?sel")
    case False
    then obtain \<kappa> where \<kappa>: "c' = Some \<kappa>" "k (last ?sel) < k r"
      using np(3) [OF r(2,3)] by auto
    then have "items \<noteq> [] \<and> \<kappa> = key (last items)" by (intro np(2))
    then have "\<kappa> = key (g (last ?sel))" unfolding items by (simp add: last_map)
    then show ?thesis using \<kappa> r(1) by (simp add: order)
  qed (use r(1) items in auto)
qed

lemma jobs_at_laws:
  assumes served: "jobs_served queues name query db" and c: "usable_cursor c"
    and page: "jobs_at queues name query c db = Inr (items, c')"
  shows "x \<in> set items \<Longrightarrow> x \<in> jobs_listed queues name query db \<and> past (\<lambda>a b. b < a) c (summary_key x)"
    and "sorted_wrt (\<lambda>a b. b < a) (map summary_key items)"
    and "c' = Some \<kappa> \<Longrightarrow> usable_cursor (Some \<kappa>) \<and> items \<noteq> [] \<and> \<kappa> = summary_key (last items)"
    and "x \<in> jobs_listed queues name query db \<Longrightarrow> past (\<lambda>a b. b < a) c (summary_key x) \<Longrightarrow>
         x \<in> set items \<or> (\<exists>k. c' = Some k \<and> summary_key x < k)"
proof -
  obtain q f where qf: "queue_of queues name = Inr q" "jobs_query_filter (first_page query) = Inr f"
      "jobs_ok (st_jobs (db q))" "\<forall>j\<in>set (st_jobs (db q)). MIN_TIMESTAMPTZ \<le> j_enqueued_at j"
      "jobs_listed queues name query db = job_summary_of ` {j \<in> set (st_jobs (db q)). job_listed q f j}"
    using jobs_served_cases [OF served] by blast
  have n: "0 < nat (fq_limit f)" using jobs_query_filter_ok(3) [OF qf(2)] by simp
  have nc: "next_cursor (map job_summary_of (select_rows
        (\<lambda>j. job_listed q f j \<and> past (\<lambda>a b. b < a) c (summary_key (job_summary_of j))) page_key
        (Suc (nat (fq_limit f))) (st_jobs (db q)))) (int (nat (fq_limit f))) summary_key = (items, c')"
    using page jobs_at_page [where queues = queues and name = name and q = q and query = query and f = f
        and db = db and c = c] qf(1-3) c
    by (simp add: before_cursor_past)
  have order: "page_key a < page_key b \<longleftrightarrow> summary_key (job_summary_of b) < summary_key (job_summary_of a)" for a b
    by (simp add: page_key_less)
  note laws = keyset_page_laws [OF nc n page_key_distinct [OF qf(3)] order, folded qf(5)]
  show "x \<in> set items \<Longrightarrow> x \<in> jobs_listed queues name query db \<and> past (\<lambda>a b. b < a) c (summary_key x)"
    by (rule laws(1))
  show "sorted_wrt (\<lambda>a b. b < a) (map summary_key items)" by (rule laws(2))
  show "usable_cursor (Some \<kappa>) \<and> items \<noteq> [] \<and> \<kappa> = summary_key (last items)" if "c' = Some \<kappa>"
  proof -
    have last: "items \<noteq> [] \<and> \<kappa> = summary_key (last items)" by (rule laws(3) [OF that])
    then have "last items \<in> jobs_listed queues name query db" using laws(1) by simp
    then show ?thesis using last qf(4,5) by (auto simp: usable_cursor_def)
  qed
  show "x \<in> jobs_listed queues name query db \<Longrightarrow> past (\<lambda>a b. b < a) c (summary_key x) \<Longrightarrow>
      x \<in> set items \<or> (\<exists>k. c' = Some k \<and> summary_key x < k)"
    by (rule laws(4))
qed

interpretation job_listing: keyset_listing "jobs_at queues name query" "jobs_listed queues name query" summary_key
    "\<lambda>a b. b < a" "jobs_served queues name query" usable_cursor for queues name query
proof (unfold_locales, goal_cases)
  case (4 db)
  then show ?case by (auto elim!: jobs_served_cases)
next
  case (5 db c)
  then show ?case by (elim jobs_served_cases) (auto simp: jobs_at_page intro: prod.exhaust)
next
  case (6 db c items c' x)
  then show ?case by (intro jobs_at_laws(1))
next
  case (7 db c items c')
  then show ?case by (intro jobs_at_laws(2))
next
  case (8 db c items k)
  then show ?case by (intro jobs_at_laws(3)) auto
next
  case (9 db c items c' x)
  then show ?case by (intro jobs_at_laws(4))
qed (auto simp: usable_cursor_def)

section \<open>The worker listing is one too\<close>

definition workers_at ::
    "(json \<Rightarrow> string) \<Rightarrow> (string \<Rightarrow> json option) \<Rightarrow> handle list \<Rightarrow> string \<Rightarrow> workers_query \<Rightarrow> (timestamp \<times> uuid) option
     \<Rightarrow> timestamp \<times> (handle \<Rightarrow> store) \<Rightarrow> api_error + (dashboard_worker_row list \<times> (timestamp \<times> uuid) option)" where
  "workers_at jsonb_text from_str queues name query c s =
     list_workers jsonb_text from_str (fst s) queues (snd s) name
       (query\<lparr> wq_cursor_started_at := map_option fst c, wq_cursor_id := map_option snd c \<rparr>)"

definition worker_row_key :: "dashboard_worker_row \<Rightarrow> timestamp \<times> uuid" where
  "worker_row_key x = (w_started_at (dw_worker x), w_id (dw_worker x))"

definition workers_listed ::
    "(json \<Rightarrow> string) \<Rightarrow> (string \<Rightarrow> json option) \<Rightarrow> handle list \<Rightarrow> string \<Rightarrow> timestamp \<times> (handle \<Rightarrow> store)
     \<Rightarrow> dashboard_worker_row set" where
  "workers_listed jsonb_text from_str queues name s =
     (case queue_of queues name of
        Inr q \<Rightarrow> dashboard_worker_row_of jsonb_text from_str `
          {w \<in> set (st_workers (snd s q)). w_queue w = h_name q \<and> fst s < w_expires_at w}
      | Inl _ \<Rightarrow> {})"

definition workers_served :: "handle list \<Rightarrow> string \<Rightarrow> timestamp \<times> (handle \<Rightarrow> store) \<Rightarrow> bool" where
  "workers_served queues name s =
     (case queue_of queues name of
        Inr q \<Rightarrow> workers_ok (st_workers (snd s q)) \<and> list_all (\<lambda>w. MIN_TIMESTAMPTZ \<le> w_started_at w) (st_workers (snd s q))
      | Inl _ \<Rightarrow> False)"

lemma worker_row_of:
  "w_started_at (dw_worker (dashboard_worker_row_of jsonb_text from_str w)) = w_started_at w"
  "w_id (dw_worker (dashboard_worker_row_of jsonb_text from_str w)) = w_id w"
  by (simp_all add: dashboard_worker_row_of_def Let_def)

lemma worker_row_key_of [simp]:
  "worker_row_key (dashboard_worker_row_of jsonb_text from_str w) = (w_started_at w, w_id w)"
  by (simp add: worker_row_key_def dashboard_worker_row_of_def Let_def)

lemma page_limit_positive: "1 \<le> page_limit l"
  by (simp add: page_limit_def MAX_PAGE_SIZE_def)

lemma workers_at_page:
  assumes "queue_of queues name = Inr q" "usable_cursor c"
  shows "workers_at jsonb_text from_str queues name query c s = Inr (next_cursor
           (map (dashboard_worker_row_of jsonb_text from_str)
             (select_rows (\<lambda>w. (w_queue w = h_name q \<and> fst s < w_expires_at w) \<and>
                 past (<) c (worker_row_key (dashboard_worker_row_of jsonb_text from_str w)))
               (\<lambda>w. (w_started_at w, w_id w)) (Suc (nat (page_limit (wq_limit query)))) (st_workers (snd s q))))
           (int (nat (page_limit (wq_limit query)))) worker_row_key)"
proof -
  have l: "1 \<le> page_limit (wq_limit query)" by (rule page_limit_positive)
  then have n: "nat (page_limit (wq_limit query) + 1) = Suc (nat (page_limit (wq_limit query)))" by linarith
  have "cursor_pair (map_option fst c) (map_option snd c) = Inr c"
    using assms(2) by (cases c) (auto simp: cursor_pair_def usable_cursor_def)
  then show ?thesis
    using assms l n
    by (simp add: workers_at_def list_workers_def Let_def api_result_def dashboard_workers_page_def past_def
        worker_row_key_def [abs_def] conj_assoc worker_row_of)
qed

lemma workers_at_laws:
  assumes served: "workers_served queues name s" and c: "usable_cursor c"
    and page: "workers_at jsonb_text from_str queues name query c s = Inr (items, c')"
  shows "x \<in> set items \<Longrightarrow> x \<in> workers_listed jsonb_text from_str queues name s \<and> past (<) c (worker_row_key x)"
    and "sorted_wrt (<) (map worker_row_key items)"
    and "c' = Some \<kappa> \<Longrightarrow> usable_cursor (Some \<kappa>) \<and> items \<noteq> [] \<and> \<kappa> = worker_row_key (last items)"
    and "x \<in> workers_listed jsonb_text from_str queues name s \<Longrightarrow> past (<) c (worker_row_key x) \<Longrightarrow>
         x \<in> set items \<or> (\<exists>k. c' = Some k \<and> k < worker_row_key x)"
proof -
  obtain q where q: "queue_of queues name = Inr q" and ok: "workers_ok (st_workers (snd s q))"
      and times: "\<forall>w\<in>set (st_workers (snd s q)). MIN_TIMESTAMPTZ \<le> w_started_at w"
    using served by (auto simp: workers_served_def list_all_iff split: sum.splits)
  have listed: "workers_listed jsonb_text from_str queues name s = dashboard_worker_row_of jsonb_text from_str `
      {w \<in> set (st_workers (snd s q)). w_queue w = h_name q \<and> fst s < w_expires_at w}"
    using q by (simp add: workers_listed_def)
  have n: "0 < nat (page_limit (wq_limit query))" using page_limit_positive [of "wq_limit query"] by linarith
  have dist: "distinct (map (\<lambda>w. (w_started_at w, w_id w)) (st_workers (snd s q)))"
    using ok by (auto simp: workers_ok_def distinct_map inj_on_def)
  have order: "(w_started_at a, w_id a) < (w_started_at b, w_id b) \<longleftrightarrow>
      worker_row_key (dashboard_worker_row_of jsonb_text from_str a) <
      worker_row_key (dashboard_worker_row_of jsonb_text from_str b)" for a b
    by simp
  have nc: "next_cursor (map (dashboard_worker_row_of jsonb_text from_str)
             (select_rows (\<lambda>w. (w_queue w = h_name q \<and> fst s < w_expires_at w) \<and>
                 past (<) c (worker_row_key (dashboard_worker_row_of jsonb_text from_str w)))
               (\<lambda>w. (w_started_at w, w_id w)) (Suc (nat (page_limit (wq_limit query)))) (st_workers (snd s q))))
           (int (nat (page_limit (wq_limit query)))) worker_row_key = (items, c')"
    using page unfolding workers_at_page [OF q c] by (rule Inr_inject)
  note laws = keyset_page_laws [OF nc n dist order, folded listed]
  show "x \<in> set items \<Longrightarrow> x \<in> workers_listed jsonb_text from_str queues name s \<and> past (<) c (worker_row_key x)"
    by (rule laws(1))
  show "sorted_wrt (<) (map worker_row_key items)" by (rule laws(2))
  show "usable_cursor (Some \<kappa>) \<and> items \<noteq> [] \<and> \<kappa> = worker_row_key (last items)" if "c' = Some \<kappa>"
  proof -
    have last: "items \<noteq> [] \<and> \<kappa> = worker_row_key (last items)" by (rule laws(3) [OF that])
    then have "last items \<in> workers_listed jsonb_text from_str queues name s" using laws(1) by simp
    then show ?thesis using last times listed by (auto simp: usable_cursor_def)
  qed
  show "x \<in> workers_listed jsonb_text from_str queues name s \<Longrightarrow> past (<) c (worker_row_key x) \<Longrightarrow>
      x \<in> set items \<or> (\<exists>k. c' = Some k \<and> k < worker_row_key x)"
    by (rule laws(4))
qed

interpretation worker_listing: keyset_listing "workers_at jsonb_text from_str queues name query"
    "workers_listed jsonb_text from_str queues name" worker_row_key "(<)" "workers_served queues name" usable_cursor
  for jsonb_text from_str queues name query
proof (unfold_locales, goal_cases)
  case (4 s)
  then show ?case by (auto simp: workers_listed_def split: sum.splits)
next
  case (5 s c)
  then obtain q where "queue_of queues name = Inr q" by (auto simp: workers_served_def split: sum.splits)
  then show ?case using 5(2) by (simp add: workers_at_page)
next
  case (6 s c items c' x)
  then show ?case by (intro workers_at_laws(1))
next
  case (7 s c items c')
  then show ?case by (intro workers_at_laws(2))
next
  case (8 s c items k)
  then show ?case by (intro workers_at_laws(3)) auto
next
  case (9 s c items c' x)
  then show ?case by (intro workers_at_laws(4))
qed (auto simp: usable_cursor_def)

text \<open>
  C29: following the cursors of the job listing shows the newest jobs first, none of them twice and
  none that is not listed, whatever the workers do to the store between two pages; a walk that
  comes to its end has shown every job that was listed throughout, and over a store that stands
  still it does come to its end. No page of it is refused.
\<close>

theorem paging_misses_nothing:
  assumes "\<forall>db\<in>set dbs. jobs_served queues name query db"
  shows "\<exists>shown ended. follow (jobs_at queues name query) None dbs = Inr (shown, ended) \<and>
    sorted_wrt (\<lambda>a b. b < a) (map summary_key shown) \<and>
    (\<forall>x\<in>set shown. \<exists>db\<in>set dbs. x \<in> jobs_listed queues name query db) \<and>
    (ended \<longrightarrow> (\<forall>k. (\<forall>db\<in>set dbs. k \<in> summary_key ` jobs_listed queues name query db)
                 \<longrightarrow> k \<in> summary_key ` set shown)) \<and>
    (\<forall>db. dbs = replicate (length dbs) db \<and> card (jobs_listed queues name query db) < length dbs \<longrightarrow> ended)"
proof -
  have first: "usable_cursor None" by (simp add: usable_cursor_def)
  obtain shown ended where walk: "follow (jobs_at queues name query) None dbs = Inr (shown, ended)"
    using job_listing.follow_serves [OF assms first] by blast
  have "k \<in> summary_key ` set shown"
    if "ended" "\<forall>db\<in>set dbs. k \<in> summary_key ` jobs_listed queues name query db" for k
  proof -
    have "\<exists>x\<in>set shown. summary_key x = k"
      using walk that by (intro job_listing.follow_complete [OF _ assms first])
        (auto simp: past_def image_iff Bex_def eq_commute)
    then show ?thesis by blast
  qed
  moreover have ended if "dbs = replicate (length dbs) db" "card (jobs_listed queues name query db) < length dbs" for db
  proof -
    have "db \<in> set dbs" using that by (metis in_set_replicate less_nat_zero_code)
    then show ?thesis
      using job_listing.follow_ends [of queues name query db None "length dbs"] assms that first walk
      by (auto simp: past_def)
  qed
  ultimately show ?thesis
    using walk job_listing.follow_ordered [OF walk assms first] job_listing.follow_sound [OF walk assms first]
    by blast
qed

definition sample_jobs_query :: jobs_query where
  "sample_jobs_query = \<lparr> jq_status = None, jq_name = None, jq_kind = None, jq_limit = Some 1,
     jq_cursor_enqueued_at = None, jq_cursor_id = None \<rparr>"

definition sample_db :: "handle \<Rightarrow> store" where
  "sample_db _ = empty_store\<lparr> st_jobs := [sample_row, sample_row\<lparr> j_id := 8, j_dedupe_key := None \<rparr>] \<rparr>"

theorem paging_misses_nothing_witness:
  "\<exists>shown. follow (jobs_at [sample_handle] (h_name sample_handle) sample_jobs_query) None (replicate 3 sample_db) =
     Inr (shown, True) \<and> summary_key ` set shown = {(1000, 7), (1000, 8)}"
proof -
  let ?page = "jobs_at [sample_handle] (h_name sample_handle) sample_jobs_query"
  have q: "queue_of [sample_handle] (h_name sample_handle) = Inr sample_handle" by (simp add: queue_of_def)
  have f: "jobs_query_filter (first_page sample_jobs_query) = Inr \<lparr> fq_statuses = ALL_STATUSES, fq_name = None,
      fq_kind = ''job'', fq_limit = 1, fq_cursor = None \<rparr>"
    by (simp add: jobs_query_filter_def first_page_def sample_jobs_query_def filter_statuses_def job_kind_def
        cursor_pair_def page_limit_def MAX_PAGE_SIZE_def)
  have row: "j_id sample_row = 7" "j_dedupe_key sample_row = Some ''k''" "j_enqueued_at sample_row = 1000"
      "j_queue sample_row = h_name sample_handle" "j_kind sample_row = ''job''" "j_status sample_row = Queued"
    by (simp_all add: sample_row_def new_job_row_def sample_request_def sample_handle_def)
  have ok: "row_ok sample_row" "row_ok (sample_row\<lparr> j_id := 8, j_dedupe_key := None \<rparr>)"
    using sample_row_ok(1) by (simp_all add: row_ok_def attempts_ok_def)
  have served: "\<forall>db\<in>set (replicate 3 sample_db). jobs_served [sample_handle] (h_name sample_handle) sample_jobs_query db"
    using ok row q f by (simp add: jobs_served_def jobs_ok_def sample_db_def live_keys_def live_key_def
        List.map_filter_def MIN_TIMESTAMPTZ_def)
  have listed: "jobs_listed [sample_handle] (h_name sample_handle) sample_jobs_query sample_db =
      {job_summary_of sample_row, job_summary_of (sample_row\<lparr> j_id := 8, j_dedupe_key := None \<rparr>)}"
    using row q f by (auto simp: jobs_listed_def sample_db_def job_listed_def ALL_STATUSES_def)
  have card: "card {job_summary_of sample_row, job_summary_of (sample_row\<lparr> j_id := 8, j_dedupe_key := None \<rparr>)} < 3"
    by (simp add: card_insert_if)
  obtain shown ended where w: "follow ?page None (replicate 3 sample_db) = Inr (shown, ended)"
      "sorted_wrt (\<lambda>a b. b < a) (map summary_key shown)"
      "\<forall>x\<in>set shown. \<exists>db\<in>set (replicate 3 sample_db). x \<in> jobs_listed [sample_handle] (h_name sample_handle) sample_jobs_query db"
      "ended \<longrightarrow> (\<forall>k. (\<forall>db\<in>set (replicate 3 sample_db). k \<in> summary_key ` jobs_listed [sample_handle] (h_name sample_handle) sample_jobs_query db)
                 \<longrightarrow> k \<in> summary_key ` set shown)"
      ended
    using paging_misses_nothing [OF served] listed card by auto
  have "summary_key ` set shown = {(1000, 7), (1000, 8)}"
    using w(3,4,5) listed row by auto
  then show ?thesis using w(1,5) by auto
qed

section \<open>The loose scan finds every name of the prefix\<close>

lemma starts_with_between:
  "starts_with c p \<Longrightarrow> p \<le> b \<Longrightarrow> b \<le> c \<Longrightarrow> starts_with b p"
proof (induction p arbitrary: b c)
  case (Cons x p)
  obtain c' where c: "c = x # c'" "starts_with c' p"
    using Cons.prems(1) by (cases c) (auto simp: starts_with_def)
  obtain y b' where b: "b = y # b'" using Cons.prems(2) by (cases b) auto
  have "y = x" "p \<le> b'" "b' \<le> c'" using Cons.prems(2,3) b c by auto
  then show ?case using Cons.IH [of c' b'] b c by (simp add: starts_with_def)
qed (simp add: starts_with_def)

text \<open>The walk over the ordered names themselves.\<close>

fun walk_list :: "('n \<Rightarrow> bool) \<Rightarrow> nat \<Rightarrow> 'n list \<Rightarrow> 'n list" where
  "walk_list within steps [] = []"
| "walk_list within 0 (y # ys) = [y]"
| "walk_list within (Suc steps) (y # ys) = y # (if within y then walk_list within steps ys else [])"

lemma walk_list_within: "filter within (walk_list within steps ys) = take (Suc steps) (takeWhile within ys)"
  by (induction within steps ys rule: walk_list.induct) auto

definition folded_names :: "(string \<Rightarrow> string) \<Rightarrow> string \<Rightarrow> string \<Rightarrow> job_status \<Rightarrow> store \<Rightarrow> string list" where
  "folded_names lower queue kind status s =
     sorted_list_of_set ((\<lambda>j. lower (j_name j)) `
       {j \<in> set (st_jobs s). j_queue j = queue \<and> j_kind j = kind \<and> j_status j = status})"

lemma set_folded_names:
  "set (folded_names lower queue kind status s) = (\<lambda>j. lower (j_name j)) `
     {j \<in> set (st_jobs s). j_queue j = queue \<and> j_kind j = kind \<and> j_status j = status}"
  by (simp add: folded_names_def)

lemma folded_names_strict: "sorted_wrt (<) (folded_names lower queue kind status s)"
  by (simp add: folded_names_def)

lemma next_name_hd:
  "map_option fst (next_name lower queue kind status bound s) =
     (case filter bound (folded_names lower queue kind status s) of [] \<Rightarrow> None | y # _ \<Rightarrow> Some y)"
proof -
  let ?P = "\<lambda>j. j_queue j = queue \<and> j_kind j = kind \<and> j_status j = status \<and> bound (lower (j_name j))"
  let ?k = "\<lambda>j. lower (j_name j)"
  let ?N = "folded_names lower queue kind status s"
  have in_bound: "y \<in> set (filter bound ?N) \<longleftrightarrow> (\<exists>j\<in>set (st_jobs s). ?P j \<and> y = ?k j)" for y
    by (auto simp: set_folded_names)
  show ?thesis
  proof (cases "select_rows ?P ?k 1 (st_jobs s)")
    case Nil
    then have "filter ?P (st_jobs s) = []"
      using length_select_rows [of ?P ?k 1 "st_jobs s"] by (simp add: min_def split: if_splits)
    then have "filter bound ?N = []" using in_bound by (auto simp: filter_empty_conv set_folded_names)
    then show ?thesis using Nil by (simp add: next_name_def)
  next
    case (Cons j js)
    have js: "js = []" using Cons length_select_rows [of ?P ?k 1 "st_jobs s"] by (cases js) auto
    have j: "j \<in> set (st_jobs s)" "?P j" using in_select_rows [of j ?P ?k 1 "st_jobs s"] Cons by auto
    have least: "?k j \<le> ?k i" if "i \<in> set (st_jobs s)" "?P i" for i
      using select_rows_minimal [of j ?P ?k 1 "st_jobs s" i] that Cons js by (cases "i = j") auto
    have "?k j \<in> set (filter bound ?N)" using in_bound j by blast
    then obtain y ys where y: "filter bound ?N = y # ys" by (cases "filter bound ?N") auto
    have "sorted_wrt (<) (y # ys)" using folded_names_strict sorted_wrt_filter y by metis
    then have "y \<le> ?k j" using y \<open>?k j \<in> set (filter bound ?N)\<close> by (auto simp: less_imp_le)
    moreover have "?k j \<le> y" using in_bound [of y] least y by auto
    ultimately show ?thesis using Cons y by (simp add: next_name_def)
  qed
qed

lemma filter_from_member:
  fixes x :: "'n :: linorder"
  assumes "sorted_wrt (<) ns" "x \<in> set ns"
  shows "filter (\<lambda>n. x \<le> n) ns = x # filter (\<lambda>n. x < n) ns"
  using assms
proof (induction ns)
  case (Cons n ns)
  show ?case
  proof (cases "x = n")
    case True
    then have "filter (\<lambda>n. x \<le> n) ns = filter (\<lambda>n. x < n) ns"
      using Cons.prems(1) by (intro filter_cong) (auto simp: le_less)
    then show ?thesis using True by simp
  next
    case False
    then have "x \<in> set ns" "n < x" using Cons.prems by auto
    then show ?thesis using Cons.IH Cons.prems(1) by (simp add: not_le not_less_iff_gr_or_eq)
  qed
qed simp

lemma filter_from_next:
  fixes x :: "'n :: linorder"
  assumes "sorted_wrt (<) ns" "filter (\<lambda>n. x < n) ns = y # ys"
  shows "filter (\<lambda>n. y \<le> n) ns = filter (\<lambda>n. x < n) ns" "y \<in> set ns"
proof -
  have strict: "sorted_wrt (<) (y # ys)" using assms sorted_wrt_filter by metis
  have y: "x < y \<and> y \<in> set ns" using assms(2) filter_eq_ConsD by fastforce
  then show "y \<in> set ns" ..
  have "y \<le> n \<longleftrightarrow> x < n" if "n \<in> set ns" for n
  proof
    assume "x < n"
    then have "n \<in> set (y # ys)" using that unfolding assms(2) [symmetric] by simp
    then show "y \<le> n" using strict by auto
  qed (use y in auto)
  then show "filter (\<lambda>n. y \<le> n) ns = filter (\<lambda>n. x < n) ns" by (intro filter_cong) simp_all
qed

lemma walk_names_list:
  "fst row \<in> set (folded_names lower queue kind status s) \<Longrightarrow>
   map fst (walk_names lower queue kind status start steps row s) =
   walk_list (\<lambda>n. starts_with n start) steps (filter (\<lambda>n. fst row \<le> n) (folded_names lower queue kind status s))"
proof (induction steps arbitrary: row)
  case 0
  then show ?case by (simp add: filter_from_member [OF folded_names_strict])
next
  case (Suc steps)
  let ?N = "folded_names lower queue kind status s"
  let ?next = "next_name lower queue kind status (\<lambda>folded. fst row < folded) s"
  have cons: "filter (\<lambda>n. fst row \<le> n) ?N = fst row # filter (\<lambda>n. fst row < n) ?N"
    by (rule filter_from_member [OF folded_names_strict Suc.prems])
  have hd: "map_option fst ?next = (case filter (\<lambda>n. fst row < n) ?N of [] \<Rightarrow> None | y # _ \<Rightarrow> Some y)"
    by (rule next_name_hd)
  show ?case
  proof (cases "filter (\<lambda>n. fst row < n) ?N")
    case Nil
    then show ?thesis using hd by (simp add: cons)
  next
    case (Cons y ys)
    then obtain row' where row': "?next = Some row'" "fst row' = y" using hd by auto
    have "filter (\<lambda>n. fst row' \<le> n) ?N = filter (\<lambda>n. fst row < n) ?N" "fst row' \<in> set ?N"
      using filter_from_next [OF folded_names_strict Cons] row'(2) by simp_all
    then show ?thesis using Suc.IH [of row'] row'(1) by (simp add: cons)
  qed
qed

lemma starts_with_le: "starts_with n start \<Longrightarrow> start \<le> n"
proof (induction start arbitrary: n)
  case (Cons x start)
  then show ?case by (cases n) (auto simp: starts_with_def)
qed simp

lemma takeWhile_starts_with:
  "sorted_wrt (<) ns \<Longrightarrow> \<forall>n\<in>set ns. start \<le> n \<Longrightarrow>
   takeWhile (\<lambda>n. starts_with n start) ns = filter (\<lambda>n. starts_with n start) ns"
proof (induction ns)
  case (Cons n ns)
  show ?case
  proof (cases "starts_with n start")
    case False
    have "\<not> starts_with m start" if "m \<in> set ns" for m
      using starts_with_between [of m start n] False Cons.prems that by (auto simp: less_imp_le)
    then show ?thesis using False by (simp add: filter_empty_conv)
  qed (use Cons in simp)
qed simp

definition named_by :: "(string \<Rightarrow> string) \<Rightarrow> string \<Rightarrow> string \<Rightarrow> job_status \<Rightarrow> store \<Rightarrow> string \<times> string \<Rightarrow> bool" where
  "named_by lower queue kind status s row \<longleftrightarrow>
     (\<exists>j\<in>set (st_jobs s). j_queue j = queue \<and> j_kind j = kind \<and> j_status j = status \<and> row = (lower (j_name j), j_name j))"

lemma next_name_row:
  assumes "next_name lower queue kind status bound s = Some row"
  shows "named_by lower queue kind status s row"
proof -
  let ?sel = "select_rows (\<lambda>j. j_queue j = queue \<and> j_kind j = kind \<and> j_status j = status \<and> bound (lower (j_name j)))
      (\<lambda>j. lower (j_name j)) 1 (st_jobs s)"
  obtain j js where j: "?sel = j # js" "row = (lower (j_name j), j_name j)"
    using assms by (auto simp: next_name_def split: list.splits)
  then have "j \<in> set ?sel" by simp
  from in_select_rows [OF this] show ?thesis using j(2) by (auto simp: named_by_def)
qed

lemma walk_names_rows:
  "r \<in> set (walk_names lower queue kind status start steps row s) \<Longrightarrow>
   named_by lower queue kind status s row \<Longrightarrow> named_by lower queue kind status s r"
proof (induction steps arbitrary: row)
  case (Suc steps)
  show ?case
  proof (cases "r = row")
    case False
    have "r \<in> set (if starts_with (fst row) start then
        (case next_name lower queue kind status (\<lambda>folded. fst row < folded) s of
           Some row' \<Rightarrow> walk_names lower queue kind status start steps row' s | None \<Rightarrow> []) else [])"
      using False Suc.prems(1) by (simp only: walk_names.simps list.set insert_iff simp_thms)
    then obtain row' where "next_name lower queue kind status (\<lambda>folded. fst row < folded) s = Some row'"
        "r \<in> set (walk_names lower queue kind status start steps row' s)"
      by (cases "starts_with (fst row) start";
          cases "next_name lower queue kind status (\<lambda>folded. fst row < folded) s") auto
    then show ?thesis using Suc.IH next_name_row by blast
  next
    case True
    then show ?thesis using Suc.prems(2) by blast
  qed
qed simp

text \<open>
  C30: the typeahead's loose scan, which asks for one name after another and stops at the first past
  the prefix, returns what sorting every name of the status would: its first folded names that start
  with the prefix, in order and without repetition, each with the name of a job that has it.
\<close>

theorem typeahead_skips_nothing:
  assumes "0 < limit"
  shows "map fst (walk_status lower queue kind start limit s status) =
           take limit (filter (\<lambda>n. starts_with n start) (folded_names lower queue kind status s)) \<and>
         (\<forall>row\<in>set (walk_status lower queue kind start limit s status). named_by lower queue kind status s row)"
proof -
  let ?N = "folded_names lower queue kind status s"
  let ?sw = "\<lambda>n. starts_with n start"
  let ?seed = "next_name lower queue kind status (\<lambda>folded. start \<le> folded) s"
  have hd: "map_option fst ?seed = (case filter (\<lambda>n. start \<le> n) ?N of [] \<Rightarrow> None | y # _ \<Rightarrow> Some y)"
    by (rule next_name_hd)
  have from_start: "filter ?sw ?N = filter ?sw (filter (\<lambda>n. start \<le> n) ?N)"
    using starts_with_le by (auto intro: filter_cong)
  show ?thesis
  proof (cases ?seed)
    case None
    then have "filter (\<lambda>n. start \<le> n) ?N = []" using hd by (simp split: list.splits)
    then show ?thesis using None from_start by (simp add: walk_status_def)
  next
    case (Some row)
    then obtain ys where ys: "filter (\<lambda>n. start \<le> n) ?N = fst row # ys" using hd by (auto split: list.splits)
    have strict: "sorted_wrt (<) (fst row # ys)" using folded_names_strict sorted_wrt_filter ys by metis
    have row: "fst row \<in> set ?N" "start \<le> fst row" using ys by (auto dest: filter_eq_ConsD)
    have rest: "filter (\<lambda>n. fst row \<le> n) ?N = filter (\<lambda>n. start \<le> n) ?N"
    proof (rule filter_cong [OF refl])
      fix n
      assume "n \<in> set ?N"
      then have "start \<le> n \<Longrightarrow> n \<in> set (fst row # ys)" unfolding ys [symmetric] by simp
      then show "fst row \<le> n \<longleftrightarrow> start \<le> n"
        using strict row(2) order_less_imp_le [of "fst row" n] by fastforce
    qed
    have "map fst (walk_status lower queue kind start limit s status) =
        filter ?sw (map fst (walk_names lower queue kind status start (limit - 1) row s))"
      using Some by (simp add: walk_status_def filter_map comp_def)
    also have "\<dots> = take limit (takeWhile ?sw (filter (\<lambda>n. start \<le> n) ?N))"
      using assms by (simp add: walk_names_list [OF row(1)] rest walk_list_within)
    also have "\<dots> = take limit (filter ?sw ?N)"
      unfolding from_start using sorted_wrt_filter [OF folded_names_strict]
      by (subst takeWhile_starts_with) auto
    finally show ?thesis
      using Some walk_names_rows [OF _ next_name_row [OF Some]] by (auto simp: walk_status_def)
  qed
qed

theorem typeahead_skips_nothing_witness:
  "map fst (walk_status id ''default'' ''job'' ''se'' 20 (sample_db sample_handle) Queued) = [''send'']"
proof -
  have n: "j_name sample_row = ''send''"
    by (simp add: sample_row_def new_job_row_def sample_request_def job_request_new_def)
  have "{j \<in> set (st_jobs (sample_db sample_handle)). j_queue j = ''default'' \<and> j_kind j = ''job'' \<and> j_status j = Queued} =
      {sample_row, sample_row\<lparr> j_id := 8, j_dedupe_key := None \<rparr>}"
    by (auto simp: sample_db_def sample_row_def new_job_row_def sample_request_def)
  then have "folded_names id ''default'' ''job'' Queued (sample_db sample_handle) = [''send'']"
    using n by (simp add: folded_names_def)
  then show ?thesis
    using typeahead_skips_nothing [of 20 id "''default''" "''job''" "''se''" "sample_db sample_handle" Queued]
    by (simp add: starts_with_def)
qed

section \<open>Bodies are bounded\<close>

lemma char_count_simps [simp]:
  "char_count [] = 0"
  "char_count (c # cs) = (if is_continuation_byte c then char_count cs else Suc (char_count cs))"
  by (simp_all add: char_count_def)

lemma char_count_prefix: "char_count (char_prefix n s) = min n (char_count s)"
  by (induction n s rule: char_prefix.induct) (auto split: nat.splits)

lemma char_prefix_all: "char_count s \<le> n \<Longrightarrow> char_prefix n s = s"
  by (induction n s rule: char_prefix.induct) (auto split: nat.splits if_splits)

lemma char_prefix_twice: "m \<le> n \<Longrightarrow> char_prefix m (char_prefix n s) = char_prefix m s"
proof (induction s arbitrary: m n)
  case (Cons c s)
  then show ?case by (cases m; cases n) auto
qed simp

text \<open>
  The detail query sends one character more than a page shows: enough to tell a text that was cut
  from one that was not, and not to change what is shown.
\<close>

theorem detail_text_exact:
  "detail_text s = (char_prefix MAX_BODY_CHARS s, MAX_BODY_CHARS < char_count s) \<and>
   char_count (fst (detail_text s)) \<le> MAX_BODY_CHARS"
proof (cases "MAX_BODY_CHARS < char_count s")
  case True
  then show ?thesis
    by (simp add: detail_text_def job_text_def char_count_prefix char_prefix_twice)
next
  case False
  then show ?thesis
    by (simp add: detail_text_def job_text_def char_count_prefix char_prefix_all)
qed

end
